(* ===== verification/Prelude.thy ===== *)
theory Prelude
  imports Main "HOL-Library.Word" "HOL-Library.Monad_Syntax"
begin

text \<open>
  The vocabulary every component of the development shares: machine integers at their C
  width, little-endian memory, bounded reads and writes, the C allocator, the world a call
  runs in, and a weakest-precondition calculus for computations that may fault.

  A C function is a HOL function into an \<open>option\<close> type: \<^term>\<open>None\<close> is a
  \<^emph>\<open>fault\<close> (a failed \<^verbatim>\<open>assert\<close>, a null dereference, an access outside
  an allocated object, a read of an uninitialised variable), \<^term>\<open>Some r\<close> is a normal
  return. The error codes the library itself returns are ordinary values.

  The target is the usual LP64 little-endian one: \<^verbatim>\<open>size_t\<close>,
  \<^verbatim>\<open>ssize_t\<close> and \<^verbatim>\<open>off_t\<close> have 64 bits, \<^verbatim>\<open>int\<close> has
  32 bits, plain \<^verbatim>\<open>char\<close> is signed.
\<close>

unbundle bit_operations_syntax

section \<open>Machine integers and bytes\<close>

type_synonym byte = "8 word"
type_synonym u16 = "16 word"
type_synonym u32 = "32 word"
type_synonym u64 = "64 word"
type_synonym cstring = "byte list" \<comment> \<open>the characters of a C string, without its NUL\<close>

named_theorems wp_rules \<open>weakest-precondition rules of the operations\<close>
named_theorems layout \<open>sizes and offsets of the wire structures\<close>
named_theorems dsm_consts \<open>the numeric constants of the headers\<close>

text \<open>The bytes of an integer in memory, least significant first, and back.\<close>

primrec le_bytes :: "nat \<Rightarrow> 'a::len word \<Rightarrow> byte list" where
  "le_bytes 0 w = []"
| "le_bytes (Suc n) w = ucast w # le_bytes n (drop_bit 8 w)"

primrec le_word :: "byte list \<Rightarrow> 'a::len word" where
  "le_word [] = 0"
| "le_word (b # bs) = ucast b OR push_bit 8 (le_word bs)"

lemma length_le_bytes [simp]: "length (le_bytes n w) = n"
  by (induction n arbitrary: w) auto

lemma le_bytes_numeral:
  "le_bytes 2 w = [ucast w, ucast (drop_bit 8 w)]"
  "le_bytes 4 w = [ucast w, ucast (drop_bit 8 w), ucast (drop_bit 16 w), ucast (drop_bit 24 w)]"
  "le_bytes 8 w = [ucast w, ucast (drop_bit 8 w), ucast (drop_bit 16 w), ucast (drop_bit 24 w),
     ucast (drop_bit 32 w), ucast (drop_bit 40 w), ucast (drop_bit 48 w), ucast (drop_bit 56 w)]"
  by (simp_all add: numeral_eq_Suc)

lemma le_word_le_bytes_take: "le_word (le_bytes n w) = take_bit (8 * n) (w :: 'a::len word)"
proof (induction n arbitrary: w)
  case 0
  show ?case by simp
next
  case (Suc n)
  show ?case
    by (rule bit_word_eqI)
      (auto simp: Suc bit_or_iff bit_push_bit_iff bit_ucast_iff bit_take_bit_iff bit_drop_bit_eq)
qed

lemma le_word_le_bytes: "LENGTH('a) \<le> 8 * n \<Longrightarrow> le_word (le_bytes n w) = (w :: 'a::len word)"
  by (simp add: le_word_le_bytes_take take_bit_word_eq_self)

lemma bit_le_word:
  "bit (le_word bs :: 'a::len word) i \<longleftrightarrow>
     i < LENGTH('a) \<and> i div 8 < length bs \<and> bit (bs ! (i div 8)) (i mod 8)"
proof (induction bs arbitrary: i)
  case Nil
  show ?case by simp
next
  case (Cons b bs)
  show ?case
  proof (cases "i < 8")
    case True
    then show ?thesis
      by (auto simp: bit_or_iff bit_push_bit_iff bit_ucast_iff)
  next
    case False
    moreover from False have "i div 8 = Suc ((i - 8) div 8)" "i mod 8 = (i - 8) mod 8"
      by (simp_all add: le_div_geq le_mod_geq)
    ultimately show ?thesis
      using Cons.IH [of "i - 8"]
      by (auto simp: bit_or_iff bit_push_bit_iff bit_ucast_iff dest: bit_imp_le_length)
  qed
qed

lemma le_bytes_nth:
  "i < n \<Longrightarrow> le_bytes n w ! i = ucast (drop_bit (8 * i) (w :: 'a::len word))"
proof (induction n arbitrary: w i)
  case 0
  then show ?case by simp
next
  case (Suc n)
  then show ?case by (cases i) (simp_all add: drop_bit_drop_bit add.commute)
qed

lemma le_bytes_le_word:
  assumes "8 * length bs \<le> LENGTH('a)"
  shows "le_bytes (length bs) (le_word bs :: 'a::len word) = bs"
proof (rule nth_equalityI)
  show "length (le_bytes (length bs) (le_word bs :: 'a word)) = length bs" by simp
  fix i assume "i < length (le_bytes (length bs) (le_word bs :: 'a word))"
  then have i: "i < length bs" by simp
  have "ucast (drop_bit (8 * i) (le_word bs :: 'a word)) = bs ! i"
    using i assms
    by (intro bit_word_eqI) (auto simp: bit_ucast_iff bit_drop_bit_eq bit_le_word)
  then show "le_bytes (length bs) (le_word bs :: 'a word) ! i = bs ! i"
    using i by (simp add: le_bytes_nth)
qed

text \<open>\<^verbatim>\<open>htons\<close> and \<^verbatim>\<open>ntohs\<close> of a little-endian host swap the two bytes.\<close>

definition htons :: "u16 \<Rightarrow> u16" where
  "htons x = push_bit 8 x OR drop_bit 8 x"

definition ntohs :: "u16 \<Rightarrow> u16" where
  "ntohs x = push_bit 8 x OR drop_bit 8 x"

lemma ntohs_htons [simp]: "ntohs (htons x) = x"
  by (rule bit_word_eqI)
    (auto simp: htons_def ntohs_def bit_or_iff bit_push_bit_iff bit_drop_bit_eq
      dest: bit_imp_le_length)

lemma htons_ntohs [simp]: "htons (ntohs x) = x"
  using ntohs_htons [of x] by (simp add: htons_def ntohs_def)

section \<open>Bounded memory accesses\<close>

text \<open>
  An allocated object is the list of its bytes. A read or write outside it is a fault.
\<close>

definition buf_read :: "byte list \<Rightarrow> nat \<Rightarrow> nat \<Rightarrow> byte list option" where
  "buf_read buf off n = (if off + n \<le> length buf then Some (take n (drop off buf)) else None)"

definition buf_write :: "byte list \<Rightarrow> nat \<Rightarrow> byte list \<Rightarrow> byte list option" where
  "buf_write buf off bs =
     (if off + length bs \<le> length buf
      then Some (take off buf @ bs @ drop (off + length bs) buf) else None)"

definition rd8 :: "byte list \<Rightarrow> nat \<Rightarrow> byte option" where
  "rd8 buf off = (if off < length buf then Some (buf ! off) else None)"

definition rd_le :: "nat \<Rightarrow> byte list \<Rightarrow> nat \<Rightarrow> 'a::len word option" where
  "rd_le n buf off = map_option le_word (buf_read buf off n)"

abbreviation rd16 :: "byte list \<Rightarrow> nat \<Rightarrow> u16 option" where "rd16 \<equiv> rd_le 2"
abbreviation rd32 :: "byte list \<Rightarrow> nat \<Rightarrow> u32 option" where "rd32 \<equiv> rd_le 4"
abbreviation rd64 :: "byte list \<Rightarrow> nat \<Rightarrow> u64 option" where "rd64 \<equiv> rd_le 8"

lemma buf_read_Some_iff: "buf_read buf off n = Some bs \<longleftrightarrow> off + n \<le> length buf \<and> bs = take n (drop off buf)"
  by (auto simp: buf_read_def)

lemma buf_write_Some_iff:
  "buf_write buf off bs = Some buf' \<longleftrightarrow>
     off + length bs \<le> length buf \<and> buf' = take off buf @ bs @ drop (off + length bs) buf"
  by (auto simp: buf_write_def)

lemma buf_write_length: "buf_write buf off bs = Some buf' \<Longrightarrow> length buf' = length buf"
  by (auto simp: buf_write_Some_iff)

lemma buf_write_nth:
  assumes "buf_write buf off bs = Some buf'" and "i < length buf"
  shows "buf' ! i = (if off \<le> i \<and> i < off + length bs then bs ! (i - off) else buf ! i)"
  using assms by (auto simp: buf_write_Some_iff nth_append min_def)

lemma buf_read_write_same:
  "buf_write buf off bs = Some buf' \<Longrightarrow> buf_read buf' off (length bs) = Some bs"
  by (auto simp: buf_write_Some_iff buf_read_def)

lemma buf_read_write_other:
  assumes "buf_write buf off bs = Some buf'" and "off' + n \<le> off \<or> off + length bs \<le> off'"
  shows "buf_read buf' off' n = buf_read buf off' n"
proof (cases "off' + n \<le> length buf")
  case True
  note len = buf_write_length [OF assms(1)]
  have "take n (drop off' buf') = take n (drop off' buf)"
  proof (rule nth_equalityI)
    show "length (take n (drop off' buf')) = length (take n (drop off' buf))"
      using len by simp
    fix i assume "i < length (take n (drop off' buf'))"
    then have i: "i < n" "off' + i < length buf" using len by auto
    with assms(2) have "\<not> (off \<le> off' + i \<and> off' + i < off + length bs)" by linarith
    then show "take n (drop off' buf') ! i = take n (drop off' buf) ! i"
      using buf_write_nth [OF assms(1) i(2)] i len by auto
  qed
  with len show ?thesis by (simp add: buf_read_def)
next
  case False
  with buf_write_length [OF assms(1)] show ?thesis by (simp add: buf_read_def)
qed

lemma rd_le_Some_iff: "rd_le n buf off = Some v \<longleftrightarrow> off + n \<le> length buf \<and> v = le_word (take n (drop off buf))"
  by (auto simp: rd_le_def buf_read_Some_iff)

lemma rd_le_eq: "off + n \<le> length buf \<Longrightarrow> rd_le n buf off = Some (le_word (take n (drop off buf)))"
  by (simp add: rd_le_Some_iff)

lemma rd8_eq: "off < length buf \<Longrightarrow> rd8 buf off = Some (buf ! off)"
  by (simp add: rd8_def)

text \<open>\<^verbatim>\<open>strlen\<close> of a string in an object: a fault when the object holds no NUL.\<close>

fun c_strlen :: "byte list \<Rightarrow> nat option" where
  "c_strlen [] = None"
| "c_strlen (c # s) = (if c = 0 then Some 0 else map_option Suc (c_strlen s))"

lemma c_strlen_append: "0 \<notin> set s \<Longrightarrow> c_strlen (s @ 0 # t) = Some (length s)"
  by (induction s) auto

lemma c_strlen_bound: "c_strlen s = Some n \<Longrightarrow> n < length s \<and> 0 \<notin> set (take n s) \<and> s ! n = 0"
  by (induction s arbitrary: n) (auto split: if_splits)

section \<open>The world a call runs in\<close>

text \<open>
  What a call depends on besides its arguments:
  \<^item> the outcomes of the coming allocations of memory, of a pipe, of a datagram socket or of a
    thread (\<open>w_alloc\<close>, success once the list is used up) and the contents of uninitialised memory (\<open>w_junk\<close>);
  \<^item> the process id, the random numbers the system hands out, the clock;
  \<^item> the character-set converter (\<open>w_iconv_open\<close>, \<open>w_iconv\<close>) and the locale's charset;
  \<^item> what the TCP socket does at each wait of the library (\<open>w_conn\<close>, \<open>w_tx\<close>, \<open>w_rx\<close>)
    and the log of the frames sent (\<open>w_sent\<close>);
  \<^item> the same for the name-service UDP socket (\<open>w_udp_tx\<close>, \<open>w_udp_rx\<close>, \<open>w_udp_sent\<close>);
  \<^item> the network interfaces, as \<^verbatim>\<open>getifaddrs\<close> lists them (\<open>w_ifaddrs\<close>, \<^term>\<open>None\<close> when
    that fails): flags, the family of the address (\<^term>\<open>None\<close> for a null pointer) and the
    broadcast address, if any.
  An event list is the script of the environment; where it is used up no socket opens, a
  write succeeds, a read finds the peer has closed, and a datagram wait times out.
\<close>

datatype iconv_result = Iconv_ok "byte list" | Iconv_E2BIG | Iconv_err

datatype conn_event =
    Conn_ok nat \<comment> \<open>a connected socket\<close>
  | Conn_nosocket
  | Conn_fail nat
  | Conn_abort nat

datatype tx_event = Tx_ok | Tx_select_error | Tx_abort | Tx_idle | Tx_short nat

datatype rx_event = Rx_data "byte list" | Rx_select_error | Rx_abort | Rx_idle | Rx_error

datatype utx_event = Utx_ok | Utx_select_error | Utx_abort | Utx_idle | Utx_error

datatype udp_event =
    Udp_data u32 "byte list" \<comment> \<open>a datagram and its source address\<close>
  | Udp_select_error | Udp_abort | Udp_timeout | Udp_error

record ifaddrs =
  ifa_flags :: u32
  ifa_family :: "int option"
  ifa_broadaddr :: "u32 option"

record world =
  w_alloc :: "bool list"
  w_junk :: "nat \<Rightarrow> byte"
  w_pid :: u32
  w_rand :: "u64 list"
  w_time :: "int list"
  w_charset :: string
  w_iconv_open :: "string \<Rightarrow> string \<Rightarrow> bool"
  w_iconv :: "string \<Rightarrow> string \<Rightarrow> byte list \<Rightarrow> nat \<Rightarrow> iconv_result"
  w_conn :: "conn_event list"
  w_tx :: "tx_event list"
  w_rx :: "rx_event list"
  w_sent :: "byte list list"
  w_udp_tx :: "utx_event list"
  w_udp_rx :: "udp_event list"
  w_udp_sent :: "(u32 \<times> byte list) list"
  w_ifaddrs :: "ifaddrs list option"

section \<open>The allocator\<close>

text \<open>
  An allocation may fail at any call, and always fails for more than
  \<^verbatim>\<open>PTRDIFF_MAX\<close> bytes. Fresh memory is uninitialised (\<^verbatim>\<open>malloc\<close>,
  the tail of \<^verbatim>\<open>realloc\<close>) or zero (\<^verbatim>\<open>calloc\<close>).
\<close>

definition alloc_ok :: "world \<Rightarrow> u64 \<Rightarrow> bool" where
  "alloc_ok w n \<longleftrightarrow> unat n < 2 ^ 63 \<and> (case w_alloc w of [] \<Rightarrow> True | b # _ \<Rightarrow> b)"

definition alloc_tick :: "world \<Rightarrow> world" where
  "alloc_tick w = w\<lparr>w_alloc := tl (w_alloc w)\<rparr>"

definition c_malloc :: "world \<Rightarrow> u64 \<Rightarrow> byte list option \<times> world" where
  "c_malloc w n =
     ((if alloc_ok w n then Some (map (w_junk w) [0..<unat n]) else None), alloc_tick w)"

definition c_calloc :: "world \<Rightarrow> u64 \<Rightarrow> byte list option \<times> world" where
  "c_calloc w n = ((if alloc_ok w n then Some (replicate (unat n) 0) else None), alloc_tick w)"

definition c_realloc :: "world \<Rightarrow> byte list option \<Rightarrow> u64 \<Rightarrow> byte list option \<times> world" where
  "c_realloc w old n =
     ((if alloc_ok w n
       then Some (let keep = take (unat n) (case old of None \<Rightarrow> [] | Some p \<Rightarrow> p)
                  in keep @ map (w_junk w) [length keep..<unat n])
       else None), alloc_tick w)"

definition mem_ok :: "world \<Rightarrow> bool" where
  "mem_ok w \<longleftrightarrow> list_all (\<lambda>b. b) (w_alloc w)"

text \<open>Worlds that differ at most in the allocations still to come.\<close>

definition same_io :: "world \<Rightarrow> world \<Rightarrow> bool" where
  "same_io w w' \<longleftrightarrow> w'\<lparr>w_alloc := w_alloc w\<rparr> = w"

lemma same_io_refl [simp, intro]: "same_io w w"
  by (simp add: same_io_def)

lemma same_io_fields:
  assumes "same_io w w'"
  shows "w_junk w' = w_junk w" "w_pid w' = w_pid w" "w_rand w' = w_rand w" "w_time w' = w_time w"
    "w_charset w' = w_charset w" "w_iconv_open w' = w_iconv_open w" "w_iconv w' = w_iconv w"
    "w_conn w' = w_conn w" "w_tx w' = w_tx w" "w_rx w' = w_rx w" "w_sent w' = w_sent w"
    "w_udp_tx w' = w_udp_tx w" "w_udp_rx w' = w_udp_rx w" "w_udp_sent w' = w_udp_sent w"
    "w_ifaddrs w' = w_ifaddrs w"
  using assms by (cases w; cases w'; simp add: same_io_def)+

lemma same_io_trans: "same_io w w' \<Longrightarrow> same_io w' w'' \<Longrightarrow> same_io w w''"
  by (cases w; cases w'; cases w'') (simp add: same_io_def)

lemma same_io_tick [simp]: "same_io w (alloc_tick w)"
  by (simp add: same_io_def alloc_tick_def)

lemma alloc_tick_fields [simp]:
  "w_junk (alloc_tick w) = w_junk w" "w_pid (alloc_tick w) = w_pid w"
  "w_rx (alloc_tick w) = w_rx w" "w_sent (alloc_tick w) = w_sent w"
  by (simp_all add: alloc_tick_def)

lemma mem_ok_tick [simp]: "mem_ok w \<Longrightarrow> mem_ok (alloc_tick w)"
  by (cases "w_alloc w") (auto simp: mem_ok_def alloc_tick_def)

lemma mem_ok_alloc: "mem_ok w \<Longrightarrow> unat n < 2 ^ 63 \<Longrightarrow> alloc_ok w n"
  by (auto simp: mem_ok_def alloc_ok_def split: list.splits)

text \<open>A system call that may fail.\<close>

definition sys_ok :: "world \<Rightarrow> bool \<times> world" where
  "sys_ok w = (alloc_ok w 0, alloc_tick w)"

lemma sys_ok_mem [simp]: "mem_ok w \<Longrightarrow> sys_ok w = (True, alloc_tick w)"
  by (simp add: sys_ok_def mem_ok_alloc)

section \<open>Computations that may fault\<close>

text \<open>
  \<open>wp c Q\<close>: the computation \<open>c\<close> returns normally, with a result that satisfies \<open>Q\<close>.
  It is a total-correctness statement: a fault satisfies no \<open>Q\<close>.
\<close>

definition wp :: "'a option \<Rightarrow> ('a \<Rightarrow> bool) \<Rightarrow> bool" where
  "wp c Q \<longleftrightarrow> (case c of None \<Rightarrow> False | Some x \<Rightarrow> Q x)"

lemma wp_Some [simp]: "wp (Some x) Q \<longleftrightarrow> Q x"
  by (simp add: wp_def)

lemma wp_None [simp]: "\<not> wp None Q"
  by (simp add: wp_def)

lemma wp_bind [simp]: "wp (Option.bind c k) Q \<longleftrightarrow> wp c (\<lambda>x. wp (k x) Q)"
  by (cases c) simp_all

lemma wp_if [simp]: "wp (if b then c else d) Q \<longleftrightarrow> (if b then wp c Q else wp d Q)"
  by simp

lemma wp_mono: "wp c P \<Longrightarrow> (\<And>x. P x \<Longrightarrow> Q x) \<Longrightarrow> wp c Q"
  by (cases c) simp_all

lemma wp_conj: "wp c P \<Longrightarrow> wp c Q \<Longrightarrow> wp c (\<lambda>x. P x \<and> Q x)"
  by (cases c) simp_all

lemma wp_iff: "wp c Q \<longleftrightarrow> (\<exists>x. c = Some x \<and> Q x)"
  by (cases c) simp_all

lemma wp_the: "wp c Q \<Longrightarrow> Q (the c)"
  by (cases c) simp_all

lemma bind_out: "wp c (\<lambda>x. P (k x)) \<Longrightarrow> P (Option.bind c k)"
  by (cases c) simp_all

text \<open>A run-time check that faults when it fails: \<^verbatim>\<open>assert\<close>, a null check.\<close>

definition c_assert :: "bool \<Rightarrow> unit option" where
  "c_assert b = (if b then Some () else None)"

lemma c_assert_simps [simp]: "c_assert True = Some ()" "c_assert False = None"
  by (simp_all add: c_assert_def)

lemma wp_c_assert [simp]: "wp (c_assert b) Q \<longleftrightarrow> b \<and> Q ()"
  by (simp add: c_assert_def)

section \<open>Shared lemmas on lists and words\<close>

lemma unat_word_add_nowrap:
  "unat a + unat b < 2 ^ LENGTH('a) \<Longrightarrow> unat (a + b) = unat a + unat (b :: 'a::len word)"
  by (simp add: unat_word_ariths)

lemma unat_word_of_nat:
  "n < 2 ^ LENGTH('a) \<Longrightarrow> unat (word_of_nat n :: 'a::len word) = n"
  by (simp add: unat_of_nat take_bit_nat_eq_self)

lemma unat_u64_of_nat [simp]: "n < 2 ^ 64 \<Longrightarrow> unat (word_of_nat n :: u64) = n"
  by (rule unat_word_of_nat) simp

lemma take_drop_append_middle: "length xs = n \<Longrightarrow> take (length ys) (drop n (xs @ ys @ zs)) = ys"
  by simp

lemma word_of_nat_unat_self: "word_of_nat (unat w) = (w :: 'a::len word)"
  by simp

lemma u64_div_of_nat: "x < 2 ^ 64 \<Longrightarrow> (word_of_nat x :: u64) div 256 = word_of_nat (x div 256)"
proof -
  assume x: "x < 2 ^ 64"
  then have "x div 256 < 2 ^ 64" by simp
  then have "unat ((word_of_nat x :: u64) div 256) = unat (word_of_nat (x div 256) :: u64)"
    using x by (simp only: unat_div unat_u64_of_nat) (simp)
  then show ?thesis by (simp only: word_unat_eq_iff)
qed

lemma splice_window:
  assumes "a + length x \<le> c" and "h + c \<le> length p"
  shows "take c (drop h (take (h + a) p @ x @ drop (h + a + length x) p))
    = take a (take c (drop h p)) @ x @ drop (a + length x) (take c (drop h p))"
proof -
  have h: "drop h (take (h + a) p @ x @ drop (h + a + length x) p)
     = take a (drop h p) @ x @ drop (a + length x) (drop h p)"
    using assms by (simp add: drop_take add.commute add.left_commute)
  have "min (length p - h) a = a" "min c a = a" using assms by simp_all
  then show ?thesis unfolding h using assms by (simp add: drop_take)
qed

lemma length_c_realloc:
  "c_realloc w old n = (r, w') \<Longrightarrow> r = Some p \<Longrightarrow>
     length p = unat n \<and> (\<forall>q k. old = Some q \<longrightarrow> k \<le> length q \<longrightarrow> k \<le> unat n \<longrightarrow> take k p = take k q)"
  by (auto simp: c_realloc_def Let_def min_def split: if_splits)

lemma c_realloc_props:
  assumes "c_realloc w old n = (r, w')"
  shows "same_io w w'" "mem_ok w \<Longrightarrow> mem_ok w'" "mem_ok w \<Longrightarrow> unat n < 2 ^ 63 \<Longrightarrow> r \<noteq> None"
  using assms by (auto simp: c_realloc_def mem_ok_alloc split: if_splits)

lemma c_malloc_props:
  assumes "c_malloc w n = (r, w')"
  shows "same_io w w'" and "r = Some b \<Longrightarrow> length b = unat n"
    and "mem_ok w \<Longrightarrow> mem_ok w'" and "mem_ok w \<Longrightarrow> unat n < 2 ^ 63 \<Longrightarrow> r \<noteq> None"
  using assms by (auto simp: c_malloc_def mem_ok_alloc split: if_splits)

lemma c_calloc_ok: "mem_ok w \<Longrightarrow> unat n < 2 ^ 63 \<Longrightarrow> c_calloc w n = (Some (replicate (unat n) 0), alloc_tick w)"
  by (simp add: c_calloc_def mem_ok_alloc)

text \<open>A run in which no allocation fails and nothing is sent or received.\<close>

definition calm :: "world \<Rightarrow> world \<Rightarrow> bool" where
  "calm w0 w \<longleftrightarrow> mem_ok w \<and> same_io w0 w"

lemma calm_refl: "mem_ok w \<Longrightarrow> calm w w"
  by (simp add: calm_def)

lemma calm_fields: "calm w0 w \<Longrightarrow> mem_ok w" "calm w0 w \<Longrightarrow> same_io w0 w"
  by (simp_all add: calm_def)

text \<open>
  A world for concrete instances: every allocation succeeds, nobody answers, and the
  converter maps a byte to itself followed by a zero byte, and back.
\<close>

fun sample_decode :: "byte list \<Rightarrow> byte list" where
  "sample_decode (a # b # bs) = a # sample_decode bs"
| "sample_decode bs = []"

definition sample_iconv :: "string \<Rightarrow> string \<Rightarrow> byte list \<Rightarrow> nat \<Rightarrow> iconv_result" where
  "sample_iconv src_enc dst_enc src room =
     (let out = (if dst_enc = ''UCS-2LE'' then concat (map (\<lambda>b. [b, 0]) src) else sample_decode src)
      in if length out \<le> room then Iconv_ok out else Iconv_E2BIG)"

definition sample_world :: world where
  "sample_world = \<lparr>w_alloc = [], w_junk = (\<lambda>_. 0xcc), w_pid = 4711, w_rand = [], w_time = [],
     w_charset = ''ISO-8859-1'', w_iconv_open = (\<lambda>_ _. True), w_iconv = sample_iconv,
     w_conn = [], w_tx = [], w_rx = [], w_sent = [], w_udp_tx = [], w_udp_rx = [],
     w_udp_sent = [], w_ifaddrs = Some []\<rparr>"

lemma sample_world_mem: "mem_ok sample_world"
  by (simp add: sample_world_def mem_ok_def)

section \<open>An interface: things one appends bytes to\<close>

text \<open>
  The library builds every packet by successive appends: an SMB message, a NetBIOS session
  packet, a name-service query. \<open>put_seq\<close> is such a sequence, stopped by the first append
  that faults or is refused; the locale states what an append promises.
\<close>

fun put_seq :: "(world \<Rightarrow> 's \<Rightarrow> byte list \<Rightarrow> ('s \<times> world) option) \<Rightarrow> world \<Rightarrow> 's
    \<Rightarrow> byte list list \<Rightarrow> ('s \<times> world) option" where
  "put_seq put w s [] = Some (s, w)"
| "put_seq put w s (d # ds) = do { (s, w) \<leftarrow> put w s d; put_seq put w s ds }"

locale byte_sink =
  fixes ok :: "'s \<Rightarrow> world \<Rightarrow> bool"
    and content :: "'s \<Rightarrow> byte list"
    and limit :: "'s \<Rightarrow> nat"
    and put :: "world \<Rightarrow> 's \<Rightarrow> byte list \<Rightarrow> ('s \<times> world) option"
  assumes put_appends:
    "ok s w \<Longrightarrow> length (content s) + length d \<le> limit s \<Longrightarrow>
       wp (put w s d) (\<lambda>(s', w'). ok s' w' \<and> content s' = content s @ d \<and> limit s' = limit s)"
begin

lemma put_seq_appends:
  "ok s w \<Longrightarrow> length (content s) + length (concat ds) \<le> limit s \<Longrightarrow>
     wp (put_seq put w s ds) (\<lambda>(s', w'). ok s' w' \<and> content s' = content s @ concat ds)"
proof (induction ds arbitrary: s w)
  case Nil
  then show ?case by simp
next
  case (Cons d ds)
  from Cons.prems have "length (content s) + length d \<le> limit s" by simp
  from put_appends [OF Cons.prems(1) this] show ?case
    unfolding put_seq.simps wp_bind
  proof (rule wp_mono, clarify)
    fix s' w'
    assume 1: "ok s' w'" "content s' = content s @ d" "limit s' = limit s"
    with Cons.prems(2) have "length (content s') + length (concat ds) \<le> limit s'" by simp
    from Cons.IH [OF 1(1) this]
    show "wp (put_seq put w' s' ds) (\<lambda>(s'', w''). ok s'' w'' \<and> content s'' = content s @ concat (d # ds))"
      using 1(2) by simp
  qed
qed

end

end
