(* ===== verification/Packets.thy ===== *)
theory Packets
  imports Prelude
begin

text \<open>
  The packed wire structures of \<^verbatim>\<open>src/smb_packets.h\<close>,
  \<^verbatim>\<open>src/netbios_defs.h\<close> and \<^verbatim>\<open>src/smb_ntlm.h\<close>.

  A packed structure type is its \<^emph>\<open>layout\<close>, the list of its members with their widths
  in bytes; a trailing flexible array member starts at \<open>sizeof\<close>. A structure variable is a
  function from member names to values: the macro \<^verbatim>\<open>SMB_MSG_INIT_PKT\<close> is the zero
  function, an assignment to a member is a function update, and \<open>enc_struct\<close> is the memory
  image, in which every value is truncated to its member's width. A member access through a
  cast pointer is \<open>rd_field\<close> or \<open>wr_field\<close>, which fault outside the object.
\<close>

section \<open>Natural numbers in memory\<close>

primrec nat_bytes :: "nat \<Rightarrow> nat \<Rightarrow> byte list" where
  "nat_bytes 0 v = []"
| "nat_bytes (Suc n) v = word_of_nat v # nat_bytes n (v div 256)"

primrec bytes_nat :: "byte list \<Rightarrow> nat" where
  "bytes_nat [] = 0"
| "bytes_nat (b # bs) = unat b + 256 * bytes_nat bs"

lemma length_nat_bytes [simp]: "length (nat_bytes n v) = n"
  by (induction n arbitrary: v) auto

lemma nat_bytes_numeral:
  "nat_bytes 1 v = [word_of_nat v]"
  "nat_bytes 2 v = [word_of_nat v, word_of_nat (v div 256)]"
  "nat_bytes 4 v = [word_of_nat v, word_of_nat (v div 256), word_of_nat (v div 65536),
     word_of_nat (v div 16777216)]"
proof -
  have 2: "(2::nat) = Suc (Suc 0)" and 4: "(4::nat) = Suc (Suc (Suc (Suc 0)))" by simp_all
  show "nat_bytes 1 v = [word_of_nat v]" by simp
  show "nat_bytes 2 v = [word_of_nat v, word_of_nat (v div 256)]"
    unfolding 2 by simp
  show "nat_bytes 4 v = [word_of_nat v, word_of_nat (v div 256), word_of_nat (v div 65536),
     word_of_nat (v div 16777216)]"
    unfolding 4 by (simp add: div_mult2_eq [symmetric])
qed

lemma unat_byte_less: "unat (b :: byte) < 256"
proof -
  have "unat b < 2 ^ LENGTH(8)" by (rule unsigned_less)
  then show ?thesis by simp
qed

lemma unat_byte_of_nat: "unat (word_of_nat v :: byte) = v mod 256"
  by (simp add: unat_of_nat take_bit_eq_mod)

lemma bytes_nat_nat_bytes [simp]: "bytes_nat (nat_bytes n v) = v mod 256 ^ n"
proof (induction n arbitrary: v)
  case 0
  show ?case by simp
next
  case (Suc n)
  show ?case
    by (simp add: Suc unat_byte_of_nat mod_mult2_eq)
qed

lemma bytes_nat_less: "bytes_nat bs < 256 ^ length bs"
proof (induction bs)
  case Nil
  show ?case by simp
next
  case (Cons b bs)
  have "unat b < 256" by (rule unat_byte_less)
  with Cons have "unat b + 256 * bytes_nat bs < 256 * 256 ^ length bs" by linarith
  then show ?case by simp
qed

lemma nat_bytes_bytes_nat [simp]: "nat_bytes (length bs) (bytes_nat bs) = bs"
proof (induction bs)
  case Nil
  show ?case by simp
next
  case (Cons b bs)
  have "unat b < 256" by (rule unat_byte_less)
  then have 1: "(unat b + 256 * bytes_nat bs) div 256 = bytes_nat bs" by simp
  have "word_of_nat (unat b + 256 * bytes_nat bs) = b"
    using \<open>unat b < 256\<close>
    by (simp only: word_unat_eq_iff unat_byte_of_nat) simp
  with 1 Cons show ?case by simp
qed

lemma le_bytes_nat_bytes: "le_bytes n w = nat_bytes n (unat (w :: 'a::len word))"
proof (induction n arbitrary: w)
  case 0
  show ?case by simp
next
  case (Suc n)
  have "ucast w = (word_of_nat (unat w) :: byte)" by simp
  moreover have "unat (drop_bit 8 w) = unat w div 256"
    by (subst unat_drop_bit_eq) (simp add: drop_bit_eq_div)
  ultimately show ?case by (simp add: Suc)
qed

section \<open>Layouts, structure values and member accesses\<close>

type_synonym layout = "(string \<times> nat) list"
type_synonym cstruct = "string \<Rightarrow> nat"

definition sizeof :: "layout \<Rightarrow> nat" where
  "sizeof L = sum_list (map snd L)"

fun offsetof :: "layout \<Rightarrow> string \<Rightarrow> nat" where
  "offsetof [] f = 0"
| "offsetof ((g, n) # L) f = (if f = g then 0 else n + offsetof L f)"

definition enc_struct :: "layout \<Rightarrow> cstruct \<Rightarrow> byte list" where
  "enc_struct L s = concat (map (\<lambda>(f, n). nat_bytes n (s f)) L)"

definition rd_field :: "layout \<Rightarrow> string \<Rightarrow> byte list \<Rightarrow> nat \<Rightarrow> nat option" where
  "rd_field L f buf base =
     (case map_of L f of None \<Rightarrow> None
      | Some n \<Rightarrow> map_option bytes_nat (buf_read buf (base + offsetof L f) n))"

definition wr_field :: "layout \<Rightarrow> string \<Rightarrow> nat \<Rightarrow> byte list \<Rightarrow> nat \<Rightarrow> byte list option" where
  "wr_field L f v buf base =
     (case map_of L f of None \<Rightarrow> None
      | Some n \<Rightarrow> buf_write buf (base + offsetof L f) (nat_bytes n v))"

definition smb_msg_init_pkt :: cstruct where
  "smb_msg_init_pkt = (\<lambda>_. 0)"

definition smb_msg_init_pkt_andx :: cstruct where
  "smb_msg_init_pkt_andx =
     smb_msg_init_pkt(''andx'' := 0xff, ''andx_reserved'' := 0, ''andx_offset'' := 0)"

lemma length_enc_struct [simp]: "length (enc_struct L s) = sizeof L"
  by (induction L) (auto simp: enc_struct_def sizeof_def)

lemma enc_struct_zero: "enc_struct L (\<lambda>_. 0) = replicate (sizeof L) 0"
proof -
  have "nat_bytes n 0 = replicate n 0" for n by (induction n) auto
  then show ?thesis by (induction L) (auto simp: enc_struct_def sizeof_def replicate_add)
qed

lemma offsetof_bound: "map_of L f = Some n \<Longrightarrow> offsetof L f + n \<le> sizeof L"
  by (induction L) (auto simp: sizeof_def split: if_splits)

lemma offsetof_disjoint:
  "map_of L f = Some n \<Longrightarrow> map_of L g = Some m \<Longrightarrow> f \<noteq> g \<Longrightarrow>
     offsetof L f + n \<le> offsetof L g \<or> offsetof L g + m \<le> offsetof L f"
  by (induction L) (auto split: if_splits)

lemma enc_struct_field:
  "map_of L f = Some n \<Longrightarrow> take n (drop (offsetof L f) (enc_struct L s)) = nat_bytes n (s f)"
  by (induction L) (auto simp: enc_struct_def split: if_splits)

text \<open>
  Reading a member of an encoded structure gives the value assigned to it, truncated to the
  member's width.
\<close>

lemma rd_field_enc_struct:
  assumes "map_of L f = Some n"
  shows "rd_field L f (pre @ enc_struct L s @ post) (length pre) = Some (s f mod 256 ^ n)"
proof -
  have b: "offsetof L f + n \<le> length (enc_struct L s)"
    using offsetof_bound [OF assms] by simp
  have "take n (drop (offsetof L f) (enc_struct L s @ post))
      = take n (drop (offsetof L f) (enc_struct L s))"
    using b by (simp add: drop_append take_append)
  then have "buf_read (pre @ enc_struct L s @ post) (length pre + offsetof L f) n
      = Some (nat_bytes n (s f))"
    using b enc_struct_field [OF assms, of s] by (simp add: buf_read_def)
  then show ?thesis by (simp add: rd_field_def assms)
qed

lemma rd_wr_field_same:
  "wr_field L f v buf base = Some buf' \<Longrightarrow> map_of L f = Some n \<Longrightarrow>
     rd_field L f buf' base = Some (v mod 256 ^ n)"
  using buf_read_write_same [of buf "base + offsetof L f" "nat_bytes n v" buf']
  by (simp add: wr_field_def rd_field_def)

lemma rd_wr_field_other:
  assumes "wr_field L f v buf base = Some buf'" and "f \<noteq> g"
  shows "rd_field L g buf' base = rd_field L g buf base"
proof (cases "map_of L g")
  case None
  then show ?thesis by (simp add: rd_field_def)
next
  case (Some m)
  from assms(1) obtain n where n: "map_of L f = Some n"
    and wr: "buf_write buf (base + offsetof L f) (nat_bytes n v) = Some buf'"
    by (auto simp: wr_field_def split: option.splits)
  have "buf_read buf' (base + offsetof L g) m = buf_read buf (base + offsetof L g) m"
    using offsetof_disjoint [OF n Some assms(2)]
    by (intro buf_read_write_other [OF wr]) auto
  with Some show ?thesis by (simp add: rd_field_def)
qed

lemma wr_field_total:
  assumes "map_of L f = Some n" and "base + sizeof L \<le> length buf"
  shows "\<exists>buf'. wr_field L f v buf base = Some buf' \<and> length buf' = length buf
     \<and> (\<forall>k. base + sizeof L \<le> k \<longrightarrow> drop k buf' = drop k buf)"
proof -
  have "offsetof L f + n \<le> sizeof L" by (rule offsetof_bound [OF assms(1)])
  then show ?thesis
    using assms by (auto simp: wr_field_def buf_write_def min_def)
qed

lemma rd_field_total:
  assumes "map_of L f = Some n" and "base + sizeof L \<le> length buf"
  shows "\<exists>v. rd_field L f buf base = Some v \<and> v < 256 ^ n"
proof -
  have b: "offsetof L f + n \<le> sizeof L" by (rule offsetof_bound [OF assms(1)])
  with assms have "base + (offsetof L f + n) \<le> length buf" by linarith
  then have r: "buf_read buf (base + offsetof L f) n = Some (take n (drop (base + offsetof L f) buf))"
    and l: "length (take n (drop (base + offsetof L f) buf)) = n"
    by (simp_all add: buf_read_def add.assoc)
  from r assms(1) have "rd_field L f buf base = Some (bytes_nat (take n (drop (base + offsetof L f) buf)))"
    by (simp add: rd_field_def)
  moreover have "bytes_nat (take n (drop (base + offsetof L f) buf)) < 256 ^ n"
    using bytes_nat_less [of "take n (drop (base + offsetof L f) buf)"] l by simp
  ultimately show ?thesis by blast
qed

text \<open>Assigning to a member of an encoded structure in memory.\<close>

lemma enc_struct_frame: "f \<notin> fst ` set L \<Longrightarrow> enc_struct L (s(f := v)) = enc_struct L s"
  by (induction L) (auto simp: enc_struct_def)

lemma enc_struct_update:
  "distinct (map fst L) \<Longrightarrow> map_of L f = Some n \<Longrightarrow>
     take (offsetof L f) (enc_struct L s) @ nat_bytes n v @ drop (offsetof L f + n) (enc_struct L s)
     = enc_struct L (s(f := v))"
proof (induction L)
  case Nil
  then show ?case by simp
next
  case (Cons x L)
  obtain g k where x: "x = (g, k)" by (cases x)
  have cons: "enc_struct (x # L) t = nat_bytes k (t g) @ enc_struct L t" for t
    by (simp add: enc_struct_def x)
  show ?case
  proof (cases "f = g")
    case True
    with Cons.prems x have fr: "enc_struct L (s(f := v)) = enc_struct L s" and kn: "k = n"
      by (auto intro: enc_struct_frame)
    show ?thesis unfolding cons fr using True x kn by simp
  next
    case False
    with Cons.prems x have m: "map_of L f = Some n" and d: "distinct (map fst L)" by auto
    from False x have off: "offsetof (x # L) f = k + offsetof L f" by simp
    have "take (k + offsetof L f) (nat_bytes k (s g) @ enc_struct L s)
        @ nat_bytes n v @ drop (k + offsetof L f + n) (nat_bytes k (s g) @ enc_struct L s)
      = nat_bytes k (s g) @ enc_struct L (s(f := v))"
      by (simp add: Cons.IH [OF d m, symmetric] add.assoc)
    then show ?thesis unfolding cons off using False by simp
  qed
qed

lemma wr_field_enc_struct:
  assumes "distinct (map fst L)" and "map_of L f = Some n"
  shows "wr_field L f v (enc_struct L s @ rest) 0 = Some (enc_struct L (s(f := v)) @ rest)"
  using offsetof_bound [OF assms(2)] enc_struct_update [OF assms, of s v] assms(2)
  by (simp add: wr_field_def buf_write_def)

section \<open>The structures\<close>

subsection \<open>SMB structures\<close>

definition smb_header :: layout where
  "smb_header = [
    (''magic'', 4), (''command'', 1), (''status'', 4), (''flags'', 1), (''flags2'', 2),
    (''pid_high'', 2), (''signature'', 8), (''reserved'', 2), (''tid'', 2), (''pid'', 2),
    (''uid'', 2), (''mux_id'', 2)]"

definition smb_packet :: layout where
  "smb_packet = [
    (''header'', 32)]"

definition smb_simple_struct :: layout where
  "smb_simple_struct = [
    (''wct'', 1), (''bct'', 2)]"

definition smb_nego_req :: layout where
  "smb_nego_req = [
    (''wct'', 1), (''bct'', 2)]"

definition smb_nego_resp :: layout where
  "smb_nego_resp = [
    (''wct'', 1), (''dialect_index'', 2), (''security_mode'', 1), (''diplodocus'', 4),
    (''max_bufsize'', 4), (''max_rawbuffer'', 4), (''session_key'', 4), (''caps'', 4),
    (''ts'', 8), (''tz'', 2), (''key_length'', 1), (''bct'', 2), (''challenge'', 8)]"

definition smb_nego_xsec_resp :: layout where
  "smb_nego_xsec_resp = [
    (''wct'', 1), (''dialect_index'', 2), (''security_mode'', 1), (''diplodocus'', 4),
    (''max_bufsize'', 4), (''max_rawbuffer'', 4), (''session_key'', 4), (''caps'', 4),
    (''ts'', 8), (''tz'', 2), (''key_length'', 1), (''bct'', 2), (''srv_guid'', 16)]"

definition smb_session_req :: layout where
  "smb_session_req = [
    (''wct'', 1), (''andx'', 1), (''andx_reserved'', 1), (''andx_offset'', 2),
    (''max_buffer'', 2), (''mpx_count'', 2), (''vc_count'', 2), (''session_key'', 4),
    (''oem_pass_len'', 2), (''uni_pass_len'', 2), (''reserved2'', 4), (''caps'', 4),
    (''payload_size'', 2)]"

definition smb_session_xsec_req :: layout where
  "smb_session_xsec_req = [
    (''wct'', 1), (''andx'', 1), (''andx_reserved'', 1), (''andx_offset'', 2),
    (''max_buffer'', 2), (''mpx_count'', 2), (''vc_count'', 2), (''session_key'', 4),
    (''xsec_blob_size'', 2), (''reserved2'', 4), (''caps'', 4), (''payload_size'', 2)]"

definition smb_session_resp :: layout where
  "smb_session_resp = [
    (''wct'', 1), (''andx'', 1), (''andx_reserved'', 1), (''andx_offset'', 2), (''action'', 2),
    (''bct'', 2)]"

definition smb_session_xsec_resp :: layout where
  "smb_session_xsec_resp = [
    (''wct'', 1), (''andx'', 1), (''andx_reserved'', 1), (''andx_offset'', 2), (''action'', 2),
    (''xsec_blob_size'', 2), (''payload_size'', 2)]"

definition smb_tree_connect_req :: layout where
  "smb_tree_connect_req = [
    (''wct'', 1), (''andx'', 1), (''andx_reserved'', 1), (''andx_offset'', 2), (''flags'', 2),
    (''passwd_len'', 2), (''bct'', 2)]"

definition smb_tree_connect_resp :: layout where
  "smb_tree_connect_resp = [
    (''wct'', 1), (''andx'', 1), (''andx_reserved'', 1), (''andx_offset'', 2),
    (''opt_support'', 2), (''bct'', 2)]"

definition smb_tree_connect_respx :: layout where
  "smb_tree_connect_respx = [
    (''wct'', 1), (''andx'', 1), (''andx_reserved'', 1), (''andx_offset'', 2),
    (''opt_support'', 2), (''max_rights'', 4), (''guest_rights'', 4), (''bct'', 2)]"

definition smb_create_req :: layout where
  "smb_create_req = [
    (''wct'', 1), (''andx'', 1), (''andx_reserved'', 1), (''andx_offset'', 2),
    (''reserved2'', 1), (''path_length'', 2), (''flags'', 4), (''root_fid'', 4),
    (''access_mask'', 4), (''alloc_size'', 8), (''file_attr'', 4), (''share_access'', 4),
    (''disposition'', 4), (''create_opts'', 4), (''impersonation'', 4),
    (''security_flags'', 1), (''bct'', 2)]"

definition smb_create_resp :: layout where
  "smb_create_resp = [
    (''wct'', 1), (''andx'', 1), (''andx_reserved'', 1), (''andx_offset'', 2),
    (''oplock_level'', 1), (''fid'', 2), (''action'', 4), (''created'', 8), (''accessed'', 8),
    (''written'', 8), (''changed'', 8), (''attr'', 4), (''alloc_size'', 8), (''size'', 8),
    (''filetype'', 2), (''ipc_state'', 2), (''is_dir'', 1), (''bct'', 2)]"

definition smb_close_req :: layout where
  "smb_close_req = [
    (''wct'', 1), (''fid'', 2), (''last_write'', 4), (''bct'', 2)]"

definition smb_read_req :: layout where
  "smb_read_req = [
    (''wct'', 1), (''andx'', 1), (''andx_reserved'', 1), (''andx_offset'', 2), (''fid'', 2),
    (''offset'', 4), (''max_count'', 2), (''min_count'', 2), (''max_count_high'', 4),
    (''remaining'', 2), (''offset_high'', 4), (''bct'', 2)]"

definition smb_read_resp :: layout where
  "smb_read_resp = [
    (''wct'', 1), (''andx'', 1), (''andx_reserved'', 1), (''andx_offset'', 2),
    (''remaining'', 2), (''compact_mode'', 2), (''reserved'', 2), (''data_len'', 2),
    (''data_offset'', 2), (''data_len_high'', 4), (''reserved2'', 4), (''reserved3'', 2),
    (''bct'', 2)]"

definition smb_write_req :: layout where
  "smb_write_req = [
    (''wct'', 1), (''andx'', 1), (''andx_reserved'', 1), (''andx_offset'', 2), (''fid'', 2),
    (''offset'', 4), (''timeout'', 4), (''write_mode'', 2), (''remaining'', 2),
    (''reserved'', 2), (''data_len'', 2), (''data_offset'', 2), (''offset_high'', 4),
    (''bct'', 2), (''padding'', 1)]"

definition smb_write_resp :: layout where
  "smb_write_resp = [
    (''wct'', 1), (''andx'', 1), (''andx_reserved'', 1), (''andx_offset'', 2),
    (''data_len'', 2), (''available'', 2), (''reserved'', 4), (''bct'', 2)]"

definition smb_file_rm_req :: layout where
  "smb_file_rm_req = [
    (''wct'', 1), (''search_attributes'', 2), (''bct'', 2), (''buffer_format'', 1)]"

definition smb_file_rm_resp :: layout where
  "smb_file_rm_resp = [
    (''wct'', 1), (''bct'', 2)]"

definition smb_directory_rm_req :: layout where
  "smb_directory_rm_req = [
    (''wct'', 1), (''bct'', 2), (''buffer_format'', 1)]"

definition smb_directory_rm_resp :: layout where
  "smb_directory_rm_resp = [
    (''wct'', 1), (''bct'', 2)]"

definition smb_file_mv_req :: layout where
  "smb_file_mv_req = [
    (''wct'', 1), (''search_attributes'', 2), (''bct'', 2)]"

definition smb_directory_mk_req :: layout where
  "smb_directory_mk_req = [
    (''wct'', 1), (''bct'', 2), (''buffer_format'', 1)]"

definition smb_trans_req :: layout where
  "smb_trans_req = [
    (''wct'', 1), (''total_param_count'', 2), (''total_data_count'', 2),
    (''max_param_count'', 2), (''max_data_count'', 2), (''max_setup_count'', 1),
    (''reserved'', 1), (''flags'', 2), (''timeout'', 4), (''reserved2'', 2),
    (''param_count'', 2), (''param_offset'', 2), (''data_count'', 2), (''data_offset'', 2),
    (''setup_count'', 1), (''reserved3'', 1), (''pipe_function'', 2), (''fid'', 2), (''bct'', 2)]"

definition smb_trans2_req :: layout where
  "smb_trans2_req = [
    (''wct'', 1), (''total_param_count'', 2), (''total_data_count'', 2),
    (''max_param_count'', 2), (''max_data_count'', 2), (''max_setup_count'', 1),
    (''reserved'', 1), (''flags'', 2), (''timeout'', 4), (''reserve2'', 2),
    (''param_count'', 2), (''param_offset'', 2), (''data_count'', 2), (''data_offset'', 2),
    (''setup_count'', 1), (''reserved3'', 1), (''cmd'', 2), (''bct'', 2), (''padding'', 3)]"

definition smb_tr2_findfirst2 :: layout where
  "smb_tr2_findfirst2 = [
    (''attrs'', 2), (''count'', 2), (''flags'', 2), (''interest'', 2), (''storage'', 4)]"

definition smb_tr2_findnext2 :: layout where
  "smb_tr2_findnext2 = [
    (''sid'', 2), (''count'', 2), (''interest'', 2), (''resume_key'', 4), (''flags'', 2)]"

definition smb_tr2_query :: layout where
  "smb_tr2_query = [
    (''interest'', 2), (''reserved'', 4)]"

definition smb_trans2_resp :: layout where
  "smb_trans2_resp = [
    (''wct'', 1), (''total_param_count'', 2), (''total_data_count'', 2), (''reserved'', 2),
    (''param_count'', 2), (''param_offset'', 2), (''param_displacement'', 2),
    (''data_count'', 2), (''data_offset'', 2), (''data_displacement'', 2),
    (''setup_count'', 1), (''reserved2'', 1), (''bct'', 2), (''padding'', 1)]"

definition smb_tr2_findfirst2_params :: layout where
  "smb_tr2_findfirst2_params = [
    (''id'', 2), (''count'', 2), (''eos'', 2), (''ea_error_offset'', 2),
    (''last_name_offset'', 2), (''padding'', 2)]"

definition smb_tr2_findnext2_params :: layout where
  "smb_tr2_findnext2_params = [
    (''count'', 2), (''eos'', 2), (''ea_error_offset'', 2), (''last_name_offset'', 2)]"

definition smb_tr2_find2_entry :: layout where
  "smb_tr2_find2_entry = [
    (''next_entry'', 4), (''index'', 4), (''created'', 8), (''accessed'', 8), (''written'', 8),
    (''changed'', 8), (''size'', 8), (''alloc_size'', 8), (''attr'', 4), (''name_len'', 4),
    (''ea_list_len'', 4), (''short_name_len'', 1), (''reserved'', 1), (''short_name'', 24)]"

definition smb_tr2_path_info :: layout where
  "smb_tr2_path_info = [
    (''created'', 8), (''accessed'', 8), (''written'', 8), (''changed'', 8), (''attr'', 4),
    (''reserved'', 4), (''alloc_size'', 8), (''size'', 8), (''link_count'', 4),
    (''rm_pending'', 1), (''is_dir'', 1), (''reserved2'', 2), (''ea_list_len'', 4),
    (''name_len'', 4)]"

definition smb_example_t :: layout where
  "smb_example_t = [
    (''wct'', 1), (''andx'', 1), (''andx_reserved'', 1), (''andx_offset'', 2), (''bct'', 2)]"

text \<open>The structures the header declares as aliases of \<open>smb_simple_struct\<close>.\<close>

definition smb_tree_disconnect_req :: layout where
  "smb_tree_disconnect_req = smb_simple_struct"

definition smb_tree_disconnect_resp :: layout where
  "smb_tree_disconnect_resp = smb_simple_struct"

definition smb_file_mv_resp :: layout where
  "smb_file_mv_resp = smb_simple_struct"

definition smb_directory_mk_resp :: layout where
  "smb_directory_mk_resp = smb_simple_struct"

subsection \<open>NetBIOS structures\<close>

definition netbios_query_packet :: layout where
  "netbios_query_packet = [
    (''trn_id'', 2), (''flags'', 2), (''queries'', 2), (''answers'', 2), (''ns_count'', 2),
    (''ar_count'', 2)]"

definition netbios_session_packet :: layout where
  "netbios_session_packet = [
    (''opcode'', 1), (''flags'', 1), (''length'', 2)]"

subsection \<open>NTLM structures\<close>

definition smb_ntlm_blob :: layout where
  "smb_ntlm_blob = [
    (''header'', 4), (''reserved'', 4), (''timestamp'', 8), (''challenge'', 8), (''unknown'', 4)]"

definition smb_ntlmssp_nego :: layout where
  "smb_ntlmssp_nego = [
    (''id'', 8), (''type'', 4), (''flags'', 4), (''domain_len'', 2), (''domain_maxlen'', 2),
    (''domain_offset'', 4), (''host_len'', 2), (''host_maxlen'', 2), (''host_offset'', 4)]"

definition smb_ntlmssp_challenge :: layout where
  "smb_ntlmssp_challenge = [
    (''id'', 8), (''type'', 4), (''name_len'', 2), (''name_maxlen'', 2), (''name_offset'', 4),
    (''flags'', 4), (''challenge'', 8), (''reserved'', 8), (''tgt_len'', 2),
    (''tgt_maxlen'', 2), (''tgt_offset'', 4)]"

definition smb_ntlmssp_auth :: layout where
  "smb_ntlmssp_auth = [
    (''id'', 8), (''type'', 4), (''lm_len'', 2), (''lm_maxlen'', 2), (''lm_offset'', 4),
    (''ntlm_len'', 2), (''ntlm_maxlen'', 2), (''ntlm_offset'', 4), (''domain_len'', 2),
    (''domain_maxlen'', 2), (''domain_offset'', 4), (''user_len'', 2), (''user_maxlen'', 2),
    (''user_offset'', 4), (''host_len'', 2), (''host_maxlen'', 2), (''host_offset'', 4),
    (''session_key_len'', 2), (''session_key_maxlen'', 2), (''session_key_offset'', 4),
    (''flags'', 4)]"

lemmas layout_defs = 
  smb_header_def smb_packet_def smb_simple_struct_def smb_nego_req_def smb_nego_resp_def
  smb_nego_xsec_resp_def smb_session_req_def smb_session_xsec_req_def smb_session_resp_def
  smb_session_xsec_resp_def smb_tree_connect_req_def smb_tree_connect_resp_def
  smb_tree_connect_respx_def smb_create_req_def smb_create_resp_def smb_close_req_def
  smb_read_req_def smb_read_resp_def smb_write_req_def smb_write_resp_def smb_file_rm_req_def
  smb_file_rm_resp_def smb_directory_rm_req_def smb_directory_rm_resp_def smb_file_mv_req_def
  smb_directory_mk_req_def smb_trans_req_def smb_trans2_req_def smb_tr2_findfirst2_def
  smb_tr2_findnext2_def smb_tr2_query_def smb_trans2_resp_def smb_tr2_findfirst2_params_def
  smb_tr2_findnext2_params_def smb_tr2_find2_entry_def smb_tr2_path_info_def smb_example_t_def
  smb_tree_disconnect_req_def smb_tree_disconnect_resp_def smb_file_mv_resp_def
  smb_directory_mk_resp_def netbios_query_packet_def netbios_session_packet_def smb_ntlm_blob_def
  smb_ntlmssp_nego_def smb_ntlmssp_challenge_def smb_ntlmssp_auth_def

text \<open>The value of \<^verbatim>\<open>sizeof\<close> of every structure.\<close>

lemma sizeof_structs [simp]:
  "sizeof smb_header = 32"
  "sizeof smb_packet = 32"
  "sizeof smb_simple_struct = 3"
  "sizeof smb_nego_req = 3"
  "sizeof smb_nego_resp = 45"
  "sizeof smb_nego_xsec_resp = 53"
  "sizeof smb_session_req = 29"
  "sizeof smb_session_xsec_req = 27"
  "sizeof smb_session_resp = 9"
  "sizeof smb_session_xsec_resp = 11"
  "sizeof smb_tree_connect_req = 11"
  "sizeof smb_tree_connect_resp = 9"
  "sizeof smb_tree_connect_respx = 17"
  "sizeof smb_create_req = 51"
  "sizeof smb_create_resp = 71"
  "sizeof smb_close_req = 9"
  "sizeof smb_read_req = 27"
  "sizeof smb_read_resp = 27"
  "sizeof smb_write_req = 32"
  "sizeof smb_write_resp = 15"
  "sizeof smb_file_rm_req = 6"
  "sizeof smb_file_rm_resp = 3"
  "sizeof smb_directory_rm_req = 4"
  "sizeof smb_directory_rm_resp = 3"
  "sizeof smb_file_mv_req = 5"
  "sizeof smb_directory_mk_req = 4"
  "sizeof smb_trans_req = 35"
  "sizeof smb_trans2_req = 36"
  "sizeof smb_tr2_findfirst2 = 12"
  "sizeof smb_tr2_findnext2 = 12"
  "sizeof smb_tr2_query = 6"
  "sizeof smb_trans2_resp = 24"
  "sizeof smb_tr2_findfirst2_params = 12"
  "sizeof smb_tr2_findnext2_params = 8"
  "sizeof smb_tr2_find2_entry = 94"
  "sizeof smb_tr2_path_info = 72"
  "sizeof smb_example_t = 7"
  "sizeof smb_tree_disconnect_req = 3"
  "sizeof smb_tree_disconnect_resp = 3"
  "sizeof smb_file_mv_resp = 3"
  "sizeof smb_directory_mk_resp = 3"
  "sizeof netbios_query_packet = 12"
  "sizeof netbios_session_packet = 4"
  "sizeof smb_ntlm_blob = 28"
  "sizeof smb_ntlmssp_nego = 32"
  "sizeof smb_ntlmssp_challenge = 48"
  "sizeof smb_ntlmssp_auth = 64"
  by (simp_all add: layout_defs sizeof_def)

end
