(* ===== verification/Netbios_Utils.thy ===== *)
theory Netbios_Utils
  imports Packets
begin

text \<open>
  \<^verbatim>\<open>src/netbios_utils.c\<close>: first-level encoding of NetBIOS names and the abort
  context. The encoding computes on signed \<^verbatim>\<open>char\<close> and \<^verbatim>\<open>short\<close>
  values, here as integers; a stored \<^verbatim>\<open>char\<close> is the low byte.
\<close>

section \<open>Name encoding\<close>

definition NETBIOS_NAME_LENGTH :: nat where
  [dsm_consts]: "NETBIOS_NAME_LENGTH = 15"

text \<open>\<^verbatim>\<open>toupper\<close> in the C locale.\<close>

definition c_toupper :: "int \<Rightarrow> int" where
  "c_toupper c = (if 97 \<le> c \<and> c \<le> 122 then c - 32 else c)"

definition nibble_encode :: "byte \<Rightarrow> int" where
  "nibble_encode c =
     (let n1 = drop_bit 4 (c_toupper (sint c)) + 65;
          n2 = (c_toupper (sint c) AND 0x0F) + 65
      in push_bit 8 n1 OR n2)"

definition nibble_decode :: "byte \<Rightarrow> byte \<Rightarrow> byte" where
  "nibble_decode c1 c2 = word_of_int (push_bit 4 (sint c1 - 65) + (sint c2 - 65))"

definition nibble_pair :: "byte \<Rightarrow> byte list" where
  "nibble_pair c = [word_of_int (drop_bit 8 (nibble_encode c)), word_of_int (nibble_encode c AND 0x00FF)]"

text \<open>The 33 bytes stored by \<open>netbios_name_level1_encode\<close>; the caller's type is cut to a char.\<close>

definition netbios_name_level1_encode :: "cstring \<Rightarrow> u32 \<Rightarrow> byte list" where
  "netbios_name_level1_encode name typ =
     (let name_length = min (length name) NETBIOS_NAME_LENGTH
      in concat (map (\<lambda>i. if i < name_length then nibble_pair (name ! i) else [67, 65])
           [0..<NETBIOS_NAME_LENGTH]) @ nibble_pair (ucast typ) @ [0])"

text \<open>The loop reads 30 bytes at \<open>off\<close> in \<open>encoded\<close> and stores 16 bytes in \<open>name\<close>.\<close>

fun level1_decode_loop :: "byte list \<Rightarrow> byte list" where
  "level1_decode_loop (c1 # c2 # cs) = nibble_decode c1 c2 # level1_decode_loop cs"
| "level1_decode_loop _ = []"

definition netbios_name_level1_decode :: "byte list \<Rightarrow> nat \<Rightarrow> byte list \<Rightarrow> byte list option" where
  "netbios_name_level1_decode encoded off name = do {
     cs \<leftarrow> buf_read encoded off (2 * NETBIOS_NAME_LENGTH);
     buf_write name 0 (level1_decode_loop cs @ [0])
   }"

definition netbios_name_encode ::
  "world \<Rightarrow> cstring option \<Rightarrow> u32 \<Rightarrow> (byte list option \<times> world) option" where
  "netbios_name_encode w name typ =
     (case name of
        None \<Rightarrow> Some (None, w)
      | Some nm \<Rightarrow>
          (let (enc, w) = c_malloc w 34
           in case enc of
                None \<Rightarrow> Some (None, w)
              | Some e \<Rightarrow> do {
                  e \<leftarrow> buf_write e 0 [32];
                  e \<leftarrow> buf_write e 1 (netbios_name_level1_encode nm typ);
                  e \<leftarrow> buf_write e 33 [0];
                  Some (Some e, w)
                }))"

definition netbios_name_decode ::
  "byte list option \<Rightarrow> byte list option \<Rightarrow> (int \<times> byte list option) option" where
  "netbios_name_decode encoded name =
     (case (encoded, name) of
        (Some e, Some nm) \<Rightarrow> do {
          encoded_length \<leftarrow> c_strlen e;
          if encoded_length \<noteq> 33 then Some (- 1, name)
          else do {
            nm \<leftarrow> netbios_name_level1_decode e 1 nm;
            nm \<leftarrow> buf_write nm 33 [0];
            Some (32, Some nm)
          }
        }
      | _ \<Rightarrow> Some (- 1, name))"

section \<open>The abort context\<close>

text \<open>
  A pipe: closed (both descriptors are -1), or open, in which case it may hold the byte an
  abort has written. Nothing ever reads it, so that an abort lasts. Looking at a closed pipe
  is a fault; looking at an open one is taken not to fail.
\<close>

datatype netbios_abort_ctx = Pipe_closed | Pipe_open bool

definition netbios_abort_ctx_destroy :: "netbios_abort_ctx \<Rightarrow> netbios_abort_ctx" where
  "netbios_abort_ctx_destroy ctx = Pipe_closed"

definition netbios_abort_ctx_init :: "world \<Rightarrow> int \<times> netbios_abort_ctx \<times> world" where
  "netbios_abort_ctx_init w =
     (let (ok, w) = sys_ok w
      in if \<not> ok then (- 1, Pipe_closed, w)
         else
           (let (ok, w) = sys_ok w
            in if \<not> ok then (- 1, netbios_abort_ctx_destroy (Pipe_open False), w)
               else
                 (let (ok, w) = sys_ok w
                  in if \<not> ok then (- 1, netbios_abort_ctx_destroy (Pipe_open False), w) else (0, Pipe_open False, w))))"

definition netbios_abort_ctx_is_aborted :: "netbios_abort_ctx \<Rightarrow> bool option" where
  "netbios_abort_ctx_is_aborted ctx = (case ctx of Pipe_closed \<Rightarrow> None | Pipe_open b \<Rightarrow> Some b)"

definition netbios_abort_ctx_abort :: "netbios_abort_ctx \<Rightarrow> netbios_abort_ctx" where
  "netbios_abort_ctx_abort ctx = (case ctx of Pipe_closed \<Rightarrow> Pipe_closed | Pipe_open _ \<Rightarrow> Pipe_open True)"

section \<open>Encoding and decoding\<close>

definition byte_upper :: "byte \<Rightarrow> byte" where
  "byte_upper c = word_of_int (c_toupper (sint c))"

lemma c_toupper_range: "- 128 \<le> c \<Longrightarrow> c \<le> 127 \<Longrightarrow> - 128 \<le> c_toupper c \<and> c_toupper c \<le> 127"
  by (simp add: c_toupper_def)

lemma sint_byte_range: "- 128 \<le> sint (c :: byte)" "sint (c :: byte) \<le> 127"
  using sint_ge [of c] sint_lt [of c] by simp_all

lemma sint_byte_of_int: "- 128 \<le> i \<Longrightarrow> i \<le> 127 \<Longrightarrow> sint (word_of_int i :: byte) = i"
  by (simp add: int_word_sint)

text \<open>The two characters of a byte: its high and low nibble, counted from \<^verbatim>\<open>'A'\<close>.\<close>

lemma nibble_pair_eq:
  "nibble_pair c = [word_of_int (c_toupper (sint c) div 16 + 65), word_of_int (c_toupper (sint c) mod 16 + 65)]"
proof -
  define t where "t = c_toupper (sint c)"
  have t: "- 128 \<le> t" "t \<le> 127"
    using c_toupper_range [OF sint_byte_range [of c]] by (simp_all add: t_def)
  define n1 n2 where "n1 = t div 16 + 65" and "n2 = t mod 16 + 65"
  have n: "0 \<le> n2" "n2 < 256" using pos_mod_bound [of 16 t] pos_mod_sign [of 16 t] by (simp_all add: n2_def)
  have a15: "t AND 15 = t mod 16" using take_bit_eq_mask [of 4 t] by (simp add: mask_eq_exp_minus_1 take_bit_eq_mod)
  have "push_bit 8 n1 OR n2 = concat_bit 8 n2 n1"
    using n by (simp add: concat_bit_def take_bit_int_eq_self or.commute)
  also have "\<dots> = n1 * 256 + n2"
    using n by (simp add: concat_bit_eq take_bit_int_eq_self push_bit_eq_mult)
  finally have "push_bit 8 n1 OR n2 = n1 * 256 + n2" .
  then have e: "nibble_encode c = n1 * 256 + n2"
    by (simp add: nibble_encode_def t_def [symmetric] n1_def n2_def drop_bit_eq_div a15)
  have "drop_bit 8 (n1 * 256 + n2) = n1" using n by (simp add: drop_bit_eq_div)
  moreover have "(n1 * 256 + n2) AND 255 = n2" 
    using n take_bit_eq_mask [of 8 "n1 * 256 + n2"] by (simp add: mask_eq_exp_minus_1 take_bit_eq_mod)
  ultimately show ?thesis by (simp add: nibble_pair_def e t_def [symmetric] n1_def n2_def)
qed

lemma nibble_decode_pair: "nibble_pair c = [a, b] \<Longrightarrow> nibble_decode a b = byte_upper c"
proof -
  assume p: "nibble_pair c = [a, b]"
  define t where "t = c_toupper (sint c)"
  have t: "- 128 \<le> t" "t \<le> 127"
    using c_toupper_range [OF sint_byte_range [of c]] by (simp_all add: t_def)
  have m: "0 \<le> t mod 16" "t mod 16 < 16" by simp_all
  from p have ab: "a = word_of_int (t div 16 + 65)" "b = word_of_int (t mod 16 + 65)"
    by (simp_all add: nibble_pair_eq t_def [symmetric])
  have "sint a = t div 16 + 65" "sint b = t mod 16 + 65"
    unfolding ab using t m by (subst sint_byte_of_int; linarith)+
  then show ?thesis by (simp add: nibble_decode_def byte_upper_def t_def [symmetric] push_bit_eq_mult)
qed

lemma nibble_pair_space: "nibble_pair 32 = [67, 65]"
  by (simp add: nibble_pair_eq c_toupper_def)

lemma length_nibble_pair [simp]: "length (nibble_pair c) = 2"
  by (simp add: nibble_pair_def)

text \<open>The name a peer sees: upper case, cut to 15 characters, padded with blanks.\<close>

definition padded_name :: "cstring \<Rightarrow> cstring" where
  "padded_name name = take NETBIOS_NAME_LENGTH (name @ replicate NETBIOS_NAME_LENGTH 32)"

lemma length_padded_name [simp]: "length (padded_name name) = 15"
  by (simp add: padded_name_def dsm_consts)

lemma level1_encode_padded:
  "netbios_name_level1_encode name typ =
     concat (map nibble_pair (padded_name name)) @ nibble_pair (ucast typ) @ [0]"
proof -
  have "map (\<lambda>i. if i < min (length name) 15 then nibble_pair (name ! i) else [67, 65]) [0..<15]
     = map nibble_pair (padded_name name)"
    by (rule nth_equalityI)
      (auto simp: padded_name_def dsm_consts nth_append nibble_pair_space simp del: upt_rec_numeral)
  then show ?thesis by (simp add: netbios_name_level1_encode_def Let_def dsm_consts del: upt_rec_numeral)
qed

lemma level1_decode_pairs:
  "level1_decode_loop (concat (map nibble_pair cs)) = map byte_upper cs"
proof (induction cs)
  case Nil
  show ?case by simp
next
  case (Cons c cs)
  obtain a b where ab: "nibble_pair c = [a, b]" by (simp add: nibble_pair_def)
  with Cons nibble_decode_pair [OF ab] show ?case by simp
qed

lemma length_concat_pairs [simp]: "length (concat (map nibble_pair cs)) = 2 * length cs"
  by (induction cs) auto

lemma length_level1_encode [simp]: "length (netbios_name_level1_encode name typ) = 33"
  by (simp add: level1_encode_padded)

lemma nibble_pair_not_zero: "0 \<notin> set (nibble_pair c)"
proof -
  define t where "t = c_toupper (sint c)"
  have t: "- 128 \<le> t" "t \<le> 127"
    using c_toupper_range [OF sint_byte_range [of c]] by (simp_all add: t_def)
  have m: "0 \<le> t mod 16" "t mod 16 < 16" by simp_all
  have "sint (word_of_int (t div 16 + 65) :: byte) \<noteq> 0" "sint (word_of_int (t mod 16 + 65) :: byte) \<noteq> 0"
    using t m by (subst sint_byte_of_int; linarith)+
  then show ?thesis by (auto simp: nibble_pair_eq t_def [symmetric])
qed

text \<open>A name is encoded into 34 bytes, the last one NUL and none before it.\<close>

lemma netbios_name_encode_result:
  "netbios_name_encode w (Some name) typ = Some
     (if alloc_ok w 34 then Some (32 # netbios_name_level1_encode name typ) else None, alloc_tick w)"
proof -
  let ?e = "netbios_name_level1_encode name typ"
  have last: "?e = take 32 ?e @ [0]" by (simp add: level1_encode_padded)
  have "drop 33 (32 # ?e) = [0]"
    by (simp add: level1_encode_padded)
  then have "take 33 (32 # ?e) @ [0] = 32 # ?e"
    by (metis append_take_drop_id)
  then show ?thesis
    by (simp add: netbios_name_encode_def c_malloc_def buf_write_def del: upt_rec_numeral)
qed

lemma level1_encode_string:
  "\<exists>s. netbios_name_level1_encode name typ = s @ [0] \<and> 0 \<notin> set s \<and> length s = 32"
  using nibble_pair_not_zero
  by (intro exI [of _ "concat (map nibble_pair (padded_name name)) @ nibble_pair (ucast typ)"])
    (auto simp: level1_encode_padded)

section \<open>Properties\<close>

text \<open>
  C40 (name). Decoding an encoded name gives the name back in upper case, cut to 15
  characters and padded with blanks, followed by its NUL, but only into a buffer of at least
  34 bytes: the decoder stores a second terminator at index 33, so that a buffer of the
  16 bytes the comment asks for is overrun.
\<close>

theorem netbios_name_roundtrip:
  "netbios_name_decode (Some (32 # netbios_name_level1_encode name typ)) (Some buf) =
     (if 34 \<le> length buf
      then Some (32, Some (map byte_upper (padded_name name) @ [0] @ take 17 (drop 16 buf) @ [0] @ drop 34 buf))
      else None)"
proof -
  let ?e = "netbios_name_level1_encode name typ"
  let ?d = "map byte_upper (padded_name name) @ [0]"
  obtain s where s: "?e = s @ [0]" "0 \<notin> set s" "length s = 32" using level1_encode_string by blast
  have len: "c_strlen (32 # ?e) = Some 33"
    using c_strlen_append [of "32 # s" "[]"] s by simp
  have rd: "buf_read (32 # ?e) 1 30 = Some (concat (map nibble_pair (padded_name name)))"
    by (simp add: buf_read_def level1_encode_padded)
  have dec: "netbios_name_level1_decode (32 # ?e) 1 buf = buf_write buf 0 ?d"
    using rd by (simp add: netbios_name_level1_decode_def dsm_consts level1_decode_pairs)
  show ?thesis
  proof (cases "16 \<le> length buf")
    case True
    then have w: "buf_write buf 0 ?d = Some (?d @ drop 16 buf)" by (simp add: buf_write_def)
    have "buf_write (?d @ drop 16 buf) 33 [0] =
        (if 34 \<le> length buf then Some (?d @ take 17 (drop 16 buf) @ [0] @ drop 34 buf) else None)"
      using True by (simp add: buf_write_def) arith
    then show ?thesis using w len dec by (simp add: netbios_name_decode_def)
  next
    case False
    then show ?thesis using len dec by (simp add: netbios_name_decode_def buf_write_def)
  qed
qed

end
