(* ===== verification/Netbios_Query.thy ===== *)
theory Netbios_Query
  imports Netbios_Utils
begin

text \<open>
  \<^verbatim>\<open>src/netbios_query.c\<close>: name-service packets. A query is allocated once, with room
  for a fixed payload; appends are refused when they do not fit.
\<close>

section \<open>Data and operations\<close>

record netbios_query =
  q_payload_size :: u64
  q_cursor :: u64
  q_packet :: "byte list option"

definition NETBIOS_FLAG_QUERY :: u16 where [dsm_consts]: "NETBIOS_FLAG_QUERY = 0x8000"
definition NETBIOS_FLAG_RECURSIVE :: u16 where [dsm_consts]: "NETBIOS_FLAG_RECURSIVE = 0x0100"
definition NETBIOS_FLAG_BROADCAST :: u16 where [dsm_consts]: "NETBIOS_FLAG_BROADCAST = 0x0010"
definition NETBIOS_OP_NAME_QUERY :: int where [dsm_consts]: "NETBIOS_OP_NAME_QUERY = 0"

text \<open>A member of the packet a query owns.\<close>

definition query_field :: "string \<Rightarrow> netbios_query \<Rightarrow> nat option" where
  "query_field f q = do { p \<leftarrow> q_packet q; rd_field netbios_query_packet f p 0 }"

definition query_set_field :: "string \<Rightarrow> nat \<Rightarrow> netbios_query \<Rightarrow> netbios_query option" where
  "query_set_field f v q = do {
     p \<leftarrow> q_packet q;
     p \<leftarrow> wr_field netbios_query_packet f v p 0;
     Some (q\<lparr>q_packet := Some p\<rparr>)
   }"

definition netbios_query_set_flag ::
  "netbios_query option \<Rightarrow> u16 \<Rightarrow> bool \<Rightarrow> netbios_query option option" where
  "netbios_query_set_flag query flag v = do {
     q \<leftarrow> query;
     c_assert (q_packet q \<noteq> None);
     flags \<leftarrow> query_field ''flags'' q;
     let old = ntohs (word_of_nat flags);
     q \<leftarrow> query_set_field ''flags'' (unat (htons (if v then old OR flag else old AND NOT flag))) q;
     Some (Some q)
   }"

text \<open>\<^verbatim>\<open>calloc(1, sizeof(netbios_query))\<close>, of 24 bytes, then the packet.\<close>

definition netbios_query_new ::
  "world \<Rightarrow> u64 \<Rightarrow> bool \<Rightarrow> int \<Rightarrow> (netbios_query option \<times> world) option" where
  "netbios_query_new w payload_size is_query opcode =
     (let (obj, w) = c_calloc w 24
      in case obj of
           None \<Rightarrow> Some (None, w)
         | Some _ \<Rightarrow>
             (let (p, w) = c_calloc w (word_of_nat (sizeof netbios_query_packet) + payload_size)
              in case p of
                   None \<Rightarrow> Some (None, w)
                 | Some p \<Rightarrow> do {
                     let q = \<lparr>q_payload_size = payload_size, q_cursor = 0, q_packet = Some p\<rparr>;
                     q \<leftarrow> query_set_field ''flags'' (unat (htons (word_of_int (push_bit 11 opcode)))) q;
                     q \<leftarrow> netbios_query_set_flag (Some q) NETBIOS_FLAG_QUERY (\<not> is_query);
                     Some (q, w)
                   }))"

definition netbios_query_destroy :: "netbios_query option \<Rightarrow> netbios_query option option" where
  "netbios_query_destroy query = do { c_assert (query \<noteq> None); Some None }"

definition netbios_query_append ::
  "netbios_query option \<Rightarrow> byte list \<Rightarrow> u64 \<Rightarrow> (int \<times> netbios_query option) option" where
  "netbios_query_append query data data_size = do {
     q \<leftarrow> query;
     p \<leftarrow> q_packet q;
     if q_payload_size q - q_cursor q < data_size then Some (- 1, query)
     else do {
       src \<leftarrow> buf_read data 0 (unat data_size);
       p \<leftarrow> buf_write p (sizeof netbios_query_packet + unat (q_cursor q)) src;
       Some (0, Some (q\<lparr>q_packet := Some p, q_cursor := q_cursor q + data_size\<rparr>))
     }
   }"

section \<open>Invariant and contents\<close>

definition query_inv :: "netbios_query \<Rightarrow> bool" where
  "query_inv q \<longleftrightarrow>
     (case q_packet q of None \<Rightarrow> False | Some p \<Rightarrow> length p = 12 + unat (q_payload_size q))
     \<and> q_cursor q \<le> q_payload_size q"

definition query_header :: "netbios_query \<Rightarrow> byte list" where
  "query_header q = take 12 (the (q_packet q))"

definition query_content :: "netbios_query \<Rightarrow> byte list" where
  "query_content q = take (unat (q_cursor q)) (drop 12 (the (q_packet q)))"

text \<open>The bytes handed to the socket.\<close>

definition query_wire :: "netbios_query \<Rightarrow> byte list" where
  "query_wire q = query_header q @ query_content q"

lemma query_invD:
  assumes "query_inv q"
  shows "\<exists>p. q_packet q = Some p \<and> length p = 12 + unat (q_payload_size q)"
    and "unat (q_cursor q) \<le> unat (q_payload_size q)"
  using assms by (auto simp: query_inv_def word_le_nat_alt split: option.splits)

lemma length_query_content: "query_inv q \<Longrightarrow> length (query_content q) = unat (q_cursor q)"
  using query_invD [of q] by (auto simp: query_content_def)

lemma netbios_query_append_spec:
  assumes inv: "query_inv q" and len: "unat n \<le> length d"
  shows "\<exists>q'. netbios_query_append (Some q) d n =
        Some (if unat (q_cursor q) + unat n \<le> unat (q_payload_size q) then 0 else - 1, Some q')
     \<and> query_inv q' \<and> query_header q' = query_header q \<and> q_payload_size q' = q_payload_size q
     \<and> query_content q' = query_content q
         @ (if unat (q_cursor q) + unat n \<le> unat (q_payload_size q) then take (unat n) d else [])"
proof -
  obtain p where p: "q_packet q = Some p" "length p = 12 + unat (q_payload_size q)"
    using query_invD [OF inv] by blast
  note c = query_invD(2) [OF inv]
  have room: "q_payload_size q - q_cursor q < n \<longleftrightarrow> \<not> unat (q_cursor q) + unat n \<le> unat (q_payload_size q)"
    using c by (simp add: word_less_nat_alt unat_sub word_le_nat_alt) linarith
  show ?thesis
  proof (cases "unat (q_cursor q) + unat n \<le> unat (q_payload_size q)")
    case False
    then show ?thesis using room p inv by (simp add: netbios_query_append_def)
  next
    case True
    let ?p = "take (12 + unat (q_cursor q)) p @ take (unat n) d @ drop (12 + unat (q_cursor q) + unat n) p"
    let ?q = "q\<lparr>q_packet := Some ?p, q_cursor := q_cursor q + n\<rparr>"
    have app: "netbios_query_append (Some q) d n = Some (0, Some ?q)"
      using True p len room
      by (simp add: netbios_query_append_def buf_read_def buf_write_def min_def)
    have cn: "unat (q_cursor q + n) = unat (q_cursor q) + unat n"
    proof (rule unat_word_add_nowrap)
      have "unat (q_payload_size q) < 2 ^ LENGTH(64)" by (rule unsigned_less)
      with True show "unat (q_cursor q) + unat n < 2 ^ LENGTH(64)" by linarith
    qed
    have "query_inv ?q" using p len True cn by (simp add: query_inv_def word_le_nat_alt)
    moreover have "query_header ?q = query_header q" using p by (simp add: query_header_def min_def)
    moreover have "query_content ?q = query_content q @ take (unat n) d"
      using p True cn len by (simp add: query_content_def drop_take min_def)
    ultimately show ?thesis using app True by simp
  qed
qed

definition query_put :: "world \<Rightarrow> netbios_query \<Rightarrow> byte list \<Rightarrow> (netbios_query \<times> world) option" where
  "query_put w q d = do {
     (r, q) \<leftarrow> netbios_query_append (Some q) d (word_of_nat (length d));
     q \<leftarrow> q;
     if r = 0 then Some (q, w) else None
   }"

interpretation query_sink: byte_sink
  "\<lambda>q w. query_inv q" query_content "\<lambda>q. unat (q_payload_size q)" query_put
proof
  fix q :: netbios_query and w and d :: "byte list"
  assume inv: "query_inv q" and le: "length (query_content q) + length d \<le> unat (q_payload_size q)"
  have "unat (q_payload_size q) < 2 ^ LENGTH(64)" by (rule unsigned_less)
  with le have u: "unat (word_of_nat (length d) :: u64) = length d" by (intro unat_u64_of_nat) simp
  have fit: "unat (q_cursor q) + length d \<le> unat (q_payload_size q)"
    using le length_query_content [OF inv] by simp
  from netbios_query_append_spec [OF inv, of "word_of_nat (length d)" d] u fit
  show "wp (query_put w q d) (\<lambda>(q', w'). query_inv q' \<and>
      query_content q' = query_content q @ d \<and> unat (q_payload_size q') = unat (q_payload_size q))"
    by (auto simp: query_put_def)
qed

section \<open>Flags\<close>

lemma query_field_set_same:
  "query_set_field f v q = Some q' \<Longrightarrow> map_of netbios_query_packet f = Some n \<Longrightarrow>
     query_field f q' = Some (v mod 256 ^ n)"
  by (auto simp: query_set_field_def query_field_def intro: rd_wr_field_same split: bind_splits)

lemma query_field_set_other:
  "query_set_field f v q = Some q' \<Longrightarrow> f \<noteq> g \<Longrightarrow> query_field g q' = query_field g q"
  by (auto simp: query_set_field_def query_field_def intro: rd_wr_field_other split: bind_splits)

lemma query_set_field_total:
  assumes inv: "query_inv q" and f: "map_of netbios_query_packet f = Some n"
  shows "\<exists>q'. query_set_field f v q = Some q' \<and> query_inv q' \<and> query_content q' = query_content q
     \<and> q_payload_size q' = q_payload_size q"
proof -
  obtain p where p: "q_packet q = Some p" "length p = 12 + unat (q_payload_size q)"
    using query_invD [OF inv] by blast
  then have "0 + sizeof netbios_query_packet \<le> length p" by simp
  from wr_field_total [OF f this] obtain p' where
    "wr_field netbios_query_packet f v p 0 = Some p'" "length p' = length p"
    "\<forall>k. 12 \<le> k \<longrightarrow> drop k p' = drop k p" by auto
  then show ?thesis using p inv
    by (auto simp: query_set_field_def query_inv_def query_content_def)
qed

lemma htons_range: "unat (htons x) mod 256 ^ 2 = unat (htons x)"
proof -
  have "unat (htons x) < 2 ^ LENGTH(16)" by (rule unsigned_less)
  then show ?thesis by simp
qed

text \<open>The flags, in host order.\<close>

definition query_flags :: "netbios_query \<Rightarrow> u16 option" where
  "query_flags q = map_option (\<lambda>v. ntohs (word_of_nat v)) (query_field ''flags'' q)"

lemma query_set_flags:
  assumes "query_set_field ''flags'' (unat (htons x)) q = Some q'"
  shows "query_flags q' = Some x"
  using query_field_set_same [OF assms, of 2]
  by (simp add: query_flags_def htons_range [simplified] netbios_query_packet_def)

lemma netbios_query_set_flag_spec:
  assumes inv: "query_inv q" and fl: "query_flags q = Some old"
  shows "\<exists>q'. netbios_query_set_flag (Some q) flag v = Some (Some q') \<and> query_inv q' \<and>
     query_flags q' = Some (if v then old OR flag else old AND NOT flag) \<and>
     query_content q' = query_content q \<and> q_payload_size q' = q_payload_size q \<and>
     (\<forall>g. g \<noteq> ''flags'' \<longrightarrow> query_field g q' = query_field g q)"
proof -
  let ?new = "if v then old OR flag else old AND NOT flag"
  have f: "map_of netbios_query_packet ''flags'' = Some 2" by (simp add: netbios_query_packet_def)
  obtain q' where q': "query_set_field ''flags'' (unat (htons ?new)) q = Some q'" "query_inv q'"
    "query_content q' = query_content q" "q_payload_size q' = q_payload_size q"
    using query_set_field_total [OF inv f] by blast
  from fl obtain n where n: "query_field ''flags'' q = Some n" "ntohs (word_of_nat n) = old"
    by (auto simp: query_flags_def)
  have "netbios_query_set_flag (Some q) flag v = Some (Some q')"
    using q'(1) n query_invD(1) [OF inv] by (auto simp: netbios_query_set_flag_def Let_def)
  then show ?thesis
    using q' query_set_flags [OF q'(1)] query_field_set_other [OF q'(1)] by metis
qed

lemma netbios_query_new_ok [wp_rules]:
  assumes c: "calm w0 w" and n: "unat n < 2 ^ 62"
    and Q: "\<And>q w'. query_inv q \<Longrightarrow> query_content q = [] \<Longrightarrow> q_payload_size q = n \<Longrightarrow> q_cursor q = 0 \<Longrightarrow>
      query_flags q = Some (let f = word_of_int (push_bit 11 opcode)
        in if is_query then f AND NOT 0x8000 else f OR 0x8000) \<Longrightarrow>
      (\<forall>g n. map_of netbios_query_packet g = Some n \<longrightarrow> g \<noteq> ''flags'' \<longrightarrow> query_field g q = Some 0) \<Longrightarrow>
      calm w0 w' \<Longrightarrow> Q (Some q, w')"
  shows "wp (netbios_query_new w n is_query opcode) Q"
proof -
  have mem: "mem_ok w" and io: "same_io w0 w" using c by (simp_all add: calm_def)
  let ?w = "alloc_tick (alloc_tick w)"
  have u: "unat (12 + n) = 12 + unat n" using n by (subst unat_word_add_nowrap) auto
  have 1: "c_calloc w 24 = (Some (replicate 24 0), alloc_tick w)"
    using mem_ok_alloc [OF mem, of 24] by (simp add: c_calloc_def)
  have 2: "c_calloc (alloc_tick w) (12 + n) = (Some (replicate (12 + unat n) 0), ?w)"
    using mem_ok_alloc [of "alloc_tick w" "12 + n"] mem u n by (simp add: c_calloc_def)
  let ?f = "word_of_int (push_bit 11 opcode) :: u16"
  define q0 where "q0 = \<lparr>q_payload_size = n, q_cursor = 0, q_packet = Some (replicate (12 + unat n) 0)\<rparr>"
  have inv0: "query_inv q0" "query_content q0 = []" "q_payload_size q0 = n" "q_cursor q0 = 0"
    by (simp_all add: query_inv_def q0_def query_content_def)
  have bz: "bytes_nat (replicate k 0) = 0" for k by (induction k) auto
  have z: "query_field g q0 = Some 0" if "map_of netbios_query_packet g = Some k" for g k
    using that offsetof_bound [OF that]
    by (simp add: query_field_def q0_def rd_field_def buf_read_def min_def bz)
  have f: "map_of netbios_query_packet ''flags'' = Some 2" by (simp add: netbios_query_packet_def)
  obtain q1 where q1: "query_set_field ''flags'' (unat (htons ?f)) q0 = Some q1" "query_inv q1"
    "query_content q1 = query_content q0" "q_payload_size q1 = q_payload_size q0"
    using query_set_field_total [OF inv0(1) f] by blast
  from netbios_query_set_flag_spec [OF q1(2) query_set_flags [OF q1(1)], of NETBIOS_FLAG_QUERY "\<not> is_query"]
  obtain q2 where q2: "netbios_query_set_flag (Some q1) NETBIOS_FLAG_QUERY (\<not> is_query) = Some (Some q2)"
    "query_inv q2" "query_flags q2 = Some (if \<not> is_query then ?f OR NETBIOS_FLAG_QUERY else ?f AND NOT NETBIOS_FLAG_QUERY)"
    "query_content q2 = query_content q1" "q_payload_size q2 = q_payload_size q1"
    "\<forall>g. g \<noteq> ''flags'' \<longrightarrow> query_field g q2 = query_field g q1" by blast
  have "unat (q_cursor q2) = 0"
    using length_query_content [OF q2(2)] q2(4) q1(3) inv0(2) by simp
  then have cur: "q_cursor q2 = 0" by (simp add: unat_eq_zero)
  have "netbios_query_new w n is_query opcode = Some (Some q2, ?w)"
    using 1 2 q1(1) q2(1) by (simp add: netbios_query_new_def q0_def)
  moreover have "Q (Some q2, ?w)"
  proof (rule Q)
    show "\<forall>g n. map_of netbios_query_packet g = Some n \<longrightarrow> g \<noteq> ''flags'' \<longrightarrow> query_field g q2 = Some 0"
      using z q2(6) query_field_set_other [OF q1(1)] by metis
    show "calm w0 ?w"
      using mem io same_io_trans [OF io] same_io_trans [OF same_io_tick same_io_tick]
      by (simp add: calm_def)
  qed (use q1 q2 inv0 cur in \<open>simp_all add: dsm_consts Let_def\<close>)
  ultimately show ?thesis by simp
qed

end
