(* ===== verification/Utils.thy ===== *)
theory Utils
  imports Packets
begin

text \<open>
  \<^verbatim>\<open>src/smb_utils.c\<close> (character-set conversion), \<^verbatim>\<open>src/smb_buffer.c\<close>
  (owned buffers) and the compatibility routines \<^verbatim>\<open>compat/strlcpy.c\<close> and
  \<^verbatim>\<open>compat/strndup.c\<close>. The converter behind \<^verbatim>\<open>iconv\<close> and the
  locale's charset are parts of the world; what is modelled here is the library's loop
  around them.
\<close>

section \<open>Character-set conversion: smb\_utils.c\<close>

definition current_encoding :: "world \<Rightarrow> string" where
  "current_encoding w = w_charset w"

text \<open>
  The loop over the growing output buffers \<^verbatim>\<open>for (mul = 4; mul < 16; mul++)\<close>. The result
  is the number of bytes written, the buffer (\<^term>\<open>None\<close> is the null pointer) and the
  world. The buffer has the allocated size; the converter's output is its beginning.
\<close>

fun smb_iconv_loop ::
  "nat list \<Rightarrow> world \<Rightarrow> string \<Rightarrow> string \<Rightarrow> byte list \<Rightarrow> (nat \<times> byte list option \<times> world) option" where
  "smb_iconv_loop [] w src_enc dst_enc src = Some (0, None, w)"
| "smb_iconv_loop (mul # muls) w src_enc dst_enc src =
     (let outlen = mul * length src;
          (out, w) = c_malloc w (word_of_nat outlen)
      in case out of
           None \<Rightarrow> Some (0, None, w)
         | Some buf \<Rightarrow>
             (case w_iconv w src_enc dst_enc src outlen of
                Iconv_ok bs \<Rightarrow> do { buf \<leftarrow> buf_write buf 0 bs; Some (length bs, Some buf, w) }
              | Iconv_E2BIG \<Rightarrow> smb_iconv_loop muls w src_enc dst_enc src
              | Iconv_err \<Rightarrow> Some (0, None, w)))"

definition smb_iconv ::
  "world \<Rightarrow> byte list \<Rightarrow> string \<Rightarrow> string \<Rightarrow> (nat \<times> byte list option \<times> world) option" where
  "smb_iconv w src src_enc dst_enc =
     (if src = [] then Some (0, None, w)
      else if \<not> w_iconv_open w dst_enc src_enc then Some (0, None, w)
      else do {
        (ret, dst, w) \<leftarrow> smb_iconv_loop [4..<16] w src_enc dst_enc src;
        Some (ret, (if ret = 0 then None else dst), w)
      })"

definition smb_to_utf16 :: "world \<Rightarrow> byte list \<Rightarrow> (nat \<times> byte list option \<times> world) option" where
  "smb_to_utf16 w src = smb_iconv w src (current_encoding w) ''UCS-2LE''"

definition smb_from_utf16 :: "world \<Rightarrow> byte list \<Rightarrow> (nat \<times> byte list option \<times> world) option" where
  "smb_from_utf16 w src = smb_iconv w src ''UCS-2LE'' (current_encoding w)"

text \<open>
  What the code relies on about the converter: it never writes more than the room it was
  given.
\<close>

definition iconv_fits :: "world \<Rightarrow> bool" where
  "iconv_fits w \<longleftrightarrow>
     (\<forall>a b src n out. w_iconv w a b src n = Iconv_ok out \<longrightarrow> length out \<le> n)"

text \<open>The size of an output buffer is representable: no wrap in \<^verbatim>\<open>mul * src_len\<close>.\<close>

definition conv_small :: "byte list \<Rightarrow> bool" where
  "conv_small src \<longleftrightarrow> length src < 2 ^ 57"

lemma iconv_fits_same_io: "same_io w w' \<Longrightarrow> iconv_fits w' = iconv_fits w"
  by (simp add: iconv_fits_def same_io_fields)

text \<open>The conversion loop returns normally, with the converter's output in a large enough buffer.\<close>

lemma smb_iconv_loop_wp:
  assumes "iconv_fits w" and "conv_small src" and "list_all (\<lambda>m. m < 16) muls"
  shows "wp (smb_iconv_loop muls w se de src) (\<lambda>(ret, dst, w').
     same_io w w' \<and> (mem_ok w \<longrightarrow> mem_ok w') \<and>
     (case dst of None \<Rightarrow> ret = 0
      | Some buf \<Rightarrow> \<exists>m \<in> set muls. \<exists>out. w_iconv w se de src (m * length src) = Iconv_ok out
          \<and> ret = length out \<and> take ret buf = out \<and> length buf = m * length src))"
  using assms
proof (induction muls arbitrary: w)
  case Nil
  show ?case by simp
next
  case (Cons m ms)
  let ?n = "m * length src"
  obtain r w1 where mal: "c_malloc w (word_of_nat ?n) = (r, w1)" by fastforce
  note mp = c_malloc_props [OF mal]
  note io = same_io_fields [OF mp(1)]
  from Cons.prems have m: "m < 16" and "length src < 2 ^ 57" by (auto simp: conv_small_def)
  then have "?n < 16 * 2 ^ 57" by (intro mult_strict_mono) auto
  then have n64: "?n < 2 ^ 64" by simp
  show ?case
  proof (cases r)
    case None
    with mal mp show ?thesis by simp
  next
    case (Some buf)
    have lb: "length buf = ?n"
      using mp(2) [OF Some] unat_u64_of_nat [OF n64] by (simp only:)
    show ?thesis
    proof (cases "w_iconv w se de src ?n")
      case (Iconv_ok out)
      with Cons.prems(1) have le: "length out \<le> ?n" by (auto simp: iconv_fits_def)
      have "wp (buf_write buf 0 out) (\<lambda>b. b = out @ drop (length out) buf)"
        using le lb by (simp add: buf_write_def)
      then show ?thesis
        using mal Some Iconv_ok mp(1,3) io(7) le lb
        by (auto simp: wp_iff)
    next
      case Iconv_E2BIG
      have fits: "iconv_fits w1" using Cons.prems(1) iconv_fits_same_io [OF mp(1)] by simp
      have "wp (smb_iconv_loop ms w1 se de src) (\<lambda>(ret, dst, w').
         same_io w1 w' \<and> (mem_ok w1 \<longrightarrow> mem_ok w') \<and>
         (case dst of None \<Rightarrow> ret = 0
          | Some buf \<Rightarrow> \<exists>m \<in> set ms. \<exists>out. w_iconv w1 se de src (m * length src) = Iconv_ok out
              \<and> ret = length out \<and> take ret buf = out \<and> length buf = m * length src))"
        using Cons.prems by (intro Cons.IH fits) auto
      then have "wp (smb_iconv_loop ms w1 se de src) (\<lambda>(ret, dst, w').
         same_io w w' \<and> (mem_ok w \<longrightarrow> mem_ok w') \<and>
         (case dst of None \<Rightarrow> ret = 0
          | Some buf \<Rightarrow> \<exists>m' \<in> set (m # ms). \<exists>out. w_iconv w se de src (m' * length src) = Iconv_ok out
              \<and> ret = length out \<and> take ret buf = out \<and> length buf = m' * length src))"
        by (rule wp_mono)
          (use mp(1,3) io(7) in \<open>auto intro: same_io_trans split: option.splits\<close>)
      then show ?thesis using mal Some Iconv_E2BIG io(7) by simp
    next
      case Iconv_err
      with mal Some mp io(7) show ?thesis by simp
    qed
  qed
qed

lemma smb_iconv_wp:
  assumes "iconv_fits w" and "conv_small src"
  shows "wp (smb_iconv w src se de) (\<lambda>(ret, dst, w').
     same_io w w' \<and> (mem_ok w \<longrightarrow> mem_ok w') \<and> (dst = None \<longleftrightarrow> ret = 0) \<and>
     (\<forall>buf. dst = Some buf \<longrightarrow>
        (\<exists>m \<in> {4..<16}. \<exists>out. w_iconv w se de src (m * length src) = Iconv_ok out
          \<and> ret = length out \<and> take ret buf = out \<and> length buf = m * length src)))"
proof (cases "src = [] \<or> \<not> w_iconv_open w de se")
  case True
  then show ?thesis by (auto simp: smb_iconv_def)
next
  case False
  have "list_all (\<lambda>m. m < 16) [4..<16]" by (simp add: list_all_iff)
  from smb_iconv_loop_wp [OF assms this, of se de] show ?thesis
    using False
    by (simp add: smb_iconv_def split_def) (erule wp_mono, auto split: option.splits)
qed

text \<open>
  What the conversion yields when no allocation fails: the converter's answer for the first
  buffer size that is not too small, nothing where there is none or where it rejects the text.
\<close>

fun first_fit :: "iconv_result list \<Rightarrow> byte list" where
  "first_fit [] = []"
| "first_fit (Iconv_ok out # rs) = out"
| "first_fit (Iconv_E2BIG # rs) = first_fit rs"
| "first_fit (Iconv_err # rs) = []"

definition conv_out :: "world \<Rightarrow> string \<Rightarrow> string \<Rightarrow> byte list \<Rightarrow> byte list" where
  "conv_out w se de src =
     (if src = [] \<or> \<not> w_iconv_open w de se then []
      else first_fit (map (\<lambda>m. w_iconv w se de src (m * length src)) [4..<16]))"

abbreviation utf16_of :: "world \<Rightarrow> byte list \<Rightarrow> byte list" where
  "utf16_of w \<equiv> conv_out w (w_charset w) ''UCS-2LE''"

abbreviation utf16_to :: "world \<Rightarrow> byte list \<Rightarrow> byte list" where
  "utf16_to w \<equiv> conv_out w ''UCS-2LE'' (w_charset w)"

definition holds_text :: "byte list \<Rightarrow> byte list option \<Rightarrow> bool" where
  "holds_text out buf \<longleftrightarrow> (buf = None \<longleftrightarrow> out = []) \<and>
     (\<forall>b. buf = Some b \<longrightarrow> length out \<le> length b \<and> take (length out) b = out)"

lemma conv_out_same_io: "same_io w w' \<Longrightarrow> conv_out w' = conv_out w"
  by (intro ext) (simp add: conv_out_def same_io_fields)

lemma smb_iconv_loop_ok:
  assumes "mem_ok w" and "iconv_fits w" and "conv_small src" and "list_all (\<lambda>m. m < 16) muls"
  shows "wp (smb_iconv_loop muls w se de src) (\<lambda>(ret, dst, w').
     mem_ok w' \<and> same_io w w' \<and>
     (let out = first_fit (map (\<lambda>m. w_iconv w se de src (m * length src)) muls)
      in ret = length out \<and> (out \<noteq> [] \<longrightarrow> holds_text out dst)))"
  using assms
proof (induction muls arbitrary: w)
  case Nil
  then show ?case by simp
next
  case (Cons m ms)
  let ?n = "m * length src"
  obtain r w1 where mal: "c_malloc w (word_of_nat ?n) = (r, w1)" by fastforce
  note mp = c_malloc_props [OF mal]
  note io = same_io_fields [OF mp(1)]
  from Cons.prems have m: "m < 16" and "length src < 2 ^ 57" by (auto simp: conv_small_def)
  then have "?n < 16 * 2 ^ 57" by (intro mult_strict_mono) auto
  then have n63: "?n < 2 ^ 63" by simp
  then have n64: "?n < 2 ^ 64" by simp
  have un: "unat (word_of_nat ?n :: u64) = ?n" using unat_u64_of_nat [OF n64] .
  with mp(4) Cons.prems(1) n63 have "r \<noteq> None" by simp
  then obtain buf where r: "r = Some buf" by blast
  have lb: "length buf = ?n" using mp(2) [OF r] un by simp
  show ?case
  proof (cases "w_iconv w se de src ?n")
    case (Iconv_ok out)
    with Cons.prems(2) have le: "length out \<le> ?n" by (auto simp: iconv_fits_def)
    have "buf_write buf 0 out = Some (out @ drop (length out) buf)"
      using le lb by (simp add: buf_write_def)
    then show ?thesis
      using mal r Iconv_ok mp(1,3) Cons.prems(1) io(7) by (simp add: holds_text_def)
  next
    case Iconv_E2BIG
    have "iconv_fits w1" using Cons.prems(2) iconv_fits_same_io [OF mp(1)] by simp
    from Cons.IH [OF _ this] Cons.prems mp(3)
    have "wp (smb_iconv_loop ms w1 se de src) (\<lambda>(ret, dst, w').
       mem_ok w' \<and> same_io w1 w' \<and>
       (let out = first_fit (map (\<lambda>m. w_iconv w1 se de src (m * length src)) ms)
        in ret = length out \<and> (out \<noteq> [] \<longrightarrow> holds_text out dst)))" by simp
    then show ?thesis
      using mal r Iconv_E2BIG io(7)
      by simp (erule wp_mono, auto simp: Let_def intro: same_io_trans [OF mp(1)])
  next
    case Iconv_err
    with mal r mp io(7) Cons.prems(1) show ?thesis by simp
  qed
qed

text \<open>\<open>smb_iconv\<close> computes \<open>conv_out\<close>.\<close>

lemma smb_iconv_ok:
  assumes c: "calm w0 w" and "iconv_fits w0" and "conv_small src"
    and Q: "\<And>dst w'. calm w0 w' \<Longrightarrow> holds_text (conv_out w0 se de src) dst
      \<Longrightarrow> Q (length (conv_out w0 se de src), dst, w')"
  shows "wp (smb_iconv w src se de) Q"
proof -
  have io: "same_io w0 w" and mem: "mem_ok w" using c by (simp_all add: calm_def)
  note eq = conv_out_same_io [OF io] and f = same_io_fields [OF io]
  show ?thesis
  proof (cases "src = [] \<or> \<not> w_iconv_open w de se")
    case True
    then have "conv_out w0 se de src = []" using f by (simp add: conv_out_def)
    with True Q [of w None] c show ?thesis by (auto simp: smb_iconv_def holds_text_def)
  next
    case False
    have fits: "iconv_fits w" using assms(2) iconv_fits_same_io [OF io] by simp
    have "list_all (\<lambda>m. m < 16) [4..<16]" by (simp add: list_all_iff)
    note loop = smb_iconv_loop_ok [OF mem fits assms(3) this, of se de]
    have out: "conv_out w0 se de src
        = first_fit (map (\<lambda>m. w_iconv w se de src (m * length src)) [4..<16])"
      using False f unfolding conv_out_def by simp
    have "wp (smb_iconv_loop [4..<16] w se de src) (\<lambda>(ret, dst, w').
        wp (Some (ret, (if ret = 0 then None else dst), w')) Q)"
      using loop unfolding out [symmetric]
    proof (rule wp_mono, clarify)
      fix ret dst w'
      assume a: "mem_ok w'" "same_io w w'" "let out = conv_out w0 se de src
        in ret = length out \<and> (out \<noteq> [] \<longrightarrow> holds_text out dst)"
      then have "calm w0 w'" using same_io_trans [OF io] by (simp add: calm_def)
      with a Q [OF this, of "if ret = 0 then None else dst"]
      show "wp (Some (ret, (if ret = 0 then None else dst), w')) Q"
        by (auto simp: Let_def holds_text_def split: if_splits)
    qed
    with False show ?thesis by (simp add: smb_iconv_def split_def)
  qed
qed

lemma smb_to_utf16_ok [wp_rules]:
  assumes "calm w0 w" and "iconv_fits w0" and "conv_small src"
    and "\<And>dst w'. calm w0 w' \<Longrightarrow> holds_text (utf16_of w0 src) dst
      \<Longrightarrow> Q (length (utf16_of w0 src), dst, w')"
  shows "wp (smb_to_utf16 w src) Q"
  using assms smb_iconv_ok [OF assms(1-3)] same_io_fields [OF calm_fields(2) [OF assms(1)]]
  by (simp add: smb_to_utf16_def current_encoding_def)

lemma smb_from_utf16_ok [wp_rules]:
  assumes "calm w0 w" and "iconv_fits w0" and "conv_small src"
    and "\<And>dst w'. calm w0 w' \<Longrightarrow> holds_text (utf16_to w0 src) dst
      \<Longrightarrow> Q (length (utf16_to w0 src), dst, w')"
  shows "wp (smb_from_utf16 w src) Q"
  using assms smb_iconv_ok [OF assms(1-3)] same_io_fields [OF calm_fields(2) [OF assms(1)]]
  by (simp add: smb_from_utf16_def current_encoding_def)

text \<open>The output is never longer than fifteen times the input.\<close>

lemma first_fit_length:
  "(\<And>r out. r \<in> set rs \<Longrightarrow> r = Iconv_ok out \<Longrightarrow> length out \<le> b) \<Longrightarrow> length (first_fit rs) \<le> b"
  by (induction rs rule: first_fit.induct) auto

lemma conv_out_length:
  assumes "iconv_fits w"
  shows "length (conv_out w se de src) \<le> 15 * length src"
proof -
  have "length out \<le> 15 * length src"
    if r: "r \<in> set (map (\<lambda>m. w_iconv w se de src (m * length src)) [4..<16])" "r = Iconv_ok out" for r out
  proof -
    from r(1) obtain m where "m \<in> set [4..<16]" and rm: "r = w_iconv w se de src (m * length src)"
      unfolding set_map by blast
    then have "m < 16" by auto
    have "length out \<le> m * length src"
      using r(2) assms rm by (auto simp: iconv_fits_def)
    also have "\<dots> \<le> 15 * length src" using \<open>m < 16\<close> by (intro mult_right_mono) auto
    finally show ?thesis .
  qed
  then show ?thesis unfolding conv_out_def by (auto intro!: first_fit_length)
qed

section \<open>Owned buffers: smb\_buffer.c\<close>

record smb_buffer =
  buf_data :: "byte list option"
  buf_size :: u64

definition smb_buffer_init :: "byte list option \<Rightarrow> u64 \<Rightarrow> smb_buffer" where
  "smb_buffer_init data sz = \<lparr>buf_data = data, buf_size = sz\<rparr>"

definition smb_buffer_alloc :: "world \<Rightarrow> smb_buffer \<Rightarrow> u64 \<Rightarrow> int \<times> smb_buffer \<times> world" where
  "smb_buffer_alloc w buf sz =
     (let (d, w) = c_malloc w sz; buf = buf\<lparr>buf_data := d\<rparr>
      in if d \<noteq> None then (1, buf\<lparr>buf_size := sz\<rparr>, w) else (0, buf, w))"

definition smb_buffer_free :: "smb_buffer option \<Rightarrow> smb_buffer option" where
  "smb_buffer_free buf =
     (case buf of None \<Rightarrow> None
      | Some b \<Rightarrow> (if buf_data b = None then Some b else Some (smb_buffer_init None 0)))"

text \<open>
  A buffer is well formed when its data, if any, has its size; \<open>smb_buffer_alloc\<close> makes it
  so on success. On failure it drops the data and keeps the size the caller had stored.
\<close>

definition smb_buffer_wf :: "smb_buffer \<Rightarrow> bool" where
  "smb_buffer_wf b \<longleftrightarrow> (case buf_data b of None \<Rightarrow> True | Some d \<Rightarrow> length d = unat (buf_size b))"

lemma smb_buffer_alloc_result:
  "smb_buffer_alloc w buf sz = (r, b, w') \<Longrightarrow>
     smb_buffer_wf b \<and> same_io w w' \<and> (r = 1 \<and> buf_data b \<noteq> None \<and> buf_size b = sz
      \<or> r = 0 \<and> buf_data b = None \<and> buf_size b = buf_size buf)"
  by (auto simp: smb_buffer_alloc_def smb_buffer_wf_def c_malloc_def split: if_splits)

section \<open>compat/strlcpy.c and compat/strndup.c\<close>

text \<open>
  The source string is given with its NUL in \<open>src\<close>. The loop copies while \<open>n\<close> lasts; the
  result is the destination's bytes and the length of the source. Reading past the object
  that holds the source is a fault.
\<close>

fun strlcpy_copy :: "nat \<Rightarrow> byte list \<Rightarrow> (byte list \<times> nat \<times> bool) option" where
  "strlcpy_copy 0 s = Some ([], 0, False)"
| "strlcpy_copy (Suc n) [] = None"
| "strlcpy_copy (Suc n) (c # s) =
     (if c = 0 then Some ([0], 1, True)
      else do { (d, k, stop) \<leftarrow> strlcpy_copy n s; Some (c # d, Suc k, stop) })"

fun strlcpy_rest :: "byte list \<Rightarrow> nat option" where
  "strlcpy_rest [] = None"
| "strlcpy_rest (c # s) = (if c = 0 then Some 1 else map_option Suc (strlcpy_rest s))"

definition strlcpy :: "byte list \<Rightarrow> byte list \<Rightarrow> nat \<Rightarrow> (byte list \<times> nat) option" where
  "strlcpy dst src siz =
     (if siz = 0 then do { k \<leftarrow> strlcpy_rest src; Some (dst, k - 1) }
      else do {
        (d, k, stop) \<leftarrow> strlcpy_copy (siz - 1) src;
        if stop then do { dst \<leftarrow> buf_write dst 0 d; Some (dst, k - 1) }
        else do {
          dst \<leftarrow> buf_write dst 0 (d @ [0]);
          j \<leftarrow> strlcpy_rest (drop k src);
          Some (dst, k + j - 1)
        }
      })"

definition strndup :: "world \<Rightarrow> cstring \<Rightarrow> nat \<Rightarrow> cstring option \<times> world" where
  "strndup w str n =
     (let len = min (length str) n; (copy, w) = c_malloc w (word_of_nat (len + 1))
      in case copy of None \<Rightarrow> (None, w) | Some _ \<Rightarrow> (Some (take len str), w))"

lemma strlcpy_rest_string: "0 \<notin> set s \<Longrightarrow> strlcpy_rest (s @ 0 # t) = Some (length s + 1)"
  by (induction s) auto

lemma strlcpy_copy_short:
  "0 \<notin> set s \<Longrightarrow> length s < n \<Longrightarrow> strlcpy_copy n (s @ 0 # t) = Some (s @ [0], length s + 1, True)"
proof (induction s arbitrary: n)
  case Nil
  then show ?case by (cases n) auto
next
  case (Cons c s)
  then show ?case by (cases n) auto
qed

lemma strlcpy_copy_long:
  "0 \<notin> set s \<Longrightarrow> n \<le> length s \<Longrightarrow> strlcpy_copy n (s @ t) = Some (take n s, n, False)"
proof (induction n arbitrary: s)
  case 0
  then show ?case by simp
next
  case (Suc n)
  then show ?case by (cases s) auto
qed

text \<open>
  \<^verbatim>\<open>strlcpy\<close> into a buffer of at least \<open>siz > 0\<close> bytes stores the longest prefix
  of the string that fits together with its NUL, and returns the string's length.
\<close>

lemma strlcpy_result:
  assumes "0 \<notin> set s" and "0 < siz" and "siz \<le> length dst"
  shows "strlcpy dst (s @ 0 # t) siz
     = Some (take (siz - 1) s @ 0 # drop (min (length s) (siz - 1) + 1) dst, length s)"
proof (cases "length s < siz - 1")
  case True
  then show ?thesis
    using assms strlcpy_copy_short [OF assms(1) True, of t] by (simp add: strlcpy_def buf_write_def min_def)
next
  case False
  then have le: "siz - 1 \<le> length s" by simp
  have "0 \<notin> set (drop (siz - 1) s)" using assms(1) by (meson in_set_dropD)
  from strlcpy_rest_string [OF this, of t] le
  have "strlcpy_rest (drop (siz - 1) (s @ 0 # t)) = Some (length s - (siz - 1) + 1)" by simp
  then show ?thesis
    using assms le strlcpy_copy_long [OF assms(1) le, of "0 # t"]
    by (simp add: strlcpy_def buf_write_def min_def)
qed

end
