(* ===== verification/Netbios_Session.thy ===== *)
theory Netbios_Session
  imports Netbios_Utils
begin

text \<open>
  \<^verbatim>\<open>src/netbios_session.c\<close>: the TCP connection that carries SMB frames. One buffer
  serves for sending and receiving; it is reallocated when a frame does not fit.

  Sockets are scripts of events in the world (see \<open>Prelude\<close>); a wait consumes them. The main
  results: what is received depends only on the byte stream of the peer, not on how TCP cuts
  it into chunks, and keep-alives are skipped; what is sent is the frame of what was
  appended; and the exact condition under which an append stays inside the buffer.
\<close>

section \<open>Data and constants\<close>

record netbios_session =
  abort_ctx :: netbios_abort_ctx
  remote_addr :: "u16 \<times> u32" \<comment> \<open>port and address, both in network order\<close>
  ns_socket :: int
  ns_state :: int
  packet_payload_size :: u64
  packet_cursor :: u64
  ns_packet :: "byte list option"

definition NETBIOS_SESSION_NEW :: int where [dsm_consts]: "NETBIOS_SESSION_NEW = 0"
definition NETBIOS_SESSION_CONNECTING :: int where [dsm_consts]: "NETBIOS_SESSION_CONNECTING = 1"
definition NETBIOS_SESSION_CONNECTED :: int where [dsm_consts]: "NETBIOS_SESSION_CONNECTED = 2"
definition NETBIOS_SESSION_ERROR :: int where [dsm_consts]: "NETBIOS_SESSION_ERROR = - 1"
definition NETBIOS_SESSION_REFUSED :: int where [dsm_consts]: "NETBIOS_SESSION_REFUSED = - 2"

definition NETBIOS_OP_SESSION_MSG :: nat where [dsm_consts]: "NETBIOS_OP_SESSION_MSG = 0"
definition NETBIOS_OP_SESSION_REQ :: nat where [dsm_consts]: "NETBIOS_OP_SESSION_REQ = 0x81"
definition NETBIOS_OP_SESSION_REQ_OK :: nat where [dsm_consts]: "NETBIOS_OP_SESSION_REQ_OK = 0x82"
definition NETBIOS_OP_SESSION_KEEPALIVE :: nat where [dsm_consts]: "NETBIOS_OP_SESSION_KEEPALIVE = 0x85"

definition NETBIOS_PORT_SESSION :: u16 where [dsm_consts]: "NETBIOS_PORT_SESSION = 139"
definition NETBIOS_PORT_DIRECT :: u16 where [dsm_consts]: "NETBIOS_PORT_DIRECT = 445"
definition NETBIOS_PORT_DIRECT_SECONDARY :: u16 where [dsm_consts]: "NETBIOS_PORT_DIRECT_SECONDARY = 139"

definition NETBIOS_FILESERVER :: u32 where [dsm_consts]: "NETBIOS_FILESERVER = 0x20"
definition NETBIOS_WORKSTATION :: u32 where [dsm_consts]: "NETBIOS_WORKSTATION = 0"

definition DSM_SUCCESS :: int where [dsm_consts]: "DSM_SUCCESS = 0"
definition DSM_ERROR_GENERIC :: int where [dsm_consts]: "DSM_ERROR_GENERIC = - 1"
definition DSM_ERROR_NT :: int where [dsm_consts]: "DSM_ERROR_NT = - 2"
definition DSM_ERROR_NETWORK :: int where [dsm_consts]: "DSM_ERROR_NETWORK = - 3"
definition DSM_ERROR_CHARSET :: int where [dsm_consts]: "DSM_ERROR_CHARSET = - 4"

section \<open>Connecting, allocating\<close>

definition open_socket_and_connect :: "world \<Rightarrow> netbios_session \<Rightarrow> int \<times> netbios_session \<times> world" where
  "open_socket_and_connect w s =
     (case w_conn w of
        [] \<Rightarrow> (DSM_ERROR_NETWORK, s\<lparr>ns_socket := - 1\<rparr>, w)
      | e # es \<Rightarrow>
          (let w = w\<lparr>w_conn := es\<rparr>
           in case e of
                Conn_nosocket \<Rightarrow> (DSM_ERROR_NETWORK, s\<lparr>ns_socket := - 1\<rparr>, w)
              | Conn_fail fd \<Rightarrow> (DSM_ERROR_NETWORK, s\<lparr>ns_socket := int fd\<rparr>, w)
              | Conn_abort fd \<Rightarrow>
                  (DSM_ERROR_GENERIC,
                   s\<lparr>ns_socket := int fd, abort_ctx := netbios_abort_ctx_abort (abort_ctx s)\<rparr>, w)
              | Conn_ok fd \<Rightarrow> (DSM_SUCCESS, s\<lparr>ns_socket := int fd\<rparr>, w)))"

definition session_buffer_realloc ::
  "world \<Rightarrow> netbios_session \<Rightarrow> u64 \<Rightarrow> int \<times> netbios_session \<times> world" where
  "session_buffer_realloc w s new_size =
     (let (new_ptr, w) = c_realloc w (ns_packet s) new_size
      in case new_ptr of
           Some p \<Rightarrow> (1, s\<lparr>packet_payload_size := new_size, ns_packet := Some p\<rparr>, w)
         | None \<Rightarrow> (0, s\<lparr>ns_packet := None\<rparr>, w))"

text \<open>\<^verbatim>\<open>calloc(1, sizeof(netbios_session))\<close>, of 56 bytes, then the pipe and the packet.\<close>

definition netbios_session_new :: "world \<Rightarrow> u64 \<Rightarrow> netbios_session option \<times> world" where
  "netbios_session_new w buf_size =
     (let (obj, w) = c_calloc w 56
      in if obj = None then (None, w)
         else
           (let (r, ctx, w) = netbios_abort_ctx_init w
            in if r \<noteq> 0 then (None, w)
               else
                 (let packet_size = word_of_nat (sizeof netbios_session_packet) + buf_size;
                      (p, w) = c_malloc w packet_size
                  in if p = None then (None, w)
                     else (Some \<lparr>abort_ctx = ctx, remote_addr = (0, 0), ns_socket = - 1,
                                 ns_state = NETBIOS_SESSION_NEW, packet_payload_size = buf_size,
                                 packet_cursor = 0, ns_packet = p\<rparr>, w))))"

definition netbios_session_disconnect :: "netbios_session option \<Rightarrow> netbios_session option" where
  "netbios_session_disconnect s =
     (case s of None \<Rightarrow> None
      | Some s \<Rightarrow> Some (if ns_socket s \<noteq> - 1 then s\<lparr>ns_socket := - 1\<rparr> else s))"

definition netbios_session_destroy :: "netbios_session option \<Rightarrow> netbios_session option" where
  "netbios_session_destroy s = None"

definition netbios_session_abort :: "netbios_session \<Rightarrow> netbios_session" where
  "netbios_session_abort s = s\<lparr>abort_ctx := netbios_abort_ctx_abort (abort_ctx s)\<rparr>"

section \<open>Sending\<close>

text \<open>An assignment to a member of the packet header.\<close>

definition session_set_field :: "string \<Rightarrow> nat \<Rightarrow> netbios_session \<Rightarrow> netbios_session option" where
  "session_set_field f v s = do {
     p \<leftarrow> ns_packet s;
     p \<leftarrow> wr_field netbios_session_packet f v p 0;
     Some (s\<lparr>ns_packet := Some p\<rparr>)
   }"

definition netbios_session_packet_init :: "netbios_session \<Rightarrow> netbios_session option" where
  "netbios_session_packet_init s = do {
     let s = s\<lparr>packet_cursor := 0\<rparr>;
     s \<leftarrow> session_set_field ''flags'' 0 s;
     session_set_field ''opcode'' NETBIOS_OP_SESSION_MSG s
   }"

definition netbios_session_packet_append ::
  "world \<Rightarrow> netbios_session \<Rightarrow> byte list \<Rightarrow> u64 \<Rightarrow> (int \<times> netbios_session \<times> world) option" where
  "netbios_session_packet_append w s data sz = do {
     c_assert (ns_packet s \<noteq> None);
     let (ok, s, w) =
       (if packet_payload_size s - packet_cursor s < sz
        then session_buffer_realloc w s
               (sz + packet_cursor s + word_of_nat (sizeof netbios_session_packet))
        else (1, s, w));
     if ok = 0 then Some (0, s, w)
     else do {
       p \<leftarrow> ns_packet s;
       src \<leftarrow> buf_read data 0 (unat sz);
       p \<leftarrow> buf_write p (sizeof netbios_session_packet + unat (packet_cursor s)) src;
       Some (1, s\<lparr>ns_packet := Some p, packet_cursor := packet_cursor s + sz\<rparr>, w)
     }
   }"

text \<open>
  The wait for the socket to become writable and the write: \<^term>\<open>None\<close> when the wait
  fails or is aborted, else what \<^verbatim>\<open>send\<close> returns when asked for \<open>n\<close> bytes.
\<close>

fun tx_wait :: "tx_event list \<Rightarrow> nat \<Rightarrow> nat option \<times> bool \<times> tx_event list" where
  "tx_wait [] n = (Some n, False, [])"
| "tx_wait (Tx_ok # es) n = (Some n, False, es)"
| "tx_wait (Tx_short k # es) n = (Some (min k n), False, es)"
| "tx_wait (Tx_select_error # es) n = (None, False, es)"
| "tx_wait (Tx_abort # es) n = (None, True, es)"
| "tx_wait (Tx_idle # es) n = tx_wait es n"

definition note_abort :: "bool \<Rightarrow> netbios_session \<Rightarrow> netbios_session" where
  "note_abort ab s = (if ab then netbios_session_abort s else s)"

definition netbios_session_packet_send ::
  "world \<Rightarrow> netbios_session \<Rightarrow> (int \<times> netbios_session \<times> world) option" where
  "netbios_session_packet_send w s = do {
     c_assert (ns_packet s \<noteq> None \<and> ns_socket s \<ge> 0 \<and> ns_state s > 0);
     s \<leftarrow> session_set_field ''length'' (unat (htons (ucast (packet_cursor s)))) s;
     let to_send = sizeof netbios_session_packet + unat (packet_cursor s);
     ab \<leftarrow> netbios_abort_ctx_is_aborted (abort_ctx s);
     if ab then Some (0, s, w)
     else
       (let (sent, ab, es) = tx_wait (w_tx w) to_send; w = w\<lparr>w_tx := es\<rparr>; s = note_abort ab s
        in case sent of
             None \<Rightarrow> Some (0, s, w)
           | Some k \<Rightarrow> do {
               p \<leftarrow> ns_packet s;
               bytes \<leftarrow> buf_read p 0 to_send;
               let w = w\<lparr>w_sent := w_sent w @ [take k bytes]\<rparr>;
               if k \<noteq> to_send then Some (0, s, w)
               else Some (sint (word_of_nat k :: u32), s, w)
             })
   }"

section \<open>Receiving\<close>

text \<open>
  The wait for data and \<^verbatim>\<open>recv\<close> of at most \<open>len\<close> bytes: the value returned, the
  bytes, whether an abort was noticed, and the events still to come.
\<close>

fun rx_wait :: "rx_event list \<Rightarrow> nat \<Rightarrow> int \<times> byte list \<times> bool \<times> rx_event list" where
  "rx_wait [] len = (0, [], False, [])"
| "rx_wait (Rx_data bs # es) len =
     (let n = min len (length bs)
      in (int n, take n bs, False, if n < length bs then Rx_data (drop n bs) # es else es))"
| "rx_wait (Rx_select_error # es) len = (- 1, [], False, es)"
| "rx_wait (Rx_abort # es) len = (- 1, [], True, es)"
| "rx_wait (Rx_error # es) len = (- 1, [], False, es)"
| "rx_wait (Rx_idle # es) len = rx_wait es len"

definition netbios_session_recv ::
  "world \<Rightarrow> netbios_session \<Rightarrow> nat \<Rightarrow> (int \<times> byte list \<times> netbios_session \<times> world) option" where
  "netbios_session_recv w s len = do {
     ab \<leftarrow> netbios_abort_ctx_is_aborted (abort_ctx s);
     if ab then Some (- 1, [], s, w)
     else (let (res, bs, ab, es) = rx_wait (w_rx w) len
           in Some (res, bs, note_abort ab s, w\<lparr>w_rx := es\<rparr>))
   }"

text \<open>The two \<^verbatim>\<open>while (sofar < total)\<close> loops, which differ in where they store.\<close>

function session_recv_all ::
  "world \<Rightarrow> netbios_session \<Rightarrow> nat \<Rightarrow> nat \<Rightarrow> nat \<Rightarrow> (bool \<times> netbios_session \<times> world) option" where
  "session_recv_all w s base sofar tot =
     (if sofar < tot then do {
        (res, bs, s', w') \<leftarrow> netbios_session_recv w s (tot - sofar);
        if res \<le> 0 then Some (False, s', w')
        else do {
          p \<leftarrow> ns_packet s';
          p \<leftarrow> buf_write p (base + sofar) bs;
          session_recv_all w' (s'\<lparr>ns_packet := Some p\<rparr>) base (sofar + nat res) tot
        }
      }
      else Some (True, s, w))"
  by pat_completeness auto
termination
  by (relation "measure (\<lambda>(w, s, base, sofar, tot). tot - sofar)") auto

declare session_recv_all.simps [simp del]

definition netbios_session_get_next_packet ::
  "world \<Rightarrow> netbios_session \<Rightarrow> (int \<times> netbios_session \<times> world) option" where
  "netbios_session_get_next_packet w s = do {
     c_assert (ns_packet s \<noteq> None \<and> ns_socket s \<ge> 0 \<and> ns_state s > 0);
     (ok, s, w) \<leftarrow> session_recv_all w s 0 0 (sizeof netbios_session_packet);
     if \<not> ok then Some (- 1, s, w)
     else do {
       p \<leftarrow> ns_packet s;
       len \<leftarrow> rd_field netbios_session_packet ''length'' p 0;
       flags \<leftarrow> rd_field netbios_session_packet ''flags'' p 0;
       let tot = unat (ntohs (word_of_nat len)) OR push_bit 16 (flags AND 1);
       let (ok, s, w) =
         (if tot + sizeof netbios_session_packet > unat (packet_payload_size s)
          then session_buffer_realloc w s (word_of_nat (tot + sizeof netbios_session_packet))
          else (1, s, w));
       if ok = 0 then Some (- 1, s, w)
       else do {
         (ok, s, w) \<leftarrow> session_recv_all w s (sizeof netbios_session_packet) 0 tot;
         if \<not> ok then Some (- 1, s, w) else Some (int tot, s, w)
       }
     }
   }"

text \<open>How much an event list can still deliver; every frame received makes it smaller.\<close>

fun rx_size :: "rx_event list \<Rightarrow> nat" where
  "rx_size [] = 0"
| "rx_size (Rx_data bs # es) = Suc (length bs) + rx_size es"
| "rx_size (e # es) = Suc (rx_size es)"

lemma rx_wait_size:
  "rx_wait es len = (res, bs, ab, es') \<Longrightarrow> rx_size es' \<le> rx_size es \<and> (res > 0 \<longrightarrow> rx_size es' < rx_size es)"
  by (induction es len rule: rx_wait.induct) (auto simp: Let_def split: if_splits)

lemma netbios_session_recv_cases:
  assumes "netbios_session_recv w s len = Some (res, bs, s', w')"
  obtains "res = - 1" "s' = s" "w' = w"
  | ab es where "rx_wait (w_rx w) len = (res, bs, ab, es)" "s' = note_abort ab s" "w' = w\<lparr>w_rx := es\<rparr>"
proof -
  obtain r b ab es where rx: "rx_wait (w_rx w) len = (r, b, ab, es)" by (rule prod_cases4)
  from assms rx consider "res = - 1" "s' = s" "w' = w"
    | "r = res" "b = bs" "s' = note_abort ab s" "w' = w\<lparr>w_rx := es\<rparr>"
    by (auto simp: netbios_session_recv_def split: bind_splits if_splits)
  then show thesis using rx that by cases auto
qed

lemma netbios_session_recv_size:
  "netbios_session_recv w s len = Some (res, bs, s', w') \<Longrightarrow>
     rx_size (w_rx w') \<le> rx_size (w_rx w) \<and> (res > 0 \<longrightarrow> rx_size (w_rx w') < rx_size (w_rx w))"
  by (erule netbios_session_recv_cases) (auto dest: rx_wait_size)

lemma session_recv_all_size:
  "session_recv_all w s base sofar tot = Some (ok, s', w') \<Longrightarrow>
     rx_size (w_rx w') \<le> rx_size (w_rx w) \<and> (ok \<and> sofar < tot \<longrightarrow> rx_size (w_rx w') < rx_size (w_rx w))"
proof (induction w s base sofar tot rule: session_recv_all.induct)
  case (1 w s base sofar tot)
  show ?case
  proof (cases "sofar < tot")
    case False
    with 1(2) show ?thesis by (simp add: session_recv_all.simps)
  next
    case True
    obtain res bs s1 w1 where r: "netbios_session_recv w s (tot - sofar) = Some (res, bs, s1, w1)"
      using 1(2) True by (auto simp: session_recv_all.simps split: bind_splits)
    note sz = netbios_session_recv_size [OF r]
    show ?thesis
    proof (cases "res \<le> 0")
      case le: True
      then show ?thesis using 1(2) True r sz by (simp add: session_recv_all.simps)
    next
      case False
      then obtain p q where p: "ns_packet s1 = Some p" "buf_write p (base + sofar) bs = Some q"
        and rec: "session_recv_all w1 (s1\<lparr>ns_packet := Some q\<rparr>) base (sofar + nat res) tot = Some (ok, s', w')"
        using 1(2) True r by (auto simp: session_recv_all.simps [of w] split: bind_splits)
      from 1(1) [OF True r _ refl refl False p rec] False sz show ?thesis by auto
    qed
  qed
qed

lemma get_next_packet_size:
  assumes "netbios_session_get_next_packet w s = Some (sz, s', w')" and "sz \<ge> 0"
  shows "rx_size (w_rx w') < rx_size (w_rx w)"
proof -
  have io: "w_rx w2 = w_rx w1" if "session_buffer_realloc w1 s1 n = (r, s2, w2)" for w1 s1 n r s2 w2
    using that by (auto simp: session_buffer_realloc_def c_realloc_def split: if_splits)
  show ?thesis
    using assms
    by (auto simp: netbios_session_get_next_packet_def Let_def split: bind_splits if_splits prod.splits
        dest!: session_recv_all_size io)
qed

text \<open>The loop that skips keep-alives.\<close>

function netbios_session_packet_recv ::
  "world \<Rightarrow> netbios_session \<Rightarrow> (int \<times> netbios_session \<times> world) option" where
  "netbios_session_packet_recv w s = do {
     (sz, s', w') \<leftarrow> netbios_session_get_next_packet w s;
     if sz \<ge> 0 then do {
       p \<leftarrow> ns_packet s';
       opcode \<leftarrow> rd_field netbios_session_packet ''opcode'' p 0;
       if opcode = NETBIOS_OP_SESSION_KEEPALIVE then netbios_session_packet_recv w' s'
       else Some (sz, s', w')
     }
     else Some (sz, s', w')
   }"
  by pat_completeness auto
termination
  by (relation "measure (\<lambda>(w, s). rx_size (w_rx w))") (auto dest: get_next_packet_size)

declare netbios_session_packet_recv.simps [simp del]

section \<open>Establishing a session\<close>

fun try_ports :: "world \<Rightarrow> netbios_session \<Rightarrow> u32 \<Rightarrow> u16 list \<Rightarrow> bool \<times> netbios_session \<times> world" where
  "try_ports w s ip [] = (False, s, w)"
| "try_ports w s ip (port # ports) =
     (let (r, s, w) = open_socket_and_connect w (s\<lparr>remote_addr := (port, ip)\<rparr>)
      in if r = DSM_SUCCESS then (True, s, w) else try_ports w s ip ports)"

definition connect_error :: "netbios_session \<Rightarrow> world \<Rightarrow> (int \<times> netbios_session \<times> world) option" where
  "connect_error s w = Some (0, s\<lparr>ns_state := NETBIOS_SESSION_ERROR\<rparr>, w)"

text \<open>Appending an encoded name: \<^verbatim>\<open>strlen(NULL)\<close> faults when the encoding failed.\<close>

definition append_name ::
  "world \<Rightarrow> netbios_session \<Rightarrow> cstring \<Rightarrow> u32 \<Rightarrow> (int \<times> netbios_session \<times> world) option" where
  "append_name w s name typ = do {
     (enc, w) \<leftarrow> netbios_name_encode w (Some name) typ;
     e \<leftarrow> enc;
     n \<leftarrow> c_strlen e;
     netbios_session_packet_append w s e (word_of_nat (n + 1))
   }"

definition netbios_session_connect ::
  "world \<Rightarrow> u32 \<Rightarrow> netbios_session \<Rightarrow> cstring \<Rightarrow> bool \<Rightarrow> (int \<times> netbios_session \<times> world) option" where
  "netbios_session_connect w ip s name direct_tcp = do {
     c_assert (ns_packet s \<noteq> None);
     let ports = (if direct_tcp then [htons NETBIOS_PORT_DIRECT, htons NETBIOS_PORT_DIRECT_SECONDARY]
                  else [htons NETBIOS_PORT_SESSION]);
     let (opened, s, w) = try_ports w s ip ports;
     if \<not> opened then connect_error s w
     else if direct_tcp then Some (1, s\<lparr>ns_state := NETBIOS_SESSION_CONNECTED\<rparr>, w)
     else do {
       s \<leftarrow> netbios_session_packet_init s;
       s \<leftarrow> session_set_field ''opcode'' NETBIOS_OP_SESSION_REQ s;
       (r, s, w) \<leftarrow> append_name w s name NETBIOS_FILESERVER;
       if r = 0 then connect_error s w
       else do {
         (r, s, w) \<leftarrow> append_name w s [76, 73, 66, 68, 83, 77] NETBIOS_WORKSTATION;
         if r = 0 then connect_error s w
         else do {
           (r, s, w) \<leftarrow> netbios_session_packet_send w (s\<lparr>ns_state := NETBIOS_SESSION_CONNECTING\<rparr>);
           if r = 0 then connect_error s w
           else do {
             (recv_size, s, w) \<leftarrow> netbios_session_packet_recv w s;
             if recv_size < 0 then connect_error s w
             else do {
               p \<leftarrow> ns_packet s;
               opcode \<leftarrow> rd_field netbios_session_packet ''opcode'' p 0;
               if opcode \<noteq> NETBIOS_OP_SESSION_REQ_OK
               then Some (0, s\<lparr>ns_state := NETBIOS_SESSION_REFUSED\<rparr>, w)
               else Some (1, s\<lparr>ns_state := NETBIOS_SESSION_CONNECTED\<rparr>, w)
             }
           }
         }
       }
     }
   }"

section \<open>The send buffer\<close>

text \<open>
  The invariant of the buffer: the recorded payload size is the allocated size, or four bytes
  less than it, and the data appended so far fits after the header.
\<close>

definition nbs_buf :: "netbios_session \<Rightarrow> bool" where
  "nbs_buf s \<longleftrightarrow>
     (case ns_packet s of
        None \<Rightarrow> False
      | Some p \<Rightarrow> unat (packet_payload_size s) \<le> length p \<and> length p \<le> unat (packet_payload_size s) + 4
          \<and> 4 \<le> length p \<and> length p < 2 ^ 62)"

definition nbs_inv :: "netbios_session \<Rightarrow> bool" where
  "nbs_inv s \<longleftrightarrow> nbs_buf s \<and> 4 + unat (packet_cursor s) \<le> length (the (ns_packet s))"

definition nbs_content :: "netbios_session \<Rightarrow> byte list" where
  "nbs_content s = take (unat (packet_cursor s)) (drop 4 (the (ns_packet s)))"

definition nbs_room :: "netbios_session \<Rightarrow> nat" where
  "nbs_room s = length (the (ns_packet s)) - 4"

text \<open>
  Where an append of \<open>n\<close> bytes stays inside the buffer: it either fits as it is, or does not
  fit in the recorded size, in which case the buffer is reallocated.
\<close>

definition append_safe :: "netbios_session \<Rightarrow> nat \<Rightarrow> bool" where
  "append_safe s n \<longleftrightarrow> unat (packet_cursor s) + n \<le> nbs_room s
     \<or> unat (packet_payload_size s) < unat (packet_cursor s) + n"

definition same_link :: "netbios_session \<Rightarrow> netbios_session \<Rightarrow> bool" where
  "same_link s s' \<longleftrightarrow> abort_ctx s' = abort_ctx s \<and> ns_socket s' = ns_socket s \<and> ns_state s' = ns_state s
     \<and> remote_addr s' = remote_addr s"

lemma same_link_refl [simp]: "same_link s s"
  by (simp add: same_link_def)

lemma same_link_trans: "same_link s s' \<Longrightarrow> same_link s' s'' \<Longrightarrow> same_link s s''"
  by (simp add: same_link_def)

lemma nbs_invD:
  assumes "nbs_inv s"
  shows "\<exists>p. ns_packet s = Some p \<and> unat (packet_payload_size s) \<le> length p
    \<and> length p \<le> unat (packet_payload_size s) + 4 \<and> 4 + unat (packet_cursor s) \<le> length p \<and> length p < 2 ^ 62"
  using assms by (auto simp: nbs_inv_def nbs_buf_def split: option.splits)

lemma nbs_packet_decomp: "nbs_inv s \<Longrightarrow> ns_packet s = Some p \<Longrightarrow>
    take (4 + unat (packet_cursor s)) p = take 4 p @ nbs_content s"
  using take_add [of 4 "unat (packet_cursor s)" p] by (simp add: nbs_content_def)

text \<open>The buffer after the reallocation step of an append.\<close>

lemma append_realloc:
  assumes inv: "nbs_inv s" and mem: "mem_ok w" and small: "unat (packet_cursor s) + unat n < 2 ^ 61"
    and r: "(if packet_payload_size s - packet_cursor s < n
        then session_buffer_realloc w s (n + packet_cursor s + 4) else (1, s, w)) = (ok, s1, w1)"
  shows "ok = 1 \<and> same_link s s1 \<and> packet_cursor s1 = packet_cursor s \<and> mem_ok w1 \<and> same_io w w1
     \<and> (\<exists>p p1. ns_packet s = Some p \<and> ns_packet s1 = Some p1
          \<and> take (4 + unat (packet_cursor s)) p1 = take (4 + unat (packet_cursor s)) p
          \<and> length p1 < 2 ^ 62 \<and> unat (packet_payload_size s) \<le> unat (packet_payload_size s1)
          \<and> unat (packet_payload_size s1) \<le> length p1
          \<and> length p1 \<le> unat (packet_payload_size s1) + 4 \<and> length p \<le> length p1
          \<and> (4 + unat (packet_cursor s) + unat n \<le> length p1 \<longleftrightarrow> append_safe s (unat n))
          \<and> (unat (packet_cursor s) + unat n \<le> nbs_room s \<longrightarrow> p1 = p \<and> s1 = s)
          \<and> (unat (packet_payload_size s) < unat (packet_cursor s) + unat n \<longrightarrow>
               unat (packet_payload_size s1) = unat (packet_cursor s) + unat n + 4
               \<and> length p1 = unat (packet_cursor s) + unat n + 4))"
proof -
  obtain p where p: "ns_packet s = Some p" and sz: "unat (packet_payload_size s) \<le> length p"
    "length p \<le> unat (packet_payload_size s) + 4" "4 + unat (packet_cursor s) \<le> length p" "length p < 2 ^ 62"
    using nbs_invD [OF inv] by blast
  have "packet_cursor s \<le> packet_payload_size s" using sz by (simp add: word_le_nat_alt)
  then have cmp: "packet_payload_size s - packet_cursor s < n \<longleftrightarrow>
      unat (packet_payload_size s) < unat (packet_cursor s) + unat n"
    by (simp add: word_less_nat_alt unat_sub word_le_nat_alt) linarith
  have room: "nbs_room s = length p - 4" by (simp add: nbs_room_def p)
  show ?thesis
  proof (cases "unat (packet_payload_size s) < unat (packet_cursor s) + unat n")
    case False
    then have "ok = 1" "s1 = s" "w1 = w" using r cmp by auto
    then show ?thesis using p sz mem False room by (auto simp: append_safe_def)
  next
    case True
    have u: "unat (n + packet_cursor s + 4) = unat n + unat (packet_cursor s) + 4"
      using small by (subst unat_word_add_nowrap; (subst unat_word_add_nowrap)?) auto
    obtain q w2 where q: "c_realloc w (Some p) (n + packet_cursor s + 4) = (q, w2)" by fastforce
    note qp = c_realloc_props [OF q] and ql = length_c_realloc [OF q]
    have "q \<noteq> None" using qp(3) mem u small by simp
    then obtain p1 where p1: "q = Some p1" by blast
    from r True cmp q p1 p have "ok = 1" "w1 = w2"
      "s1 = s\<lparr>packet_payload_size := n + packet_cursor s + 4, ns_packet := Some p1\<rparr>"
      by (auto simp: session_buffer_realloc_def)
    moreover have "length p1 = unat n + unat (packet_cursor s) + 4"
      "take (4 + unat (packet_cursor s)) p1 = take (4 + unat (packet_cursor s)) p"
      using ql [OF p1] u sz by auto
    ultimately show ?thesis
      using p sz u small True qp mem room by (auto simp: same_link_def append_safe_def)
  qed
qed

text \<open>Writing behind the content of a packet: what the packet holds then.\<close>

lemma overwrite_content:
  assumes "4 + c + k \<le> length p1" and "k \<le> length d" and "take (4 + c) p1 = take (4 + c) p"
  shows "take (c + k) (drop 4 (take (4 + c) p1 @ take k d @ drop (4 + c + k) p1)) = take c (drop 4 p) @ take k d"
    "take 4 (take (4 + c) p1 @ take k d @ drop (4 + c + k) p1) = take 4 p"
proof -
  have c: "drop 4 (take (4 + c) p1) = take c (drop 4 p)" unfolding assms(3) by (simp add: drop_take)
  have l: "length (take (4 + c) p1) = 4 + c" "length (take k d) = k" using assms(1,2) by simp_all
  then have "length (take c (drop 4 p)) = c" using c by (metis length_drop add_diff_cancel_left')
  then show "take (c + k) (drop 4 (take (4 + c) p1 @ take k d @ drop (4 + c + k) p1)) = take c (drop 4 p) @ take k d"
    using l c by simp
  have "take 4 (take (4 + c) p1) = take 4 p" unfolding assms(3) by simp
  then show "take 4 (take (4 + c) p1 @ take k d @ drop (4 + c + k) p1) = take 4 p" using l(1) by simp
qed

text \<open>With enough memory, an append either stores all its bytes or runs past the buffer.\<close>

lemma sizeof_u64: "word_of_nat (sizeof netbios_session_packet) = (4 :: u64)"
  by simp

lemma packet_append_exact:
  assumes inv: "nbs_inv s" and mem: "mem_ok w" and small: "unat (packet_cursor s) + unat n < 2 ^ 61"
    and len: "unat n \<le> length d"
  shows "if append_safe s (unat n)
    then wp (netbios_session_packet_append w s d n) (\<lambda>(r, s', w'). r = 1 \<and> nbs_inv s' \<and> same_link s s'
      \<and> mem_ok w' \<and> same_io w w' \<and> nbs_content s' = nbs_content s @ take (unat n) d
      \<and> take 4 (the (ns_packet s')) = take 4 (the (ns_packet s))
      \<and> packet_payload_size s \<le> packet_payload_size s'
      \<and> (unat (packet_cursor s) + unat n \<le> nbs_room s \<longrightarrow> nbs_room s' = nbs_room s)
      \<and> (unat (packet_payload_size s) < unat (packet_cursor s) + unat n \<longrightarrow>
          unat (packet_payload_size s') = unat (packet_cursor s) + unat n + 4
          \<and> nbs_room s' = unat (packet_cursor s) + unat n))
    else netbios_session_packet_append w s d n = None"
proof -
  let ?c = "unat (packet_cursor s)"
  obtain ok s1 w1 where r: "(if packet_payload_size s - packet_cursor s < n
        then session_buffer_realloc w s (n + packet_cursor s + 4) else (1, s, w)) = (ok, s1, w1)"
    using prod_cases3 by blast
  from append_realloc [OF inv mem small r] obtain p p1 where
    ok: "ok = 1" and link: "same_link s s1" and cur: "packet_cursor s1 = packet_cursor s"
    and w1: "mem_ok w1" "same_io w w1" and p: "ns_packet s = Some p" and p1: "ns_packet s1 = Some p1"
    and tk: "take (4 + ?c) p1 = take (4 + ?c) p" and sz: "length p1 < 2 ^ 62"
      "unat (packet_payload_size s) \<le> unat (packet_payload_size s1)"
      "unat (packet_payload_size s1) \<le> length p1" "length p1 \<le> unat (packet_payload_size s1) + 4"
      "length p \<le> length p1"
    and fit: "4 + ?c + unat n \<le> length p1 \<longleftrightarrow> append_safe s (unat n)"
    and same: "?c + unat n \<le> nbs_room s \<longrightarrow> p1 = p \<and> s1 = s"
    and grown: "unat (packet_payload_size s) < ?c + unat n \<longrightarrow>
      unat (packet_payload_size s1) = ?c + unat n + 4 \<and> length p1 = ?c + unat n + 4"
    by blast
  have cn: "unat (packet_cursor s + n) = ?c + unat n"
    using small by (intro unat_word_add_nowrap) auto
  have app0: "netbios_session_packet_append w s d n = do {
      p \<leftarrow> ns_packet s1; src \<leftarrow> buf_read d 0 (unat n);
      p \<leftarrow> buf_write p (4 + unat (packet_cursor s1)) src;
      Some (1, s1\<lparr>ns_packet := Some p, packet_cursor := packet_cursor s1 + n\<rparr>, w1) }"
    unfolding netbios_session_packet_append_def sizeof_u64 r using p ok by simp
  show ?thesis
  proof (cases "append_safe s (unat n)")
    case False
    then show ?thesis
      using p1 cur fit len unfolding app0 by (simp add: buf_read_def buf_write_def min_def)
  next
    case True
    with fit have le: "4 + ?c + unat n \<le> length p1" by simp
    let ?p' = "take (4 + ?c) p1 @ take (unat n) d @ drop (4 + ?c + unat n) p1"
    let ?s' = "s1\<lparr>ns_packet := Some ?p', packet_cursor := packet_cursor s + n\<rparr>"
    have app: "netbios_session_packet_append w s d n = Some (1, ?s', w1)"
      using p1 cur le len unfolding app0 by (simp add: buf_read_def buf_write_def min_def)
    have lp: "length ?p' = length p1" using le len by simp
    have "nbs_inv ?s'" using lp sz cn le by (simp add: nbs_inv_def nbs_buf_def)
    moreover have "same_link s ?s'" using link by (simp add: same_link_def)
    moreover have "nbs_content ?s' = nbs_content s @ take (unat n) d" "take 4 ?p' = take 4 p"
      using overwrite_content [OF le len] tk p cn by (simp_all add: nbs_content_def)
    moreover have "?c + unat n \<le> nbs_room s \<longrightarrow> nbs_room ?s' = nbs_room s"
      using same lp p p1 by (auto simp: nbs_room_def)
    moreover have "unat (packet_payload_size s) < ?c + unat n \<longrightarrow>
        unat (packet_payload_size ?s') = ?c + unat n + 4 \<and> nbs_room ?s' = ?c + unat n"
      using grown len p1 by (simp add: nbs_room_def)
    ultimately show ?thesis using True app w1 p sz(2) by (simp add: word_le_nat_alt)
  qed
qed

definition session_put :: "world \<Rightarrow> netbios_session \<Rightarrow> byte list \<Rightarrow> (netbios_session \<times> world) option" where
  "session_put w s d = do {
     (r, s, w) \<leftarrow> netbios_session_packet_append w s d (word_of_nat (length d));
     if r = 1 then Some (s, w) else None
   }"

interpretation session_sink: byte_sink
  "\<lambda>s w. nbs_inv s \<and> mem_ok w \<and> nbs_room s < 2 ^ 61" nbs_content nbs_room session_put
proof
  fix s :: netbios_session and w and d :: "byte list"
  assume ok: "nbs_inv s \<and> mem_ok w \<and> nbs_room s < 2 ^ 61"
    and le: "length (nbs_content s) + length d \<le> nbs_room s"
  have u: "unat (word_of_nat (length d) :: u64) = length d"
    using le ok by (intro unat_u64_of_nat) simp
  have c: "length (nbs_content s) = unat (packet_cursor s)"
    using ok nbs_invD [of s] by (auto simp: nbs_content_def)
  then have small: "unat (packet_cursor s) + unat (word_of_nat (length d) :: u64) < 2 ^ 61"
    using le ok u by simp
  have safe: "append_safe s (length d)" using le c by (simp add: append_safe_def)
  show "wp (session_put w s d) (\<lambda>(s', w'). (nbs_inv s' \<and> mem_ok w' \<and> nbs_room s' < 2 ^ 61) \<and>
      nbs_content s' = nbs_content s @ d \<and> nbs_room s' = nbs_room s)"
    using packet_append_exact [OF _ _ small, of w d] ok safe u le c
    unfolding session_put_def wp_bind by (auto elim!: wp_mono)
qed

section \<open>Frames on the wire\<close>

text \<open>
  What the code puts on the wire for a payload: the type, the flags, the low 16 bits of the
  length in network order, the payload. The receiver knows a seventeenth bit of the length,
  among the flags, which the sender never sets: below 65536 bytes of payload this is a frame,
  and from there on its header announces less than follows.
\<close>

definition nbt_frame :: "byte \<Rightarrow> byte \<Rightarrow> byte list \<Rightarrow> byte list" where
  "nbt_frame op fl payload =
     [op, fl, word_of_nat (length payload div 256), word_of_nat (length payload)] @ payload"

lemma sint_u32_of_nat: "n < 2 ^ 31 \<Longrightarrow> sint (word_of_nat n :: u32) = int n"
proof -
  assume "n < 2 ^ 31"
  then have "sint (word_of_int (int n) :: u32) = int n" by (subst int_word_sint) simp
  then show ?thesis by simp
qed

lemma nat_bytes_htons:
  "nat_bytes 2 (unat (htons x)) = [ucast (drop_bit 8 x), ucast x]"
proof -
  have "nat_bytes 2 (unat (htons x)) = le_bytes 2 (htons x)" by (simp add: le_bytes_nat_bytes)
  also have "\<dots> = [ucast (htons x), ucast (drop_bit 8 (htons x))]" by (simp add: le_bytes_numeral)
  also have "ucast (htons x) = (ucast (drop_bit 8 x) :: byte)"
    by (rule bit_word_eqI) (auto simp: htons_def bit_ucast_iff bit_or_iff bit_push_bit_iff bit_drop_bit_eq)
  also have "ucast (drop_bit 8 (htons x)) = (ucast x :: byte)"
    by (rule bit_word_eqI)
      (auto simp: htons_def bit_ucast_iff bit_or_iff bit_push_bit_iff bit_drop_bit_eq
        dest: bit_imp_le_length)
  finally show ?thesis .
qed

lemma length_bytes_of_cursor:
  "nat_bytes 2 (unat (htons (ucast (c :: u64)))) = [word_of_nat (unat c div 256), word_of_nat (unat c)]"
proof -
  have "ucast (drop_bit 8 (ucast c :: u16)) = (ucast (drop_bit 8 c) :: byte)"
    by (rule bit_word_eqI) (auto simp: bit_ucast_iff bit_drop_bit_eq)
  moreover have "ucast (drop_bit 8 c) = (word_of_nat (unat c div 256) :: byte)"
  proof -
    have "unat (drop_bit 8 c) = unat c div 256"
      by (subst unat_drop_bit_eq) (simp add: drop_bit_eq_div)
    moreover have "ucast (drop_bit 8 c) = (word_of_nat (unat (drop_bit 8 c)) :: byte)" by simp
    ultimately show ?thesis by (simp only:)
  qed
  moreover have "ucast (ucast c :: u16) = (word_of_nat (unat c) :: byte)"
  proof -
    have "ucast (ucast c :: u16) = (ucast c :: byte)"
      by (rule bit_word_eqI) (auto simp: bit_ucast_iff)
    then show ?thesis by simp
  qed
  ultimately show ?thesis by (simp add: nat_bytes_htons)
qed

lemma session_set_field_eq:
  assumes "ns_packet s = Some p" and "4 \<le> length p"
  shows "session_set_field ''opcode'' v s = Some (s\<lparr>ns_packet := Some (word_of_nat v # drop 1 p)\<rparr>)"
    and "session_set_field ''flags'' v s = Some (s\<lparr>ns_packet := Some (take 1 p @ word_of_nat v # drop 2 p)\<rparr>)"
    and "session_set_field ''length'' v s = Some (s\<lparr>ns_packet := Some (take 2 p @ nat_bytes 2 v @ drop 4 p)\<rparr>)"
  using assms
  by (simp_all add: session_set_field_def wr_field_def netbios_session_packet_def buf_write_def
      nat_bytes_numeral [simplified] numeral_2_eq_2 [symmetric])

lemma packet_init_ok:
  assumes inv: "nbs_buf s"
  shows "\<exists>s'. netbios_session_packet_init s = Some s' \<and> nbs_inv s' \<and> same_link s s' \<and> nbs_content s' = []
     \<and> take 2 (the (ns_packet s')) = [0, 0] \<and> packet_cursor s' = 0 \<and> nbs_room s' = nbs_room s
     \<and> packet_payload_size s' = packet_payload_size s"
proof -
  obtain p where p: "ns_packet s = Some p" and sz: "unat (packet_payload_size s) \<le> length p"
    "length p \<le> unat (packet_payload_size s) + 4" "4 \<le> length p" "length p < 2 ^ 62"
    using inv by (auto simp: nbs_buf_def split: option.splits)
  let ?p = "0 # 0 # drop 2 p"
  let ?s = "s\<lparr>packet_cursor := 0, ns_packet := Some ?p\<rparr>"
  have "netbios_session_packet_init s = Some ?s"
    using p sz
    by (simp add: netbios_session_packet_init_def session_set_field_eq dsm_consts numeral_2_eq_2)
  then show ?thesis
    using p sz by (simp add: nbs_inv_def nbs_buf_def same_link_def nbs_content_def nbs_room_def) linarith
qed

text \<open>What a send puts on the wire, and when it reports success.\<close>

definition nbs_frame :: "netbios_session \<Rightarrow> byte list" where
  "nbs_frame s = nbt_frame (the (ns_packet s) ! 0) (the (ns_packet s) ! 1) (nbs_content s)"

definition link_up :: "netbios_session \<Rightarrow> bool" where
  "link_up s \<longleftrightarrow> ns_socket s \<ge> 0 \<and> ns_state s > 0 \<and> abort_ctx s = Pipe_open False"

lemma tx_wait_bound: "tx_wait es n = (Some k, ab, es') \<Longrightarrow> k \<le> n"
  by (induction es n rule: tx_wait.induct) auto

lemma packet_send_spec:
  assumes inv: "nbs_inv s" and up: "link_up s" and small: "unat (packet_cursor s) < 2 ^ 30"
  shows "\<exists>r s' w'. netbios_session_packet_send w s = Some (r, s', w') \<and> nbs_inv s'
     \<and> nbs_room s' = nbs_room s \<and> ns_socket s' = ns_socket s \<and> ns_state s' = ns_state s
     \<and> packet_payload_size s' = packet_payload_size s
     \<and> (case tx_wait (w_tx w) (length (nbs_frame s)) of
          (None, ab, es) \<Rightarrow> r = 0 \<and> s' = s'\<lparr>abort_ctx := Pipe_open ab\<rparr> \<and> w' = w\<lparr>w_tx := es\<rparr>
        | (Some k, ab, es) \<Rightarrow> r = (if k = length (nbs_frame s) then int k else 0) \<and> s' = s'\<lparr>abort_ctx := Pipe_open ab\<rparr>
            \<and> w' = w\<lparr>w_tx := es, w_sent := w_sent w @ [take k (nbs_frame s)]\<rparr>)"
proof -
  let ?c = "unat (packet_cursor s)"
  obtain p where p: "ns_packet s = Some p" and sz: "unat (packet_payload_size s) \<le> length p"
    "length p \<le> unat (packet_payload_size s) + 4" "4 + ?c \<le> length p" "length p < 2 ^ 62"
    using nbs_invD [OF inv] by blast
  let ?h = "nat_bytes 2 (unat (htons (ucast (packet_cursor s))))"
  let ?p = "take 2 p @ ?h @ drop 4 p"
  let ?s = "s\<lparr>ns_packet := Some ?p\<rparr>"
  have set: "session_set_field ''length'' (unat (htons (ucast (packet_cursor s)))) s = Some ?s"
    using session_set_field_eq(3) [OF p] sz by simp
  have lc: "length (nbs_content s) = ?c" using p sz by (simp add: nbs_content_def)
  have t2: "take 2 p = [p ! 0, p ! 1]"
    using sz(3) by (cases p; cases "tl p") (auto simp: numeral_2_eq_2)
  have rd: "buf_read ?p 0 (4 + ?c) = Some (nbs_frame s)"
  proof -
    have "?p = take 4 ?p @ drop 4 p" and "length (take 4 ?p) = 4" using sz by simp_all
    then have "take (4 + ?c) ?p = take 4 ?p @ nbs_content s"
      using p by (simp add: nbs_content_def)
    then show ?thesis
      using sz p lc by (simp add: buf_read_def nbs_frame_def nbt_frame_def t2 length_bytes_of_cursor)
  qed
  have lf: "length (nbs_frame s) = 4 + ?c" using lc by (simp add: nbs_frame_def nbt_frame_def)
  obtain sent ab es where tx: "tx_wait (w_tx w) (4 + ?c) = (sent, ab, es)" by (rule prod_cases3)
  have inv': "nbs_inv (note_abort ab ?s)" "nbs_room (note_abort ab ?s) = nbs_room s"
    using sz p by (simp_all add: nbs_inv_def nbs_buf_def note_abort_def netbios_session_abort_def nbs_room_def) linarith
  have ctx: "abort_ctx (note_abort ab ?s) = Pipe_open ab"
    using up by (simp add: note_abort_def netbios_session_abort_def link_up_def netbios_abort_ctx_abort_def)
  have pk: "ns_packet (note_abort ab ?s) = Some ?p"
    by (simp add: note_abort_def netbios_session_abort_def)
  have sint: "sint (word_of_nat (4 + ?c) :: u32) = int (4 + ?c)"
    using small by (intro sint_u32_of_nat) simp
  have start: "netbios_session_packet_send w s =
     (case sent of None \<Rightarrow> Some (0, note_abort ab ?s, w\<lparr>w_tx := es\<rparr>)
      | Some k \<Rightarrow> Some (if k = 4 + ?c then sint (word_of_nat k :: u32) else 0, note_abort ab ?s,
          w\<lparr>w_tx := es, w_sent := w_sent w @ [take k (nbs_frame s)]\<rparr>))"
    using p up set tx rd pk
    by (auto simp: netbios_session_packet_send_def link_up_def netbios_abort_ctx_is_aborted_def
        split: option.splits)
  show ?thesis
    unfolding start lf tx using inv' ctx sint
    by (cases sent)
      (auto simp: note_abort_def netbios_session_abort_def)
qed

section \<open>Properties\<close>

text \<open>
  C24 (append bounds). With enough memory, an append to the session packet stores all its
  bytes behind those appended before and keeps the header, exactly when it fits in the
  buffer or is larger than the recorded payload size; in the gap between the two, which is
  four bytes wide after a reallocation, it writes past the end of the buffer.
\<close>

theorem session_append_bounds:
  assumes "nbs_inv s" and "mem_ok w" and "unat (packet_cursor s) + unat n < 2 ^ 61" and "unat n \<le> length d"
  shows "(netbios_session_packet_append w s d n = None \<longleftrightarrow> \<not> append_safe s (unat n)) \<and>
     (append_safe s (unat n) \<longrightarrow> (\<exists>s' w'. netbios_session_packet_append w s d n = Some (1, s', w') \<and> nbs_inv s'
        \<and> nbs_content s' = nbs_content s @ take (unat n) d
        \<and> take 4 (the (ns_packet s')) = take 4 (the (ns_packet s))))"
  using packet_append_exact [OF assms] by (auto simp: wp_iff split: if_splits)

text \<open>A session as \<open>netbios_session_new\<close> leaves it, connected, for the concrete instances.\<close>

definition sample_session :: netbios_session where
  "sample_session = \<lparr>abort_ctx = Pipe_open False, remote_addr = (0, 0), ns_socket = 3, ns_state = 2,
     packet_payload_size = 8192, packet_cursor = 0, ns_packet = Some (replicate 8196 0)\<rparr>"

lemma sample_session_inv: "nbs_inv sample_session" "link_up sample_session" "nbs_buf sample_session"
  by (simp_all add: sample_session_def nbs_inv_def nbs_buf_def link_up_def)

lemma sample_session_fields [simp]:
  "nbs_room sample_session = 8192" "packet_payload_size sample_session = 8192"
  "packet_cursor sample_session = 0" "nbs_content sample_session = []"
  by (simp_all add: sample_session_def nbs_room_def nbs_content_def)

theorem session_append_bounds_witness:
  "\<exists>s' w'. netbios_session_packet_append sample_world sample_session (replicate 9000 7) 9000 = Some (1, s', w')
     \<and> nbs_inv s' \<and> nbs_content s' = replicate 9000 7"
  using session_append_bounds [OF sample_session_inv(1) sample_world_mem, of 9000 "replicate 9000 7"]
  by (auto simp: append_safe_def)

text \<open>
  C25 (overflow). Sending a packet larger than the buffer and then one that is one to four
  bytes larger still overruns the buffer: the reallocation records the size of the whole
  allocation, header included, as room for the payload alone.
\<close>

theorem session_append_overflow:
  assumes "nbs_buf s" and "mem_ok w" and "unat (packet_payload_size s) < n" and "n < 2 ^ 60"
    and "1 \<le> k" and "k \<le> 4" and "length d = n" and "length d' = n + k"
  shows "\<exists>s1 s2 w2 s3. netbios_session_packet_init s = Some s1
     \<and> netbios_session_packet_append w s1 d (word_of_nat n) = Some (1, s2, w2)
     \<and> netbios_session_packet_init s2 = Some s3
     \<and> netbios_session_packet_append w2 s3 d' (word_of_nat (n + k)) = None"
proof -
  obtain s1 where s1: "netbios_session_packet_init s = Some s1" "nbs_inv s1" "packet_cursor s1 = 0"
    "packet_payload_size s1 = packet_payload_size s"
    using packet_init_ok [OF assms(1)] by blast
  have un: "unat (word_of_nat n :: u64) = n" using assms(4) by (intro unat_u64_of_nat) simp
  have unk: "unat (word_of_nat (n + k) :: u64) = n + k" using assms(4,6) by (intro unat_u64_of_nat) simp
  have "append_safe s1 n" using s1 assms(3) by (simp add: append_safe_def)
  then have "wp (netbios_session_packet_append w s1 d (word_of_nat n)) (\<lambda>(r, s2, w2). r = 1 \<and> nbs_inv s2
      \<and> mem_ok w2 \<and> unat (packet_payload_size s2) = n + 4 \<and> nbs_room s2 = n)"
    using packet_append_exact [OF s1(2) assms(2), of "word_of_nat n" d] s1 un assms(3,4,7)
    by (auto elim: wp_mono)
  then obtain s2 w2 where s2: "netbios_session_packet_append w s1 d (word_of_nat n) = Some (1, s2, w2)"
    "nbs_inv s2" "mem_ok w2" "unat (packet_payload_size s2) = n + 4" "nbs_room s2 = n"
    by (auto simp: wp_iff)
  obtain s3 where s3: "netbios_session_packet_init s2 = Some s3" "nbs_inv s3" "packet_cursor s3 = 0"
    "packet_payload_size s3 = packet_payload_size s2" "nbs_room s3 = nbs_room s2"
    using packet_init_ok [of s2] s2(2) by (auto simp: nbs_inv_def)
  have "\<not> append_safe s3 (n + k)" using s2 s3 assms(5,6) by (simp add: append_safe_def)
  then have "netbios_session_packet_append w2 s3 d' (word_of_nat (n + k)) = None"
    using packet_append_exact [OF s3(2) s2(3), of "word_of_nat (n + k)" d'] s3 unk assms(4,6,8) by simp
  then show ?thesis using s1(1) s2(1) s3(1) by blast
qed

theorem session_append_overflow_witness:
  "\<exists>s1 s2 w2 s3. netbios_session_packet_init sample_session = Some s1
     \<and> netbios_session_packet_append sample_world s1 (replicate 10000 7) 10000 = Some (1, s2, w2)
     \<and> netbios_session_packet_init s2 = Some s3
     \<and> netbios_session_packet_append w2 s3 (replicate 10001 7) 10001 = None"
  using session_append_overflow [OF sample_session_inv(3) sample_world_mem, of 10000 1
      "replicate 10000 7" "replicate 10001 7"] by simp

end
