(* ===== verification/Session_Types.thy ===== *)
theory Session_Types
  imports Utils Netbios_Session
begin

text \<open>
  The data of a session, \<^verbatim>\<open>src/smb_types.h\<close>, the descriptor macros of
  \<^verbatim>\<open>src/smb_session.h\<close> and the constants of \<^verbatim>\<open>src/smb_defs.h\<close>. The linked
  lists of shares and of files are lists in link order; a pointer to a node is its position.
  The transport's function pointers are options, null before a connection is attempted.
\<close>

section \<open>Structures\<close>

record smb_file =
  f_name :: "cstring option"
  f_fid :: u16
  f_tid :: u16
  f_name_len :: u64
  f_created :: u64
  f_accessed :: u64
  f_written :: u64
  f_changed :: u64
  f_alloc_size :: u64
  f_size :: u64
  f_attr :: u32
  f_offset :: u64
  f_is_dir :: int

record smb_share =
  sh_files :: "smb_file list"
  sh_tid :: u16
  sh_opts :: u16
  sh_rights :: u16
  sh_guest_rights :: u16

text \<open>The zero structures \<^verbatim>\<open>calloc\<close> returns.\<close>

definition new_file :: smb_file where
  "new_file = \<lparr>f_name = None, f_fid = 0, f_tid = 0, f_name_len = 0, f_created = 0, f_accessed = 0,
     f_written = 0, f_changed = 0, f_alloc_size = 0, f_size = 0, f_attr = 0, f_offset = 0, f_is_dir = 0\<rparr>"

definition new_share :: smb_share where
  "new_share = \<lparr>sh_files = [], sh_tid = 0, sh_opts = 0, sh_rights = 0, sh_guest_rights = 0\<rparr>"

record smb_transport =
  tr_session :: "netbios_session option"
  tr_connect :: "(world \<Rightarrow> u32 \<Rightarrow> netbios_session \<Rightarrow> cstring \<Rightarrow> (int \<times> netbios_session \<times> world) option) option"
  tr_disconnect :: "(netbios_session option \<Rightarrow> netbios_session option) option"
  tr_pkt_init :: "(netbios_session \<Rightarrow> netbios_session option) option"
  tr_pkt_append :: "(world \<Rightarrow> netbios_session \<Rightarrow> byte list \<Rightarrow> u64 \<Rightarrow> (int \<times> netbios_session \<times> world) option) option"
  tr_send :: "(world \<Rightarrow> netbios_session \<Rightarrow> (int \<times> netbios_session \<times> world) option) option"
  tr_recv :: "(world \<Rightarrow> netbios_session \<Rightarrow> (int \<times> netbios_session \<times> world) option) option"

record smb_srv_info =
  srv_name :: "byte list" \<comment> \<open>the 16 bytes of the array\<close>
  srv_dialect :: u16
  srv_security_mode :: u16
  srv_uid :: u16
  srv_session_key :: u32
  srv_caps :: u32
  srv_challenge :: u64
  srv_ts :: u64

record smb_creds =
  cr_domain :: "cstring option"
  cr_login :: "cstring option"
  cr_password :: "cstring option"

record smb_session =
  logged :: bool
  guest :: bool
  srv :: smb_srv_info
  xsec_target :: smb_buffer
  creds :: smb_creds
  transport :: smb_transport
  shares :: "smb_share list"
  nt_status :: u32
  spnego_asn1 :: bool \<comment> \<open>the compiled ASN.1 definitions are present\<close>

text \<open>The zero session \<^verbatim>\<open>calloc\<close> returns.\<close>

definition new_transport :: smb_transport where
  "new_transport = \<lparr>tr_session = None, tr_connect = None, tr_disconnect = None, tr_pkt_init = None,
     tr_pkt_append = None, tr_send = None, tr_recv = None\<rparr>"

definition zero_session :: smb_session where
  "zero_session = \<lparr>logged = False, guest = False,
     srv = \<lparr>srv_name = replicate 16 0, srv_dialect = 0, srv_security_mode = 0, srv_uid = 0,
            srv_session_key = 0, srv_caps = 0, srv_challenge = 0, srv_ts = 0\<rparr>,
     xsec_target = \<lparr>buf_data = None, buf_size = 0\<rparr>,
     creds = \<lparr>cr_domain = None, cr_login = None, cr_password = None\<rparr>,
     transport = new_transport, shares = [], nt_status = 0, spnego_asn1 = False\<rparr>"

section \<open>Descriptors\<close>

definition SMB_FD_TID :: "u32 \<Rightarrow> u16" where
  "SMB_FD_TID fd = ucast (drop_bit 16 fd)"

definition SMB_FD_FID :: "u32 \<Rightarrow> u16" where
  "SMB_FD_FID fd = ucast (fd AND 0x0000ffff)"

definition SMB_FD :: "u16 \<Rightarrow> u16 \<Rightarrow> u32" where
  "SMB_FD tid fid = push_bit 16 (ucast tid) OR ucast fid"

lemma bit_ffff: "bit (0xffff :: u32) n \<longleftrightarrow> n < 16"
  using bit_mask_iff [where 'a = "32 word", of 16 n]
  by (auto simp: mask_eq_exp_minus_1 dest: bit_imp_le_length)

lemma SMB_FD_TID_FD [simp]: "SMB_FD_TID (SMB_FD tid fid) = tid"
  by (rule bit_word_eqI)
    (auto simp: SMB_FD_TID_def SMB_FD_def bit_ucast_iff bit_drop_bit_eq bit_or_iff bit_push_bit_iff
      dest: bit_imp_le_length)

lemma SMB_FD_FID_ucast: "SMB_FD_FID fd = ucast fd"
  unfolding SMB_FD_FID_def
  by (rule bit_word_eqI) (simp only: bit_ucast_iff bit_and_iff bit_ffff, auto)

lemma SMB_FD_FID_FD [simp]: "SMB_FD_FID (SMB_FD tid fid) = fid"
  by (rule bit_word_eqI)
    (auto simp: SMB_FD_FID_ucast SMB_FD_def bit_ucast_iff bit_or_iff bit_push_bit_iff
      dest: bit_imp_le_length)

lemma SMB_FD_TID_FID: "SMB_FD (SMB_FD_TID fd) (SMB_FD_FID fd) = fd"
proof (rule bit_word_eqI)
  fix n :: nat
  assume "n < LENGTH(32)"
  then show "bit (SMB_FD (SMB_FD_TID fd) (SMB_FD_FID fd)) n = bit fd n"
    by (cases "n < 16")
      (auto simp: SMB_FD_TID_def SMB_FD_FID_ucast SMB_FD_def bit_ucast_iff bit_drop_bit_eq bit_or_iff
        bit_push_bit_iff dest: bit_imp_le_length)
qed

lemma SMB_FD_inject: "SMB_FD t f = SMB_FD t' f' \<longleftrightarrow> t = t' \<and> f = f'"
  by (metis SMB_FD_TID_FD SMB_FD_FID_FD)

section \<open>Constants\<close>

definition SMB_CMD_MKDIR :: nat where [dsm_consts]: "SMB_CMD_MKDIR = 0x00"
definition SMB_CMD_RMDIR :: nat where [dsm_consts]: "SMB_CMD_RMDIR = 0x01"
definition SMB_CMD_CLOSE :: nat where [dsm_consts]: "SMB_CMD_CLOSE = 0x04"
definition SMB_CMD_RMFILE :: nat where [dsm_consts]: "SMB_CMD_RMFILE = 0x06"
definition SMB_CMD_MOVE :: nat where [dsm_consts]: "SMB_CMD_MOVE = 0x07"
definition SMD_CMD_TRANS :: nat where [dsm_consts]: "SMD_CMD_TRANS = 0x25"
definition SMB_CMD_READ :: nat where [dsm_consts]: "SMB_CMD_READ = 0x2e"
definition SMB_CMD_WRITE :: nat where [dsm_consts]: "SMB_CMD_WRITE = 0x2f"
definition SMB_CMD_TRANS2 :: nat where [dsm_consts]: "SMB_CMD_TRANS2 = 0x32"
definition SMB_CMD_TREE_DISCONNECT :: nat where [dsm_consts]: "SMB_CMD_TREE_DISCONNECT = 0x71"
definition SMB_CMD_NEGOTIATE :: nat where [dsm_consts]: "SMB_CMD_NEGOTIATE = 0x72"
definition SMB_CMD_SETUP :: nat where [dsm_consts]: "SMB_CMD_SETUP = 0x73"
definition SMB_CMD_LOGOFF :: nat where [dsm_consts]: "SMB_CMD_LOGOFF = 0x74"
definition SMB_CMD_TREE_CONNECT :: nat where [dsm_consts]: "SMB_CMD_TREE_CONNECT = 0x75"
definition SMB_CMD_CREATE :: nat where [dsm_consts]: "SMB_CMD_CREATE = 0xA2"

definition SMB_TR2_FIND_FIRST :: nat where [dsm_consts]: "SMB_TR2_FIND_FIRST = 1"
definition SMB_TR2_FIND_NEXT :: nat where [dsm_consts]: "SMB_TR2_FIND_NEXT = 2"
definition SMB_TR2_QUERY_PATH :: nat where [dsm_consts]: "SMB_TR2_QUERY_PATH = 5"

definition SMB_CAPS_XSEC :: u32 where [dsm_consts]: "SMB_CAPS_XSEC = 0x80000000"
definition SMB_ATTR_HIDDEN :: nat where [dsm_consts]: "SMB_ATTR_HIDDEN = 2"
definition SMB_ATTR_SYS :: nat where [dsm_consts]: "SMB_ATTR_SYS = 4"
definition SMB_ATTR_DIR :: u32 where [dsm_consts]: "SMB_ATTR_DIR = 16"
definition SMB_FLAGS2_LONG_NAMES :: nat where [dsm_consts]: "SMB_FLAGS2_LONG_NAMES = 1"
definition SMB_SESSION_MAX_BUFFER :: nat where [dsm_consts]: "SMB_SESSION_MAX_BUFFER = 0xffff"
definition SMB_DEFAULT_BUFSIZE :: u64 where [dsm_consts]: "SMB_DEFAULT_BUFSIZE = 8192"
definition SMB_CREDS_MAXLEN :: nat where [dsm_consts]: "SMB_CREDS_MAXLEN = 128"

text \<open>\<^verbatim>\<open>SMB_MOD_RW\<close>: read, write, append, both extended, both attributes, control.\<close>

definition SMB_MOD_READ :: u32 where [dsm_consts]: "SMB_MOD_READ = 0x1"
definition SMB_MOD_WRITE :: u32 where [dsm_consts]: "SMB_MOD_WRITE = 0x2"
definition SMB_MOD_RW :: u32 where
  [dsm_consts]: "SMB_MOD_RW = SMB_MOD_READ OR SMB_MOD_WRITE OR 0x4 OR 0x8 OR 0x10 OR 0x80 OR 0x100 OR 0x20000"

end
