(* ===== verification/Fd.thy ===== *)
theory Fd
  imports Session_Types
begin

text \<open>
  \<^verbatim>\<open>src/smb_fd.c\<close>: the tables of a session, its shares by tree id and the open files of
  a share by file id. The functions that assert a non-zero descriptor fault on 0.

  The lookups and insertions are an instance of an abstract handle table; so is the removal
  of a share. The removal of a file is not: past the first file of a share it compares file
  ids with the tree id.
\<close>

section \<open>The interface\<close>

locale handle_table =
  fixes inv :: "'t \<Rightarrow> bool"
    and key :: "'v \<Rightarrow> 'k"
    and insertable :: "'t \<Rightarrow> 'k \<Rightarrow> bool"
    and get :: "'t \<Rightarrow> 'k \<Rightarrow> 'v option"
    and add :: "'t \<Rightarrow> 'v \<Rightarrow> 't"
  assumes inv_add: "inv t \<Longrightarrow> insertable t (key v) \<Longrightarrow> inv (add t v)"
    and insertable_add: "insertable t (key v) \<Longrightarrow> insertable (add t v) k = insertable t k"
    and get_key: "inv t \<Longrightarrow> get t k = Some v \<Longrightarrow> key v = k"
    and get_add: "inv t \<Longrightarrow> insertable t (key v) \<Longrightarrow>
      get (add t v) k = (if get t k = None \<and> k = key v then Some v else get t k)"
begin

text \<open>After a sequence of insertions a key finds the first value inserted under it.\<close>

lemma get_after_adds:
  "inv t \<Longrightarrow> (\<And>v. v \<in> set vs \<Longrightarrow> insertable t (key v)) \<Longrightarrow>
     get (fold (\<lambda>v t. add t v) vs t) k
       = (case get t k of Some v \<Rightarrow> Some v | None \<Rightarrow> find (\<lambda>v. key v = k) vs)"
proof (induction vs arbitrary: t)
  case Nil
  then show ?case by (auto split: option.splits)
next
  case (Cons v vs)
  have i: "insertable t (key v)" using Cons.prems(2) by simp
  have "get (fold (\<lambda>v t. add t v) vs (add t v)) k
     = (case get (add t v) k of Some v \<Rightarrow> Some v | None \<Rightarrow> find (\<lambda>v. key v = k) vs)"
    using Cons.prems i by (intro Cons.IH) (auto simp: inv_add insertable_add)
  then show ?case using get_add [OF Cons.prems(1) i] by (auto split: option.splits)
qed

lemma add_finds:
  "inv t \<Longrightarrow> insertable t (key v) \<Longrightarrow> get t (key v) = None \<Longrightarrow> get (add t v) (key v) = Some v"
  by (simp add: get_add)

end

locale removable_table = handle_table +
  fixes remove :: "'a \<Rightarrow> 'c \<Rightarrow> 'b option \<times> 'a"
  assumes inv_remove: "inv t \<Longrightarrow> inv (snd (remove t k))"
    and remove_result: "inv t \<Longrightarrow> fst (remove t k) = get t k"
    and get_remove_other: "inv t \<Longrightarrow> k' \<noteq> k \<Longrightarrow> get (snd (remove t k)) k' = get t k'"
    and remove_add: "inv t \<Longrightarrow> insertable t (key v) \<Longrightarrow> get t (key v) = None \<Longrightarrow>
      snd (remove (add t v) (key v)) = t"
begin

text \<open>Inserting under a fresh key and removing it again gives the value and the table back.\<close>

lemma add_remove:
  assumes "inv t" and "insertable t (key v)" and "get t (key v) = None"
  shows "remove (add t v) (key v) = (Some v, t)"
  using remove_result [OF inv_add [OF assms(1,2)], of "key v"] add_finds [OF assms] remove_add [OF assms]
  by (simp add: prod_eq_iff)

end

section \<open>Shares\<close>

definition smb_session_share_add :: "smb_session \<Rightarrow> smb_share \<Rightarrow> smb_session" where
  "smb_session_share_add s share = s\<lparr>shares := shares s @ [share]\<rparr>"

fun share_loop :: "smb_share list \<Rightarrow> u16 \<Rightarrow> smb_share option" where
  "share_loop [] tid = None"
| "share_loop (sh # shs) tid = (if sh_tid sh \<noteq> tid then share_loop shs tid else Some sh)"

definition smb_session_share_get :: "smb_session \<Rightarrow> u16 \<Rightarrow> smb_share option" where
  "smb_session_share_get s tid = share_loop (shares s) tid"

text \<open>
  The loop over \<^verbatim>\<open>iter->next\<close>, started on the first node: the node it unlinks, and the
  list without it.
\<close>

fun unlink_next :: "('a \<Rightarrow> bool) \<Rightarrow> 'a list \<Rightarrow> 'a option \<times> 'a list" where
  "unlink_next P (a # b # xs) =
     (if P b then (Some b, a # xs) else (let (kept, ys) = unlink_next P (b # xs) in (kept, a # ys)))"
| "unlink_next P xs = (None, xs)"

definition smb_session_share_remove :: "smb_session \<Rightarrow> u16 \<Rightarrow> smb_share option \<times> smb_session" where
  "smb_session_share_remove s tid =
     (case shares s of
        [] \<Rightarrow> (None, s)
      | iter # rest \<Rightarrow>
          (if sh_tid iter = tid then (Some iter, s\<lparr>shares := rest\<rparr>)
           else (let (kept, shs) = unlink_next (\<lambda>sh. sh_tid sh = tid) (shares s)
                 in (kept, s\<lparr>shares := shs\<rparr>))))"

text \<open>What \<open>smb_session_share_clear\<close> frees, in order; the caller frees the session next.\<close>

datatype freed_node = Freed_file smb_file | Freed_share smb_share

definition smb_session_share_clear :: "smb_session \<Rightarrow> freed_node list" where
  "smb_session_share_clear s =
     concat (map (\<lambda>sh. map Freed_file (sh_files sh) @ [Freed_share sh]) (shares s))"

section \<open>Files\<close>

text \<open>A change to the first share with the given tree id.\<close>

fun update_share :: "u16 \<Rightarrow> (smb_share \<Rightarrow> smb_share) \<Rightarrow> smb_share list \<Rightarrow> smb_share list" where
  "update_share tid f [] = []"
| "update_share tid f (sh # shs) = (if sh_tid sh = tid then f sh # shs else sh # update_share tid f shs)"

definition smb_session_file_add :: "smb_session \<Rightarrow> u16 \<Rightarrow> smb_file \<Rightarrow> int \<times> smb_session" where
  "smb_session_file_add s tid f =
     (case smb_session_share_get s tid of
        None \<Rightarrow> (0, s)
      | Some _ \<Rightarrow> (1, s\<lparr>shares := update_share tid (\<lambda>sh. sh\<lparr>sh_files := sh_files sh @ [f]\<rparr>) (shares s)\<rparr>))"

fun file_loop :: "smb_file list \<Rightarrow> u16 \<Rightarrow> smb_file option" where
  "file_loop [] fid = None"
| "file_loop (f # fs) fid = (if f_fid f \<noteq> fid then file_loop fs fid else Some f)"

definition smb_session_file_get :: "smb_session \<Rightarrow> u32 \<Rightarrow> smb_file option option" where
  "smb_session_file_get s fd = do {
     c_assert (fd \<noteq> 0);
     Some (case smb_session_share_get s (SMB_FD_TID fd) of
             None \<Rightarrow> None
           | Some share \<Rightarrow> file_loop (sh_files share) (SMB_FD_FID fd))
   }"

definition smb_session_file_remove :: "smb_session \<Rightarrow> u32 \<Rightarrow> (smb_file option \<times> smb_session) option" where
  "smb_session_file_remove s fd = do {
     c_assert (fd \<noteq> 0);
     Some (case smb_session_share_get s (SMB_FD_TID fd) of
             None \<Rightarrow> (None, s)
           | Some share \<Rightarrow>
               (case sh_files share of
                  [] \<Rightarrow> (None, s)
                | iter # rest \<Rightarrow>
                    (let (kept, fs) =
                       (if f_fid iter = SMB_FD_FID fd then (Some iter, rest)
                        else unlink_next (\<lambda>f. f_fid f = SMB_FD_TID fd) (sh_files share))
                     in (kept, s\<lparr>shares := update_share (SMB_FD_TID fd) (\<lambda>sh. sh\<lparr>sh_files := fs\<rparr>) (shares s)\<rparr>))))
   }"

text \<open>A change to the open file \<open>smb_session_file_get\<close> returns a pointer to.\<close>

fun update_file :: "u16 \<Rightarrow> (smb_file \<Rightarrow> smb_file) \<Rightarrow> smb_file list \<Rightarrow> smb_file list" where
  "update_file fid g [] = []"
| "update_file fid g (f # fs) = (if f_fid f = fid then g f # fs else f # update_file fid g fs)"

definition session_update_file :: "u32 \<Rightarrow> (smb_file \<Rightarrow> smb_file) \<Rightarrow> smb_session \<Rightarrow> smb_session" where
  "session_update_file fd g s =
     s\<lparr>shares := update_share (SMB_FD_TID fd)
        (\<lambda>sh. sh\<lparr>sh_files := update_file (SMB_FD_FID fd) g (sh_files sh)\<rparr>) (shares s)\<rparr>"

section \<open>The share table\<close>

lemma share_loop_find: "share_loop shs tid = find (\<lambda>sh. sh_tid sh = tid) shs"
  by (induction shs) auto

lemma share_loop_append:
  "share_loop (xs @ ys) tid = (case share_loop xs tid of Some v \<Rightarrow> Some v | None \<Rightarrow> share_loop ys tid)"
  by (induction xs) auto

lemma share_loop_tid: "share_loop shs tid = Some sh \<Longrightarrow> sh_tid sh = tid"
  by (induction shs) (auto split: if_splits)

lemma unlink_next_find:
  "unlink_next P (a # xs) = (find P xs, a # (case find P xs of None \<Rightarrow> xs | Some _ \<Rightarrow> remove1 (the (find P xs)) xs))"
proof (induction xs arbitrary: a)
  case Nil
  show ?case by simp
next
  case (Cons b xs)
  show ?case
  proof (cases "P b")
    case True
    then show ?thesis by simp
  next
    case False
    moreover have "P x" if "find P xs = Some x" for x
      using that by (auto simp: find_Some_iff)
    ultimately show ?thesis using Cons.IH [of b] by (auto split: option.splits)
  qed
qed

text \<open>Removal takes the first share with the tree id out of the list.\<close>

lemma share_remove_eq:
  "smb_session_share_remove s tid = (share_loop (shares s) tid,
     case share_loop (shares s) tid of None \<Rightarrow> s | Some sh \<Rightarrow> s\<lparr>shares := remove1 sh (shares s)\<rparr>)"
proof (cases "shares s")
  case Nil
  then show ?thesis by (simp add: smb_session_share_remove_def)
next
  case (Cons a xs)
  show ?thesis
  proof (cases "find (\<lambda>sh. sh_tid sh = tid) xs")
    case None
    then show ?thesis
      using Cons by (simp add: smb_session_share_remove_def unlink_next_find share_loop_find)
  next
    case (Some sh)
    then have "sh_tid sh = tid" by (auto simp: find_Some_iff)
    then show ?thesis
      using Cons Some by (auto simp: smb_session_share_remove_def unlink_next_find share_loop_find)
  qed
qed

lemma share_loop_remove1_other:
  "share_loop shs k = Some sh \<Longrightarrow> k' \<noteq> k \<Longrightarrow> share_loop (remove1 sh shs) k' = share_loop shs k'"
  by (induction shs) (auto dest: share_loop_tid split: if_splits)

interpretation share_table: removable_table
  "\<lambda>s. True" sh_tid "\<lambda>s k. True" smb_session_share_get smb_session_share_add smb_session_share_remove
proof
  fix s :: smb_session and v :: smb_share and k k' :: u16
  show "smb_session_share_get s k = Some v \<Longrightarrow> sh_tid v = k"
    by (simp add: smb_session_share_get_def share_loop_tid)
  show "smb_session_share_get (smb_session_share_add s v) k =
      (if smb_session_share_get s k = None \<and> k = sh_tid v then Some v else smb_session_share_get s k)"
    by (auto simp: smb_session_share_get_def smb_session_share_add_def share_loop_append split: option.splits)
  show "fst (smb_session_share_remove s k) = smb_session_share_get s k"
    by (simp add: share_remove_eq smb_session_share_get_def)
  show "k' \<noteq> k \<Longrightarrow> smb_session_share_get (snd (smb_session_share_remove s k)) k' = smb_session_share_get s k'"
    by (auto simp: share_remove_eq smb_session_share_get_def share_loop_remove1_other split: option.splits)
  show "smb_session_share_get s (sh_tid v) = None \<Longrightarrow>
      snd (smb_session_share_remove (smb_session_share_add s v) (sh_tid v)) = s"
  proof -
    assume none: "smb_session_share_get s (sh_tid v) = None"
    then have "v \<notin> set (shares s)"
      by (induction "shares s") (auto simp: smb_session_share_get_def share_loop_find find_None_iff)
    then show ?thesis using none
      by (simp add: share_remove_eq smb_session_share_add_def smb_session_share_get_def share_loop_append
          remove1_append)
  qed
qed simp_all

section \<open>The file table\<close>

text \<open>Every open file carries the tree id of the share that lists it.\<close>

definition files_inv :: "smb_session \<Rightarrow> bool" where
  "files_inv s \<longleftrightarrow> list_all (\<lambda>sh. list_all (\<lambda>f. f_tid f = sh_tid sh) (sh_files sh)) (shares s)"

definition lookup_file :: "smb_session \<Rightarrow> u32 \<Rightarrow> smb_file option" where
  "lookup_file s fd = (case smb_session_file_get s fd of None \<Rightarrow> None | Some r \<Rightarrow> r)"

definition file_key :: "smb_file \<Rightarrow> u32" where
  "file_key f = SMB_FD (f_tid f) (f_fid f)"

definition file_insertable :: "smb_session \<Rightarrow> u32 \<Rightarrow> bool" where
  "file_insertable s fd \<longleftrightarrow> fd \<noteq> 0 \<and> smb_session_share_get s (SMB_FD_TID fd) \<noteq> None"

definition insert_file :: "smb_session \<Rightarrow> smb_file \<Rightarrow> smb_session" where
  "insert_file s f = snd (smb_session_file_add s (f_tid f) f)"

lemma lookup_file_eq:
  "lookup_file s fd = (if fd = 0 then None else
     (case share_loop (shares s) (SMB_FD_TID fd) of None \<Rightarrow> None | Some sh \<Rightarrow> file_loop (sh_files sh) (SMB_FD_FID fd)))"
  by (simp add: lookup_file_def smb_session_file_get_def smb_session_share_get_def)

lemma share_loop_update:
  "(\<And>sh. sh_tid (g sh) = sh_tid sh) \<Longrightarrow>
     share_loop (update_share tid g shs) tid' =
       (if tid' = tid then map_option g (share_loop shs tid) else share_loop shs tid')"
  by (induction shs) auto

lemma file_loop_append:
  "file_loop (xs @ ys) fid = (case file_loop xs fid of Some v \<Rightarrow> Some v | None \<Rightarrow> file_loop ys fid)"
  by (induction xs) auto

lemma file_loop_mem: "file_loop fs fid = Some f \<Longrightarrow> f \<in> set fs \<and> f_fid f = fid"
  by (induction fs) (auto split: if_splits)

lemma share_loop_mem: "share_loop shs tid = Some sh \<Longrightarrow> sh \<in> set shs"
  by (induction shs) (auto split: if_splits)

lemma files_inv_update:
  assumes "files_inv s" and "\<And>sh. sh_tid (g sh) = sh_tid sh"
    and "\<And>sh. sh_tid sh = tid \<Longrightarrow> list_all (\<lambda>f. f_tid f = tid) (sh_files sh)
      \<Longrightarrow> list_all (\<lambda>f. f_tid f = tid) (sh_files (g sh))"
  shows "files_inv (s\<lparr>shares := update_share tid g (shares s)\<rparr>)"
proof -
  have "list_all (\<lambda>sh. list_all (\<lambda>f. f_tid f = sh_tid sh) (sh_files sh)) shs \<Longrightarrow>
     list_all (\<lambda>sh. list_all (\<lambda>f. f_tid f = sh_tid sh) (sh_files sh)) (update_share tid g shs)" for shs
    using assms(2,3) by (induction shs) auto
  then show ?thesis using assms(1) by (simp add: files_inv_def)
qed

lemma insert_file_eq:
  "insert_file s f = (case share_loop (shares s) (f_tid f) of None \<Rightarrow> s
     | Some _ \<Rightarrow> s\<lparr>shares := update_share (f_tid f) (\<lambda>sh. sh\<lparr>sh_files := sh_files sh @ [f]\<rparr>) (shares s)\<rparr>)"
  by (auto simp: insert_file_def smb_session_file_add_def smb_session_share_get_def split: option.splits)

interpretation file_table: handle_table files_inv file_key file_insertable lookup_file insert_file
proof
  fix s :: smb_session and f :: smb_file and k :: u32
  show "files_inv s \<Longrightarrow> file_insertable s (file_key f) \<Longrightarrow> files_inv (insert_file s f)"
    by (auto simp: insert_file_eq intro!: files_inv_update split: option.splits)
  show "file_insertable s (file_key f) \<Longrightarrow> file_insertable (insert_file s f) k = file_insertable s k"
    by (auto simp: insert_file_eq file_insertable_def smb_session_share_get_def share_loop_update
        split: option.splits if_splits)
  show "files_inv s \<Longrightarrow> lookup_file s k = Some f \<Longrightarrow> file_key f = k"
  proof -
    assume inv: "files_inv s" and get: "lookup_file s k = Some f"
    from get obtain sh where sh: "share_loop (shares s) (SMB_FD_TID k) = Some sh"
      "file_loop (sh_files sh) (SMB_FD_FID k) = Some f"
      by (auto simp: lookup_file_eq split: if_splits option.splits)
    from inv share_loop_mem [OF sh(1)] share_loop_tid [OF sh(1)] file_loop_mem [OF sh(2)]
    have "f_tid f = SMB_FD_TID k" "f_fid f = SMB_FD_FID k"
      by (auto simp: files_inv_def list_all_iff)
    then show ?thesis by (simp add: file_key_def SMB_FD_TID_FID)
  qed
  show "files_inv s \<Longrightarrow> file_insertable s (file_key f) \<Longrightarrow> lookup_file (insert_file s f) k =
      (if lookup_file s k = None \<and> k = file_key f then Some f else lookup_file s k)"
  proof -
    assume ins: "file_insertable s (file_key f)"
    then obtain sh where sh: "share_loop (shares s) (f_tid f) = Some sh" and k0: "file_key f \<noteq> 0"
      by (auto simp: file_insertable_def smb_session_share_get_def file_key_def)
    have k: "k = file_key f \<longleftrightarrow> SMB_FD_TID k = f_tid f \<and> SMB_FD_FID k = f_fid f"
      by (metis SMB_FD_TID_FID SMB_FD_TID_FD SMB_FD_FID_FD file_key_def)
    show ?thesis
    proof (cases "k = 0")
      case True
      then show ?thesis using k0 by (simp add: lookup_file_eq)
    next
      case False
      then show ?thesis
        using sh by (auto simp: lookup_file_eq insert_file_eq share_loop_update file_loop_append k
            split: option.splits)
    qed
  qed
qed

lemma file_loop_update:
  "(\<And>f. f_fid (g f) = f_fid f) \<Longrightarrow> file_loop (update_file fid g fs) k =
     (if k = fid then map_option g (file_loop fs fid) else file_loop fs k)"
  by (induction fs) auto

lemma lookup_update_file:
  assumes "\<And>f. f_fid (g f) = f_fid f"
  shows "lookup_file (session_update_file fd g s) k = (if k = fd then map_option g (lookup_file s fd) else lookup_file s k)"
proof -
  have k: "k \<noteq> fd \<Longrightarrow> SMB_FD_TID k = SMB_FD_TID fd \<Longrightarrow> SMB_FD_FID k \<noteq> SMB_FD_FID fd"
    using SMB_FD_TID_FID [of k] SMB_FD_TID_FID [of fd] by auto
  show ?thesis
  proof (cases "k = fd")
    case True
    then show ?thesis
      by (simp add: lookup_file_eq session_update_file_def share_loop_update file_loop_update assms split: option.splits)
  next
    case False
    then show ?thesis
      using k by (simp add: lookup_file_eq session_update_file_def share_loop_update file_loop_update assms split: option.splits)
  qed
qed

lemma file_get_lookup: "lookup_file s fd = Some f \<Longrightarrow> smb_session_file_get s fd = Some (Some f)"
  by (auto simp: lookup_file_def split: option.splits)

lemma file_add_insert: "f_tid f = tid \<Longrightarrow> snd (smb_session_file_add s tid f) = insert_file s f"
  by (simp add: insert_file_def)

lemma file_remove_missed:
  assumes "fd \<noteq> 0" and "smb_session_share_get s (SMB_FD_TID fd) = Some sh"
    and "sh_files sh = g # fs" and "f_fid g \<noteq> SMB_FD_FID fd"
  shows "\<exists>s'. smb_session_file_remove s fd = Some (find (\<lambda>f. f_fid f = SMB_FD_TID fd) fs, s') \<and>
     (find (\<lambda>f. f_fid f = SMB_FD_TID fd) fs = None \<longrightarrow> s' = s)"
proof -
  let ?t = "SMB_FD_TID fd" and ?P = "\<lambda>f. f_fid f = SMB_FD_TID fd"
  have same: "share_loop shs ?t = Some sh \<Longrightarrow> update_share ?t (\<lambda>sh'. sh'\<lparr>sh_files := sh_files sh\<rparr>) shs = shs" for shs
    by (induction shs) (auto split: if_splits)
  then have id: "s\<lparr>shares := update_share ?t (\<lambda>sh'. sh'\<lparr>sh_files := sh_files sh\<rparr>) (shares s)\<rparr> = s"
    using assms(2) by (simp add: smb_session_share_get_def)
  show ?thesis
    using assms id
    by (cases "find ?P fs") (simp_all add: smb_session_file_remove_def unlink_next_find)
qed

section \<open>Properties\<close>

text \<open>
  A file descriptor packs a tree id and a file id without loss: both can
  be read back, and every descriptor is the packing of its parts.
\<close>

lemma fd_roundtrip:
  "SMB_FD_TID (SMB_FD tid fid) = tid \<and> SMB_FD_FID (SMB_FD tid fid) = fid \<and>
     SMB_FD (SMB_FD_TID fd) (SMB_FD_FID fd) = fd"
  by (simp add: SMB_FD_TID_FID)

text \<open>
  Adding a share under a tree id that is not in use and removing it again
  returns that share and restores the session; in between it is found under its id and every
  other id finds what it found before.
\<close>

lemma share_add_remove:
  assumes "smb_session_share_get s (sh_tid sh) = None"
  shows "smb_session_share_remove (smb_session_share_add s sh) (sh_tid sh) = (Some sh, s) \<and>
     smb_session_share_get (smb_session_share_add s sh) (sh_tid sh) = Some sh \<and>
     (\<forall>tid. tid \<noteq> sh_tid sh \<longrightarrow>
        smb_session_share_get (smb_session_share_add s sh) tid = smb_session_share_get s tid)"
  using share_table.add_remove [of s sh] share_table.add_finds [of s sh] share_table.get_add [of s sh] assms
  by simp

text \<open>
  C26 (files). After any number of files has been entered into the shares of a session, a
  descriptor finds the file it found before, or else the first of the new ones with that
  tree id and file id.
\<close>

theorem file_lookup_after_inserts:
  assumes "files_inv s" and "\<forall>f \<in> set fs. file_insertable s (file_key f)"
  shows "lookup_file (fold (\<lambda>f s. insert_file s f) fs s) fd =
     (case lookup_file s fd of Some f \<Rightarrow> Some f | None \<Rightarrow> find (\<lambda>f. file_key f = fd) fs)"
  using assms by (intro file_table.get_after_adds) auto

definition sample_table :: smb_session where
  "sample_table = smb_session_share_add zero_session (new_share\<lparr>sh_tid := 1\<rparr>)"

definition sample_open_file :: "u16 \<Rightarrow> smb_file" where
  "sample_open_file fid = new_file\<lparr>f_tid := 1, f_fid := fid\<rparr>"

theorem file_lookup_after_inserts_witness:
  "lookup_file (fold (\<lambda>f s. insert_file s f) [sample_open_file 4, sample_open_file 5] sample_table)
     (SMB_FD 1 5) = Some (sample_open_file 5)"
proof -
  have "SMB_FD 1 4 \<noteq> 0" "SMB_FD 1 5 \<noteq> 0" by (simp_all add: SMB_FD_def)
  then show ?thesis
    using file_lookup_after_inserts [of sample_table "[sample_open_file 4, sample_open_file 5]" "SMB_FD 1 5"]
    by (simp add: sample_table_def sample_open_file_def smb_session_share_add_def zero_session_def
        new_share_def new_file_def files_inv_def file_insertable_def smb_session_share_get_def file_key_def
        lookup_file_eq SMB_FD_inject)
qed

text \<open>
  Removing a file that is not the first of its share does not look for
  its file id: the search past the first node compares file ids with the tree id of the
  descriptor. When no later file has that number the call returns null and the file stays
  open in the table; when one has, that other file is removed.
\<close>

lemma file_remove_not_first:
  assumes "fd \<noteq> 0" and "smb_session_share_get s (SMB_FD_TID fd) = Some sh"
    and "sh_files sh = g # fs" and "f_fid g \<noteq> SMB_FD_FID fd"
  shows "\<exists>s'. smb_session_file_remove s fd = Some (find (\<lambda>f. f_fid f = SMB_FD_TID fd) fs, s') \<and>
     (find (\<lambda>f. f_fid f = SMB_FD_TID fd) fs = None \<longrightarrow> s' = s)"
  using assms by (rule file_remove_missed)

end
