(* ===== verification/Stat.thy ===== *)
theory Stat
  imports Fd
begin

text \<open>
  \<^verbatim>\<open>src/smb_stat.c\<close>: access to the results of searches. A list of results is the list
  of its nodes; a pointer into it is the rest of the list from there, null at its end.
\<close>

definition SMB_STAT_SIZE :: int where [dsm_consts]: "SMB_STAT_SIZE = 0"
definition SMB_STAT_ALLOC_SIZE :: int where [dsm_consts]: "SMB_STAT_ALLOC_SIZE = 1"
definition SMB_STAT_ISDIR :: int where [dsm_consts]: "SMB_STAT_ISDIR = 2"
definition SMB_STAT_CTIME :: int where [dsm_consts]: "SMB_STAT_CTIME = 3"
definition SMB_STAT_ATIME :: int where [dsm_consts]: "SMB_STAT_ATIME = 4"
definition SMB_STAT_WTIME :: int where [dsm_consts]: "SMB_STAT_WTIME = 5"
definition SMB_STAT_MTIME :: int where [dsm_consts]: "SMB_STAT_MTIME = 6"

definition smb_stat_fd :: "smb_session \<Rightarrow> u32 \<Rightarrow> smb_file option option" where
  "smb_stat_fd s fd = do { c_assert (fd \<noteq> 0); smb_session_file_get s fd }"

text \<open>Freeing a list frees every node from the pointer on; what is left is null.\<close>

fun smb_stat_list_destroy :: "smb_file list \<Rightarrow> smb_file list" where
  "smb_stat_list_destroy [] = []"
| "smb_stat_list_destroy (f # fs) = smb_stat_list_destroy fs"

definition smb_stat_destroy :: "smb_file list \<Rightarrow> smb_file list" where
  "smb_stat_destroy st = smb_stat_list_destroy st"

fun stat_count_loop :: "nat \<Rightarrow> smb_file list \<Rightarrow> nat" where
  "stat_count_loop count [] = count"
| "stat_count_loop count (f # fs) = stat_count_loop (Suc count) fs"

definition smb_stat_list_count :: "smb_file list \<Rightarrow> nat" where
  "smb_stat_list_count fs = stat_count_loop 0 fs"

definition smb_stat_list_next :: "smb_file list \<Rightarrow> smb_file list option" where
  "smb_stat_list_next fs = (case fs of [] \<Rightarrow> None | _ # r \<Rightarrow> Some r)"

fun stat_at_loop :: "nat \<Rightarrow> smb_file list \<Rightarrow> nat \<Rightarrow> smb_file list" where
  "stat_at_loop pos [] idx = []"
| "stat_at_loop pos (f # fs) idx = (if pos < idx then stat_at_loop (Suc pos) fs idx else f # fs)"

definition smb_stat_list_at :: "smb_file list \<Rightarrow> nat \<Rightarrow> smb_file list" where
  "smb_stat_list_at fs idx = stat_at_loop 0 fs idx"

definition smb_stat_name :: "smb_file list \<Rightarrow> cstring option" where
  "smb_stat_name st = (case st of [] \<Rightarrow> None | info # _ \<Rightarrow> f_name info)"

definition smb_stat_get :: "smb_file list \<Rightarrow> int \<Rightarrow> u64" where
  "smb_stat_get st what =
     (case st of
        [] \<Rightarrow> 0
      | info # _ \<Rightarrow>
          (if what = SMB_STAT_SIZE then f_size info
           else if what = SMB_STAT_ALLOC_SIZE then f_alloc_size info
           else if what = SMB_STAT_CTIME then f_created info
           else if what = SMB_STAT_ATIME then f_accessed info
           else if what = SMB_STAT_WTIME then f_written info
           else if what = SMB_STAT_MTIME then f_changed info
           else if what = SMB_STAT_ISDIR then word_of_int (f_is_dir info)
           else 0))"

lemma stat_count_loop_eq: "stat_count_loop n fs = n + length fs"
  by (induction n fs rule: stat_count_loop.induct) auto

lemma stat_at_loop_eq: "stat_at_loop pos fs idx = drop (idx - pos) fs"
proof (induction pos fs idx rule: stat_at_loop.induct)
  case (1 pos idx)
  show ?case by simp
next
  case (2 pos f fs idx)
  show ?case
  proof (cases "pos < idx")
    case True
    then have "idx - pos = Suc (idx - Suc pos)" by simp
    with 2 True show ?thesis by simp
  qed simp
qed

text \<open>
  The position \<open>smb_stat_list_at\<close> returns for an index is null exactly when
  the index is not below \<open>smb_stat_list_count\<close>; otherwise it is the entry at that index,
  followed by the entries after it.
\<close>

lemma stat_list_at_count:
  "(smb_stat_list_at fs i = [] \<longleftrightarrow> smb_stat_list_count fs \<le> i) \<and>
     (\<forall>f r. smb_stat_list_at fs i = f # r \<longleftrightarrow> i < smb_stat_list_count fs \<and> f = fs ! i \<and> r = drop (Suc i) fs)"
proof -
  have "drop i fs = f # r \<longleftrightarrow> i < length fs \<and> f = fs ! i \<and> r = drop (Suc i) fs" for f r
    by (cases "i < length fs") (auto simp: Cons_nth_drop_Suc [symmetric])
  then show ?thesis
    by (simp add: smb_stat_list_at_def smb_stat_list_count_def stat_at_loop_eq stat_count_loop_eq)
qed

end
