(* ===== verification/Netbios_Stream.thy ===== *)
theory Netbios_Stream
  imports Netbios_Session
begin

text \<open>
  Receiving over the connection of \<open>Netbios_Session\<close>, related to an abstract view: a byte
  stream, from which frames are cut and keep-alives dropped. The receive loops of
  \<^verbatim>\<open>src/netbios_session.c\<close> implement it, however the stream arrives.
\<close>

section \<open>Receiving depends on the byte stream only\<close>

text \<open>
  A peer that sends data and leaves the connection alone: chunks of any size, idle wake-ups
  in between, no error. Its stream is the concatenation of the chunks.
\<close>

fun rx_clean :: "rx_event list \<Rightarrow> bool" where
  "rx_clean [] = True"
| "rx_clean (Rx_data bs # es) = (bs \<noteq> [] \<and> rx_clean es)"
| "rx_clean (Rx_idle # es) = rx_clean es"
| "rx_clean _ = False"

fun rx_stream :: "rx_event list \<Rightarrow> byte list" where
  "rx_stream [] = []"
| "rx_stream (Rx_data bs # es) = bs @ rx_stream es"
| "rx_stream (_ # es) = rx_stream es"

text \<open>The frames in a stream: cutting one off, and skipping keep-alives.\<close>

definition frame_length :: "byte list \<Rightarrow> nat" where
  "frame_length h = unat (h ! 3) + 256 * unat (h ! 2) + 65536 * (unat (h ! 1) mod 2)"

definition next_frame :: "byte list \<Rightarrow> (byte list \<times> byte list) option" where
  "next_frame bs =
     (if length bs < 4 \<or> length bs < 4 + frame_length bs then None
      else Some (take (4 + frame_length bs) bs, drop (4 + frame_length bs) bs))"

lemma next_frame_shorter: "next_frame bs = Some (f, rest) \<Longrightarrow> length rest < length bs"
  by (auto simp: next_frame_def split: if_splits)

function next_message :: "byte list \<Rightarrow> (byte list \<times> byte list) option" where
  "next_message bs =
     (case next_frame bs of
        None \<Rightarrow> None
      | Some (f, rest) \<Rightarrow> if f ! 0 = 0x85 then next_message rest else Some (f, rest))"
  by pat_completeness auto
termination
  by (relation "measure length") (auto dest: next_frame_shorter)

declare next_message.simps [simp del]

lemma rx_wait_clean:
  "rx_clean es \<Longrightarrow> 0 < len \<Longrightarrow> \<exists>bs es'. rx_wait es len = (int (length bs), bs, False, es') \<and> rx_clean es'
     \<and> length bs \<le> len \<and> rx_stream es = bs @ rx_stream es' \<and> (bs = [] \<longleftrightarrow> rx_stream es = [])"
proof (induction es)
  case Nil
  then show ?case by simp
next
  case (Cons e es)
  show ?case
  proof (cases e)
    case (Rx_data d)
    with Cons.prems have d: "d \<noteq> []" "rx_clean es" by auto
    show ?thesis
    proof (cases "len < length d")
      case True
      then show ?thesis using Rx_data d Cons.prems(2)
        by (intro exI [of _ "take len d"] exI [of _ "Rx_data (drop len d) # es"]) auto
    next
      case False
      then show ?thesis using Rx_data d
        by (intro exI [of _ d] exI [of _ es]) auto
    qed
  next
    case Rx_idle
    then show ?thesis using Cons by simp
  qed (use Cons.prems in simp_all)
qed

lemma netbios_session_recv_clean:
  assumes "rx_clean (w_rx w)" and "0 < len" and "link_up s"
  shows "\<exists>bs es. netbios_session_recv w s len = Some (int (length bs), bs, s, w\<lparr>w_rx := es\<rparr>)
     \<and> rx_clean es \<and> length bs \<le> len \<and> rx_stream (w_rx w) = bs @ rx_stream es
     \<and> (bs = [] \<longleftrightarrow> rx_stream (w_rx w) = [])"
proof -
  have eq: "netbios_session_recv w s len = (let (res, bs, ab, es) = rx_wait (w_rx w) len
           in Some (res, bs, note_abort ab s, w\<lparr>w_rx := es\<rparr>))"
    using assms(3) by (simp add: netbios_session_recv_def link_up_def netbios_abort_ctx_is_aborted_def)
  obtain bs es where rx: "rx_wait (w_rx w) len = (int (length bs), bs, False, es)"
    and p: "rx_clean es" "length bs \<le> len" "rx_stream (w_rx w) = bs @ rx_stream es"
      "bs = [] \<longleftrightarrow> rx_stream (w_rx w) = []"
    using rx_wait_clean [OF assms(1,2)] by blast
  show ?thesis
    by (rule exI [of _ bs], rule exI [of _ es]) (use p in \<open>simp add: eq rx note_abort_def\<close>)
qed

definition overlay :: "byte list \<Rightarrow> nat \<Rightarrow> byte list \<Rightarrow> byte list" where
  "overlay p off bs = take off p @ bs @ drop (off + length bs) p"

lemma overlay_overlay:
  "off + length a + length b \<le> length p \<Longrightarrow> overlay (overlay p off a) (off + length a) b = overlay p off (a @ b)"
  by (simp add: overlay_def add.assoc add.commute add.left_commute)

lemma length_overlay [simp]: "off + length a \<le> length p \<Longrightarrow> length (overlay p off a) = length p"
  by (simp add: overlay_def)

text \<open>The receive loop takes exactly the bytes it is asked for, if the peer sends as many.\<close>

lemma session_recv_all_clean:
  assumes "rx_clean (w_rx w)" and "link_up s" and "ns_packet s = Some p"
    and "base + tot \<le> length p" and "sofar \<le> tot"
  shows "\<exists>es. rx_clean es \<and>
     (if tot - sofar \<le> length (rx_stream (w_rx w))
      then session_recv_all w s base sofar tot = Some (True,
             s\<lparr>ns_packet := Some (overlay p (base + sofar) (take (tot - sofar) (rx_stream (w_rx w))))\<rparr>,
             w\<lparr>w_rx := es\<rparr>)
           \<and> rx_stream es = drop (tot - sofar) (rx_stream (w_rx w))
      else (\<exists>p'. length p' = length p \<and> rx_stream es = [] \<and>
             session_recv_all w s base sofar tot = Some (False, s\<lparr>ns_packet := Some p'\<rparr>, w\<lparr>w_rx := es\<rparr>)))"
  using assms
proof (induction w s base sofar tot arbitrary: p rule: session_recv_all.induct)
  case (1 w s base sofar tot)
  show ?case
  proof (cases "sofar < tot")
    case False
    then have "s\<lparr>ns_packet := Some (overlay p (base + sofar) [])\<rparr> = s"
      using 1(4) by (simp add: overlay_def)
    then show ?thesis using False 1(2)
      by (intro exI [of _ "w_rx w"]) (simp add: session_recv_all.simps)
  next
    case True
    then obtain bs es where r: "netbios_session_recv w s (tot - sofar) = Some (int (length bs), bs, s, w\<lparr>w_rx := es\<rparr>)"
      and es: "rx_clean es" "length bs \<le> tot - sofar" "rx_stream (w_rx w) = bs @ rx_stream es"
        "bs = [] \<longleftrightarrow> rx_stream (w_rx w) = []"
      using netbios_session_recv_clean [OF 1(2) _ 1(3), of "tot - sofar"] by force
    show ?thesis
    proof (cases "bs = []")
      case nil: True
      then have "session_recv_all w s base sofar tot = Some (False, s\<lparr>ns_packet := Some p\<rparr>, w\<lparr>w_rx := es\<rparr>)"
        using r True 1(4) by (simp add: session_recv_all.simps)
      then show ?thesis using True es nil by (intro exI [of _ es]) auto
    next
      case False
      let ?q = "overlay p (base + sofar) bs" and ?w = "w\<lparr>w_rx := es\<rparr>"
      let ?s = "s\<lparr>ns_packet := Some ?q\<rparr>"
      have fit: "base + sofar + length bs \<le> length p" using es(2) 1(5) True by simp
      then have wr: "buf_write p (base + sofar) bs = Some ?q" by (simp add: buf_write_def overlay_def)
      have step: "session_recv_all w s base sofar tot = session_recv_all ?w ?s base (sofar + length bs) tot"
        using r True False 1(4) wr by (simp add: session_recv_all.simps [of w])
      have up: "link_up ?s" using 1(3) by (simp add: link_up_def)
      have res: "\<not> int (length bs) \<le> 0" using False by simp
      have lq: "base + tot \<le> length ?q" using 1(5) fit by simp
      have le: "sofar + length bs \<le> tot" using es(2) True by simp
      have rx: "w_rx ?w = es" and pk: "ns_packet ?s = Some ?q" by simp_all
      obtain es' where IH: "rx_clean es' \<and>
        (if tot - (sofar + length bs) \<le> length (rx_stream es)
         then session_recv_all ?w ?s base (sofar + length bs) tot = Some (True,
             ?s\<lparr>ns_packet := Some (overlay ?q (base + (sofar + length bs)) (take (tot - (sofar + length bs)) (rx_stream es)))\<rparr>,
             ?w\<lparr>w_rx := es'\<rparr>)
           \<and> rx_stream es' = drop (tot - (sofar + length bs)) (rx_stream es)
         else (\<exists>p'. length p' = length ?q \<and> rx_stream es' = [] \<and>
             session_recv_all ?w ?s base (sofar + length bs) tot = Some (False, ?s\<lparr>ns_packet := Some p'\<rparr>, ?w\<lparr>w_rx := es'\<rparr>)))"
        using 1(1) [OF True r refl refl refl res 1(4) wr, unfolded nat_int rx, OF es(1) up pk lq le] by blast
      have sp: "overlay ?q (base + (sofar + length bs)) b = overlay p (base + sofar) (bs @ b)"
        if "length b \<le> tot - (sofar + length bs)" for b
        using overlay_overlay [of "base + sofar" bs b p] that fit 1(5) True es(2) by (simp add: add.assoc)
      have tk: "take (tot - sofar) (bs @ rx_stream es) = bs @ take (tot - (sofar + length bs)) (rx_stream es)"
        using es(2) by simp
      show ?thesis
        unfolding step es(3) tk using IH es(2) fit
        by (intro exI [of _ es']) (auto simp: sp split: if_splits)
    qed
  qed
qed

lemma ntohs_bytes:
  "unat (ntohs (word_of_nat (unat (a :: byte) + 256 * unat (b :: byte)))) = unat b + 256 * unat a"
proof -
  define x :: u16 where "x = word_of_nat (unat b + 256 * unat a)"
  have ab: "unat a < 256" "unat b < 256" by (simp_all add: unat_byte_less)
  then have ux: "unat x = unat b + 256 * unat a" unfolding x_def by (intro unat_word_of_nat) simp
  have "unat (drop_bit 8 x) = unat a"
    by (subst unat_drop_bit_eq) (use ux ab in \<open>simp add: drop_bit_eq_div\<close>)
  then have hi: "ucast (drop_bit 8 x) = a"
    by (metis word_of_nat_unat_self ucast_eq of_int_of_nat_eq uint_nat)
  have lo: "ucast x = b"
  proof -
    have "unat (ucast x :: byte) = unat x mod 256"
      using unat_byte_of_nat [of "unat x"] by simp
    then show ?thesis using ux ab by (simp add: word_unat_eq_iff)
  qed
  have "bytes_nat (nat_bytes 2 (unat (htons x))) = unat a + 256 * unat b"
    by (simp add: nat_bytes_htons hi lo)
  moreover have "unat (htons x) < 2 ^ LENGTH(16)" by (rule unsigned_less)
  ultimately have "unat (htons x) = unat a + 256 * unat b" by (simp del: of_nat_unat)
  then have "word_of_nat (unat a + 256 * unat b) = htons x" by (metis word_of_nat_unat_self)
  then show ?thesis using ux by simp
qed

lemma nat_or_high: "n < 65536 \<Longrightarrow> n OR push_bit 16 (k :: nat) = n + 65536 * k"
proof -
  assume n: "n < 65536"
  then have "take_bit 16 n = n" by (simp add: take_bit_nat_eq_self)
  then have "n AND push_bit 16 k = 0"
    by (metis (no_types, lifting) bit_eq_iff bit_and_iff bit_push_bit_iff bit_take_bit_iff bit_0_eq
        bot_apply bot_bool_def not_less)
  then have "n + push_bit 16 k = n OR push_bit 16 k" by (rule disjunctive_add_eq_or)
  then show ?thesis by (simp add: push_bit_eq_mult)
qed

text \<open>The length the receiver computes from a frame header.\<close>

lemma received_total:
  assumes p: "take 4 p = take 4 st" and len: "4 \<le> length st" "4 \<le> length p"
  shows "\<exists>l f. rd_field netbios_session_packet ''length'' p 0 = Some l
     \<and> rd_field netbios_session_packet ''flags'' p 0 = Some f
     \<and> unat (ntohs (word_of_nat l)) OR push_bit 16 (f AND 1) = frame_length st"
    and "rd_field netbios_session_packet ''opcode'' p 0 = Some (unat (st ! 0))"
proof -
  obtain a b c d r where st: "st = a # b # c # d # r"
    using len(1) by (cases st; cases "tl st"; cases "tl (tl st)"; cases "tl (tl (tl st))") auto
  obtain a' b' c' d' r' where p': "p = a' # b' # c' # d' # r'"
    using len(2) by (cases p; cases "tl p"; cases "tl (tl p)"; cases "tl (tl (tl p))") auto
  from p st p' have e: "a' = a" "b' = b" "c' = c" "d' = d" by auto
  have 1: "rd_field netbios_session_packet ''length'' p 0 = Some (unat c + 256 * unat d)"
    using p' e by (simp add: rd_field_def netbios_session_packet_def buf_read_def)
  have 2: "rd_field netbios_session_packet ''flags'' p 0 = Some (unat b)"
    using p' e by (simp add: rd_field_def netbios_session_packet_def buf_read_def)
  have "unat d + 256 * unat c < 65536" using unat_byte_less [of c] unat_byte_less [of d] by simp
  then have "unat (ntohs (word_of_nat (unat c + 256 * unat d))) OR push_bit 16 (unat b AND 1)
      = unat d + 256 * unat c + 65536 * (unat b AND 1)"
    by (simp only: ntohs_bytes nat_or_high)
  also have "\<dots> = frame_length st" using st by (simp add: frame_length_def and_one_eq)
  finally show "\<exists>l f. rd_field netbios_session_packet ''length'' p 0 = Some l
     \<and> rd_field netbios_session_packet ''flags'' p 0 = Some f
     \<and> unat (ntohs (word_of_nat l)) OR push_bit 16 (f AND 1) = frame_length st" using 1 2 by blast
  show "rd_field netbios_session_packet ''opcode'' p 0 = Some (unat (st ! 0))"
    using p' e st by (simp add: rd_field_def netbios_session_packet_def buf_read_def)
qed

lemma frame_length_bound: "frame_length h < 131072"
  using unat_byte_less [of "h ! 3"] unat_byte_less [of "h ! 2"]
  by (simp add: frame_length_def)

text \<open>Only the incoming stream and the allocator moved.\<close>

definition rx_only :: "world \<Rightarrow> world \<Rightarrow> bool" where
  "rx_only w w' \<longleftrightarrow> w'\<lparr>w_rx := w_rx w, w_alloc := w_alloc w\<rparr> = w"

lemma rx_only_trans: "rx_only w w' \<Longrightarrow> rx_only w' w'' \<Longrightarrow> rx_only w w''"
  by (cases w; cases w'; cases w'') (simp add: rx_only_def)

lemma rx_only_same_io: "same_io w w' \<Longrightarrow> rx_only w (w'\<lparr>w_rx := es\<rparr>)"
  by (cases w; cases w') (simp add: rx_only_def same_io_def)

lemma rx_only_upd [simp]: "rx_only w (w\<lparr>w_rx := es\<rparr>)"
  by (simp add: rx_only_def)

lemma rx_only_fields: "rx_only w w' \<Longrightarrow> w_sent w' = w_sent w \<and> w_tx w' = w_tx w \<and> w_conn w' = w_conn w"
  by (cases w; cases w') (simp add: rx_only_def)

text \<open>The buffer is made large enough for the frame announced by the header.\<close>

lemma recv_realloc:
  assumes buf: "nbs_buf s" and mem: "mem_ok w" and n: "n < 131072"
    and r: "(if n + 4 > unat (packet_payload_size s)
        then session_buffer_realloc w s (word_of_nat (n + 4)) else (1, s, w)) = (ok, s1, w1)"
  shows "ok = 1 \<and> same_link s s1 \<and> nbs_buf s1 \<and> mem_ok w1 \<and> same_io w w1
     \<and> packet_payload_size s \<le> packet_payload_size s1 \<and> packet_cursor s1 = packet_cursor s
     \<and> (\<exists>p p1. ns_packet s = Some p \<and> ns_packet s1 = Some p1 \<and> take 4 p1 = take 4 p \<and> 4 + n \<le> length p1)"
proof -
  obtain p where p: "ns_packet s = Some p" and sz: "unat (packet_payload_size s) \<le> length p"
    "length p \<le> unat (packet_payload_size s) + 4" "4 \<le> length p" "length p < 2 ^ 62"
    using buf by (auto simp: nbs_buf_def split: option.splits)
  show ?thesis
  proof (cases "n + 4 > unat (packet_payload_size s)")
    case False
    then have "ok = 1" "s1 = s" "w1 = w" using r by auto
    then show ?thesis using p sz mem buf False by auto
  next
    case True
    have u: "unat (word_of_nat (n + 4) :: u64) = n + 4" using n by (intro unat_u64_of_nat) simp
    obtain q w2 where q: "c_realloc w (Some p) (word_of_nat (n + 4)) = (q, w2)" by fastforce
    note qp = c_realloc_props [OF q] and ql = length_c_realloc [OF q]
    have "q \<noteq> None" using qp(3) mem u n by simp
    then obtain p1 where p1: "q = Some p1" by blast
    have l: "length p1 = n + 4" "take 4 p1 = take 4 p" using ql [OF p1] u sz by auto
    from r True q p1 p have "ok = 1" "w1 = w2"
      "s1 = s\<lparr>packet_payload_size := word_of_nat (n + 4), ns_packet := Some p1\<rparr>"
      by (auto simp: session_buffer_realloc_def)
    then show ?thesis
      using p sz u l True qp mem n by (auto simp: same_link_def nbs_buf_def word_le_nat_alt)
  qed
qed

lemma link_up_same: "same_link s s' \<Longrightarrow> link_up s' = link_up s"
  by (simp add: same_link_def link_up_def)

text \<open>A session that can receive, and what receiving keeps of it and of the world.\<close>

definition stream_ready :: "netbios_session \<Rightarrow> world \<Rightarrow> bool" where
  "stream_ready s w \<longleftrightarrow> nbs_buf s \<and> link_up s \<and> rx_clean (w_rx w) \<and> mem_ok w"

definition stream_keeps :: "netbios_session \<Rightarrow> world \<Rightarrow> netbios_session \<Rightarrow> world \<Rightarrow> bool" where
  "stream_keeps s w s' w' \<longleftrightarrow> nbs_buf s' \<and> same_link s s' \<and> packet_payload_size s \<le> packet_payload_size s' \<and>
     rx_clean (w_rx w') \<and> mem_ok w' \<and> rx_only w w'"

lemma stream_keeps_ready: "stream_keeps s w s' w' \<Longrightarrow> stream_ready s w \<Longrightarrow> stream_ready s' w'"
  using link_up_same [of s s'] by (simp add: stream_keeps_def stream_ready_def)

lemma stream_keeps_trans: "stream_keeps s w s1 w1 \<Longrightarrow> stream_keeps s1 w1 s2 w2 \<Longrightarrow> stream_keeps s w s2 w2"
  using same_link_trans rx_only_trans unfolding stream_keeps_def by (metis order_trans)

text \<open>The result of receiving, for what is cut off the stream.\<close>

definition delivers :: "(byte list \<times> byte list) option \<Rightarrow> int \<Rightarrow> netbios_session \<Rightarrow> world \<Rightarrow> bool" where
  "delivers fr r s w \<longleftrightarrow> (case fr of
      None \<Rightarrow> r = - 1
    | Some (f, rest) \<Rightarrow> r = int (length f - 4) \<and> rx_stream (w_rx w) = rest \<and> 4 \<le> length f \<and> take (length f) (the (ns_packet s)) = f)"

text \<open>One run of the receive loop: the bytes asked for are in their place, or the stream has ended.\<close>

lemma recv_part:
  assumes "stream_ready s w" and p: "ns_packet s = Some p" "off + n \<le> length p"
  obtains ok s' w' p' where "session_recv_all w s off 0 n = Some (ok, s', w')" and "stream_keeps s w s' w'"
    and "ns_packet s' = Some p'" and "length p' = length p" and "ok \<longleftrightarrow> n \<le> length (rx_stream (w_rx w))"
    and "ok \<longrightarrow> rx_stream (w_rx w') = drop n (rx_stream (w_rx w)) \<and> take (off + n) p' = take off p @ take n (rx_stream (w_rx w))"
proof -
  let ?st = "rx_stream (w_rx w)"
  have r: "nbs_buf s" "link_up s" "rx_clean (w_rx w)" "mem_ok w" using assms(1) by (simp_all add: stream_ready_def)
  have keeps: "stream_keeps s w (s\<lparr>ns_packet := Some p'\<rparr>) (w\<lparr>w_rx := es\<rparr>)" if "length p' = length p" "rx_clean es" for p' es
    using that r p by (simp add: stream_keeps_def nbs_buf_def same_link_def mem_ok_def)
  from session_recv_all_clean [OF r(3,2) p(1), of off n 0] p(2) obtain es where es: "rx_clean es"
    "if n \<le> length ?st then session_recv_all w s off 0 n = Some (True, s\<lparr>ns_packet := Some (overlay p off (take n ?st))\<rparr>, w\<lparr>w_rx := es\<rparr>)
        \<and> rx_stream es = drop n ?st
      else (\<exists>p'. length p' = length p \<and> rx_stream es = [] \<and> session_recv_all w s off 0 n = Some (False, s\<lparr>ns_packet := Some p'\<rparr>, w\<lparr>w_rx := es\<rparr>))"
    by auto
  show thesis
  proof (cases "n \<le> length ?st")
    case True
    let ?p = "overlay p off (take n ?st)"
    have "length ?p = length p" "take (off + n) ?p = take off p @ take n ?st" using True p(2) by (simp_all add: overlay_def)
    then show thesis using True es keeps [of ?p es] by (intro that [of True _ _ ?p]) auto
  next
    case False
    then obtain p' where "length p' = length p" "session_recv_all w s off 0 n = Some (False, s\<lparr>ns_packet := Some p'\<rparr>, w\<lparr>w_rx := es\<rparr>)"
      using es(2) by auto
    then show thesis using False es(1) keeps [of p' es] by (intro that [of False _ _ p']) auto
  qed
qed

text \<open>After a whole header the buffer has room for the frame, and its payload is what is received next.\<close>

lemma recv_header:
  assumes ready: "stream_ready s w" and len: "4 \<le> length (rx_stream (w_rx w))"
  obtains s2 w2 p2 where "netbios_session_get_next_packet w s = do {
       (ok, s', w') \<leftarrow> session_recv_all w2 s2 4 0 (frame_length (rx_stream (w_rx w)));
       if \<not> ok then Some (- 1, s', w') else Some (int (frame_length (rx_stream (w_rx w))), s', w') }"
    and "stream_keeps s w s2 w2" and "rx_stream (w_rx w2) = drop 4 (rx_stream (w_rx w))"
    and "ns_packet s2 = Some p2" and "take 4 p2 = take 4 (rx_stream (w_rx w))" and "4 + frame_length (rx_stream (w_rx w)) \<le> length p2"
proof -
  let ?st = "rx_stream (w_rx w)" and ?n = "frame_length (rx_stream (w_rx w))"
  obtain p where p: "ns_packet s = Some p" "0 + 4 \<le> length p"
    using ready by (auto simp: stream_ready_def nbs_buf_def split: option.splits)
  have as: "c_assert (ns_packet s \<noteq> None \<and> 0 \<le> ns_socket s \<and> 0 < ns_state s) = Some ()"
    using p ready by (simp add: stream_ready_def link_up_def)
  obtain b s1 w1 p1 where r: "session_recv_all w s 0 0 4 = Some (b, s1, w1)" and k1: "stream_keeps s w s1 w1"
    and q: "ns_packet s1 = Some p1" "length p1 = length p" "b \<longleftrightarrow> 4 \<le> length ?st"
      "b \<longrightarrow> rx_stream (w_rx w1) = drop 4 ?st \<and> take (0 + 4) p1 = take 0 p @ take 4 ?st"
    using recv_part [OF ready p] by blast
  then have r1: "session_recv_all w s 0 0 4 = Some (True, s1, w1)"
    and p1: "ns_packet s1 = Some p1" "length p1 = length p" "rx_stream (w_rx w1) = drop 4 ?st" "take 4 p1 = take 4 ?st"
    using len by simp_all
  obtain l f where lf: "rd_field netbios_session_packet ''length'' p1 0 = Some l" "rd_field netbios_session_packet ''flags'' p1 0 = Some f"
    "unat (ntohs (word_of_nat l)) OR push_bit 16 (f AND 1) = ?n"
    using received_total(1) [OF p1(4) len] p1(2) p(2) by auto
  obtain ok s2 w2 where re: "(if ?n + 4 > unat (packet_payload_size s1)
      then session_buffer_realloc w1 s1 (word_of_nat (?n + 4)) else (1, s1, w1)) = (ok, s2, w2)" using prod_cases3 by blast
  have "nbs_buf s1" "mem_ok w1" using k1 by (simp_all add: stream_keeps_def)
  from recv_realloc [OF this frame_length_bound re] p1(1) obtain p2 where ok: "ok = 1" and k2: "stream_keeps s1 w1 s2 w2" "w_rx w2 = w_rx w1"
    and p2: "ns_packet s2 = Some p2" "take 4 p2 = take 4 p1" "4 + ?n \<le> length p2"
    using k1 rx_only_same_io [of w1 w2 "w_rx w2"] by (auto simp: stream_keeps_def same_io_fields)
  have "netbios_session_get_next_packet w s = do {
       (ok, s', w') \<leftarrow> session_recv_all w2 s2 4 0 ?n;
       if \<not> ok then Some (- 1, s', w') else Some (int ?n, s', w') }"
    unfolding netbios_session_get_next_packet_def as using r1 lf re ok p1(1) by (simp add: Let_def cong: if_cong)
  from that [OF this stream_keeps_trans [OF k1 k2(1)] _ p2(1)] show thesis using p1 p2 k2(2) by simp
qed

lemma get_next_packet_refines:
  assumes ready: "stream_ready s w"
  shows "\<exists>r s' w'. netbios_session_get_next_packet w s = Some (r, s', w') \<and> stream_keeps s w s' w' \<and>
     delivers (next_frame (rx_stream (w_rx w))) r s' w'"
proof (cases "4 \<le> length (rx_stream (w_rx w))")
  case False
  obtain p where p: "ns_packet s = Some p" "0 + 4 \<le> length p"
    using ready by (auto simp: stream_ready_def nbs_buf_def split: option.splits)
  obtain ok s1 w1 where "session_recv_all w s 0 0 4 = Some (ok, s1, w1)" "stream_keeps s w s1 w1" "ok \<longleftrightarrow> 4 \<le> length (rx_stream (w_rx w))"
    using recv_part [OF ready p] by blast
  then show ?thesis
    using False p ready by (auto simp: netbios_session_get_next_packet_def next_frame_def delivers_def stream_ready_def link_up_def)
next
  case True
  let ?st = "rx_stream (w_rx w)" and ?n = "frame_length (rx_stream (w_rx w))"
  obtain s2 w2 p2 where eq: "netbios_session_get_next_packet w s = do {
       (ok, s', w') \<leftarrow> session_recv_all w2 s2 4 0 ?n; if \<not> ok then Some (- 1, s', w') else Some (int ?n, s', w') }"
    and k: "stream_keeps s w s2 w2" and st: "rx_stream (w_rx w2) = drop 4 ?st"
    and p2: "ns_packet s2 = Some p2" "take 4 p2 = take 4 ?st" "4 + ?n \<le> length p2"
    using recv_header [OF ready True] by blast
  obtain ok s' w' p' where r: "session_recv_all w2 s2 4 0 ?n = Some (ok, s', w')" "stream_keeps s2 w2 s' w'" "ns_packet s' = Some p'"
    "length p' = length p2" "ok \<longleftrightarrow> ?n \<le> length (rx_stream (w_rx w2))"
    "ok \<longrightarrow> rx_stream (w_rx w') = drop ?n (rx_stream (w_rx w2)) \<and> take (4 + ?n) p' = take 4 p2 @ take ?n (rx_stream (w_rx w2))"
    using recv_part [OF stream_keeps_ready [OF k ready] p2(1,3)] by blast
  have "take 4 ?st @ take ?n (drop 4 ?st) = take (4 + ?n) ?st" by (rule take_add [symmetric])
  then have "delivers (next_frame ?st) (if ok then int ?n else - 1) s' w'"
    using r(3,5,6) st p2(2) True by (auto simp: delivers_def next_frame_def add.commute)
  then show ?thesis using r(1) stream_keeps_trans [OF k r(2)] by (auto simp: eq)
qed

lemma packet_recv_delivers:
  assumes "stream_ready s w"
  shows "\<exists>r s' w'. netbios_session_packet_recv w s = Some (r, s', w') \<and> stream_keeps s w s' w' \<and>
     delivers (next_message (rx_stream (w_rx w))) r s' w'"
  using assms
proof (induction w s rule: netbios_session_packet_recv.induct)
  case (1 w s)
  let ?st = "rx_stream (w_rx w)"
  from get_next_packet_refines [OF 1(2)] obtain r s1 w1 where nx: "netbios_session_get_next_packet w s = Some (r, s1, w1)"
    and k: "stream_keeps s w s1 w1" and fr: "delivers (next_frame ?st) r s1 w1" by blast
  note step = netbios_session_packet_recv.simps [of w s] next_message.simps [of ?st]
  show ?case
  proof (cases "next_frame ?st")
    case None
    then show ?thesis using nx fr k by (simp add: step delivers_def)
  next
    case (Some fr')
    obtain f rest where fr': "fr' = (f, rest)" by (cases fr')
    from fr Some fr' have r: "r = int (length f - 4)" and rest: "rx_stream (w_rx w1) = rest"
      and f: "4 \<le> length f" "take (length f) (the (ns_packet s1)) = f" by (auto simp: delivers_def)
    obtain p where p: "ns_packet s1 = Some p" "4 \<le> length p"
      using k by (auto simp: stream_keeps_def nbs_buf_def split: option.splits)
    have "take 4 p = take 4 f" using f p by (metis take_take min.absorb1 option.sel)
    from received_total(2) [OF this f(1) p(2)] have op: "rd_field netbios_session_packet ''opcode'' p 0 = Some (unat (f ! 0))" .
    have ka: "unat (f ! 0) = NETBIOS_OP_SESSION_KEEPALIVE \<longleftrightarrow> f ! 0 = 0x85" by (simp add: dsm_consts word_unat_eq_iff)
    show ?thesis
    proof (cases "f ! 0 = 0x85")
      case False
      then show ?thesis using nx r rest f k p op ka Some fr' by (simp add: step delivers_def)
    next
      case True
      have e: "netbios_session_packet_recv w s = netbios_session_packet_recv w1 s1" "next_message ?st = next_message rest"
        using nx r p op ka True Some fr' by (simp_all add: step)
      have "0 \<le> r" using r by simp
      from 1(1) [OF nx refl refl this p(1) op _ stream_keeps_ready [OF k 1(2)]] True ka rest
      show ?thesis unfolding e using stream_keeps_trans [OF k] by auto
    qed
  qed
qed

lemma packet_recv_refines:
  assumes "nbs_buf s" and "link_up s" and "rx_clean (w_rx w)" and "mem_ok w"
  shows "\<exists>r s' w'. netbios_session_packet_recv w s = Some (r, s', w') \<and> nbs_buf s' \<and> same_link s s'
     \<and> packet_payload_size s \<le> packet_payload_size s' \<and> rx_clean (w_rx w') \<and> mem_ok w' \<and> rx_only w w' \<and>
     (case next_message (rx_stream (w_rx w)) of
        None \<Rightarrow> r = - 1
      | Some (f, rest) \<Rightarrow> r = int (length f - 4) \<and> rx_stream (w_rx w') = rest
          \<and> 4 \<le> length f \<and> take (length f) (the (ns_packet s')) = f)"
  using packet_recv_delivers [of s w] assms by (simp add: stream_ready_def stream_keeps_def delivers_def)

text \<open>Cutting a frame off a stream that starts with one.\<close>

lemma nbt_frame_simps [simp]:
  "length (nbt_frame op fl payload) = 4 + length payload" "nbt_frame op fl payload ! 0 = op"
  "drop 4 (nbt_frame op fl payload) = payload"
  by (simp_all add: nbt_frame_def)

lemma frame_length_nbt: "frame_length (nbt_frame op 0 payload @ rest) = length payload mod 65536"
  using mod_mult2_eq [of "length payload" 256 256]
  by (simp add: frame_length_def nbt_frame_def unat_of_nat)

lemma next_frame_nbt:
  assumes "length payload < 65536"
  shows "next_frame (nbt_frame op 0 payload @ rest) = Some (nbt_frame op 0 payload, rest)"
  using assms frame_length_nbt [of op payload rest] by (simp add: next_frame_def)

lemma next_message_nbt:
  assumes "length payload < 65536" and "op \<noteq> 0x85"
  shows "next_message (nbt_frame op 0 payload @ rest) = Some (nbt_frame op 0 payload, rest)"
    and "next_message (nbt_frame 0x85 0 payload @ rest) = next_message rest"
  using next_frame_nbt [OF assms(1)] assms(2)
  by (simp_all add: next_message.simps [of "nbt_frame _ 0 payload @ rest"])

text \<open>Whatever the size of the payload, a receiver takes what the header announces, and the rest for what follows.\<close>

lemma next_message_cut:
  assumes "op \<noteq> 0x85" and "n = length payload mod 65536"
  shows "next_message (nbt_frame op 0 payload @ rest) =
     Some (take (4 + n) (nbt_frame op 0 payload), drop n payload @ rest)"
proof -
  have n: "n \<le> length payload" using assms(2) by simp
  have "next_frame (nbt_frame op 0 payload @ rest) = Some (take (4 + n) (nbt_frame op 0 payload), drop n payload @ rest)"
    using frame_length_nbt [of op payload rest] n assms(2) drop_drop [of n 4 "nbt_frame op 0 payload"]
    by (simp add: next_frame_def add.commute)
  then show ?thesis
    using assms(1) by (simp add: next_message.simps [of "nbt_frame op 0 payload @ rest"])
qed

section \<open>Properties\<close>

text \<open>
  C1 (stream). When the peer sends data only, \<open>netbios_session_packet_recv\<close> delivers the
  next frame of its byte stream that is not a keep-alive, whole and alone in the buffer, and
  leaves the rest of the stream for later calls; when the stream ends first it returns -1.
  How the stream is cut into chunks, and how large the buffer was, makes no difference. It
  always returns.
\<close>

theorem session_recv_refines_stream:
  assumes "nbs_buf s" and "link_up s" and "rx_clean (w_rx w)" and "mem_ok w"
  shows "\<exists>r s' w'. netbios_session_packet_recv w s = Some (r, s', w') \<and> nbs_buf s' \<and> link_up s'
     \<and> w_sent w' = w_sent w \<and>
     (case next_message (rx_stream (w_rx w)) of
        None \<Rightarrow> r = - 1
      | Some (f, rest) \<Rightarrow> r = int (length f - 4) \<and> take (length f) (the (ns_packet s')) = f
          \<and> rx_clean (w_rx w') \<and> rx_stream (w_rx w') = rest)"
proof -
  from packet_recv_refines [OF assms] obtain r s' w' where
    "netbios_session_packet_recv w s = Some (r, s', w')" "nbs_buf s'" "same_link s s'"
    "rx_clean (w_rx w')" "rx_only w w'"
    "case next_message (rx_stream (w_rx w)) of
        None \<Rightarrow> r = - 1
      | Some (f, rest) \<Rightarrow> r = int (length f - 4) \<and> rx_stream (w_rx w') = rest
          \<and> 4 \<le> length f \<and> take (length f) (the (ns_packet s')) = f" by blast
  then show ?thesis
    using rx_only_fields [of w w'] link_up_same [of s s'] assms(2)
    by (intro exI [of _ r] exI [of _ s'] exI [of _ w']) (auto split: option.splits)
qed

text \<open>
  The instance: a keep-alive and a three-byte message arrive in three chunks that cut both
  headers.
\<close>

definition sample_rx :: "rx_event list" where
  "sample_rx = [Rx_data [0x85, 0], Rx_idle, Rx_data [0, 0, 0], Rx_data [0, 0, 3, 1, 2, 3, 9]]"

lemma sample_rx_message: "next_message (rx_stream sample_rx) = Some ([0, 0, 0, 3, 1, 2, 3], [9])"
proof -
  have "rx_stream sample_rx = nbt_frame 0x85 0 [] @ nbt_frame 0 0 [1, 2, 3] @ [9]"
    by (simp add: sample_rx_def nbt_frame_def)
  then show ?thesis
    using next_message_nbt(2) [of "[]" 0 "nbt_frame 0 0 [1, 2, 3] @ [9]"]
      next_message_nbt(1) [of "[1, 2, 3]" 0 "[9]"]
    by (simp add: nbt_frame_def)
qed

theorem session_recv_refines_stream_witness:
  "\<exists>s' w'. netbios_session_packet_recv (sample_world\<lparr>w_rx := sample_rx\<rparr>) sample_session = Some (3, s', w')
     \<and> take 7 (the (ns_packet s')) = [0, 0, 0, 3, 1, 2, 3] \<and> rx_stream (w_rx w') = [9]"
proof -
  have "rx_clean (w_rx (sample_world\<lparr>w_rx := sample_rx\<rparr>))" by (simp add: sample_rx_def)
  moreover have "mem_ok (sample_world\<lparr>w_rx := sample_rx\<rparr>)"
    using sample_world_mem by (simp add: mem_ok_def)
  ultimately show ?thesis
    using session_recv_refines_stream [OF sample_session_inv(3,2), of "sample_world\<lparr>w_rx := sample_rx\<rparr>"]
    by (auto simp: sample_rx_message eval_nat_numeral)
qed

end
