(* ===== verification/Transport.thy ===== *)
theory Transport
  imports Netbios_Stream Session_Types
begin

text \<open>
  \<^verbatim>\<open>src/smb_transport.c\<close>: the function table through which the SMB layer reaches the
  NetBIOS layer. What the SMB layer relies on is a locale: a packet that is initialised,
  filled once and sent appears on the wire as one frame, and a receive delivers the next
  message of the peer's stream. The NetBIOS functions implement it, for packets outside the
  four-byte gap in which an append overruns the buffer.
\<close>

section \<open>The function tables\<close>

definition transport_connect_nbt ::
  "world \<Rightarrow> u32 \<Rightarrow> netbios_session \<Rightarrow> cstring \<Rightarrow> (int \<times> netbios_session \<times> world) option" where
  "transport_connect_nbt w ip s name = netbios_session_connect w ip s name False"

definition transport_connect_tcp ::
  "world \<Rightarrow> u32 \<Rightarrow> netbios_session \<Rightarrow> cstring \<Rightarrow> (int \<times> netbios_session \<times> world) option" where
  "transport_connect_tcp w ip s name = netbios_session_connect w ip s name True"

definition smb_transport_new_session :: "world \<Rightarrow> u64 \<Rightarrow> netbios_session option \<times> world" where
  "smb_transport_new_session w sz = netbios_session_new w sz"

definition smb_transport_destroy_session :: "netbios_session option \<Rightarrow> netbios_session option" where
  "smb_transport_destroy_session s = netbios_session_destroy s"

definition smb_transport_abort_session :: "netbios_session \<Rightarrow> netbios_session" where
  "smb_transport_abort_session s = netbios_session_abort s"

definition smb_transport_nbt :: "smb_transport \<Rightarrow> smb_transport" where
  "smb_transport_nbt tr =
     tr\<lparr>tr_connect := Some transport_connect_nbt,
        tr_disconnect := Some netbios_session_disconnect,
        tr_pkt_init := Some netbios_session_packet_init,
        tr_pkt_append := Some netbios_session_packet_append,
        tr_send := Some netbios_session_packet_send,
        tr_recv := Some netbios_session_packet_recv\<rparr>"

definition smb_transport_tcp :: "smb_transport \<Rightarrow> smb_transport" where
  "smb_transport_tcp tr =
     tr\<lparr>tr_connect := Some transport_connect_tcp,
        tr_disconnect := Some netbios_session_disconnect,
        tr_pkt_init := Some netbios_session_packet_init,
        tr_pkt_append := Some netbios_session_packet_append,
        tr_send := Some netbios_session_packet_send,
        tr_recv := Some netbios_session_packet_recv\<rparr>"

section \<open>What the SMB layer relies on\<close>

text \<open>
  A peer and an allocator that cause no trouble: memory is available, the socket takes every
  write, and the peer sends nothing but data.
\<close>

definition peer_ok :: "world \<Rightarrow> bool" where
  "peer_ok w \<longleftrightarrow> mem_ok w \<and> w_tx w = [] \<and> rx_clean (w_rx w)"

locale smb_link =
  fixes init :: "netbios_session \<Rightarrow> netbios_session option"
    and append :: "world \<Rightarrow> netbios_session \<Rightarrow> byte list \<Rightarrow> u64 \<Rightarrow> (int \<times> netbios_session \<times> world) option"
    and send :: "world \<Rightarrow> netbios_session \<Rightarrow> (int \<times> netbios_session \<times> world) option"
    and recv :: "world \<Rightarrow> netbios_session \<Rightarrow> (int \<times> netbios_session \<times> world) option"
    and ready :: "netbios_session \<Rightarrow> bool"
    and sendable :: "netbios_session \<Rightarrow> nat \<Rightarrow> bool"
  assumes init_append:
    "ready ns \<Longrightarrow> peer_ok w \<Longrightarrow> sendable ns (unat n) \<Longrightarrow> unat n \<le> length d \<Longrightarrow>
       \<exists>ns1 ns2 w2. init ns = Some ns1 \<and> append w ns1 d n = Some (1, ns2, w2) \<and> peer_ok w2 \<and> same_io w w2
         \<and> (\<exists>r ns3 w3. send w2 ns2 = Some (r, ns3, w3) \<and> r \<noteq> 0 \<and> ready ns3 \<and> peer_ok w3
              \<and> w_sent w3 = w_sent w @ [nbt_frame 0 0 (take (unat n) d)] \<and> w_rx w3 = w_rx w
              \<and> packet_payload_size ns \<le> packet_payload_size ns3)"
    and recv_next:
    "ready ns \<Longrightarrow> peer_ok w \<Longrightarrow>
       \<exists>r ns' w'. recv w ns = Some (r, ns', w') \<and> ready ns' \<and> peer_ok w' \<and> w_sent w' = w_sent w
         \<and> packet_payload_size ns \<le> packet_payload_size ns'
         \<and> (case next_message (rx_stream (w_rx w)) of
              None \<Rightarrow> r = - 1
            | Some (f, rest) \<Rightarrow> r = int (length f - 4) \<and> rx_stream (w_rx w') = rest \<and> 4 \<le> length f
                \<and> (\<exists>p. ns_packet ns' = Some p \<and> take (length f) p = f))"

section \<open>The NetBIOS functions implement the link\<close>

definition nbs_ready :: "netbios_session \<Rightarrow> bool" where
  "nbs_ready ns \<longleftrightarrow> nbs_buf ns \<and> link_up ns"

definition nbs_sendable :: "netbios_session \<Rightarrow> nat \<Rightarrow> bool" where
  "nbs_sendable ns n \<longleftrightarrow>
     (n + 4 \<le> unat (packet_payload_size ns) \<or> unat (packet_payload_size ns) < n) \<and> n < 2 ^ 30"

lemma link_up_link: "same_link s s' \<Longrightarrow> link_up s \<Longrightarrow> link_up s'"
  by (simp add: link_up_same)

lemma nbs_send_frame:
  assumes ready: "nbs_ready ns" and peer: "peer_ok w" and n: "nbs_sendable ns (unat n)" and len: "unat n \<le> length d"
  shows "\<exists>ns1 ns2 w2. netbios_session_packet_init ns = Some ns1
     \<and> netbios_session_packet_append w ns1 d n = Some (1, ns2, w2) \<and> peer_ok w2 \<and> same_io w w2
     \<and> (\<exists>r ns3 w3. netbios_session_packet_send w2 ns2 = Some (r, ns3, w3) \<and> r \<noteq> 0 \<and> nbs_ready ns3 \<and> peer_ok w3
          \<and> w_sent w3 = w_sent w @ [nbt_frame 0 0 (take (unat n) d)] \<and> w_rx w3 = w_rx w
          \<and> packet_payload_size ns \<le> packet_payload_size ns3)"
proof -
  obtain ns1 where i: "netbios_session_packet_init ns = Some ns1" "nbs_inv ns1" "same_link ns ns1"
    "nbs_content ns1 = []" "take 2 (the (ns_packet ns1)) = [0, 0]" "packet_cursor ns1 = 0"
    "nbs_room ns1 = nbs_room ns" "packet_payload_size ns1 = packet_payload_size ns"
    using packet_init_ok [of ns] ready by (auto simp: nbs_ready_def)
  have room: "unat (packet_payload_size ns) \<le> nbs_room ns + 4"
    using ready by (auto simp: nbs_ready_def nbs_buf_def nbs_room_def split: option.splits)
  have safe: "append_safe ns1 (unat n)"
    using n i room by (auto simp: append_safe_def nbs_sendable_def)
  have small: "unat (packet_cursor ns1) + unat n < 2 ^ 61" using n i by (simp add: nbs_sendable_def)
  from packet_append_exact [OF i(2) _ small len, of w] safe peer
  obtain ns2 w2 where a: "netbios_session_packet_append w ns1 d n = Some (1, ns2, w2)" "nbs_inv ns2"
    "same_link ns1 ns2" "mem_ok w2" "same_io w w2" "nbs_content ns2 = take (unat n) d"
    "take 4 (the (ns_packet ns2)) = take 4 (the (ns_packet ns1))"
    "packet_payload_size ns1 \<le> packet_payload_size ns2"
    using i(4) by (auto simp: peer_ok_def wp_iff)
  note io = same_io_fields [OF a(5)]
  have up2: "link_up ns2" using ready link_up_link i(3) a(3) by (auto simp: nbs_ready_def)
  have hd: "the (ns_packet ns2) ! 0 = 0" "the (ns_packet ns2) ! 1 = 0"
  proof -
    have "take 2 (the (ns_packet ns2)) = take 2 (the (ns_packet ns1))"
      using arg_cong [OF a(7), of "take 2"] by simp
    then have t2: "take 2 (the (ns_packet ns2)) = [0, 0]" using i(5) by simp
    show "the (ns_packet ns2) ! 0 = 0" "the (ns_packet ns2) ! 1 = 0"
      using arg_cong [OF t2, of "\<lambda>l. l ! 0"] arg_cong [OF t2, of "\<lambda>l. l ! 1"] by simp_all
  qed
  have fr: "nbs_frame ns2 = nbt_frame 0 0 (take (unat n) d)" using a(6) hd by (simp add: nbs_frame_def)
  have c2: "unat (packet_cursor ns2) = unat n"
  proof -
    have "length (nbs_content ns2) = unat (packet_cursor ns2)"
      using a(2) nbs_invD [OF a(2)] by (auto simp: nbs_content_def)
    then show ?thesis using a(6) len by simp
  qed
  have "unat (packet_cursor ns2) < 2 ^ 30" using n c2 by (simp add: nbs_sendable_def)
  moreover have "tx_wait (w_tx w2) k = (Some k, False, [])" for k using io peer by (simp add: peer_ok_def)
  ultimately obtain r ns3 w3 where s: "netbios_session_packet_send w2 ns2 = Some (r, ns3, w3)" "nbs_inv ns3"
    "r = int (length (nbs_frame ns2))" "ns3 = ns3\<lparr>abort_ctx := Pipe_open False\<rparr>"
    "ns_socket ns3 = ns_socket ns2" "ns_state ns3 = ns_state ns2" "packet_payload_size ns3 = packet_payload_size ns2"
    "w3 = w2\<lparr>w_tx := [], w_sent := w_sent w2 @ [take (length (nbs_frame ns2)) (nbs_frame ns2)]\<rparr>"
    using packet_send_spec [OF a(2) up2, of w2] by auto
  have "abort_ctx ns3 = Pipe_open False"
    using arg_cong [OF s(4), of abort_ctx] by simp
  then have "nbs_ready ns3" using s up2 by (auto simp: nbs_ready_def nbs_inv_def link_up_def)
  moreover have "peer_ok w2" "peer_ok w3"
    using s(8) peer a(4) io by (simp_all add: peer_ok_def mem_ok_def)
  moreover have "r \<noteq> 0" using s(3) fr by simp
  moreover have "w_sent w3 = w_sent w @ [nbt_frame 0 0 (take (unat n) d)]" "w_rx w3 = w_rx w"
    using s(8) io fr by simp_all
  moreover have "packet_payload_size ns \<le> packet_payload_size ns3" using i(8) a(8) s(7) by simp
  ultimately show ?thesis using i(1) a(1,5) s(1) by blast
qed

lemma nbs_recv_next:
  assumes ready: "nbs_ready ns" and peer: "peer_ok w"
  shows "\<exists>r ns' w'. netbios_session_packet_recv w ns = Some (r, ns', w') \<and> nbs_ready ns' \<and> peer_ok w'
     \<and> w_sent w' = w_sent w \<and> packet_payload_size ns \<le> packet_payload_size ns'
     \<and> (case next_message (rx_stream (w_rx w)) of
          None \<Rightarrow> r = - 1
        | Some (f, rest) \<Rightarrow> r = int (length f - 4) \<and> rx_stream (w_rx w') = rest \<and> 4 \<le> length f
            \<and> (\<exists>p. ns_packet ns' = Some p \<and> take (length f) p = f))"
proof -
  obtain r ns' w' where r: "netbios_session_packet_recv w ns = Some (r, ns', w')" "nbs_buf ns'" "same_link ns ns'"
    "packet_payload_size ns \<le> packet_payload_size ns'" "rx_clean (w_rx w')" "mem_ok w'" "rx_only w w'"
    "case next_message (rx_stream (w_rx w)) of
        None \<Rightarrow> r = - 1
      | Some (f, rest) \<Rightarrow> r = int (length f - 4) \<and> rx_stream (w_rx w') = rest
          \<and> 4 \<le> length f \<and> take (length f) (the (ns_packet ns')) = f"
    using packet_recv_refines [of ns w] assms by (auto simp: nbs_ready_def peer_ok_def)
  obtain p where p: "ns_packet ns' = Some p" using r(2) by (auto simp: nbs_buf_def split: option.splits)
  show ?thesis
    using r p rx_only_fields [OF r(7)] peer ready link_up_link [OF r(3)]
    by (intro exI [of _ r] exI [of _ ns'] exI [of _ w'])
      (auto simp: nbs_ready_def peer_ok_def split: option.splits)
qed

interpretation nbs_link: smb_link netbios_session_packet_init netbios_session_packet_append
  netbios_session_packet_send netbios_session_packet_recv nbs_ready nbs_sendable
proof
  fix ns :: netbios_session and w :: world and n :: u64 and d :: "byte list"
  show "nbs_ready ns \<Longrightarrow> peer_ok w \<Longrightarrow> nbs_sendable ns (unat n) \<Longrightarrow> unat n \<le> length d \<Longrightarrow>
     \<exists>ns1 ns2 w2. netbios_session_packet_init ns = Some ns1
       \<and> netbios_session_packet_append w ns1 d n = Some (1, ns2, w2) \<and> peer_ok w2 \<and> same_io w w2
       \<and> (\<exists>r ns3 w3. netbios_session_packet_send w2 ns2 = Some (r, ns3, w3) \<and> r \<noteq> 0 \<and> nbs_ready ns3 \<and> peer_ok w3
            \<and> w_sent w3 = w_sent w @ [nbt_frame 0 0 (take (unat n) d)] \<and> w_rx w3 = w_rx w
            \<and> packet_payload_size ns \<le> packet_payload_size ns3)"
    by (rule nbs_send_frame)
  show "nbs_ready ns \<Longrightarrow> peer_ok w \<Longrightarrow>
     \<exists>r ns' w'. netbios_session_packet_recv w ns = Some (r, ns', w') \<and> nbs_ready ns' \<and> peer_ok w'
       \<and> w_sent w' = w_sent w \<and> packet_payload_size ns \<le> packet_payload_size ns'
       \<and> (case next_message (rx_stream (w_rx w)) of
            None \<Rightarrow> r = - 1
          | Some (f, rest) \<Rightarrow> r = int (length f - 4) \<and> rx_stream (w_rx w') = rest \<and> 4 \<le> length f
              \<and> (\<exists>p. ns_packet ns' = Some p \<and> take (length f) p = f))"
    by (rule nbs_recv_next)
qed

end
