(* ===== verification/Message.thy ===== *)
theory Message
  imports Utils
begin

text \<open>
  \<^verbatim>\<open>src/smb_message.c\<close>: the growable packet in which every SMB request is built.
  A message pointer is an option (\<^term>\<open>None\<close> is the null pointer); the packet it owns is
  the list of its allocated bytes, the 32-byte header first.

  The main results: the 64-bit size computation of \<open>smb_message_expand_payload\<close>, which
  wraps when it is asked for zero bytes, always yields the least multiple of the block size
  above the end of the data; no append faults or loses bytes, whatever the allocator does;
  a sequence of appends yields exactly the concatenation of what was appended.
\<close>

section \<open>Data and operations\<close>

record smb_message =
  payload_size :: u64
  cursor :: u64
  packet :: "byte list option"

definition PAYLOAD_BLOCK_SIZE :: u64 where
  [dsm_consts]: "PAYLOAD_BLOCK_SIZE = 256"

definition smb_message_expand_payload ::
  "world \<Rightarrow> smb_message \<Rightarrow> u64 \<Rightarrow> u64 \<Rightarrow> int \<times> smb_message \<times> world" where
  "smb_message_expand_payload w msg cur data_size =
     (if data_size = 0 \<or> data_size > payload_size msg - cur
      then
        (let new_size = data_size + cur - payload_size msg;
             nb_blocks = new_size div PAYLOAD_BLOCK_SIZE + 1;
             new_payload_size = payload_size msg + nb_blocks * PAYLOAD_BLOCK_SIZE;
             (new_packet, w) =
               c_realloc w (packet msg) (word_of_nat (sizeof smb_packet) + new_payload_size)
         in case new_packet of
              None \<Rightarrow> (0, msg, w)
            | Some p \<Rightarrow> (1, msg\<lparr>packet := Some p, payload_size := new_payload_size\<rparr>, w))
      else (1, msg, w))"

text \<open>\<^verbatim>\<open>calloc(1, sizeof(smb_message))\<close>, of 24 bytes, then the packet.\<close>

definition SMB_MAGIC :: "byte list" where
  [dsm_consts]: "SMB_MAGIC = [0xff, 0x53, 0x4d, 0x42]"

definition smb_message_new :: "world \<Rightarrow> nat \<Rightarrow> (smb_message option \<times> world) option" where
  "smb_message_new w cmd =
     (let (obj, w) = c_calloc w 24
      in case obj of
           None \<Rightarrow> Some (None, w)
         | Some _ \<Rightarrow>
             (let msg = \<lparr>payload_size = 0, cursor = 0, packet = None\<rparr>;
                  (ok, msg, w) = smb_message_expand_payload w msg (cursor msg) 0
              in if ok = 0 then Some (None, w)
                 else do {
                   p \<leftarrow> packet msg;
                   p \<leftarrow> buf_write p 0 (replicate (sizeof smb_packet) 0);
                   p \<leftarrow> buf_write p (offsetof smb_header ''magic'') SMB_MAGIC;
                   p \<leftarrow> wr_field smb_header ''command'' cmd p 0;
                   p \<leftarrow> wr_field smb_header ''pid'' (unat (w_pid w)) p 0;
                   Some (Some (msg\<lparr>packet := Some p\<rparr>), w)
                 }))"

definition smb_message_grow ::
  "world \<Rightarrow> smb_message option \<Rightarrow> u64 \<Rightarrow> (smb_message option \<times> world) option" where
  "smb_message_grow w msg sz =
     (case msg of
        None \<Rightarrow> Some (None, w)
      | Some m \<Rightarrow>
          (case packet m of
             None \<Rightarrow> Some (None, w)
           | Some p \<Rightarrow>
               (let (obj, w) = c_malloc w 24
                in case obj of
                     None \<Rightarrow> Some (None, w)
                   | Some _ \<Rightarrow>
                       (let new_size = payload_size m + sz;
                            (np, w) = c_malloc w (word_of_nat (sizeof smb_packet) + new_size)
                        in case np of
                             None \<Rightarrow> Some (None, w)
                           | Some q \<Rightarrow> do {
                               src \<leftarrow> buf_read p 0
                                 (unat (payload_size m + word_of_nat (sizeof smb_packet)));
                               q \<leftarrow> buf_write q 0 src;
                               Some (Some \<lparr>payload_size = new_size, cursor = cursor m,
                                           packet = Some q\<rparr>, w)
                             }))))"

definition smb_message_destroy :: "smb_message option \<Rightarrow> smb_message option" where
  "smb_message_destroy msg = None"

definition smb_message_append ::
  "world \<Rightarrow> smb_message option \<Rightarrow> byte list option \<Rightarrow> u64
     \<Rightarrow> (int \<times> smb_message option \<times> world) option" where
  "smb_message_append w msg data data_size =
     (case (msg, data) of
        (Some m, Some d) \<Rightarrow>
          (let (ok, m, w) = smb_message_expand_payload w m (cursor m) data_size
           in if ok = 0 then Some (0, Some m, w)
              else do {
                p \<leftarrow> packet m;
                src \<leftarrow> buf_read d 0 (unat data_size);
                p \<leftarrow> buf_write p (sizeof smb_packet + unat (cursor m)) src;
                Some (1, Some (m\<lparr>packet := Some p, cursor := cursor m + data_size\<rparr>), w)
              })
      | _ \<Rightarrow> Some (- 1, msg, w))"

definition smb_message_insert ::
  "world \<Rightarrow> smb_message option \<Rightarrow> u64 \<Rightarrow> byte list option \<Rightarrow> u64
     \<Rightarrow> (int \<times> smb_message option \<times> world) option" where
  "smb_message_insert w msg cur data data_size =
     (case (msg, data) of
        (Some m, Some d) \<Rightarrow>
          (let (ok, m, w) = smb_message_expand_payload w m cur data_size
           in if ok = 0 then Some (0, Some m, w)
              else do {
                p \<leftarrow> packet m;
                src \<leftarrow> buf_read d 0 (unat data_size);
                p \<leftarrow> buf_write p (sizeof smb_packet + unat cur) src;
                Some (1, Some (m\<lparr>packet := Some p\<rparr>), w)
              })
      | _ \<Rightarrow> Some (- 1, msg, w))"

definition smb_message_advance ::
  "world \<Rightarrow> smb_message option \<Rightarrow> u64 \<Rightarrow> (int \<times> smb_message option \<times> world) option" where
  "smb_message_advance w msg sz =
     (case msg of
        None \<Rightarrow> Some (- 1, msg, w)
      | Some m \<Rightarrow>
          (let (ok, m, w) = smb_message_expand_payload w m (cursor m) sz
           in if ok = 0 then Some (0, Some m, w)
              else Some (1, Some (m\<lparr>cursor := cursor m + sz\<rparr>), w)))"

definition smb_message_put8 ::
  "world \<Rightarrow> smb_message option \<Rightarrow> nat \<Rightarrow> (int \<times> smb_message option \<times> world) option" where
  "smb_message_put8 w msg v = smb_message_append w msg (Some (nat_bytes 1 v)) 1"

definition smb_message_put16 ::
  "world \<Rightarrow> smb_message option \<Rightarrow> nat \<Rightarrow> (int \<times> smb_message option \<times> world) option" where
  "smb_message_put16 w msg v = smb_message_append w msg (Some (nat_bytes 2 v)) 2"

definition smb_message_put32 ::
  "world \<Rightarrow> smb_message option \<Rightarrow> nat \<Rightarrow> (int \<times> smb_message option \<times> world) option" where
  "smb_message_put32 w msg v = smb_message_append w msg (Some (nat_bytes 4 v)) 4"

definition smb_message_put64 ::
  "world \<Rightarrow> smb_message option \<Rightarrow> nat \<Rightarrow> (int \<times> smb_message option \<times> world) option" where
  "smb_message_put64 w msg v = smb_message_append w msg (Some (nat_bytes 8 v)) 8"

text \<open>
  The result code of the append is tested for being non-zero, so that the \<open>-1\<close> of an empty
  conversion counts as success; the length returned is then 0.
\<close>

definition smb_message_put_utf16 ::
  "world \<Rightarrow> smb_message option \<Rightarrow> byte list \<Rightarrow> (nat \<times> smb_message option \<times> world) option" where
  "smb_message_put_utf16 w msg str = do {
     (utf_str_len, utf_str, w) \<leftarrow> smb_to_utf16 w str;
     (res, msg, w) \<leftarrow> smb_message_append w msg utf_str (word_of_nat utf_str_len);
     Some (if res \<noteq> 0 then utf_str_len else 0, msg, w)
   }"

fun smb_message_put8s ::
  "world \<Rightarrow> smb_message option \<Rightarrow> byte list \<Rightarrow> (int \<times> smb_message option \<times> world) option" where
  "smb_message_put8s w msg [] = Some (1, msg, w)"
| "smb_message_put8s w msg (b # bs) = do {
     (r, msg, w) \<leftarrow> smb_message_put8 w msg (unat b);
     if r = 0 then Some (0, msg, w) else smb_message_put8s w msg bs
   }"

definition smb_message_put_uuid ::
  "world \<Rightarrow> smb_message option \<Rightarrow> nat \<Rightarrow> nat \<Rightarrow> nat \<Rightarrow> byte list
     \<Rightarrow> (int \<times> smb_message option \<times> world) option" where
  "smb_message_put_uuid w msg a b c d =
     (if msg = None then Some (- 1, msg, w)
      else do {
        (r, msg, w) \<leftarrow> smb_message_put32 w msg a;
        if r = 0 then Some (0, msg, w) else do {
          (r, msg, w) \<leftarrow> smb_message_put16 w msg b;
          if r = 0 then Some (0, msg, w) else do {
            (r, msg, w) \<leftarrow> smb_message_put16 w msg c;
            if r = 0 then Some (0, msg, w) else smb_message_put8s w msg (take 8 d)
          }
        }
      })"

text \<open>
  \<^verbatim>\<open>flags\<close> (8 bits) and \<^verbatim>\<open>flags2\<close> (16 bits) are updated through one
  32-bit access, which also covers the low byte of \<^verbatim>\<open>pid_high\<close>.
\<close>

definition smb_message_flag ::
  "smb_message option \<Rightarrow> u32 \<Rightarrow> bool \<Rightarrow> smb_message option option" where
  "smb_message_flag msg flag v =
     (case msg of
        None \<Rightarrow> Some msg
      | Some m \<Rightarrow>
          (case packet m of
             None \<Rightarrow> Some msg
           | Some p \<Rightarrow> do {
               flags \<leftarrow> rd32 p (offsetof smb_header ''flags'');
               let flag = flag AND 0x00FFFFFF;
               p \<leftarrow> buf_write p (offsetof smb_header ''flags'')
                      (le_bytes 4 (if v then flags OR flag else flags AND NOT flag));
               Some (Some (m\<lparr>packet := Some p\<rparr>))
             }))"

definition smb_message_set_andx_members :: "smb_message option \<Rightarrow> smb_message option option" where
  "smb_message_set_andx_members msg =
     (case msg of
        None \<Rightarrow> Some msg
      | Some m \<Rightarrow> do {
          p \<leftarrow> packet m;
          p \<leftarrow> wr_field smb_session_req ''andx'' 0xff p (sizeof smb_packet);
          p \<leftarrow> wr_field smb_session_req ''andx_reserved'' 0 p (sizeof smb_packet);
          p \<leftarrow> wr_field smb_session_req ''andx_offset'' 0 p (sizeof smb_packet);
          Some (Some (m\<lparr>packet := Some p\<rparr>))
        })"

text \<open>The macros \<^verbatim>\<open>SMB_MSG_PUT_PKT\<close>, \<^verbatim>\<open>SMB_MSG_ADVANCE_PKT\<close> and
  \<^verbatim>\<open>SMB_MSG_INSERT_PKT\<close>, and an assignment to a header member.\<close>

definition smb_msg_put_pkt ::
  "world \<Rightarrow> smb_message option \<Rightarrow> layout \<Rightarrow> cstruct \<Rightarrow> (int \<times> smb_message option \<times> world) option" where
  "smb_msg_put_pkt w msg L s =
     smb_message_append w msg (Some (enc_struct L s)) (word_of_nat (sizeof L))"

definition smb_msg_advance_pkt ::
  "world \<Rightarrow> smb_message option \<Rightarrow> layout \<Rightarrow> (int \<times> smb_message option \<times> world) option" where
  "smb_msg_advance_pkt w msg L = smb_message_advance w msg (word_of_nat (sizeof L))"

definition smb_msg_insert_pkt ::
  "world \<Rightarrow> smb_message option \<Rightarrow> u64 \<Rightarrow> layout \<Rightarrow> cstruct
     \<Rightarrow> (int \<times> smb_message option \<times> world) option" where
  "smb_msg_insert_pkt w msg cur L s =
     smb_message_insert w msg cur (Some (enc_struct L s)) (word_of_nat (sizeof L))"

definition smb_message_set_header :: "string \<Rightarrow> nat \<Rightarrow> smb_message option \<Rightarrow> smb_message option option" where
  "smb_message_set_header f v msg = do {
     m \<leftarrow> msg;
     p \<leftarrow> packet m;
     p \<leftarrow> wr_field smb_header f v p 0;
     Some (Some (m\<lparr>packet := Some p\<rparr>))
   }"

section \<open>The size computation and the message invariant\<close>

lemma expand_size:
  fixes P c n :: u64
  assumes P: "unat P = 256 * k" and c: "unat c \<le> unat P" and s: "unat c + unat n < 2 ^ 62" and k: "256 * k \<le> 2 ^ 62"
  shows "unat (P + ((n + c - P) div 256 + 1) * 256) = 256 * ((unat c + unat n) div 256 + 1)"
proof -
  define s where "s = unat c + unat n"
  have s62: "s < 2 ^ 62" using s by (simp add: s_def)
  have nc: "n + c = word_of_nat s" by (simp add: s_def)
  have Pw: "P = word_of_nat (256 * k)" by (simp only: P [symmetric] word_of_nat_unat_self) 
  have wrap: "(word_of_nat (2 ^ 64 + x) :: u64) = word_of_nat x" for x
    by (simp add: word_of_nat_eq_iff take_bit_eq_mod)
  have key: "P + ((n + c - P) div 256 + 1) * 256 = word_of_nat (256 * (s div 256 + 1))"
  proof (cases "256 * k \<le> s")
    case True
    then have "n + c - P = word_of_nat (s - 256 * k)" using nc Pw by (simp only: of_nat_diff)
    then have "(n + c - P) div 256 = word_of_nat ((s - 256 * k) div 256)"
      using s62 u64_div_of_nat [of "s - 256 * k"] by simp
    then have "P + ((n + c - P) div 256 + 1) * 256 
       = word_of_nat (256 * k + ((s - 256 * k) div 256 + 1) * 256)"
      using Pw by simp
    moreover have "256 * k + ((s - 256 * k) div 256 + 1) * 256 = 256 * (s div 256 + 1)"
    proof -
      from True obtain t where "s = 256 * k + t" by (auto simp: le_iff_add)
      then show ?thesis by simp
    qed
    ultimately show ?thesis by (simp only:)
  next
    case False
    let ?x = "2 ^ 64 + s - 256 * k"
    have "n + c - P + word_of_nat (256 * k) = word_of_nat (2 ^ 64 + s)" using nc Pw wrap by simp
    moreover have "word_of_nat (2 ^ 64 + s) = (word_of_nat ?x :: u64) + word_of_nat (256 * k)"
      using k by (simp only: of_nat_add [symmetric]) simp
    ultimately have "n + c - P = word_of_nat ?x" by (metis add_right_cancel)
    then have "(n + c - P) div 256 = word_of_nat (?x div 256)"
      using False s62 k u64_div_of_nat [of ?x] by simp
    then have "P + ((n + c - P) div 256 + 1) * 256 = word_of_nat (256 * k + (?x div 256 + 1) * 256)"
      using Pw by simp
    moreover have "256 * k + (?x div 256 + 1) * 256 = 2 ^ 64 + 256 * (s div 256 + 1)"
    proof -
      have "?x = 256 * (2 ^ 56 - k) + s" using k by (simp add: diff_mult_distrib2)
      then have "?x div 256 = 2 ^ 56 - k + s div 256" by (simp add: div_mult_self4)
      then show ?thesis using k by (simp add: diff_mult_distrib2)
    qed
    ultimately show ?thesis by (simp only: wrap)
  qed
  have "256 * (s div 256 + 1) < 2 ^ 64" using s62 by simp
  then show ?thesis unfolding key s_def [symmetric] by (rule unat_u64_of_nat)
qed

definition msg_inv :: "smb_message \<Rightarrow> bool" where
  "msg_inv m \<longleftrightarrow>
     (case packet m of None \<Rightarrow> False
      | Some p \<Rightarrow> length p = sizeof smb_packet + unat (payload_size m))
     \<and> cursor m \<le> payload_size m \<and> 256 dvd unat (payload_size m) \<and> unat (payload_size m) \<le> 2 ^ 62"

definition msg_header :: "smb_message \<Rightarrow> byte list" where
  "msg_header m = take (sizeof smb_packet) (the (packet m))"

definition msg_content :: "smb_message \<Rightarrow> byte list" where
  "msg_content m = take (unat (cursor m)) (drop (sizeof smb_packet) (the (packet m)))"

text \<open>What an expansion for \<open>n\<close> bytes at \<open>cur\<close> does to a message.\<close>

lemma expand_payload_result:
  assumes inv: "msg_inv m" and cur: "cur \<le> payload_size m" and small: "unat cur + unat n < 2 ^ 62"
    and ex: "smb_message_expand_payload w m cur n = (r, m', w')"
  shows "same_io w w' \<and> (mem_ok w \<longrightarrow> mem_ok w' \<and> r = 1) \<and> (r = 0 \<and> m' = m \<or> r = 1) \<and>
      cursor m' = cursor m \<and> 
      (r = 1 \<longrightarrow> unat (payload_size m') = (if n = 0 \<or> n > payload_size m - cur
           then 256 * ((unat cur + unat n) div 256 + 1) else unat (payload_size m))) \<and>
      (\<exists>p. packet m' = Some p \<and> length p = 32 + unat (payload_size m')
          \<and> (\<forall>k. k \<le> 32 + unat (payload_size m) \<longrightarrow> k \<le> 32 + unat (payload_size m')
               \<longrightarrow> take k p = take k (the (packet m))))"
proof -
  obtain p where p: "packet m = Some p" "length p = 32 + unat (payload_size m)"
    using inv by (auto simp: msg_inv_def split: option.splits)
  obtain k where k: "unat (payload_size m) = 256 * k" using inv by (auto simp: msg_inv_def)
  show ?thesis
  proof (cases "n = 0 \<or> n > payload_size m - cur")
    case False
    with ex p show ?thesis by (auto simp: smb_message_expand_payload_def)
  next
    case True
    define N where "N = payload_size m + ((n + cur - payload_size m) div 256 + 1) * 256"
    have N: "unat N = 256 * ((unat cur + unat n) div 256 + 1)"
      unfolding N_def using inv cur small k
      by (intro expand_size) (auto simp: msg_inv_def word_le_nat_alt)
    then have N62: "unat N \<le> 2 ^ 62" using small by simp
    then have N32: "unat (32 + N) = 32 + unat N" by (subst unat_word_add_nowrap) auto
    obtain q w1 where q: "c_realloc w (Some p) (32 + N) = (q, w1)" by fastforce
    note qp = c_realloc_props [OF q] and ql = length_c_realloc [OF q]
    have e: "smb_message_expand_payload w m cur n =
       (case q of None \<Rightarrow> (0, m, w1) | Some p \<Rightarrow> (1, m\<lparr>packet := Some p, payload_size := N\<rparr>, w1))"
      unfolding smb_message_expand_payload_def PAYLOAD_BLOCK_SIZE_def Let_def N_def [symmetric]
      using True p q by simp
    show ?thesis
    proof (cases q)
      case None
      then show ?thesis using e ex qp p N32 N62 by auto
    next
      case (Some p')
      then show ?thesis using e ex qp p N32 N True ql [OF Some] by auto
    qed
  qed
qed

lemma msg_invD:
  assumes "msg_inv m"
  shows "\<exists>p. packet m = Some p \<and> length p = 32 + unat (payload_size m)"
    and "unat (cursor m) \<le> unat (payload_size m)"
  using assms by (auto simp: msg_inv_def word_le_nat_alt split: option.splits)

lemma length_msg_content: "msg_inv m \<Longrightarrow> length (msg_content m) = unat (cursor m)"
  using msg_invD [of m] by (auto simp: msg_content_def)

lemma length_msg_header: "msg_inv m \<Longrightarrow> length (msg_header m) = 32"
  using msg_invD [of m] by (auto simp: msg_header_def)

text \<open>
  An expansion at the cursor, or for at least one byte, keeps the message's data and leaves
  room for the bytes asked for.
\<close>

lemma expand_payload_keeps:
  assumes inv: "msg_inv m" and cur: "cur \<le> payload_size m" and small: "unat cur + unat n < 2 ^ 62"
    and ex: "smb_message_expand_payload w m cur n = (r, m', w')"
    and keep: "n \<noteq> 0 \<or> cur = cursor m"
  shows "msg_inv m' \<and> msg_header m' = msg_header m \<and> msg_content m' = msg_content m
     \<and> cursor m' = cursor m \<and> same_io w w' \<and> (mem_ok w \<longrightarrow> mem_ok w' \<and> r = 1)
     \<and> (r = 0 \<and> m' = m \<or> r = 1 \<and> unat cur + unat n \<le> unat (payload_size m'))"
proof -
  note res = expand_payload_result [OF inv cur small ex]
  then have r01: "r = 0 \<and> m' = m \<or> r = 1" and c: "cursor m' = cursor m" by blast+
  show ?thesis
  proof (cases "r = 1")
    case False
    with res r01 inv show ?thesis by auto
  next
    case True
    let ?P = "unat (payload_size m)" and ?P' = "unat (payload_size m')"
    from res True have P': "?P' = (if n = 0 \<or> n > payload_size m - cur
        then 256 * ((unat cur + unat n) div 256 + 1) else ?P)" by blast
    have sub: "unat (payload_size m - cur) = ?P - unat cur" using cur by (rule unat_sub)
    have room: "unat cur + unat n \<le> ?P'"
      using P' sub cur by (auto simp: word_le_nat_alt word_less_nat_alt)
    have big: "unat cur + unat n < 256 * ((unat cur + unat n) div 256 + 1)" by simp
    have cP: "unat (cursor m) \<le> ?P'"
      using P' sub big keep cur msg_invD(2) [OF inv]
      by (auto simp: word_le_nat_alt word_less_nat_alt)
    have PP: "256 dvd ?P'" "?P' \<le> 2 ^ 62" using P' inv small by (auto simp: msg_inv_def)
    obtain p' where p': "packet m' = Some p'" "length p' = 32 + ?P'"
      and eq: "\<forall>k. k \<le> 32 + ?P \<longrightarrow> k \<le> 32 + ?P' \<longrightarrow> take k p' = take k (the (packet m))"
      using res by blast
    have "msg_inv m'"
      using p' PP cP c by (simp add: msg_inv_def word_le_nat_alt)
    moreover have "msg_header m' = msg_header m"
      using eq [rule_format, of 32] p' by (simp add: msg_header_def)
    moreover have "msg_content m' = msg_content m"
      using eq [rule_format, of "unat (cursor m) + 32"] cP msg_invD(2) [OF inv] p' c
      by (simp add: msg_content_def take_drop)
    ultimately show ?thesis using res True room by blast
  qed
qed

section \<open>Appending\<close>

lemma smb_message_append_wp:
  assumes inv: "msg_inv m" and small: "unat (cursor m) + unat n < 2 ^ 62" and len: "unat n \<le> length d"
  shows "wp (smb_message_append w (Some m) (Some d) n) (\<lambda>(r, msg, w').
     same_io w w' \<and> (mem_ok w \<longrightarrow> mem_ok w' \<and> r = 1) \<and>
     (\<exists>m'. msg = Some m' \<and> msg_inv m' \<and> msg_header m' = msg_header m \<and>
        (r = 1 \<and> msg_content m' = msg_content m @ take (unat n) d
         \<or> r = 0 \<and> m' = m)))"
proof -
  obtain r m1 w1 where ex: "smb_message_expand_payload w m (cursor m) n = (r, m1, w1)"
    using prod_cases3 by blast
  have cur: "cursor m \<le> payload_size m" using inv by (simp add: msg_inv_def)
  note k = expand_payload_keeps [OF inv cur small ex]
  show ?thesis
  proof (cases "r = 0")
    case True
    with k ex inv show ?thesis by (auto simp: smb_message_append_def)
  next
    case False
    with k have r: "r = 1" and inv1: "msg_inv m1" and c1: "cursor m1 = cursor m"
      and room: "unat (cursor m) + unat n \<le> unat (payload_size m1)" by auto
    obtain p where p: "packet m1 = Some p" "length p = 32 + unat (payload_size m1)"
      using msg_invD(1) [OF inv1] by blast
    let ?p' = "take (32 + unat (cursor m)) p @ take (unat n) d @ drop (32 + unat (cursor m) + unat n) p"
    let ?m' = "m1\<lparr>packet := Some ?p', cursor := cursor m + n\<rparr>"
    have app: "smb_message_append w (Some m) (Some d) n = Some (1, Some ?m', w1)"
      using ex r p c1 room len
      by (simp add: smb_message_append_def buf_read_def buf_write_def min_def)
    have cn: "unat (cursor m + n) = unat (cursor m) + unat n"
      using small by (intro unat_word_add_nowrap) auto
    have "msg_inv ?m'"
      using inv1 p room cn len by (simp add: msg_inv_def word_le_nat_alt)
    moreover have "msg_header ?m' = msg_header m"
      using k p by (auto simp: msg_header_def min_def)
    moreover have "msg_content ?m' = msg_content m @ take (unat n) d"
    proof -
      have "msg_content m = take (unat (cursor m)) (drop 32 p)"
        using k p c1 by (auto simp: msg_content_def)
      then show ?thesis using p room cn len by (simp add: msg_content_def drop_take min_def)
    qed
    ultimately show ?thesis using app k r by simp
  qed
qed

lemma smb_message_insert_wp:
  assumes inv: "msg_inv m" and n: "n \<noteq> 0" and le: "unat cur + unat n \<le> unat (cursor m)"
    and small: "unat (cursor m) < 2 ^ 62" and len: "unat n \<le> length d"
  shows "wp (smb_message_insert w (Some m) cur (Some d) n) (\<lambda>(r, msg, w').
     same_io w w' \<and> (mem_ok w \<longrightarrow> mem_ok w' \<and> r = 1) \<and>
     (\<exists>m'. msg = Some m' \<and> msg_inv m' \<and> msg_header m' = msg_header m \<and>
        (r = 1 \<and> msg_content m' = take (unat cur) (msg_content m) @ take (unat n) d
                    @ drop (unat cur + unat n) (msg_content m)
         \<or> r = 0 \<and> m' = m)))"
proof -
  obtain r m1 w1 where ex: "smb_message_expand_payload w m cur n = (r, m1, w1)"
    using prod_cases3 by blast
  have cur: "cur \<le> payload_size m"
    using le msg_invD(2) [OF inv] by (simp add: word_le_nat_alt)
  have "unat cur + unat n < 2 ^ 62" using le small by simp
  note k = expand_payload_keeps [OF inv cur this ex]
  show ?thesis
  proof (cases "r = 0")
    case True
    with k ex inv n show ?thesis by (auto simp: smb_message_insert_def)
  next
    case False
    with k n have r: "r = 1" and inv1: "msg_inv m1" and c1: "cursor m1 = cursor m" by auto
    obtain p where p: "packet m1 = Some p" "length p = 32 + unat (payload_size m1)"
      using msg_invD(1) [OF inv1] by blast
    have room: "unat cur + unat n \<le> unat (payload_size m1)" 
      using le msg_invD(2) [OF inv1] c1 by simp
    let ?p' = "take (32 + unat cur) p @ take (unat n) d @ drop (32 + unat cur + unat n) p"
    let ?m' = "m1\<lparr>packet := Some ?p'\<rparr>"
    have app: "smb_message_insert w (Some m) cur (Some d) n = Some (1, Some ?m', w1)"
      using ex r p room len
      by (simp add: smb_message_insert_def buf_read_def buf_write_def min_def)
    have "msg_inv ?m'" using inv1 p room len by (simp add: msg_inv_def)
    moreover have "msg_header ?m' = msg_header m"
      using k n p by (auto simp: msg_header_def min_def)
    moreover have "msg_content ?m' = take (unat cur) (msg_content m) @ take (unat n) d
                    @ drop (unat cur + unat n) (msg_content m)"
    proof -
      have eq: "msg_content m = take (unat (cursor m)) (drop 32 p)"
        using k n p c1 by (auto simp: msg_content_def)
      have l: "length (take (unat n) d) = unat n" using len by simp
      have "32 + unat (cursor m) \<le> length p" using p c1 msg_invD(2) [OF inv1] by simp
      with le l splice_window [of "unat cur" "take (unat n) d" "unat (cursor m)" 32 p]
      show ?thesis unfolding eq using c1 by (simp only: msg_content_def) simp
    qed
    ultimately show ?thesis using app k n r by simp
  qed
qed

lemma smb_message_advance_wp:
  assumes inv: "msg_inv m" and small: "unat (cursor m) + unat n < 2 ^ 62"
  shows "wp (smb_message_advance w (Some m) n) (\<lambda>(r, msg, w').
     same_io w w' \<and> (mem_ok w \<longrightarrow> mem_ok w' \<and> r = 1) \<and>
     (\<exists>m'. msg = Some m' \<and> msg_inv m' \<and> msg_header m' = msg_header m \<and>
        (r = 1 \<and> (\<exists>g. length g = unat n \<and> msg_content m' = msg_content m @ g)
         \<or> r = 0 \<and> m' = m)))"
proof -
  obtain r m1 w1 where ex: "smb_message_expand_payload w m (cursor m) n = (r, m1, w1)"
    using prod_cases3 by blast
  have cur: "cursor m \<le> payload_size m" using inv by (simp add: msg_inv_def)
  note k = expand_payload_keeps [OF inv cur small ex]
  show ?thesis
  proof (cases "r = 0")
    case True
    with k ex inv show ?thesis by (auto simp: smb_message_advance_def)
  next
    case False
    with k have r: "r = 1" and inv1: "msg_inv m1" and c1: "cursor m1 = cursor m"
      and room: "unat (cursor m) + unat n \<le> unat (payload_size m1)" by auto
    obtain p where p: "packet m1 = Some p" "length p = 32 + unat (payload_size m1)"
      using msg_invD(1) [OF inv1] by blast
    let ?m' = "m1\<lparr>cursor := cursor m + n\<rparr>"
    let ?g = "take (unat n) (drop (32 + unat (cursor m)) p)"
    have cn: "unat (cursor m + n) = unat (cursor m) + unat n"
      using small by (intro unat_word_add_nowrap) auto
    have app: "smb_message_advance w (Some m) n = Some (1, Some ?m', w1)"
      using ex r c1 by (simp add: smb_message_advance_def)
    have "msg_inv ?m'" using inv1 p room cn by (auto simp: msg_inv_def word_le_nat_alt)
    moreover have "msg_header ?m' = msg_header m" using k by (simp add: msg_header_def)
    moreover have "length ?g = unat n" using p room by simp
    moreover have "msg_content ?m' = msg_content m @ ?g"
    proof -
      have "msg_content m = take (unat (cursor m)) (drop 32 p)"
        using k p c1 by (auto simp: msg_content_def)
      then show ?thesis using p cn by (simp add: msg_content_def take_add) (simp add: add.commute)
    qed
    ultimately show ?thesis using app k r by auto
  qed
qed

section \<open>Building a request\<close>

text \<open>
  The view the clients have of a message: its header as a structure value and the bytes
  appended so far.
\<close>

definition msg_is :: "cstruct \<Rightarrow> byte list \<Rightarrow> smb_message option \<Rightarrow> bool" where
  "msg_is h bs msg \<longleftrightarrow>
     (\<exists>m. msg = Some m \<and> msg_inv m \<and> msg_header m = enc_struct smb_header h \<and> msg_content m = bs)"

text \<open>The header \<open>smb_message_new\<close> sets up.\<close>

definition new_header :: "nat \<Rightarrow> u32 \<Rightarrow> cstruct" where
  "new_header cmd pid = (\<lambda>_. 0)(''magic'' := 0x424d53ff, ''command'' := cmd, ''pid'' := unat pid)"

lemma smb_message_append_ok [wp_rules]:
  assumes "msg_is h bs msg" and "calm w0 w" and "length bs + unat n < 2 ^ 62" and "unat n \<le> length d"
    and Q: "\<And>msg' w'. msg_is h (bs @ take (unat n) d) msg' \<Longrightarrow> calm w0 w' \<Longrightarrow> Q (1, msg', w')"
  shows "wp (smb_message_append w msg (Some d) n) Q"
proof -
  from assms(1) obtain m where m: "msg = Some m" "msg_inv m" "msg_header m = enc_struct smb_header h"
    "msg_content m = bs" by (auto simp: msg_is_def)
  from m assms(3) have "unat (cursor m) + unat n < 2 ^ 62" using length_msg_content by metis
  from smb_message_append_wp [OF m(2) this assms(4), of w] show ?thesis
    unfolding m(1)
  proof (rule wp_mono, clarify)
    fix r :: int and m' w'
    assume a: "same_io w w'" "mem_ok w \<longrightarrow> mem_ok w' \<and> r = 1"
      "msg_inv m'" "msg_header m' = msg_header m"
      "r = 1 \<and> msg_content m' = msg_content m @ take (unat n) d \<or> r = 0 \<and> m' = m"
    with assms(2) m show "Q (r, Some m', w')"
      by (auto intro!: Q simp: msg_is_def calm_def intro: same_io_trans)
  qed
qed

lemma msg_is_null: "msg_is h bs msg \<Longrightarrow> (msg = None) = False"
  by (auto simp: msg_is_def)

lemma smb_message_append_text_ok:
  assumes "msg_is h bs msg" and "calm w0 w" and "holds_text out dst" and "out \<noteq> []" and "length bs + length out < 2 ^ 62"
    and Q: "\<And>msg' w'. msg_is h (bs @ out) msg' \<Longrightarrow> calm w0 w' \<Longrightarrow> Q (1, msg', w')"
  shows "wp (smb_message_append w msg dst (word_of_nat (length out))) Q"
proof -
  obtain b where b: "dst = Some b" "length out \<le> length b" "take (length out) b = out"
    using assms(3,4) by (cases dst) (auto simp: holds_text_def)
  have u: "unat (word_of_nat (length out) :: u64) = length out" by (rule unat_u64_of_nat) (use assms(5) in simp)
  show ?thesis
    unfolding b(1) by (rule smb_message_append_ok [OF assms(1,2)]) (use u b(2,3) assms(5) Q in \<open>simp_all\<close>)
qed

lemma smb_message_advance_ok [wp_rules]:
  assumes "msg_is h bs msg" and "calm w0 w" and "length bs + unat n < 2 ^ 62"
    and Q: "\<And>g msg' w'. length g = unat n \<Longrightarrow> msg_is h (bs @ g) msg' \<Longrightarrow> calm w0 w' \<Longrightarrow> Q (1, msg', w')"
  shows "wp (smb_message_advance w msg n) Q"
proof -
  from assms(1) obtain m where m: "msg = Some m" "msg_inv m" "msg_header m = enc_struct smb_header h"
    "msg_content m = bs" by (auto simp: msg_is_def)
  from m assms(3) have "unat (cursor m) + unat n < 2 ^ 62" using length_msg_content by metis
  from smb_message_advance_wp [OF m(2) this, of w] show ?thesis
    unfolding m(1)
  proof (rule wp_mono, clarify)
    fix r :: int and m' w'
    assume a: "same_io w w'" "mem_ok w \<longrightarrow> mem_ok w' \<and> r = 1"
      "msg_inv m'" "msg_header m' = msg_header m"
      "r = 1 \<and> (\<exists>g. length g = unat n \<and> msg_content m' = msg_content m @ g) \<or> r = 0 \<and> m' = m"
    with assms(2) m show "Q (r, Some m', w')"
      by (auto intro!: Q simp: msg_is_def calm_def intro: same_io_trans)
  qed
qed

lemma smb_message_insert_ok [wp_rules]:
  assumes "msg_is h bs msg" and "calm w0 w" and "n \<noteq> 0" and "unat cur + unat n \<le> length bs"
    and "length bs < 2 ^ 62" and "unat n \<le> length d"
    and Q: "\<And>msg' w'. msg_is h (take (unat cur) bs @ take (unat n) d @ drop (unat cur + unat n) bs) msg'
       \<Longrightarrow> calm w0 w' \<Longrightarrow> Q (1, msg', w')"
  shows "wp (smb_message_insert w msg cur (Some d) n) Q"
proof -
  from assms(1) obtain m where m: "msg = Some m" "msg_inv m" "msg_header m = enc_struct smb_header h"
    "msg_content m = bs" by (auto simp: msg_is_def)
  from m have lc: "length bs = unat (cursor m)" using length_msg_content by metis
  from smb_message_insert_wp [OF m(2) assms(3) assms(4) [unfolded lc] assms(5) [unfolded lc] assms(6), of w]
  show ?thesis unfolding m(1)
  proof (rule wp_mono, clarify)
    fix r :: int and m' w'
    assume a: "same_io w w'" "mem_ok w \<longrightarrow> mem_ok w' \<and> r = 1"
      "msg_inv m'" "msg_header m' = msg_header m"
      "r = 1 \<and> msg_content m' = take (unat cur) (msg_content m) @ take (unat n) d
                    @ drop (unat cur + unat n) (msg_content m)
         \<or> r = 0 \<and> m' = m"
    with assms(2) m show "Q (r, Some m', w')"
      by (auto intro!: Q simp: msg_is_def calm_def intro: same_io_trans)
  qed
qed

lemma smb_msg_put_pkt_ok [wp_rules]:
  assumes "msg_is h bs msg" and "calm w0 w" and "length bs + sizeof L < 2 ^ 62"
    and Q: "\<And>msg' w'. msg_is h (bs @ enc_struct L s) msg' \<Longrightarrow> calm w0 w' \<Longrightarrow> Q (1, msg', w')"
  shows "wp (smb_msg_put_pkt w msg L s) Q"
  unfolding smb_msg_put_pkt_def using assms(3)
  by (intro smb_message_append_ok [OF assms(1,2)]) (auto intro: Q)

lemma smb_message_put8_ok [wp_rules]:
  assumes "msg_is h bs msg" and "calm w0 w" and "length bs < 2 ^ 61"
    and Q: "\<And>msg' w'. msg_is h (bs @ nat_bytes 1 v) msg' \<Longrightarrow> calm w0 w' \<Longrightarrow> Q (1, msg', w')"
  shows "wp (smb_message_put8 w msg v) Q"
  unfolding smb_message_put8_def using assms(3)
  by (intro smb_message_append_ok [OF assms(1,2)]) (auto intro: Q simp: le_bytes_nat_bytes)

lemma smb_message_put16_ok [wp_rules]:
  assumes "msg_is h bs msg" and "calm w0 w" and "length bs < 2 ^ 61"
    and Q: "\<And>msg' w'. msg_is h (bs @ nat_bytes 2 v) msg' \<Longrightarrow> calm w0 w' \<Longrightarrow> Q (1, msg', w')"
  shows "wp (smb_message_put16 w msg v) Q"
  unfolding smb_message_put16_def using assms(3)
  by (intro smb_message_append_ok [OF assms(1,2)]) (auto intro: Q simp: le_bytes_nat_bytes)

lemma smb_message_put32_ok [wp_rules]:
  assumes "msg_is h bs msg" and "calm w0 w" and "length bs < 2 ^ 61"
    and Q: "\<And>msg' w'. msg_is h (bs @ nat_bytes 4 v) msg' \<Longrightarrow> calm w0 w' \<Longrightarrow> Q (1, msg', w')"
  shows "wp (smb_message_put32 w msg v) Q"
  unfolding smb_message_put32_def using assms(3)
  by (intro smb_message_append_ok [OF assms(1,2)]) (auto intro: Q simp: le_bytes_nat_bytes)

lemma smb_message_put64_ok [wp_rules]:
  assumes "msg_is h bs msg" and "calm w0 w" and "length bs < 2 ^ 61"
    and Q: "\<And>msg' w'. msg_is h (bs @ nat_bytes 8 v) msg' \<Longrightarrow> calm w0 w' \<Longrightarrow> Q (1, msg', w')"
  shows "wp (smb_message_put64 w msg v) Q"
  unfolding smb_message_put64_def using assms(3)
  by (intro smb_message_append_ok [OF assms(1,2)]) (auto intro: Q simp: le_bytes_nat_bytes)

lemma smb_message_put8s_ok [wp_rules]:
  assumes "msg_is h bs msg" and "calm w0 w" and "length bs + length ds < 2 ^ 61"
    and Q: "\<And>msg' w'. msg_is h (bs @ ds) msg' \<Longrightarrow> calm w0 w' \<Longrightarrow> Q (1, msg', w')"
  shows "wp (smb_message_put8s w msg ds) Q"
  using assms
proof (induction ds arbitrary: bs msg w)
  case Nil
  then show ?case by auto
next
  case (Cons d ds)
  show ?case
    unfolding smb_message_put8s.simps wp_bind
  proof (rule smb_message_put8_ok [OF Cons.prems(1,2)])
    show "length bs < 2 ^ 61" using Cons.prems(3) by simp
    fix msg1 w1
    assume 1: "msg_is h (bs @ nat_bytes 1 (unat d)) msg1" "calm w0 w1"
    from 1(1) have m1: "msg_is h (bs @ [d]) msg1" by (simp add: nat_bytes_numeral)
    have "wp (smb_message_put8s w1 msg1 ds) Q"
      using Cons.prems(3) by (intro Cons.IH [OF m1 1(2)]) (auto intro!: Cons.prems(4))
    then show "wp (case (1 :: int, msg1, w1) of (r, msg, w) \<Rightarrow>
        if r = 0 then Some (0, msg, w) else smb_message_put8s w msg ds) Q" by simp
  qed
qed

lemma msg_is_not_null: "msg_is h bs msg \<Longrightarrow> msg \<noteq> None"
  by (auto simp: msg_is_def)

lemma smb_message_put_uuid_ok [wp_rules]:
  assumes "msg_is h bs msg" and "calm w0 w" and "length bs + 16 < 2 ^ 61" and "length d = 8"
    and Q: "\<And>msg' w'. msg_is h (bs @ nat_bytes 4 a @ nat_bytes 2 b @ nat_bytes 2 c @ d) msg'
        \<Longrightarrow> calm w0 w' \<Longrightarrow> Q (1, msg', w')"
  shows "wp (smb_message_put_uuid w msg a b c d) Q"
proof -
  obtain m where m: "msg = Some m" using msg_is_not_null [OF assms(1)] by blast
  show ?thesis
    using assms unfolding smb_message_put_uuid_def m
    by (simp)
      (rule wp_rules, assumption+, simp, simp)+
qed

lemma smb_message_set_header_ok [wp_rules]:
  assumes "msg_is h bs msg" and f: "map_of smb_header f = Some n"
    and Q: "\<And>msg'. msg_is (h(f := v)) bs msg' \<Longrightarrow> Q msg'"
  shows "wp (smb_message_set_header f v msg) Q"
proof -
  from assms(1) obtain m where m: "msg = Some m" "msg_inv m" "msg_header m = enc_struct smb_header h"
    "msg_content m = bs" by (auto simp: msg_is_def)
  obtain p where p: "packet m = Some p" "length p = 32 + unat (payload_size m)"
    using msg_invD [OF m(2)] by blast
  have d: "distinct (map fst smb_header)" by (simp add: smb_header_def)
  have pe: "p = enc_struct smb_header h @ drop 32 p"
    using m(3) p by (simp add: msg_header_def) (metis append_take_drop_id)
  have w: "wr_field smb_header f v p 0 = Some (enc_struct smb_header (h(f := v)) @ drop 32 p)"
    using wr_field_enc_struct [OF d f, of v h "drop 32 p"] pe by simp
  show ?thesis
    using m p unfolding smb_message_set_header_def
    by (auto simp: w intro!: Q simp: msg_is_def msg_inv_def msg_header_def msg_content_def)
qed

lemma smb_message_put_utf16_ok [wp_rules]:
  assumes "msg_is h bs msg" and "calm w0 w" and "iconv_fits w0" and "conv_small str"
    and "length bs < 2 ^ 61"
    and Q: "\<And>msg' w'. msg_is h (bs @ utf16_of w0 str) msg' \<Longrightarrow> calm w0 w'
       \<Longrightarrow> Q (length (utf16_of w0 str), msg', w')"
  shows "wp (smb_message_put_utf16 w msg str) Q"
  unfolding smb_message_put_utf16_def wp_bind
proof (rule smb_to_utf16_ok [OF assms(2-4)])
  fix dst w1
  assume c: "calm w0 w1" and t: "holds_text (utf16_of w0 str) dst"
  let ?out = "utf16_of w0 str"
  have len: "length ?out < 2 ^ 61"
    using conv_out_length [OF assms(3), of "w_charset w0" "''UCS-2LE''" str] assms(4)
    by (simp add: conv_small_def)
  obtain m where m: "msg = Some m" using msg_is_not_null [OF assms(1)] by blast
  show "wp (case (length ?out, dst, w1) of (utf_str_len, utf_str, w) \<Rightarrow>
      smb_message_append w msg utf_str (word_of_nat utf_str_len)
        \<bind> (\<lambda>(res, msg, w). Some (if res \<noteq> 0 then utf_str_len else 0, msg, w))) Q"
  proof (cases dst)
    case None
    with t have "?out = []" by (simp add: holds_text_def)
    with None m assms(1) c Q [of msg w1] show ?thesis by (simp add: smb_message_append_def)
  next
    case (Some b)
    with t have b: "length ?out \<le> length b" "take (length ?out) b = ?out"
      by (auto simp: holds_text_def)
    have u: "unat (word_of_nat (length ?out) :: u64) = length ?out"
      using len by (intro unat_u64_of_nat) simp
    show ?thesis
      unfolding Some prod.case wp_bind
      by (rule smb_message_append_ok [OF assms(1) c])
        (use len b assms(5) u in \<open>auto intro: Q\<close>)
  qed
qed

text \<open>A new message: the SMB magic, the command and the process id, zero elsewhere; no data.\<close>

lemma smb_message_new_ok [wp_rules]:
  assumes c: "calm w0 w"
    and Q: "\<And>msg w'. msg_is (new_header cmd (w_pid w0)) [] msg \<Longrightarrow> calm w0 w' \<Longrightarrow> Q (msg, w')"
  shows "wp (smb_message_new w cmd) Q"
proof -
  let ?m = "\<lparr>payload_size = 0, cursor = 0, packet = None\<rparr>" and ?w = "alloc_tick w"
  have mem: "mem_ok w" and io: "same_io w0 w" using c by (simp_all add: calm_def)
  define p where "p = map (w_junk w) [0..<288]"
  have ex: "smb_message_expand_payload ?w ?m 0 0
      = (1, ?m\<lparr>packet := Some p, payload_size := 256\<rparr>, alloc_tick ?w)"
    using mem mem_ok_alloc [of ?w 288]
    by (simp add: smb_message_expand_payload_def c_realloc_def dsm_consts p_def
        del: upt_rec_numeral)
  have al: "c_calloc w 24 = (Some (replicate 24 0), ?w)"
    using mem_ok_alloc [OF mem, of 24] by (simp add: c_calloc_def)
  have d: "distinct (map fst smb_header)" by (simp add: smb_header_def)
  let ?r = "drop 32 p" and ?h = "smb_header"
  have 1: "buf_write p 0 (replicate 32 0) = Some (enc_struct ?h (\<lambda>_. 0) @ ?r)"
    by (simp add: buf_write_def p_def enc_struct_zero del: upt_rec_numeral)
  have m4: "map_of ?h ''magic'' = Some 4" by (simp add: smb_header_def)
  have magic: "SMB_MAGIC = nat_bytes 4 0x424d53ff"
    by (simp add: SMB_MAGIC_def nat_bytes_numeral)
  have 2: "buf_write (enc_struct ?h (\<lambda>_. 0) @ ?r) (offsetof ?h ''magic'') SMB_MAGIC
     = Some (enc_struct ?h ((\<lambda>_. 0)(''magic'' := 0x424d53ff)) @ ?r)"
    using wr_field_enc_struct [OF d m4, of "0x424d53ff" "\<lambda>_. 0" ?r] m4
    unfolding magic wr_field_def by simp
  note 3 = wr_field_enc_struct [OF d, of "''command''" 1 cmd "(\<lambda>_. 0)(''magic'' := 0x424d53ff)" ?r]
  note 4 = wr_field_enc_struct [OF d, of "''pid''" 2 "unat (w_pid w)" "(\<lambda>_. 0)(''magic'' := 0x424d53ff, ''command'' := cmd)" ?r]
  have f: "map_of ?h ''command'' = Some 1" "map_of ?h ''pid'' = Some 2" by (simp_all add: smb_header_def)
  let ?m' = "\<lparr>payload_size = 256, cursor = 0,
     packet = Some (enc_struct ?h (new_header cmd (w_pid w)) @ ?r)\<rparr>"
  have new: "smb_message_new w cmd = Some (Some ?m', alloc_tick ?w)"
    using 3 [OF f(1)] 4 [OF f(2)] 1 2
    by (simp add: smb_message_new_def al ex new_header_def)
  have "msg_inv ?m'"
    by (simp add: msg_inv_def p_def del: upt_rec_numeral)
  then have "msg_is (new_header cmd (w_pid w)) [] (Some ?m')"
    by (simp add: msg_is_def msg_header_def msg_content_def)
  moreover have "calm w0 (alloc_tick ?w)"
    using mem io same_io_trans [OF io] same_io_trans [OF same_io_tick same_io_tick]
    by (simp add: calm_def)
  ultimately show ?thesis
    using Q same_io_fields [OF io] by (simp add: new)
qed

text \<open>Setting and clearing flags touches the 24 flag bits and nothing else.\<close>

lemma smb_message_flag_bytes:
  assumes inv: "msg_inv m"
  shows "\<exists>m'. smb_message_flag (Some m) flag v = Some (Some m') \<and> msg_inv m' \<and>
     msg_content m' = msg_content m \<and>
     (\<forall>i < 32. msg_header m' ! i =
        (if 9 \<le> i \<and> i < 12
         then (let f = ucast (drop_bit (8 * (i - 9)) flag)
               in if v then msg_header m ! i OR f else msg_header m ! i AND NOT f)
         else msg_header m ! i))"
proof -
  obtain p where p: "packet m = Some p" "length p = 32 + unat (payload_size m)"
    using msg_invD [OF inv] by blast
  have o: "offsetof smb_header ''flags'' = 9" by (simp add: smb_header_def)
  define fl :: u32 where "fl = le_word (take 4 (drop 9 p))"
  define g where "g = (if v then fl OR (flag AND 0x00FFFFFF) else fl AND NOT (flag AND 0x00FFFFFF))"
  have rd: "rd32 p 9 = Some fl" using p by (simp add: rd_le_eq fl_def)
  define p' where "p' = take 9 p @ le_bytes 4 g @ drop 13 p"
  have wr: "buf_write p 9 (le_bytes 4 g) = Some p'"
    using p by (simp add: buf_write_def p'_def)
  let ?m' = "m\<lparr>packet := Some p'\<rparr>"
  have fl: "smb_message_flag (Some m) flag v = Some (Some ?m')"
    using p rd wr by (simp add: smb_message_flag_def o g_def Let_def)
  have len: "length p' = length p" using buf_write_length [OF wr] .
  have "msg_inv ?m'" using inv p len by (simp add: msg_inv_def)
  moreover have "msg_content ?m' = msg_content m"
    using p by (simp add: msg_content_def p'_def)
  moreover have "msg_header ?m' ! i =
        (if 9 \<le> i \<and> i < 12
         then (let f = ucast (drop_bit (8 * (i - 9)) flag)
               in if v then msg_header m ! i OR f else msg_header m ! i AND NOT f)
         else msg_header m ! i)" if i: "i < 32" for i
  proof -
    have h: "msg_header ?m' ! i = p' ! i" "msg_header m ! i = p ! i"
      using i p len by (simp_all add: msg_header_def)
    have n: "p' ! i = (if 9 \<le> i \<and> i < 9 + 4 then le_bytes 4 g ! (i - 9) else p ! i)"
      using buf_write_nth [OF wr, of i] i p by simp
    show ?thesis
    proof (cases "9 \<le> i \<and> i < 13")
      case False
      then show ?thesis using h n by auto
    next
      case True
      then have b: "le_bytes 4 g ! (i - 9) = ucast (drop_bit (8 * (i - 9)) g)"
        by (intro le_bytes_nth) auto
      have F: "p ! i = ucast (drop_bit (8 * (i - 9)) fl)"
        using True p unfolding fl_def
        by (intro bit_word_eqI) (auto simp: bit_ucast_iff bit_drop_bit_eq bit_le_word)
      have M: "bit (0x00FFFFFF :: u32) k \<longleftrightarrow> k < 24" for k
        using bit_mask_iff [where 'a = "32 word", of 24 k]
        by (auto simp: mask_eq_exp_minus_1 dest: bit_imp_le_length)
      have G: "bit g k \<longleftrightarrow> k < 32 \<and> (if v then bit fl k \<or> bit flag k \<and> k < 24
          else bit fl k \<and> \<not> (bit flag k \<and> k < 24))" for k
        unfolding g_def
        by (simp only: bit_or_iff bit_and_iff bit_not_iff M if_distrib [of "\<lambda>x. bit x k"])
          (auto dest: bit_imp_le_length)
      have n': "p' ! i = ucast (drop_bit (8 * (i - 9)) g)" using n b True by simp
      show ?thesis
        unfolding h n' F Let_def using True
        by (intro bit_word_eqI)
          (auto simp: bit_ucast_iff bit_drop_bit_eq bit_or_iff bit_and_iff bit_not_iff G)
    qed
  qed
  ultimately show ?thesis using fl by blast
qed

section \<open>Sequences of appends\<close>

definition message_put :: "world \<Rightarrow> smb_message \<Rightarrow> byte list \<Rightarrow> (smb_message \<times> world) option" where
  "message_put w m d = do {
     (r, msg, w) \<leftarrow> smb_message_append w (Some m) (Some d) (word_of_nat (length d));
     m \<leftarrow> msg;
     if r = 1 then Some (m, w) else None
   }"

interpretation message_sink: byte_sink
  "\<lambda>m w. msg_inv m \<and> mem_ok w" msg_content "\<lambda>_. 2 ^ 62 - 1" message_put
proof
  fix m :: smb_message and w and d :: "byte list"
  assume ok: "msg_inv m \<and> mem_ok w" and le: "length (msg_content m) + length d \<le> 2 ^ 62 - 1"
  have u: "unat (word_of_nat (length d) :: u64) = length d"
    using le by (intro unat_u64_of_nat) simp
  have "unat (cursor m) + unat (word_of_nat (length d) :: u64) < 2 ^ 62"
    using le ok u by (simp add: length_msg_content)
  note app = smb_message_append_wp [OF conjunct1 [OF ok] this, of d w, unfolded u, OF order_refl]
  show "wp (message_put w m d) (\<lambda>(m', w'). (msg_inv m' \<and> mem_ok w') \<and>
      msg_content m' = msg_content m @ d \<and> (2 :: nat) ^ 62 - 1 = 2 ^ 62 - 1)"
    unfolding message_put_def wp_bind by (rule wp_mono [OF app]) (use ok in auto)
qed

section \<open>Properties\<close>

text \<open>A message as \<open>smb_message_new\<close> leaves it, for the concrete instances below.\<close>

definition sample_message :: smb_message where
  "sample_message = \<lparr>payload_size = 256, cursor = 0, packet = Some (replicate 288 0)\<rparr>"

lemma sample_message_inv: "msg_inv sample_message"
  by (simp add: sample_message_def msg_inv_def)

lemma sample_message_fields [simp]:
  "cursor sample_message = 0" "payload_size sample_message = 256"
  "msg_content sample_message = []" "msg_header sample_message = replicate 32 0"
  by (simp_all add: sample_message_def msg_content_def msg_header_def)

text \<open>
  C22 (expand). An expansion for \<open>n\<close> bytes at \<open>cur\<close> that is needed, that is one for zero
  bytes or for more than is left, makes the payload the smallest multiple of the block size
  above \<open>cur + n\<close>, although \<open>n + cur - payload_size\<close> is computed in 64 bits and wraps when
  \<open>n\<close> is zero; one that is not needed changes nothing. The packet is always as long as the
  header and the payload size, and a failed allocation leaves the message as it was.
\<close>

theorem message_expand_exact:
  assumes "msg_inv m" and "cur \<le> payload_size m" and "unat cur + unat n < 2 ^ 62"
    and "smb_message_expand_payload w m cur n = (r, m', w')"
  shows "(r = 0 \<and> m' = m \<or>
      r = 1 \<and> unat (payload_size m') = (if n = 0 \<or> unat cur + unat n > unat (payload_size m)
           then 256 * ((unat cur + unat n) div 256 + 1) else unat (payload_size m)))
    \<and> (\<exists>p. packet m' = Some p \<and> length p = 32 + unat (payload_size m'))
    \<and> (mem_ok w \<longrightarrow> r = 1)"
proof -
  have "n > payload_size m - cur \<longleftrightarrow> unat cur + unat n > unat (payload_size m)"
    using assms(2) by (simp add: word_less_nat_alt unat_sub word_le_nat_alt) linarith
  then show ?thesis using expand_payload_result [OF assms] by auto
qed

theorem message_expand_exact_witness:
  "\<exists>m' w'. smb_message_expand_payload sample_world sample_message 0 300 = (1, m', w')
     \<and> unat (payload_size m') = 512"
proof -
  obtain r m' w' where ex: "smb_message_expand_payload sample_world sample_message 0 300 = (r, m', w')"
    using prod_cases3 by blast
  from message_expand_exact [OF sample_message_inv _ _ ex] sample_world_mem
  show ?thesis using ex by auto
qed

text \<open>
  C21 (append). Whatever the allocator answers, appending does not fault, and it is all or
  nothing: either the header is unchanged and the data follows what was appended before, or
  0 is returned and the message is unchanged.
\<close>

theorem message_append_all_or_nothing:
  assumes "msg_inv m" and "unat (cursor m) + unat n < 2 ^ 62" and "unat n \<le> length d"
  shows "\<exists>r m' w'. smb_message_append w (Some m) (Some d) n = Some (r, Some m', w') \<and> msg_inv m' \<and>
     (r = 1 \<and> msg_header m' = msg_header m \<and> msg_content m' = msg_content m @ take (unat n) d
      \<or> r = 0 \<and> m' = m)"
  using smb_message_append_wp [OF assms, of w] by (auto simp: wp_iff)

theorem message_append_all_or_nothing_witness:
  "\<exists>r m' w'. smb_message_append (sample_world\<lparr>w_alloc := [False]\<rparr>) (Some sample_message)
       (Some (replicate 300 7)) 300 = Some (r, Some m', w') \<and> msg_inv m' \<and>
     (r = 1 \<and> msg_header m' = replicate 32 0 \<and> msg_content m' = replicate 300 7
      \<or> r = 0 \<and> m' = sample_message)"
  using message_append_all_or_nothing [OF sample_message_inv, of 300 "replicate 300 7"
      "sample_world\<lparr>w_alloc := [False]\<rparr>"] by simp

text \<open>
  C23 (appends). With enough memory, a sequence of appends of any sizes to a message leaves
  exactly the concatenation of the data after what the message held.
\<close>

theorem message_appends_concat:
  assumes "msg_inv m" and "mem_ok w" and "length (msg_content m) + length (concat ds) < 2 ^ 62"
  shows "\<exists>m' w'. put_seq message_put w m ds = Some (m', w') \<and> msg_inv m' \<and>
     msg_content m' = msg_content m @ concat ds"
  using message_sink.put_seq_appends [of m w ds] assms by (auto simp: wp_iff)

theorem message_appends_concat_witness:
  "\<exists>m' w'. put_seq message_put sample_world sample_message [[1, 2], [], replicate 600 3] = Some (m', w')
     \<and> msg_inv m' \<and> msg_content m' = [1, 2] @ replicate 600 3"
  using message_appends_concat [OF sample_message_inv sample_world_mem,
      of "[[1, 2], [], replicate 600 3]"] by simp

text \<open>
  \<open>smb_message_flag\<close> sets or clears the given bits of \<^verbatim>\<open>flags\<close> and
  \<^verbatim>\<open>flags2\<close>, header bytes 9 to 11; although it reads and writes 32 bits there, no
  other byte of the message changes, the neighbouring \<^verbatim>\<open>pid_high\<close> included.
\<close>

lemma message_flag_exact:
  assumes "msg_inv m"
  shows "\<exists>m'. smb_message_flag (Some m) flag v = Some (Some m') \<and> msg_inv m' \<and>
     msg_content m' = msg_content m \<and>
     (\<forall>i < 32. msg_header m' ! i =
        (if 9 \<le> i \<and> i < 12
         then (let f = ucast (drop_bit (8 * (i - 9)) flag)
               in if v then msg_header m ! i OR f else msg_header m ! i AND NOT f)
         else msg_header m ! i))"
  using assms by (rule smb_message_flag_bytes)

end
