(* ===== verification/Session_Msg.thy ===== *)
theory Session_Msg
  imports Transport Message
begin

text \<open>
  \<^verbatim>\<open>src/smb_session_msg.c\<close>: sending and receiving SMB messages over a session's
  transport, and the check of a reply's status from \<^verbatim>\<open>src/smb_session.c\<close>. The
  received message points into the transport's buffer: its bytes are the buffer from the
  NetBIOS payload to the end of the allocation.

  The client lemmas are proved once, for any transport that is an \<open>smb_link\<close>.
\<close>

section \<open>Operations\<close>

definition with_ns :: "smb_session \<Rightarrow> netbios_session \<Rightarrow> smb_session" where
  "with_ns s ns = s\<lparr>transport := (transport s)\<lparr>tr_session := Some ns\<rparr>\<rparr>"

definition smb_session_send_msg ::
  "world \<Rightarrow> smb_session \<Rightarrow> smb_message option \<Rightarrow> (int \<times> smb_session \<times> smb_message option \<times> world) option" where
  "smb_session_send_msg w s msg = do {
     ns \<leftarrow> tr_session (transport s);
     m \<leftarrow> msg;
     c_assert (packet m \<noteq> None);
     msg \<leftarrow> smb_message_set_header ''flags'' 0x18 msg;
     msg \<leftarrow> smb_message_set_header ''flags2'' 0xc843 msg;
     msg \<leftarrow> smb_message_set_header ''uid'' (unat (srv_uid (srv s))) msg;
     m \<leftarrow> msg;
     p \<leftarrow> packet m;
     pkt_init \<leftarrow> tr_pkt_init (transport s);
     ns \<leftarrow> pkt_init ns;
     let pkt_sz = word_of_nat (sizeof smb_packet) + cursor m;
     pkt_append \<leftarrow> tr_pkt_append (transport s);
     (r, ns, w) \<leftarrow> pkt_append w ns p pkt_sz;
     if r = 0 then Some (0, with_ns s ns, msg, w)
     else do {
       send \<leftarrow> tr_send (transport s);
       (r, ns, w) \<leftarrow> send w ns;
       Some (if r = 0 then 0 else 1, with_ns s ns, msg, w)
     }
   }"

text \<open>
  The value returned, the message filled in (\<^term>\<open>None\<close> when the caller's variable is left
  as it was), the session and the world.
\<close>

definition smb_session_recv_msg ::
  "world \<Rightarrow> smb_session \<Rightarrow> (nat \<times> smb_message option \<times> smb_session \<times> world) option" where
  "smb_session_recv_msg w s = do {
     ns \<leftarrow> tr_session (transport s);
     recv \<leftarrow> tr_recv (transport s);
     (size_recv, ns, w) \<leftarrow> recv w ns;
     let s = with_ns s ns;
     if size_recv \<le> 0 then Some (0, None, s, w)
     else if size_recv < int (sizeof smb_header) then Some (0, None, s, w)
     else do {
       p \<leftarrow> ns_packet ns;
       let sz = nat size_recv - sizeof smb_header;
       Some (sz, Some \<lparr>payload_size = word_of_nat sz, cursor = 0,
                       packet = Some (drop (sizeof netbios_session_packet) p)\<rparr>, s, w)
     }
   }"

definition smb_session_check_nt_status ::
  "smb_session \<Rightarrow> smb_message option \<Rightarrow> (bool \<times> smb_session) option" where
  "smb_session_check_nt_status s msg = do {
     m \<leftarrow> msg;
     p \<leftarrow> packet m;
     status \<leftarrow> rd_field smb_header ''status'' p 0;
     if status \<noteq> 0 then Some (False, s\<lparr>nt_status := word_of_nat status\<rparr>) else Some (True, s)
   }"

section \<open>Members of a reply\<close>

definition reply_field :: "layout \<Rightarrow> string \<Rightarrow> smb_message option \<Rightarrow> nat option" where
  "reply_field L f msg = do { m \<leftarrow> msg; p \<leftarrow> packet m; rd_field L f p (sizeof smb_packet) }"

definition reply_header :: "string \<Rightarrow> smb_message option \<Rightarrow> nat option" where
  "reply_header f msg = do { m \<leftarrow> msg; p \<leftarrow> packet m; rd_field smb_header f p 0 }"

text \<open>\<^verbatim>\<open>payload_size < sizeof(...)\<close>: a fault on a message that was never filled in.\<close>

definition reply_short :: "layout \<Rightarrow> smb_message option \<Rightarrow> bool option" where
  "reply_short L msg = do { m \<leftarrow> msg; Some (payload_size m < word_of_nat (sizeof L)) }"

section \<open>What goes over the wire\<close>

definition smb_bytes :: "smb_session \<Rightarrow> cstruct \<Rightarrow> byte list \<Rightarrow> byte list" where
  "smb_bytes s h bs =
     enc_struct smb_header (h(''flags'' := 0x18, ''flags2'' := 0xc843, ''uid'' := unat (srv_uid (srv s)))) @ bs"

text \<open>The frame of a request with header \<open>h\<close> and body \<open>bs\<close>.\<close>

definition smb_frame :: "smb_session \<Rightarrow> cstruct \<Rightarrow> byte list \<Rightarrow> byte list" where
  "smb_frame s h bs = nbt_frame 0 0 (smb_bytes s h bs)"

text \<open>A received message that holds the SMB packet \<open>pkt\<close>.\<close>

definition reply_is :: "byte list \<Rightarrow> smb_message \<Rightarrow> bool" where
  "reply_is pkt m \<longleftrightarrow> 32 \<le> length pkt \<and> length pkt < 2 ^ 20 \<and> payload_size m = word_of_nat (length pkt - 32) \<and>
     (\<exists>q. packet m = Some q \<and> length pkt \<le> length q \<and> take (length pkt) q = pkt)"

text \<open>The next SMB packet of a stream, and the stream after it.\<close>

definition next_reply :: "byte list \<Rightarrow> (byte list \<times> byte list) option" where
  "next_reply st = map_option (\<lambda>(f, rest). (drop 4 f, rest)) (next_message st)"

definition uses_link ::
  "(netbios_session \<Rightarrow> netbios_session option)
   \<Rightarrow> (world \<Rightarrow> netbios_session \<Rightarrow> byte list \<Rightarrow> u64 \<Rightarrow> (int \<times> netbios_session \<times> world) option)
   \<Rightarrow> (world \<Rightarrow> netbios_session \<Rightarrow> (int \<times> netbios_session \<times> world) option)
   \<Rightarrow> (world \<Rightarrow> netbios_session \<Rightarrow> (int \<times> netbios_session \<times> world) option) \<Rightarrow> smb_session \<Rightarrow> bool" where
  "uses_link fi fa fs fr s \<longleftrightarrow>
     tr_pkt_init (transport s) = Some fi \<and> tr_pkt_append (transport s) = Some fa \<and>
     tr_send (transport s) = Some fs \<and> tr_recv (transport s) = Some fr"

lemma uses_link_with_ns [simp]: "uses_link i a x r (with_ns s ns) = uses_link i a x r s"
  by (simp add: uses_link_def with_ns_def)

lemma with_ns_simps [simp]:
  "tr_session (transport (with_ns s ns)) = Some ns" "with_ns (with_ns s ns) ns' = with_ns s ns'"
  "srv (with_ns s ns) = srv s" "shares (with_ns s ns) = shares s" "nt_status (with_ns s ns) = nt_status s"
  "logged (with_ns s ns) = logged s" "guest (with_ns s ns) = guest s" "creds (with_ns s ns) = creds s"
  "xsec_target (with_ns s ns) = xsec_target s" "spnego_asn1 (with_ns s ns) = spnego_asn1 s"
  by (simp_all add: with_ns_def)

lemma smb_header_fields:
  "map_of smb_header ''flags'' = Some 1" "map_of smb_header ''flags2'' = Some 2"
  "map_of smb_header ''uid'' = Some 2" "map_of smb_header ''tid'' = Some 2"
  "map_of smb_header ''status'' = Some 4"
  by (simp_all add: smb_header_def)

lemma next_message_length: "next_message st = Some (f, rest) \<Longrightarrow> length f < 2 ^ 20"
proof (induction st rule: next_message.induct)
  case (1 st)
  obtain g r where g: "next_frame st = Some (g, r)"
    using 1(2) by (auto simp: next_message.simps [of st] split: option.splits)
  then have "length g \<le> 4 + frame_length st" by (auto simp: next_frame_def split: if_splits)
  then have "length g < 2 ^ 20" using frame_length_bound [of st] by simp
  then show ?case
    using 1 g by (auto simp: next_message.simps [of st] split: if_splits)
qed

lemma length_smb_bytes [simp]: "length (smb_bytes s h bs) = 32 + length bs"
  by (simp add: smb_bytes_def)

lemma msg_is_packet:
  assumes "msg_is h bs (Some m)"
  shows "\<exists>p. packet m = Some p \<and> take (32 + length bs) p = enc_struct smb_header h @ bs
     \<and> 32 + length bs \<le> length p \<and> unat (cursor m) = length bs"
proof -
  from assms have m: "msg_inv m" "msg_header m = enc_struct smb_header h" "msg_content m = bs"
    by (auto simp: msg_is_def)
  obtain p where p: "packet m = Some p" "length p = 32 + unat (payload_size m)"
    using msg_invD [OF m(1)] by blast
  have c: "unat (cursor m) = length bs" using length_msg_content [OF m(1)] m(3) by simp
  have "take (32 + length bs) p = take 32 p @ take (length bs) (drop 32 p)" by (rule take_add)
  then have "take (32 + length bs) p = enc_struct smb_header h @ bs"
    using m p c by (simp add: msg_header_def msg_content_def)
  then show ?thesis using p c msg_invD(2) [OF m(1)] by auto
qed

context smb_link
begin

text \<open>Sending a message puts its frame on the wire, with the session's user id and flags.\<close>

lemma send_msg:
  assumes link: "uses_link init append send recv s" and ns: "tr_session (transport s) = Some ns" "ready ns"
    and peer: "peer_ok w" and msg: "msg_is h bs msg" and sz: "sendable ns (32 + length bs)" "length bs < 2 ^ 61"
  shows "\<exists>ns' msg' w'. smb_session_send_msg w s msg = Some (1, with_ns s ns', msg', w') \<and> ready ns' \<and> peer_ok w'
     \<and> w_sent w' = w_sent w @ [smb_frame s h bs] \<and> w_rx w' = w_rx w
     \<and> packet_payload_size ns \<le> packet_payload_size ns'"
proof -
  let ?h = "h(''flags'' := 0x18, ''flags2'' := 0xc843, ''uid'' := unat (srv_uid (srv s)))"
  obtain m0 p0 where m0: "msg = Some m0" "packet m0 = Some p0"
    using msg msg_invD(1) by (fastforce simp: msg_is_def)
  have "wp (smb_message_set_header ''flags'' 0x18 msg) (\<lambda>x. wp (smb_message_set_header ''flags2'' 0xc843 x)
      (\<lambda>y. wp (smb_message_set_header ''uid'' (unat (srv_uid (srv s))) y) (\<lambda>z. msg_is ?h bs z)))"
    by (rule smb_message_set_header_ok [OF msg smb_header_fields(1)],
        rule smb_message_set_header_ok [OF _ smb_header_fields(2)], assumption,
        rule smb_message_set_header_ok [OF _ smb_header_fields(3)], assumption)
      (simp add: fun_upd_twist)
  then obtain a b m3 where hd: "smb_message_set_header ''flags'' 0x18 msg = Some a"
    "smb_message_set_header ''flags2'' 0xc843 a = Some b"
    "smb_message_set_header ''uid'' (unat (srv_uid (srv s))) b = Some (Some m3)" and m3: "msg_is ?h bs (Some m3)"
    by (auto simp: wp_iff msg_is_def)
  obtain p where p: "packet m3 = Some p" "take (32 + length bs) p = enc_struct smb_header ?h @ bs"
    "32 + length bs \<le> length p" "unat (cursor m3) = length bs"
    using msg_is_packet [OF m3] by blast
  have u: "unat (32 + cursor m3) = 32 + length bs"
    using p(4) sz(2) by (subst unat_word_add_nowrap) auto
  obtain ns1 ns2 w2 r ns3 w3 where st: "init ns = Some ns1" "append w ns1 p (32 + cursor m3) = Some (1, ns2, w2)"
    "send w2 ns2 = Some (r, ns3, w3)" "r \<noteq> 0" "ready ns3" "peer_ok w3"
    "w_sent w3 = w_sent w @ [nbt_frame 0 0 (take (32 + length bs) p)]" "w_rx w3 = w_rx w"
    "packet_payload_size ns \<le> packet_payload_size ns3"
    using init_append [OF ns(2) peer, of "32 + cursor m3" p] sz(1) u p(3) by auto
  have "smb_session_send_msg w s msg = Some (1, with_ns s ns3, Some m3, w3)"
    using ns(1) m0 hd p(1) link st by (simp add: smb_session_send_msg_def uses_link_def Let_def)
  then show ?thesis
    using st p(2) by (auto simp: smb_frame_def smb_bytes_def)
qed

text \<open>
  Receiving delivers the next SMB packet of the stream. Nothing is filled in, and 0 is
  returned, when the stream ends or the packet is shorter than a header; 0 is also returned
  for a packet that is a header and nothing else.
\<close>

lemma recv_msg:
  assumes link: "uses_link init append send recv s" and ns: "tr_session (transport s) = Some ns" "ready ns"
    and peer: "peer_ok w"
  shows "\<exists>r mo ns' w'. smb_session_recv_msg w s = Some (r, mo, with_ns s ns', w') \<and> ready ns' \<and> peer_ok w'
     \<and> w_sent w' = w_sent w \<and> packet_payload_size ns \<le> packet_payload_size ns' \<and>
     (case next_reply (rx_stream (w_rx w)) of
        None \<Rightarrow> r = 0 \<and> mo = None
      | Some (pkt, rest) \<Rightarrow> rx_stream (w_rx w') = rest \<and> r = length pkt - 32 \<and>
          (if length pkt < 32 then mo = None else \<exists>m. mo = Some m \<and> reply_is pkt m))"
proof -
  obtain r ns' w' where rc: "recv w ns = Some (r, ns', w')" "ready ns'" "peer_ok w'" "w_sent w' = w_sent w"
    "packet_payload_size ns \<le> packet_payload_size ns'"
    and nx: "case next_message (rx_stream (w_rx w)) of
        None \<Rightarrow> r = - 1
      | Some (f, rest) \<Rightarrow> r = int (length f - 4) \<and> rx_stream (w_rx w') = rest \<and> 4 \<le> length f
          \<and> (\<exists>p. ns_packet ns' = Some p \<and> take (length f) p = f)"
    using recv_next [OF ns(2) peer] by blast
  note eq = smb_session_recv_msg_def [of w s]
  show ?thesis
  proof (cases "next_message (rx_stream (w_rx w))")
    case None
    then have "smb_session_recv_msg w s = Some (0, None, with_ns s ns', w')"
      using rc nx ns link by (simp add: eq uses_link_def)
    then show ?thesis using None rc by (auto simp: next_reply_def)
  next
    case (Some fr)
    obtain f rest where fr: "fr = (f, rest)" by (cases fr)
    from nx Some fr obtain p where f: "r = int (length f - 4)" "rx_stream (w_rx w') = rest" "4 \<le> length f"
      "ns_packet ns' = Some p" "take (length f) p = f" by auto
    have lp: "length f \<le> length p" using arg_cong [OF f(5), of length] by simp
    show ?thesis
    proof (cases "length f < 36")
      case True
      then have "smb_session_recv_msg w s = Some (0, None, with_ns s ns', w')"
        using rc f ns link by (simp add: eq uses_link_def Let_def)
      then show ?thesis using True Some fr rc f by (auto simp: next_reply_def)
    next
      case False
      let ?m = "\<lparr>payload_size = word_of_nat (length f - 36), cursor = 0, packet = Some (drop 4 p)\<rparr>"
      have "take (length f - 4) (drop 4 p) = drop 4 f"
        using f(5) by (metis drop_take)
      then have "reply_is (drop 4 f) ?m"
        using False lp next_message_length [of "rx_stream (w_rx w)" f rest] Some fr
        by (simp add: reply_is_def) linarith
      moreover have "smb_session_recv_msg w s = Some (length f - 36, Some ?m, with_ns s ns', w')"
      proof -
        have n: "nat r - 32 = length f - 36" "\<not> r \<le> 0" "\<not> r < 32" using f(1) False by simp_all
        show ?thesis
          using rc(1) ns link f(4) n(2,3) by (simp add: eq uses_link_def n(1) Let_def)
      qed
      ultimately show ?thesis
        using rc f Some fr False by (auto simp: next_reply_def)
    qed
  qed
qed

end

section \<open>Sessions over NetBIOS\<close>

definition session_ready :: "smb_session \<Rightarrow> bool" where
  "session_ready s \<longleftrightarrow>
     uses_link netbios_session_packet_init netbios_session_packet_append netbios_session_packet_send
       netbios_session_packet_recv s \<and>
     (case tr_session (transport s) of None \<Rightarrow> False | Some ns \<Rightarrow> nbs_ready ns)"

text \<open>The recorded size of the transport's buffer, which never shrinks.\<close>

definition session_cap :: "smb_session \<Rightarrow> nat" where
  "session_cap s = unat (packet_payload_size (the (tr_session (transport s))))"

definition session_sendable :: "smb_session \<Rightarrow> nat \<Rightarrow> bool" where
  "session_sendable s n \<longleftrightarrow> (n + 4 \<le> session_cap s \<or> session_cap s < n) \<and> n < 2 ^ 30"

text \<open>The same session, with the connection possibly in another state.\<close>

definition same_session :: "smb_session \<Rightarrow> smb_session \<Rightarrow> bool" where
  "same_session s s' \<longleftrightarrow> (\<exists>ns. s' = with_ns s ns)"

lemma same_session_simps:
  assumes "same_session s s'"
  shows "srv s' = srv s" "shares s' = shares s" "nt_status s' = nt_status s" "logged s' = logged s"
    "guest s' = guest s" "creds s' = creds s" "xsec_target s' = xsec_target s" "spnego_asn1 s' = spnego_asn1 s"
  using assms by (auto simp: same_session_def)

lemma same_session_trans: "same_session s s' \<Longrightarrow> same_session s' s'' \<Longrightarrow> same_session s s''"
  by (auto simp: same_session_def)

lemma peer_ok_calm: "peer_ok w0 \<Longrightarrow> calm w0 w \<Longrightarrow> peer_ok w"
  using same_io_fields [of w0 w] by (auto simp: peer_ok_def calm_def)

lemma calm_start: "peer_ok w \<Longrightarrow> calm w w"
  by (simp add: peer_ok_def calm_def)

subsection \<open>What an exchange leaves alone\<close>

text \<open>The part of the world that no exchange changes.\<close>

definition steady :: "world \<Rightarrow> u32 \<times> string \<times> (string \<Rightarrow> string \<Rightarrow> bool) \<times>
    (string \<Rightarrow> string \<Rightarrow> byte list \<Rightarrow> nat \<Rightarrow> iconv_result)" where
  "steady w = (w_pid w, w_charset w, w_iconv_open w, w_iconv w)"

lemma steady_cong: "steady w' = steady w \<Longrightarrow>
    iconv_fits w' = iconv_fits w \<and> conv_out w' = conv_out w \<and> w_charset w' = w_charset w \<and> w_pid w' = w_pid w"
  by (auto simp: steady_def iconv_fits_def conv_out_def fun_eq_iff)

lemma steady_simps [simp]:
  "steady (w\<lparr>w_rx := x\<rparr>) = steady w" "steady (w\<lparr>w_tx := y\<rparr>) = steady w" "steady (w\<lparr>w_sent := z\<rparr>) = steady w"
  "steady (alloc_tick w) = steady w"
  by (simp_all add: steady_def alloc_tick_def)

lemma same_io_steady: "same_io w w' \<Longrightarrow> steady w' = steady w"
  by (simp add: steady_def same_io_fields)

lemma buffer_realloc_env: "session_buffer_realloc w s n = (r, s', w') \<Longrightarrow> steady w' = steady w"
  by (auto simp: session_buffer_realloc_def c_realloc_def split: if_splits)

lemma session_recv_env: "netbios_session_recv w s n = Some (r, bs, s', w') \<Longrightarrow> steady w' = steady w"
  by (erule netbios_session_recv_cases) auto

lemma recv_all_env: "session_recv_all w s base sofar tot = Some (ok, s', w') \<Longrightarrow> steady w' = steady w"
proof (induction w s base sofar tot rule: session_recv_all.induct)
  case (1 w s base sofar tot)
  note IH = 1(1) [OF _ _ refl refl refl]
  have "\<forall>r bs s1 w1. netbios_session_recv w s (tot - sofar) = Some (r, bs, s1, w1) \<longrightarrow> steady w1 = steady w"
    using session_recv_env by blast
  then show ?case
    using 1(2) IH
    by (auto simp: session_recv_all.simps [of w s base sofar tot] split: if_splits bind_splits)
qed

lemma next_packet_env: "netbios_session_get_next_packet w s = Some (r, s', w') \<Longrightarrow> steady w' = steady w"
  by (auto simp: netbios_session_get_next_packet_def Let_def split: bind_splits if_splits prod.splits
      dest!: recv_all_env buffer_realloc_env)

lemma packet_recv_env: "netbios_session_packet_recv w s = Some (r, s', w') \<Longrightarrow> steady w' = steady w"
proof (induction w s rule: netbios_session_packet_recv.induct)
  case (1 w s)
  obtain n s1 w1 where g: "netbios_session_get_next_packet w s = Some (n, s1, w1)"
    using 1(2) by (auto simp: netbios_session_packet_recv.simps [of w s] split: bind_splits)
  from 1(1) [OF g refl refl] 1(2) g next_packet_env [OF g] show ?case
    by (simp add: netbios_session_packet_recv.simps [of w s] split: if_splits bind_splits)
qed

lemma packet_send_env: "netbios_session_packet_send w s = Some (r, s', w') \<Longrightarrow> steady w' = steady w"
  by (auto simp: netbios_session_packet_send_def Let_def split: bind_splits if_splits prod.splits option.splits)

lemma packet_append_env: "netbios_session_packet_append w s d n = Some (r, s', w') \<Longrightarrow> steady w' = steady w"
  by (auto simp: netbios_session_packet_append_def Let_def split: bind_splits if_splits prod.splits dest!: buffer_realloc_env)

lemma exchange_env:
  assumes "session_ready s"
  shows "smb_session_recv_msg w s = Some (r, mo, s', w') \<Longrightarrow> steady w' = steady w"
    and "smb_session_send_msg w s msg = Some (q, s', msg', w') \<Longrightarrow> steady w' = steady w"
  using assms
  by (auto simp: session_ready_def uses_link_def smb_session_recv_msg_def smb_session_send_msg_def Let_def
      split: bind_splits if_splits option.splits prod.splits dest!: packet_recv_env packet_send_env packet_append_env)

lemma smb_session_send_msg_ok [wp_rules]:
  assumes "msg_is h bs msg" and "calm w0 w" and "peer_ok w0" and "session_ready s"
    and "session_sendable s (32 + length bs)"
    and Q: "\<And>s' msg' w'. same_session s s' \<Longrightarrow> session_ready s' \<Longrightarrow> session_cap s \<le> session_cap s' \<Longrightarrow> peer_ok w' \<Longrightarrow>
      w_sent w' = w_sent w0 @ [smb_frame s h bs] \<Longrightarrow> w_rx w' = w_rx w0 \<Longrightarrow> steady w' = steady w0 \<Longrightarrow> Q (1, s', msg', w')"
  shows "wp (smb_session_send_msg w s msg) Q"
proof -
  obtain ns where ns: "tr_session (transport s) = Some ns" "nbs_ready ns"
    and link: "uses_link netbios_session_packet_init netbios_session_packet_append netbios_session_packet_send
       netbios_session_packet_recv s"
    using assms(4) by (auto simp: session_ready_def split: option.splits)
  have io: "w_sent w = w_sent w0" "w_rx w = w_rx w0"
    using same_io_fields [of w0 w] assms(2) by (auto simp: calm_def)
  have "nbs_sendable ns (32 + length bs)" "length bs < 2 ^ 61"
    using assms(5) ns by (auto simp: session_sendable_def nbs_sendable_def session_cap_def)
  from nbs_link.send_msg [OF link ns peer_ok_calm [OF assms(3,2)] assms(1) this]
  obtain ns' msg' w' where r: "smb_session_send_msg w s msg = Some (1, with_ns s ns', msg', w')" "nbs_ready ns'"
    "peer_ok w'" "w_sent w' = w_sent w @ [smb_frame s h bs]" "w_rx w' = w_rx w"
    "packet_payload_size ns \<le> packet_payload_size ns'" by blast
  have "Q (1, with_ns s ns', msg', w')"
    using r link ns io exchange_env(2) [OF assms(4) r(1)] same_io_steady [OF calm_fields(2) [OF assms(2)]]
    by (intro Q) (auto simp: same_session_def session_ready_def session_cap_def word_le_nat_alt)
  then show ?thesis using r(1) by simp
qed

lemma smb_session_recv_msg_ok [wp_rules]:
  assumes "session_ready s" and "peer_ok w"
    and Q: "\<And>r mo s' w'. same_session s s' \<Longrightarrow> session_ready s' \<Longrightarrow> session_cap s \<le> session_cap s' \<Longrightarrow> peer_ok w' \<Longrightarrow>
      w_sent w' = w_sent w \<Longrightarrow> steady w' = steady w \<Longrightarrow>
      (case next_reply (rx_stream (w_rx w)) of
        None \<Rightarrow> r = 0 \<and> mo = None
      | Some (pkt, rest) \<Rightarrow> rx_stream (w_rx w') = rest \<and> r = length pkt - 32 \<and>
          (if length pkt < 32 then mo = None else \<exists>m. mo = Some m \<and> reply_is pkt m)) \<Longrightarrow> Q (r, mo, s', w')"
  shows "wp (smb_session_recv_msg w s) Q"
proof -
  obtain ns where ns: "tr_session (transport s) = Some ns" "nbs_ready ns"
    and link: "uses_link netbios_session_packet_init netbios_session_packet_append netbios_session_packet_send
       netbios_session_packet_recv s"
    using assms(1) by (auto simp: session_ready_def split: option.splits)
  from nbs_link.recv_msg [OF link ns assms(2)]
  obtain r mo ns' w' where r: "smb_session_recv_msg w s = Some (r, mo, with_ns s ns', w')" "nbs_ready ns'" "peer_ok w'"
    "w_sent w' = w_sent w" "packet_payload_size ns \<le> packet_payload_size ns'"
    "case next_reply (rx_stream (w_rx w)) of
        None \<Rightarrow> r = 0 \<and> mo = None
      | Some (pkt, rest) \<Rightarrow> rx_stream (w_rx w') = rest \<and> r = length pkt - 32 \<and>
          (if length pkt < 32 then mo = None else \<exists>m. mo = Some m \<and> reply_is pkt m)" by blast
  have "Q (r, mo, with_ns s ns', w')"
    using r link ns exchange_env(1) [OF assms(1) r(1)]
    by (intro Q) (auto simp: same_session_def session_ready_def session_cap_def word_le_nat_alt)
  then show ?thesis using r(1) by simp
qed

section \<open>Reading a reply\<close>

lemma buf_read_prefix:
  assumes "take (length pkt) q = pkt" and "off + n \<le> length pkt"
  shows "buf_read q off n = buf_read pkt off n"
proof -
  have l: "length pkt \<le> length q" using arg_cong [OF assms(1), of length] by simp
  have "take n (drop off pkt) = take n (drop off (take (length pkt) q))" using assms(1) by simp
  also have "\<dots> = take n (drop off q)" using assms(2) by (simp add: drop_take min_def)
  finally show ?thesis using assms(2) l by (simp add: buf_read_def)
qed

lemma rd_field_prefix:
  assumes "take (length pkt) q = pkt" and "map_of L f = Some n" and "base + sizeof L \<le> length pkt"
  shows "rd_field L f q base = rd_field L f pkt base"
  using buf_read_prefix [OF assms(1), of "base + offsetof L f" n] offsetof_bound [OF assms(2)] assms(2,3)
  by (simp add: rd_field_def)

text \<open>Members of an SMB packet, in its header and at the start of its payload.\<close>

definition pkt_header :: "string \<Rightarrow> byte list \<Rightarrow> nat" where
  "pkt_header f pkt = the (rd_field smb_header f pkt 0)"

definition pkt_field :: "layout \<Rightarrow> string \<Rightarrow> byte list \<Rightarrow> nat" where
  "pkt_field L f pkt = the (rd_field L f pkt 32)"

lemma reply_isD:
  assumes "reply_is pkt m"
  shows "\<exists>q. packet m = Some q \<and> take (length pkt) q = pkt \<and> length pkt \<le> length q"
    and "unat (payload_size m) = length pkt - 32" and "32 \<le> length pkt" and "length pkt < 2 ^ 20"
proof -
  show "\<exists>q. packet m = Some q \<and> take (length pkt) q = pkt \<and> length pkt \<le> length q"
    using assms unfolding reply_is_def by blast
  have l: "32 \<le> length pkt" "length pkt < 2 ^ 20" "payload_size m = word_of_nat (length pkt - 32)"
    using assms unfolding reply_is_def by blast+
  show "unat (payload_size m) = length pkt - 32"
    unfolding l(3) by (rule unat_u64_of_nat) (use l in simp)
  show "32 \<le> length pkt" "length pkt < 2 ^ 20" by (fact l)+
qed

lemma reply_header_ok:
  assumes "reply_is pkt m" and "map_of smb_header f = Some n"
  shows "reply_header f (Some m) = Some (pkt_header f pkt) \<and> pkt_header f pkt < 256 ^ n"
proof -
  obtain q where q: "packet m = Some q" "take (length pkt) q = pkt" using reply_isD(1) [OF assms(1)] by blast
  have l: "0 + sizeof smb_header \<le> length pkt" using reply_isD(3) [OF assms(1)] by simp
  obtain v where "rd_field smb_header f pkt 0 = Some v" "v < 256 ^ n"
    using rd_field_total [OF assms(2) l] by blast
  then show ?thesis
    using q(1) rd_field_prefix [OF q(2) assms(2) l] by (simp add: reply_header_def pkt_header_def)
qed

lemma reply_field_ok:
  assumes "reply_is pkt m" and "32 + sizeof L \<le> length pkt" and "map_of L f = Some n"
  shows "reply_field L f (Some m) = Some (pkt_field L f pkt) \<and> pkt_field L f pkt < 256 ^ n"
proof -
  obtain q where q: "packet m = Some q" "take (length pkt) q = pkt" using reply_isD(1) [OF assms(1)] by blast
  obtain v where "rd_field L f pkt 32 = Some v" "v < 256 ^ n"
    using rd_field_total [OF assms(3,2)] by blast
  then show ?thesis
    using q(1) rd_field_prefix [OF q(2) assms(3,2)] by (simp add: reply_field_def pkt_field_def)
qed

lemma reply_short_ok:
  assumes "reply_is pkt m" and "sizeof L < 2 ^ 32"
  shows "reply_short L (Some m) = Some (length pkt < 32 + sizeof L)"
proof -
  have "unat (word_of_nat (sizeof L) :: u64) = sizeof L"
    using assms(2) by (intro unat_u64_of_nat) simp
  with reply_isD(2,3) [OF assms(1)] show ?thesis by (auto simp: reply_short_def word_less_nat_alt)
qed

text \<open>The outcome of an exchange, as a function of the stream the peer sends.\<close>

datatype outcome = No_reply | Nt_error u32 | Reply "byte list"

definition outcome_of :: "byte list \<Rightarrow> outcome" where
  "outcome_of st =
     (case next_reply st of
        None \<Rightarrow> No_reply
      | Some (pkt, rest) \<Rightarrow>
          (if length pkt \<le> 32 then No_reply
           else if pkt_header ''status'' pkt \<noteq> 0 then Nt_error (word_of_nat (pkt_header ''status'' pkt))
           else Reply pkt))"

text \<open>What a receive keeps.\<close>

definition recv_keeps :: "smb_session \<Rightarrow> world \<Rightarrow> smb_session \<Rightarrow> world \<Rightarrow> bool" where
  "recv_keeps s w s' w' \<longleftrightarrow> same_session s s' \<and> session_ready s' \<and> session_cap s \<le> session_cap s' \<and> peer_ok w'
     \<and> w_sent w' = w_sent w \<and> steady w' = steady w"

text \<open>
  The rules for an exchange are stated for any property \<open>P\<close> of the rest of the computation,
  a fault included.
\<close>

lemma exchange_ok:
  assumes "session_ready s" and "peer_ok w"
    and no: "\<And>s' w'. recv_keeps s w s' w' \<Longrightarrow> outcome_of (rx_stream (w_rx w)) = No_reply \<Longrightarrow> P (k0 s' w')"
    and nt: "\<And>s' w' st. recv_keeps s w s' w' \<Longrightarrow> outcome_of (rx_stream (w_rx w)) = Nt_error st \<Longrightarrow>
      P (k1 (s'\<lparr>nt_status := st\<rparr>) w')"
    and re: "\<And>s' w' pkt m n. recv_keeps s w s' w' \<Longrightarrow> outcome_of (rx_stream (w_rx w)) = Reply pkt \<Longrightarrow>
      reply_is pkt m \<Longrightarrow> P (k2 n (Some m) s' w')"
  shows "wp (smb_session_recv_msg w s) (\<lambda>(n, resp, s, w).
     P (if n = 0 then k0 s w
        else do { (ok, s) \<leftarrow> smb_session_check_nt_status s resp; if \<not> ok then k1 s w else k2 n resp s w }))"
proof (rule smb_session_recv_msg_ok [OF assms(1,2)], clarify)
  fix r mo s' w'
  assume keeps: "same_session s s'" "session_ready s'" "session_cap s \<le> session_cap s'" "peer_ok w'" "w_sent w' = w_sent w"
      "steady w' = steady w"
    and rx: "case next_reply (rx_stream (w_rx w)) of
        None \<Rightarrow> r = 0 \<and> mo = None
      | Some (pkt, rest) \<Rightarrow> rx_stream (w_rx w') = rest \<and> r = length pkt - 32 \<and>
          (if length pkt < 32 then mo = None else \<exists>m. mo = Some m \<and> reply_is pkt m)"
  then have k: "recv_keeps s w s' w'" by (simp add: recv_keeps_def)
  show "P (if r = 0 then k0 s' w'
     else do { (ok, s) \<leftarrow> smb_session_check_nt_status s' mo; if \<not> ok then k1 s w' else k2 r mo s w' })"
  proof (cases "next_reply (rx_stream (w_rx w))")
    case None
    then show ?thesis using rx no [OF k] by (simp add: outcome_of_def)
  next
    case (Some a)
    obtain pkt rest where a: "a = (pkt, rest)" by (cases a)
    show ?thesis
    proof (cases "length pkt \<le> 32")
      case True
      then show ?thesis using rx no [OF k] Some a by (simp add: outcome_of_def)
    next
      case False
      then obtain m where m: "mo = Some m" "reply_is pkt m" "r \<noteq> 0" using rx Some a by auto
      have st: "reply_header ''status'' (Some m) = Some (pkt_header ''status'' pkt)"
        using reply_header_ok [OF m(2) smb_header_fields(5)] by blast
      have ck: "smb_session_check_nt_status s' mo = Some
          (if pkt_header ''status'' pkt \<noteq> 0 then (False, s'\<lparr>nt_status := word_of_nat (pkt_header ''status'' pkt)\<rparr>)
           else (True, s'))"
        using st m(1) by (auto simp: smb_session_check_nt_status_def reply_header_def split: bind_splits)
      show ?thesis
      proof (cases "pkt_header ''status'' pkt = 0")
        case True
        then have "outcome_of (rx_stream (w_rx w)) = Reply pkt" using Some a False by (simp add: outcome_of_def)
        then show ?thesis using ck m True re [OF k _ m(2)] by simp
      next
        case nz: False
        then have "outcome_of (rx_stream (w_rx w)) = Nt_error (word_of_nat (pkt_header ''status'' pkt))"
          using Some a False by (simp add: outcome_of_def)
        then show ?thesis using ck m nz nt [OF k] by simp
      qed
    qed
  qed
qed

text \<open>What a send followed by a receive keeps, and the frame it sends.\<close>

definition sent_keeps :: "smb_session \<Rightarrow> world \<Rightarrow> byte list \<Rightarrow> smb_session \<Rightarrow> world \<Rightarrow> bool" where
  "sent_keeps s w fr s' w' \<longleftrightarrow> same_session s s' \<and> session_ready s' \<and> session_cap s \<le> session_cap s' \<and> peer_ok w'
     \<and> w_sent w' = w_sent w @ [fr] \<and> steady w' = steady w"

lemma sent_exchange:
  assumes 1: "same_session s s1" "session_ready s1" "session_cap s \<le> session_cap s1" "peer_ok w1"
      "w_sent w1 = w_sent w0 @ [fr]" "w_rx w1 = w_rx w0" "steady w1 = steady w0"
    and no: "\<And>s' w'. sent_keeps s w0 fr s' w' \<Longrightarrow> outcome_of (rx_stream (w_rx w0)) = No_reply \<Longrightarrow> P (k0 s' w')"
    and nt: "\<And>s' w' st. sent_keeps s w0 fr s' w' \<Longrightarrow> outcome_of (rx_stream (w_rx w0)) = Nt_error st \<Longrightarrow>
      P (k1 (s'\<lparr>nt_status := st\<rparr>) w')"
    and re: "\<And>s' w' pkt m n. sent_keeps s w0 fr s' w' \<Longrightarrow> outcome_of (rx_stream (w_rx w0)) = Reply pkt \<Longrightarrow>
      reply_is pkt m \<Longrightarrow> P (k2 n (Some m) s' w')"
  shows "P (smb_session_recv_msg w1 s1 \<bind> (\<lambda>(n, resp, s, w).
     if n = 0 then k0 s w
     else do { (ok, s) \<leftarrow> smb_session_check_nt_status s resp; if \<not> ok then k1 s w else k2 n resp s w }))"
proof -
  have k: "recv_keeps s1 w1 s' w' \<Longrightarrow> sent_keeps s w0 fr s' w'" for s' w'
    using 1 by (auto simp: recv_keeps_def sent_keeps_def intro: same_session_trans)
  have "wp (smb_session_recv_msg w1 s1) (\<lambda>(n, resp, s, w).
     P (if n = 0 then k0 s w
        else do { (ok, s) \<leftarrow> smb_session_check_nt_status s resp; if \<not> ok then k1 s w else k2 n resp s w }))"
    using 1(6) by (intro exchange_ok [OF 1(2,4)]) (auto intro: no nt re k)
  then have "wp (smb_session_recv_msg w1 s1) (\<lambda>x. P (case x of (n, resp, s, w) \<Rightarrow>
     if n = 0 then k0 s w
     else do { (ok, s) \<leftarrow> smb_session_check_nt_status s resp; if \<not> ok then k1 s w else k2 n resp s w }))"
    by (simp only: split_def)
  then show ?thesis by (rule bind_out)
qed

text \<open>The two ways the callers write it: testing the result of the send, and ignoring it.\<close>

lemma round_trip_gen:
  assumes msg: "msg_is h bs msg" and c: "calm w0 w" and peer: "peer_ok w0" and ready: "session_ready s"
    and sz: "session_sendable s (32 + length bs)"
    and no: "\<And>s' w'. sent_keeps s w0 (smb_frame s h bs) s' w' \<Longrightarrow> outcome_of (rx_stream (w_rx w0)) = No_reply \<Longrightarrow>
      P (k0 s' w')"
    and nt: "\<And>s' w' st. sent_keeps s w0 (smb_frame s h bs) s' w' \<Longrightarrow> outcome_of (rx_stream (w_rx w0)) = Nt_error st \<Longrightarrow>
      P (k1 (s'\<lparr>nt_status := st\<rparr>) w')"
    and re: "\<And>s' w' pkt m n. sent_keeps s w0 (smb_frame s h bs) s' w' \<Longrightarrow> outcome_of (rx_stream (w_rx w0)) = Reply pkt \<Longrightarrow>
      reply_is pkt m \<Longrightarrow> P (k2 n (Some m) s' w')"
  shows "P (smb_session_send_msg w s msg \<bind> (\<lambda>(res, s, msg, w).
     if res = 0 then kf s w
     else do {
       (n, resp, s, w) \<leftarrow> smb_session_recv_msg w s;
       if n = 0 then k0 s w
       else do { (ok, s) \<leftarrow> smb_session_check_nt_status s resp; if \<not> ok then k1 s w else k2 n resp s w }
     }))"
proof (rule bind_out, rule smb_session_send_msg_ok [OF msg c peer ready sz])
  fix s1 msg1 w1
  assume 1: "same_session s s1" "session_ready s1" "session_cap s \<le> session_cap s1" "peer_ok w1"
    "w_sent w1 = w_sent w0 @ [smb_frame s h bs]" "w_rx w1 = w_rx w0" "steady w1 = steady w0"
  show "P (case (1 :: int, s1, msg1, w1) of (res, s, msg, w) \<Rightarrow>
     if res = 0 then kf s w
     else do {
       (n, resp, s, w) \<leftarrow> smb_session_recv_msg w s;
       if n = 0 then k0 s w
       else do { (ok, s) \<leftarrow> smb_session_check_nt_status s resp; if \<not> ok then k1 s w else k2 n resp s w }
     })"
    unfolding prod.case using sent_exchange [where P = P, OF 1] no nt re by simp
qed

lemma send_recv_gen:
  assumes msg: "msg_is h bs msg" and c: "calm w0 w" and peer: "peer_ok w0" and ready: "session_ready s"
    and sz: "session_sendable s (32 + length bs)"
    and no: "\<And>s' w'. sent_keeps s w0 (smb_frame s h bs) s' w' \<Longrightarrow> outcome_of (rx_stream (w_rx w0)) = No_reply \<Longrightarrow>
      P (k0 s' w')"
    and nt: "\<And>s' w' st. sent_keeps s w0 (smb_frame s h bs) s' w' \<Longrightarrow> outcome_of (rx_stream (w_rx w0)) = Nt_error st \<Longrightarrow>
      P (k1 (s'\<lparr>nt_status := st\<rparr>) w')"
    and re: "\<And>s' w' pkt m n. sent_keeps s w0 (smb_frame s h bs) s' w' \<Longrightarrow> outcome_of (rx_stream (w_rx w0)) = Reply pkt \<Longrightarrow>
      reply_is pkt m \<Longrightarrow> P (k2 n (Some m) s' w')"
  shows "P (smb_session_send_msg w s msg \<bind> (\<lambda>(res, s, msg, w).
     do {
       (n, resp, s, w) \<leftarrow> smb_session_recv_msg w s;
       if n = 0 then k0 s w
       else do { (ok, s) \<leftarrow> smb_session_check_nt_status s resp; if \<not> ok then k1 s w else k2 n resp s w }
     }))"
proof (rule bind_out, rule smb_session_send_msg_ok [OF msg c peer ready sz])
  fix s1 msg1 w1
  assume 1: "same_session s s1" "session_ready s1" "session_cap s \<le> session_cap s1" "peer_ok w1"
    "w_sent w1 = w_sent w0 @ [smb_frame s h bs]" "w_rx w1 = w_rx w0" "steady w1 = steady w0"
  show "P (case (1 :: int, s1, msg1, w1) of (res, s, msg, w) \<Rightarrow>
     do {
       (n, resp, s, w) \<leftarrow> smb_session_recv_msg w s;
       if n = 0 then k0 s w
       else do { (ok, s) \<leftarrow> smb_session_check_nt_status s resp; if \<not> ok then k1 s w else k2 n resp s w }
     })"
    unfolding prod.case using sent_exchange [where P = P, OF 1] no nt re by simp
qed

lemmas round_trip_ok = round_trip_gen [where P = "\<lambda>c. wp c Q" for Q, unfolded wp_bind]

lemma sent_keeps_mem: "sent_keeps s w fr s' w' \<Longrightarrow> mem_ok w'"
  by (simp add: sent_keeps_def peer_ok_def)

lemma smb_frame_flags2: "smb_frame s (h(''flags2'' := v)) bs = smb_frame s h bs"
  by (simp add: smb_frame_def smb_bytes_def fun_upd_twist)

text \<open>The outcome when the peer answers with one SMB packet.\<close>

lemma outcome_of_frame:
  assumes "length pkt < 65536"
  shows "outcome_of (nbt_frame 0 0 pkt @ rest) =
     (if length pkt \<le> 32 then No_reply
      else if pkt_header ''status'' pkt \<noteq> 0 then Nt_error (word_of_nat (pkt_header ''status'' pkt)) else Reply pkt)"
  using next_message_nbt(1) [OF assms, of 0 rest]
  by (simp add: outcome_of_def next_reply_def)

section \<open>Properties\<close>

definition sample_smb :: smb_session where
  "sample_smb = zero_session\<lparr>transport := (smb_transport_tcp new_transport)\<lparr>tr_session := Some sample_session\<rparr>\<rparr>"

lemma sample_smb_ready: "session_ready sample_smb" "session_cap sample_smb = 8192"
  using sample_session_inv
  by (simp_all add: sample_smb_def session_ready_def uses_link_def smb_transport_tcp_def nbs_ready_def session_cap_def)

text \<open>A world in which the peer answers with the SMB packet \<open>pkt\<close>.\<close>

definition answer_world :: "byte list \<Rightarrow> world" where
  "answer_world pkt = sample_world\<lparr>w_rx := [Rx_data (nbt_frame 0 0 pkt)]\<rparr>"

lemma answer_world_ok: "peer_ok (answer_world pkt)" "rx_stream (w_rx (answer_world pkt)) = nbt_frame 0 0 pkt"
    "w_sent (answer_world pkt) = []" "w_pid (answer_world pkt) = 4711" "iconv_fits (answer_world pkt)"
  by (auto simp: answer_world_def peer_ok_def mem_ok_def sample_world_def nbt_frame_def iconv_fits_def
      sample_iconv_def Let_def split: if_splits)

text \<open>A reply with status 0: a header, a structure, and the data after it.\<close>

definition reply_packet :: "layout \<Rightarrow> cstruct \<Rightarrow> byte list \<Rightarrow> byte list" where
  "reply_packet L c data = enc_struct smb_header (\<lambda>_. 0) @ enc_struct L c @ data"

lemma length_reply_packet [simp]: "length (reply_packet L c data) = 32 + sizeof L + length data"
  by (simp add: reply_packet_def)

lemma reply_packet_field: "map_of L f = Some n \<Longrightarrow> pkt_field L f (reply_packet L c data) = c f mod 256 ^ n"
  using rd_field_enc_struct [of L f n "enc_struct smb_header (\<lambda>_. 0)" c data]
  by (simp add: pkt_field_def reply_packet_def)

lemma answer_outcome:
  assumes "sizeof L \<noteq> 0" and "sizeof L + length data < 65000"
  shows "outcome_of (rx_stream (w_rx (answer_world (reply_packet L c data)))) = Reply (reply_packet L c data)"
proof -
  have "pkt_header ''status'' (reply_packet L c data) = 0"
    using rd_field_enc_struct [OF smb_header_fields(5), of "[]" "\<lambda>_. 0" "enc_struct L c @ data"]
    by (simp add: pkt_header_def reply_packet_def)
  then show ?thesis
    using assms outcome_of_frame [of "reply_packet L c data" "[]"] by (simp add: answer_world_ok)
qed

text \<open>What a receiver of the stream takes for the next packet, and what is left for it.\<close>

lemma next_reply_sent:
  assumes "n = 32 + length bs"
  shows "next_reply (smb_frame s h bs @ rest) =
     Some (take (n mod 65536) (smb_bytes s h bs), drop (n mod 65536) (smb_bytes s h bs) @ rest)"
  using next_message_cut [of 0 "n mod 65536" "smb_bytes s h bs" rest] assms
  by (simp add: next_reply_def smb_frame_def drop_take)

text \<open>
  C19 (send). A message sent over a connected session puts four bytes of NetBIOS header and
  the message on the wire, at once: its SMB header with the protocol flags and the user id of
  the session filled in, and its body, unchanged. Up to 65535 bytes of message this is one
  frame: who cuts the stream into packets, as the receiver of this library does, finds the
  message as it was sent, and then whatever follows. The length is written into 16 bits, and
  no size is refused: of a longer message the receiver finds only the first bytes, as many as
  the length leaves modulo 65536, and takes the others for the header of a next packet. The
  session keeps everything but the state of its connection.
\<close>

theorem send_msg_frame:
  assumes "session_ready s" and "peer_ok w" and "msg_is h bs (Some m)" and "session_sendable s (32 + length bs)"
    and "n = 32 + length bs"
  shows "\<exists>s' m' w'. smb_session_send_msg w s (Some m) = Some (1, s', m', w') \<and> same_session s s' \<and> session_ready s' \<and>
     w_sent w' = w_sent w @ [smb_frame s h bs] \<and> w_rx w' = w_rx w \<and>
     smb_frame s h bs = [0, 0, word_of_nat (n div 256), word_of_nat n] @ smb_bytes s h bs \<and>
     (\<forall>rest. next_reply (smb_frame s h bs @ rest) =
        (if n < 65536 then Some (smb_bytes s h bs, rest)
         else Some (take (n mod 65536) (smb_bytes s h bs), drop (n mod 65536) (smb_bytes s h bs) @ rest)))"
  using smb_session_send_msg_ok [OF assms(3) calm_start [OF assms(2)] assms(2,1,4),
      of "\<lambda>(r, s', m', w'). r = 1 \<and> same_session s s' \<and> session_ready s' \<and> w_sent w' = w_sent w @ [smb_frame s h bs]
        \<and> w_rx w' = w_rx w"] assms(5)
  by (auto simp: wp_iff next_reply_sent) (simp add: smb_frame_def nbt_frame_def)

theorem send_msg_frame_witness:
  "\<exists>s' m' w'. smb_session_send_msg (answer_world []) sample_smb (Some sample_message) = Some (1, s', m', w') \<and>
     w_sent w' = [smb_frame sample_smb (\<lambda>_. 0) []] \<and>
     next_reply (smb_frame sample_smb (\<lambda>_. 0) [] @ [7]) = Some (smb_bytes sample_smb (\<lambda>_. 0) [], [7])"
proof -
  have "msg_is (\<lambda>_. 0) [] (Some sample_message)" by (simp add: msg_is_def sample_message_inv enc_struct_zero)
  then show ?thesis
    using send_msg_frame [OF sample_smb_ready(1) answer_world_ok(1) [of "[]"], of "\<lambda>_. 0" "[]" sample_message 32]
    by (auto simp: session_sendable_def sample_smb_ready answer_world_ok)
qed

text \<open>
  C20 (receive). A receive delivers the next SMB packet of the peer's byte stream, whatever
  the way TCP cuts it, and leaves the rest of the stream for later. It returns the size of
  the packet without its header, so 0 both at the end of the stream and for a packet that is
  no more than a header, and the message refers to a buffer that begins with the packet.
\<close>

theorem recv_msg_next:
  assumes "session_ready s" and "peer_ok w"
  shows "\<exists>r mo s' w'. smb_session_recv_msg w s = Some (r, mo, s', w') \<and> same_session s s' \<and> session_ready s' \<and>
     peer_ok w' \<and> w_sent w' = w_sent w \<and>
     (case next_reply (rx_stream (w_rx w)) of
        None \<Rightarrow> r = 0 \<and> mo = None
      | Some (pkt, rest) \<Rightarrow> rx_stream (w_rx w') = rest \<and> r = length pkt - 32 \<and>
          (if length pkt < 32 then mo = None else \<exists>m. mo = Some m \<and> reply_is pkt m))"
proof -
  have "wp (smb_session_recv_msg w s) (\<lambda>(r, mo, s', w'). same_session s s' \<and> session_ready s' \<and>
     peer_ok w' \<and> w_sent w' = w_sent w \<and>
     (case next_reply (rx_stream (w_rx w)) of
        None \<Rightarrow> r = 0 \<and> mo = None
      | Some (pkt, rest) \<Rightarrow> rx_stream (w_rx w') = rest \<and> r = length pkt - 32 \<and>
          (if length pkt < 32 then mo = None else \<exists>m. mo = Some m \<and> reply_is pkt m)))"
    by (rule smb_session_recv_msg_ok [OF assms]) simp
  then show ?thesis by (simp add: wp_iff split_paired_Ex)
qed

theorem recv_msg_next_witness:
  "\<exists>m s' w'. smb_session_recv_msg (answer_world (replicate 40 7)) sample_smb = Some (8, Some m, s', w') \<and>
     reply_is (replicate 40 7) m"
proof -
  have "next_reply (nbt_frame 0 0 (replicate 40 7)) = Some (replicate 40 7, [])"
    using next_message_nbt(1) [of "replicate 40 7" 0 "[]"] by (simp add: next_reply_def)
  then show ?thesis
    using recv_msg_next [OF sample_smb_ready(1) answer_world_ok(1) [of "replicate 40 7"]]
    by (auto simp: answer_world_ok)
qed

end
