(* ===== verification/File.thy ===== *)
theory File
  imports Session_Msg Fd
begin

text \<open>
  \<^verbatim>\<open>src/smb_file.c\<close> and \<^verbatim>\<open>src/smb_dir.c\<close>: opening, closing, reading, writing,
  seeking, removing and renaming files, and creating and removing directories. Every call
  builds one request, sends it, and interprets one reply.
\<close>

section \<open>Seeking\<close>

definition SMB_SEEK_SET :: int where [dsm_consts]: "SMB_SEEK_SET = 0"
definition SMB_SEEK_CUR :: int where [dsm_consts]: "SMB_SEEK_CUR = 1"

definition seek_to :: "u64 \<Rightarrow> int \<Rightarrow> smb_file \<Rightarrow> smb_file" where
  "seek_to off whence f =
     (if whence = SMB_SEEK_SET then f\<lparr>f_offset := off\<rparr>
      else if whence = SMB_SEEK_CUR then f\<lparr>f_offset := f_offset f + off\<rparr>
      else f)"

definition smb_fseek :: "smb_session \<Rightarrow> u32 \<Rightarrow> u64 \<Rightarrow> int \<Rightarrow> (int \<times> smb_session) option" where
  "smb_fseek s fd off whence = do {
     file \<leftarrow> smb_session_file_get s fd;
     case file of
       None \<Rightarrow> Some (- 1, s)
     | Some f \<Rightarrow> Some (sint (f_offset (seek_to off whence f)), session_update_file fd (seek_to off whence) s)
   }"

section \<open>Opening and closing\<close>

definition create_request :: "u32 \<Rightarrow> nat \<Rightarrow> cstruct" where
  "create_request o_flags path_len =
     (let rw = (o_flags AND SMB_MOD_RW = SMB_MOD_RW)
      in smb_msg_init_pkt_andx(''wct'' := 24, ''flags'' := 0, ''root_fid'' := 0,
           ''access_mask'' := unat o_flags, ''alloc_size'' := 0, ''file_attr'' := 0,
           ''share_access'' := 3, ''disposition'' := (if rw then 0 else 1),
           ''create_opts'' := (if rw then 2 else 0), ''impersonation'' := 2,
           ''security_flags'' := 0, ''path_length'' := path_len, ''bct'' := path_len + 1))"

definition file_of_reply :: "u16 \<Rightarrow> smb_message option \<Rightarrow> smb_file option" where
  "file_of_reply tid resp = do {
     fid \<leftarrow> reply_field smb_create_resp ''fid'' resp;
     created \<leftarrow> reply_field smb_create_resp ''created'' resp;
     accessed \<leftarrow> reply_field smb_create_resp ''accessed'' resp;
     written \<leftarrow> reply_field smb_create_resp ''written'' resp;
     changed \<leftarrow> reply_field smb_create_resp ''changed'' resp;
     alloc_size \<leftarrow> reply_field smb_create_resp ''alloc_size'' resp;
     sz \<leftarrow> reply_field smb_create_resp ''size'' resp;
     attr \<leftarrow> reply_field smb_create_resp ''attr'' resp;
     is_dir \<leftarrow> reply_field smb_create_resp ''is_dir'' resp;
     Some (new_file\<lparr>f_fid := word_of_nat fid, f_tid := tid, f_created := word_of_nat created,
       f_accessed := word_of_nat accessed, f_written := word_of_nat written,
       f_changed := word_of_nat changed, f_alloc_size := word_of_nat alloc_size,
       f_size := word_of_nat sz, f_attr := word_of_nat attr, f_is_dir := int is_dir\<rparr>)
   }"

definition smb_fopen ::
  "world \<Rightarrow> smb_session \<Rightarrow> u16 \<Rightarrow> cstring \<Rightarrow> u32 \<Rightarrow> (int \<times> u32 option \<times> smb_session \<times> world) option" where
  "smb_fopen w s tid path o_flags =
     (case smb_session_share_get s tid of
        None \<Rightarrow> Some (DSM_ERROR_GENERIC, None, s, w)
      | Some share \<Rightarrow> do {
          (path_len, utf_path, w) \<leftarrow> smb_to_utf16 w (path @ [0]);
          if path_len = 0 then Some (DSM_ERROR_CHARSET, None, s, w)
          else do {
            (req_msg, w) \<leftarrow> smb_message_new w SMB_CMD_CREATE;
            if req_msg = None then Some (DSM_ERROR_GENERIC, None, s, w)
            else do {
              req_msg \<leftarrow> smb_message_set_header ''tid'' (unat tid) req_msg;
              (_, req_msg, w) \<leftarrow> smb_msg_put_pkt w req_msg smb_create_req (create_request o_flags path_len);
              (_, req_msg, w) \<leftarrow> smb_message_put8 w req_msg 0;
              (_, req_msg, w) \<leftarrow> smb_message_append w req_msg utf_path (word_of_nat path_len);
              (res, s, req_msg, w) \<leftarrow> smb_session_send_msg w s req_msg;
              if res = 0 then Some (DSM_ERROR_NETWORK, None, s, w)
              else do {
                (n, resp_msg, s, w) \<leftarrow> smb_session_recv_msg w s;
                if n = 0 then Some (DSM_ERROR_NETWORK, None, s, w)
                else do {
                  (ok, s) \<leftarrow> smb_session_check_nt_status s resp_msg;
                  if \<not> ok then Some (DSM_ERROR_NT, None, s, w)
                  else do {
                    short \<leftarrow> reply_short smb_create_resp resp_msg;
                    if short then Some (DSM_ERROR_NETWORK, None, s, w)
                    else do {
                      let (obj, w) = c_calloc w 104;
                      if obj = None then Some (DSM_ERROR_GENERIC, None, s, w)
                      else do {
                        file \<leftarrow> file_of_reply tid resp_msg;
                        let (_, s) = smb_session_file_add s tid file;
                        Some (DSM_SUCCESS, Some (SMB_FD tid (f_fid file)), s, w)
                      }
                    }
                  }
                }
              }
            }
          }
        })"

definition close_request :: "u16 \<Rightarrow> cstruct" where
  "close_request fid = smb_msg_init_pkt(''wct'' := 3, ''fid'' := unat fid, ''last_write'' := 0xffffffff, ''bct'' := 0)"

definition smb_fclose :: "world \<Rightarrow> smb_session \<Rightarrow> u32 \<Rightarrow> (smb_session \<times> world) option" where
  "smb_fclose w s fd =
     (if fd = 0 then Some (s, w)
      else do {
        (file, s) \<leftarrow> smb_session_file_remove s fd;
        if file = None then Some (s, w)
        else do {
          (msg, w) \<leftarrow> smb_message_new w SMB_CMD_CLOSE;
          if msg = None then Some (s, w)
          else do {
            msg \<leftarrow> smb_message_set_header ''tid'' (unat (SMB_FD_TID fd)) msg;
            (_, msg, w) \<leftarrow> smb_msg_put_pkt w msg smb_close_req (close_request (SMB_FD_FID fd));
            (_, s, msg, w) \<leftarrow> smb_session_send_msg w s msg;
            (_, _, s, w) \<leftarrow> smb_session_recv_msg w s;
            Some (s, w)
          }
        }
      })"

section \<open>Reading and writing\<close>

definition read_request :: "smb_file \<Rightarrow> nat \<Rightarrow> cstruct" where
  "read_request file max_read =
     smb_msg_init_pkt_andx(''wct'' := 12, ''fid'' := unat (f_fid file), ''offset'' := unat (f_offset file),
       ''max_count'' := max_read, ''min_count'' := max_read, ''max_count_high'' := 0, ''remaining'' := 0,
       ''offset_high'' := unat (drop_bit 32 (f_offset file) AND 0xffffffff), ''bct'' := 0)"

text \<open>What is done with the reply to a read.\<close>

definition fread_deliver ::
  "world \<Rightarrow> smb_session \<Rightarrow> u32 \<Rightarrow> byte list option \<Rightarrow> smb_message option
   \<Rightarrow> (int \<times> byte list option \<times> smb_session \<times> world) option" where
  "fread_deliver w s fd buf resp_msg = do {
     short \<leftarrow> reply_short smb_read_resp resp_msg;
     if short then Some (DSM_ERROR_NETWORK, buf, s, w)
     else do {
       data_offset \<leftarrow> reply_field smb_read_resp ''data_offset'' resp_msg;
       data_len \<leftarrow> reply_field smb_read_resp ''data_len'' resp_msg;
       m \<leftarrow> resp_msg;
       p \<leftarrow> packet m;
       if sizeof smb_packet + unat (payload_size m) < data_offset + data_len
       then Some (DSM_ERROR_NETWORK, buf, s, w)
       else do {
         buf \<leftarrow> (case buf of
            None \<Rightarrow> Some None
          | Some b \<Rightarrow> do {
              src \<leftarrow> buf_read p data_offset data_len;
              b \<leftarrow> buf_write b 0 src;
              Some (Some b)
            });
         (_, s) \<leftarrow> smb_fseek s fd (word_of_nat data_len) SMB_SEEK_CUR;
         Some (int data_len, buf, s, w)
       }
     }
   }"

text \<open>The value returned, the caller's buffer, the session and the world.\<close>

definition smb_fread ::
  "world \<Rightarrow> smb_session \<Rightarrow> u32 \<Rightarrow> byte list option \<Rightarrow> u64 \<Rightarrow> (int \<times> byte list option \<times> smb_session \<times> world) option" where
  "smb_fread w s fd buf bufsz = do {
     file \<leftarrow> smb_session_file_get s fd;
     case file of
       None \<Rightarrow> Some (- 1, buf, s, w)
     | Some file \<Rightarrow> do {
         (req_msg, w) \<leftarrow> smb_message_new w SMB_CMD_READ;
         if req_msg = None then Some (- 1, buf, s, w)
         else do {
           req_msg \<leftarrow> smb_message_set_header ''tid'' (unat (f_tid file)) req_msg;
           let max_read = (if 0xffff < bufsz then 0xffff else unat bufsz);
           (_, req_msg, w) \<leftarrow> smb_msg_put_pkt w req_msg smb_read_req (read_request file max_read);
           (res, s, req_msg, w) \<leftarrow> smb_session_send_msg w s req_msg;
           if res = 0 then Some (- 1, buf, s, w)
           else do {
             (n, resp_msg, s, w) \<leftarrow> smb_session_recv_msg w s;
             if n = 0 then Some (- 1, buf, s, w)
             else do {
               (ok, s) \<leftarrow> smb_session_check_nt_status s resp_msg;
               if \<not> ok then Some (- 1, buf, s, w)
               else fread_deliver w s fd buf resp_msg
             }
           }
         }
       }
   }"

definition write_size :: "u64 \<Rightarrow> nat" where
  "write_size bufsz =
     (let max_write = 0xffff - sizeof smb_packet - sizeof smb_write_req
      in if max_write < unat bufsz then max_write else unat (ucast bufsz :: u16))"

definition write_request :: "smb_file \<Rightarrow> nat \<Rightarrow> cstruct" where
  "write_request file max_write =
     smb_msg_init_pkt_andx(''wct'' := 14, ''fid'' := unat (f_fid file),
       ''offset'' := unat (f_offset file AND 0xffffffff), ''timeout'' := 0, ''write_mode'' := 1,
       ''remaining'' := 0, ''reserved'' := 0, ''data_len'' := max_write,
       ''data_offset'' := sizeof smb_packet + sizeof smb_write_req,
       ''offset_high'' := unat (drop_bit 32 (f_offset file) AND 0xffffffff), ''bct'' := max_write)"

definition smb_fwrite ::
  "world \<Rightarrow> smb_session \<Rightarrow> u32 \<Rightarrow> byte list option \<Rightarrow> u64 \<Rightarrow> (int \<times> smb_session \<times> world) option" where
  "smb_fwrite w s fd buf bufsz = do {
     c_assert (buf \<noteq> None);
     file \<leftarrow> smb_session_file_get s fd;
     case file of
       None \<Rightarrow> Some (- 1, s, w)
     | Some file \<Rightarrow> do {
         (req_msg, w) \<leftarrow> smb_message_new w SMB_CMD_WRITE;
         if req_msg = None then Some (- 1, s, w)
         else do {
           req_msg \<leftarrow> smb_message_set_header ''tid'' (unat (f_tid file)) req_msg;
           let max_write = write_size bufsz;
           (_, req_msg, w) \<leftarrow> smb_msg_put_pkt w req_msg smb_write_req (write_request file max_write);
           (_, req_msg, w) \<leftarrow> smb_message_append w req_msg buf (word_of_nat max_write);
           (res, s, req_msg, w) \<leftarrow> smb_session_send_msg w s req_msg;
           if res = 0 then Some (- 1, s, w)
           else do {
             (n, resp_msg, s, w) \<leftarrow> smb_session_recv_msg w s;
             if n = 0 then Some (- 1, s, w)
             else do {
               (ok, s) \<leftarrow> smb_session_check_nt_status s resp_msg;
               if \<not> ok then Some (- 1, s, w)
               else do {
                 short \<leftarrow> reply_short smb_write_resp resp_msg;
                 if short then Some (DSM_ERROR_NETWORK, s, w)
                 else do {
                   data_len \<leftarrow> reply_field smb_write_resp ''data_len'' resp_msg;
                   (_, s) \<leftarrow> smb_fseek s fd (word_of_nat data_len) SMB_SEEK_CUR;
                   Some (int data_len, s, w)
                 }
               }
             }
           }
         }
       }
   }"

section \<open>Requests with paths\<close>

text \<open>
  The end the four path requests share: the result of the send is ignored, and the reply
  has to be an empty one.
\<close>

definition expect_empty ::
  "world \<Rightarrow> smb_session \<Rightarrow> smb_message option \<Rightarrow> layout \<Rightarrow> (int \<times> smb_session \<times> world) option" where
  "expect_empty w s req_msg L = do {
     (_, s, req_msg, w) \<leftarrow> smb_session_send_msg w s req_msg;
     (n, resp_msg, s, w) \<leftarrow> smb_session_recv_msg w s;
     if n = 0 then Some (DSM_ERROR_NETWORK, s, w)
     else do {
       (ok, s) \<leftarrow> smb_session_check_nt_status s resp_msg;
       if \<not> ok then Some (DSM_ERROR_NT, s, w)
       else do {
         short \<leftarrow> reply_short L resp_msg;
         if short then Some (DSM_ERROR_NETWORK, s, w)
         else do {
           wct \<leftarrow> reply_field L ''wct'' resp_msg;
           bct \<leftarrow> reply_field L ''bct'' resp_msg;
           if wct \<noteq> 0 \<or> bct \<noteq> 0 then Some (DSM_ERROR_NETWORK, s, w) else Some (DSM_SUCCESS, s, w)
         }
       }
     }
   }"

definition file_rm_request :: "nat \<Rightarrow> cstruct" where
  "file_rm_request n = smb_msg_init_pkt(''wct'' := 1, ''search_attributes'' := SMB_ATTR_HIDDEN OR SMB_ATTR_SYS,
     ''bct'' := n + 1, ''buffer_format'' := 4)"

definition smb_file_rm :: "world \<Rightarrow> smb_session \<Rightarrow> u16 \<Rightarrow> cstring \<Rightarrow> (int \<times> smb_session \<times> world) option" where
  "smb_file_rm w s tid path = do {
     (n, utf_pattern, w) \<leftarrow> smb_to_utf16 w (path @ [0]);
     if n = 0 then Some (DSM_ERROR_CHARSET, s, w)
     else do {
       (req_msg, w) \<leftarrow> smb_message_new w SMB_CMD_RMFILE;
       if req_msg = None then Some (DSM_ERROR_GENERIC, s, w)
       else do {
         req_msg \<leftarrow> smb_message_set_header ''tid'' (unat tid) req_msg;
         req_msg \<leftarrow> smb_message_set_header ''flags2'' SMB_FLAGS2_LONG_NAMES req_msg;
         (_, req_msg, w) \<leftarrow> smb_msg_put_pkt w req_msg smb_file_rm_req (file_rm_request n);
         (_, req_msg, w) \<leftarrow> smb_message_append w req_msg utf_pattern (word_of_nat n);
         expect_empty w s req_msg smb_file_rm_resp
       }
     }
   }"

definition file_mv_request :: "nat \<Rightarrow> nat \<Rightarrow> cstruct" where
  "file_mv_request n1 n2 = smb_msg_init_pkt(''wct'' := 1, ''search_attributes'' := SMB_ATTR_HIDDEN OR SMB_ATTR_SYS,
     ''bct'' := n1 + n2 + 3)"

definition smb_file_mv ::
  "world \<Rightarrow> smb_session \<Rightarrow> u16 \<Rightarrow> cstring \<Rightarrow> cstring \<Rightarrow> (int \<times> smb_session \<times> world) option" where
  "smb_file_mv w s tid old_path new_path = do {
     (n1, utf_old, w) \<leftarrow> smb_to_utf16 w (old_path @ [0]);
     if n1 = 0 then Some (DSM_ERROR_CHARSET, s, w)
     else do {
       (n2, utf_new, w) \<leftarrow> smb_to_utf16 w (new_path @ [0]);
       if n2 = 0 then Some (DSM_ERROR_CHARSET, s, w)
       else do {
         (req_msg, w) \<leftarrow> smb_message_new w SMB_CMD_MOVE;
         if req_msg = None then Some (DSM_ERROR_GENERIC, s, w)
         else do {
           req_msg \<leftarrow> smb_message_set_header ''tid'' (unat tid) req_msg;
           req_msg \<leftarrow> smb_message_set_header ''flags2'' SMB_FLAGS2_LONG_NAMES req_msg;
           (_, req_msg, w) \<leftarrow> smb_msg_put_pkt w req_msg smb_file_mv_req (file_mv_request n1 n2);
           (_, req_msg, w) \<leftarrow> smb_message_put8 w req_msg 0x04;
           (_, req_msg, w) \<leftarrow> smb_message_append w req_msg utf_old (word_of_nat n1);
           (_, req_msg, w) \<leftarrow> smb_message_put8 w req_msg 0x00;
           (_, req_msg, w) \<leftarrow> smb_message_put8 w req_msg 0x04;
           (_, req_msg, w) \<leftarrow> smb_message_append w req_msg utf_new (word_of_nat n2);
           expect_empty w s req_msg smb_file_mv_resp
         }
       }
     }
   }"

definition directory_request :: "nat \<Rightarrow> cstruct" where
  "directory_request n = smb_msg_init_pkt(''wct'' := 0, ''bct'' := n + 1, ''buffer_format'' := 4)"

definition smb_directory_rm :: "world \<Rightarrow> smb_session \<Rightarrow> u16 \<Rightarrow> cstring \<Rightarrow> (int \<times> smb_session \<times> world) option" where
  "smb_directory_rm w s tid path = do {
     (n, utf_pattern, w) \<leftarrow> smb_to_utf16 w (path @ [0]);
     if n = 0 then Some (DSM_ERROR_CHARSET, s, w)
     else do {
       (req_msg, w) \<leftarrow> smb_message_new w SMB_CMD_RMDIR;
       if req_msg = None then Some (DSM_ERROR_GENERIC, s, w)
       else do {
         req_msg \<leftarrow> smb_message_set_header ''tid'' (unat tid) req_msg;
         (_, req_msg, w) \<leftarrow> smb_msg_put_pkt w req_msg smb_directory_rm_req (directory_request n);
         (_, req_msg, w) \<leftarrow> smb_message_append w req_msg utf_pattern (word_of_nat n);
         expect_empty w s req_msg smb_directory_rm_resp
       }
     }
   }"

definition smb_directory_create :: "world \<Rightarrow> smb_session \<Rightarrow> u16 \<Rightarrow> cstring \<Rightarrow> (int \<times> smb_session \<times> world) option" where
  "smb_directory_create w s tid path = do {
     (n, utf_pattern, w) \<leftarrow> smb_to_utf16 w (path @ [0]);
     if n = 0 then Some (DSM_ERROR_CHARSET, s, w)
     else do {
       (req_msg, w) \<leftarrow> smb_message_new w SMB_CMD_MKDIR;
       if req_msg = None then Some (DSM_ERROR_GENERIC, s, w)
       else do {
         req_msg \<leftarrow> smb_message_set_header ''tid'' (unat tid) req_msg;
         (_, req_msg, w) \<leftarrow> smb_msg_put_pkt w req_msg smb_directory_mk_req (directory_request n);
         (_, req_msg, w) \<leftarrow> smb_message_append w req_msg utf_pattern (word_of_nat n);
         expect_empty w s req_msg smb_directory_mk_resp
       }
     }
   }"

end
