(* ===== verification/File_Spec.thy ===== *)
theory File_Spec
  imports File
begin

text \<open>
  What the file operations promise: the frame each puts on the wire, and the value, buffer
  and session it leaves behind for every outcome of the exchange, a missing, refused or
  malformed reply included.
\<close>

section \<open>What an exchange keeps of the tables\<close>

lemma lookup_same: "same_session s s' \<Longrightarrow> lookup_file s' fd = lookup_file s fd"
  by (simp add: lookup_file_eq same_session_simps)

lemma same_session_updates:
  assumes "same_session s s'"
  shows "same_session (s\<lparr>nt_status := x\<rparr>) (s'\<lparr>nt_status := x\<rparr>)"
    and "same_session (session_update_file fd g s) (session_update_file fd g s')"
    and "same_session (insert_file s f) (insert_file s' f)"
proof -
  obtain ns where s': "s' = with_ns s ns" using assms by (auto simp: same_session_def)
  show "same_session (s\<lparr>nt_status := x\<rparr>) (s'\<lparr>nt_status := x\<rparr>)"
    by (cases s) (auto simp: s' same_session_def with_ns_def)
  show "same_session (session_update_file fd g s) (session_update_file fd g s')"
    by (cases s) (auto simp: s' same_session_def with_ns_def session_update_file_def)
  show "same_session (insert_file s f) (insert_file s' f)"
    by (cases s) (auto simp: s' same_session_def with_ns_def insert_file_eq split: option.splits)
qed

lemma sent_keepsD:
  assumes "sent_keeps s w fr s' w'"
  shows "same_session s s'" "w_sent w' = w_sent w @ [fr]" "lookup_file s' fd = lookup_file s fd"
    "same_session (s\<lparr>nt_status := x\<rparr>) (s'\<lparr>nt_status := x\<rparr>)"
    "same_session (session_update_file fd g s) (session_update_file fd g s')"
    "same_session (insert_file s f) (insert_file s' f)"
  using assms same_session_updates [of s s'] lookup_same [of s s'] by (auto simp: sent_keeps_def)


section \<open>Writing\<close>

lemma smb_fseek_ok:
  assumes "lookup_file s fd = Some f"
    and Q: "Q (sint (f_offset (seek_to off wh f)), session_update_file fd (seek_to off wh) s)"
  shows "wp (smb_fseek s fd off wh) Q"
  using file_get_lookup [OF assms(1)] Q by (simp add: smb_fseek_def)

lemma write_size_eq: "write_size n = min 65471 (unat n)"
proof -
  have "unat (ucast n :: u16) = unat n" if "unat n \<le> 65471"
    using that by (simp add: unsigned_ucast_eq take_bit_nat_eq_self)
  then show ?thesis by (auto simp: write_size_def Let_def min_def)
qed


definition write_frame :: "smb_session \<Rightarrow> u32 \<Rightarrow> smb_file \<Rightarrow> byte list \<Rightarrow> byte list" where
  "write_frame s pid f data =
     smb_frame s ((new_header SMB_CMD_WRITE pid)(''tid'' := unat (f_tid f)))
       (enc_struct smb_write_req (write_request f (length data)) @ data)"

text \<open>The value returned and the session afterwards, for each outcome of the exchange.\<close>

definition write_result :: "smb_session \<Rightarrow> u32 \<Rightarrow> outcome \<Rightarrow> int \<Rightarrow> smb_session \<Rightarrow> bool" where
  "write_result s fd oc r s' =
     (case oc of
        No_reply \<Rightarrow> r = - 1 \<and> same_session s s'
      | Nt_error st \<Rightarrow> r = - 1 \<and> same_session (s\<lparr>nt_status := st\<rparr>) s'
      | Reply pkt \<Rightarrow>
          if length pkt < 32 + sizeof smb_write_resp then r = DSM_ERROR_NETWORK \<and> same_session s s'
          else r = int (pkt_field smb_write_resp ''data_len'' pkt) \<and>
            same_session (session_update_file fd (seek_to (word_of_int r) SMB_SEEK_CUR) s) s')"

lemma smb_fwrite_ok:
  assumes ready: "session_ready s" and peer: "peer_ok w" and f: "lookup_file s fd = Some f"
    and len: "unat n \<le> length buf" and sz: "session_sendable s (64 + min 65471 (unat n))"
  shows "wp (smb_fwrite w s fd (Some buf) n) (\<lambda>(r, s', w').
     w_sent w' = w_sent w @ [write_frame s (w_pid w) f (take (min 65471 (unat n)) buf)] \<and>
     write_result s fd (outcome_of (rx_stream (w_rx w))) r s')"
proof -
  note f0 = file_get_lookup [OF f]
  have us: "unat (word_of_nat (min 65471 (unat n)) :: u64) = min 65471 (unat n)" by (rule unat_u64_of_nat) (simp add: min_def)
  have l: "min (length buf) (min 65471 (unat n)) = min 65471 (unat n)" using len by simp
  have wr: "map_of smb_write_resp ''data_len'' = Some 2" by (simp add: smb_write_resp_def)
  show ?thesis
    using calm_start [OF peer]
    apply (simp add: smb_fwrite_def f0)
    apply (rule smb_message_new_ok, assumption)
    apply (simp add: msg_is_null)
    apply (rule smb_message_set_header_ok, assumption, rule smb_header_fields)
    apply (simp add: Let_def write_size_eq)
    apply (rule smb_msg_put_pkt_ok, assumption+, simp, simp)
    apply (rule smb_message_append_ok, assumption+, simp add: us, use len in \<open>simp add: us\<close>, simp add: us)
    apply (rule round_trip_ok [OF _ _ peer ready], assumption+)
    using sz apply (simp add: l)
    apply (simp_all add: sent_keepsD write_result_def write_frame_def l reply_short_ok reply_field_ok [OF _ _ wr])
    apply (rule impI)
    apply (rule smb_fseek_ok)
    apply (simp add: sent_keepsD f)
    apply (simp add: sent_keepsD)
    done
qed

section \<open>Reading\<close>

definition read_frame :: "smb_session \<Rightarrow> u32 \<Rightarrow> smb_file \<Rightarrow> u64 \<Rightarrow> byte list" where
  "read_frame s pid f n =
     smb_frame s ((new_header SMB_CMD_READ pid)(''tid'' := unat (f_tid f)))
       (enc_struct smb_read_req (read_request f (min 65535 (unat n))))"

text \<open>The data of a well-formed read reply.\<close>

definition read_data :: "byte list \<Rightarrow> byte list option" where
  "read_data pkt =
     (if length pkt < 32 + sizeof smb_read_resp then None
      else buf_read pkt (pkt_field smb_read_resp ''data_offset'' pkt) (pkt_field smb_read_resp ''data_len'' pkt))"

definition read_result :: "smb_session \<Rightarrow> u32 \<Rightarrow> byte list \<Rightarrow> outcome \<Rightarrow> int \<Rightarrow> byte list \<Rightarrow> smb_session \<Rightarrow> bool" where
  "read_result s fd b oc r b' s' =
     (case oc of
        No_reply \<Rightarrow> r = - 1 \<and> b' = b \<and> same_session s s'
      | Nt_error st \<Rightarrow> r = - 1 \<and> b' = b \<and> same_session (s\<lparr>nt_status := st\<rparr>) s'
      | Reply pkt \<Rightarrow>
          (case read_data pkt of
             None \<Rightarrow> r = DSM_ERROR_NETWORK \<and> b' = b \<and> same_session s s'
           | Some data \<Rightarrow> length data \<le> length b \<and> r = int (length data) \<and> b' = data @ drop (length data) b \<and>
               same_session (session_update_file fd (seek_to (word_of_int r) SMB_SEEK_CUR) s) s'))"


lemma fread_deliver_gen:
  assumes k: "sent_keeps s w (read_frame s (w_pid w) f n) s' w'" and f: "lookup_file s fd = Some f"
    and oc: "outcome_of (rx_stream (w_rx w)) = Reply pkt" and m: "reply_is pkt m"
    and P: "\<And>r b' s' w'. w_sent w' = w_sent w @ [read_frame s (w_pid w) f n] \<Longrightarrow>
       read_result s fd b (outcome_of (rx_stream (w_rx w))) r b' s' \<Longrightarrow> P (Some (r, Some b', s', w'))"
    and bad: "\<And>data. read_data pkt = Some data \<Longrightarrow> length b < length data \<Longrightarrow> P None"
  shows "P (fread_deliver w' s' fd (Some b) (Some m))"
proof -
  have fl: "map_of smb_read_resp ''data_len'' = Some 2" "map_of smb_read_resp ''data_offset'' = Some 2"
    by (simp_all add: smb_read_resp_def)
  let ?off = "pkt_field smb_read_resp ''data_offset'' pkt" and ?len = "pkt_field smb_read_resp ''data_len'' pkt"
  obtain q where q: "packet m = Some q" "take (length pkt) q = pkt" using reply_isD(1) [OF m] by blast
  note l = reply_isD(2,3) [OF m]
  have short: "reply_short smb_read_resp (Some m) = Some (length pkt < 32 + sizeof smb_read_resp)"
    using reply_short_ok [OF m, of smb_read_resp] by simp
  show ?thesis
  proof (cases "read_data pkt")
    case None
    then show ?thesis
      using short k oc l q reply_field_ok [OF m _ fl(1)] reply_field_ok [OF m _ fl(2)]
      by (auto simp: fread_deliver_def read_data_def buf_read_def read_result_def sent_keepsD split: if_splits intro!: P)
  next
    case (Some data)
    then have lp: "32 + sizeof smb_read_resp \<le> length pkt" "?off + ?len \<le> length pkt"
      and data: "buf_read pkt ?off ?len = Some data" "length data = ?len"
      by (auto simp: read_data_def buf_read_def split: if_splits)
    have src: "buf_read q ?off ?len = Some data" using buf_read_prefix [OF q(2) lp(2)] data(1) by simp
    have seek: "smb_fseek s' fd (word_of_nat ?len) SMB_SEEK_CUR =
        Some (sint (f_offset (seek_to (word_of_nat ?len) SMB_SEEK_CUR f)),
          session_update_file fd (seek_to (word_of_nat ?len) SMB_SEEK_CUR) s')"
      using file_get_lookup [of s' fd f] sent_keepsD(3) [OF k] f by (simp add: smb_fseek_def)
    show ?thesis
    proof (cases "length b < length data")
      case True
      then show ?thesis
        using bad [OF Some] short lp l q src reply_field_ok [OF m lp(1) fl(1)] reply_field_ok [OF m lp(1) fl(2)]
        by (simp add: fread_deliver_def buf_write_def)
    next
      case False
      have "P (Some (int ?len, Some (data @ drop ?len b),
          session_update_file fd (seek_to (word_of_nat ?len) SMB_SEEK_CUR) s', w'))"
        using False oc Some data(2) by (intro P) (simp_all add: read_result_def sent_keepsD [OF k])
      then show ?thesis
        using False short lp l q src seek reply_field_ok [OF m lp(1) fl(1)] reply_field_ok [OF m lp(1) fl(2)] data(2)
        by (simp add: fread_deliver_def buf_write_def)
    qed
  qed
qed

lemma smb_fread_gen:
  assumes ready: "session_ready s" and peer: "peer_ok w" and f: "lookup_file s fd = Some f"
    and sz: "session_sendable s 59"
    and P: "\<And>r b' s' w'. w_sent w' = w_sent w @ [read_frame s (w_pid w) f n] \<Longrightarrow>
       read_result s fd b (outcome_of (rx_stream (w_rx w))) r b' s' \<Longrightarrow> P (Some (r, Some b', s', w'))"
    and bad: "\<And>pkt data. outcome_of (rx_stream (w_rx w)) = Reply pkt \<Longrightarrow> read_data pkt = Some data \<Longrightarrow>
       length b < length data \<Longrightarrow> P None"
  shows "P (smb_fread w s fd (Some b) n)"
proof -
  note f0 = file_get_lookup [OF f]
  have mx: "(if 0xffff < n then 0xffff else unat n) = min 65535 (unat n)"
    by (simp add: word_less_nat_alt min_def)
  show ?thesis
    unfolding smb_fread_def f0 bind.bind_lunit option.case mx
    apply (rule bind_out, rule smb_message_new_ok, rule calm_start [OF peer])
    apply (simp only: prod.case msg_is_null if_False)
    apply (rule bind_out, rule smb_message_set_header_ok, assumption, rule smb_header_fields, unfold Let_def)
    apply (rule bind_out, rule smb_msg_put_pkt_ok, assumption+, simp, simp only: prod.case append_Nil)
    apply (rule round_trip_gen [where P = P, OF _ _ peer ready], assumption+)
    using sz apply simp
      apply (rule P; simp add: sent_keepsD read_result_def read_frame_def)
     apply (rule P; simp add: sent_keepsD read_result_def read_frame_def)
    apply (rule fread_deliver_gen [where P = P and n = n, OF _ f])
        apply (simp add: read_frame_def)
       apply assumption+
     apply (rule P; assumption)
    apply (rule bad; assumption)
    done
qed

section \<open>Opening\<close>

text \<open>The file a successful open enters into its share.\<close>

definition pkt_file :: "u16 \<Rightarrow> byte list \<Rightarrow> smb_file" where
  "pkt_file tid pkt =
     (let v = (\<lambda>f. pkt_field smb_create_resp f pkt)
      in new_file\<lparr>f_fid := word_of_nat (v ''fid''), f_tid := tid, f_created := word_of_nat (v ''created''),
        f_accessed := word_of_nat (v ''accessed''), f_written := word_of_nat (v ''written''),
        f_changed := word_of_nat (v ''changed''), f_alloc_size := word_of_nat (v ''alloc_size''),
        f_size := word_of_nat (v ''size''), f_attr := word_of_nat (v ''attr''), f_is_dir := int (v ''is_dir'')\<rparr>)"

lemma file_of_reply_ok:
  assumes "reply_is pkt m" and "32 + sizeof smb_create_resp \<le> length pkt"
  shows "file_of_reply tid (Some m) = Some (pkt_file tid pkt)"
proof -
  have "map_of smb_create_resp f \<noteq> None \<Longrightarrow> reply_field smb_create_resp f (Some m) = Some (pkt_field smb_create_resp f pkt)" for f
    using reply_field_ok [OF assms, of f] by auto
  moreover have "\<forall>f \<in> {''fid'', ''created'', ''accessed'', ''written'', ''changed'', ''alloc_size'', ''size'', ''attr'', ''is_dir''}.
     map_of smb_create_resp f \<noteq> None"
    by (simp add: smb_create_resp_def)
  ultimately show ?thesis by (simp add: file_of_reply_def pkt_file_def)
qed

definition open_frame :: "smb_session \<Rightarrow> u32 \<Rightarrow> u16 \<Rightarrow> byte list \<Rightarrow> u32 \<Rightarrow> byte list" where
  "open_frame s pid tid utf_path o_flags =
     smb_frame s ((new_header SMB_CMD_CREATE pid)(''tid'' := unat tid))
       (enc_struct smb_create_req (create_request o_flags (length utf_path)) @ [0] @ utf_path)"

definition open_result :: "smb_session \<Rightarrow> u16 \<Rightarrow> outcome \<Rightarrow> int \<Rightarrow> u32 option \<Rightarrow> smb_session \<Rightarrow> bool" where
  "open_result s tid oc r fd s' =
     (case oc of
        No_reply \<Rightarrow> r = DSM_ERROR_NETWORK \<and> fd = None \<and> same_session s s'
      | Nt_error st \<Rightarrow> r = DSM_ERROR_NT \<and> fd = None \<and> same_session (s\<lparr>nt_status := st\<rparr>) s'
      | Reply pkt \<Rightarrow>
          if length pkt < 32 + sizeof smb_create_resp then r = DSM_ERROR_NETWORK \<and> fd = None \<and> same_session s s'
          else r = DSM_SUCCESS \<and> fd = Some (file_key (pkt_file tid pkt)) \<and> same_session (insert_file s (pkt_file tid pkt)) s')"

lemma pkt_file_tid [simp]: "f_tid (pkt_file tid pkt) = tid"
  by (simp add: pkt_file_def Let_def)

lemma smb_fopen_ok:
  assumes ready: "session_ready s" and peer: "peer_ok w" and share: "smb_session_share_get s tid \<noteq> None"
    and conv: "iconv_fits w" "conv_small (path @ [0])" "utf16_of w (path @ [0]) \<noteq> []"
    and sz: "session_sendable s (84 + length (utf16_of w (path @ [0])))"
  shows "wp (smb_fopen w s tid path o_flags) (\<lambda>(r, fd, s', w').
     w_sent w' = w_sent w @ [open_frame s (w_pid w) tid (utf16_of w (path @ [0])) o_flags] \<and>
     open_result s tid (outcome_of (rx_stream (w_rx w))) r fd s')"
proof -
  let ?u = "utf16_of w (path @ [0])"
  obtain sh where sh: "smb_session_share_get s tid = Some sh" using share by blast
  have lu: "length ?u < 2 ^ 61" using sz by (simp add: session_sendable_def)
  have b1: "nat_bytes 1 0 = [0]" by (simp add: nat_bytes_def)
  show ?thesis
    using calm_start [OF peer]
    apply (simp add: smb_fopen_def sh)
    apply (rule smb_to_utf16_ok, assumption, rule conv, rule conv)
    apply (simp add: conv(3))
    apply (rule smb_message_new_ok, assumption)
    apply (simp add: msg_is_null)
    apply (rule smb_message_set_header_ok, assumption, rule smb_header_fields)
    apply (rule smb_msg_put_pkt_ok, assumption+, simp, simp)
    apply (rule smb_message_put8_ok, assumption+, simp, simp)
    apply (rule smb_message_append_text_ok, assumption+, rule conv, use lu in simp, simp)
    apply (rule round_trip_ok [OF _ _ peer ready], assumption+)
    using sz apply simp
      apply (simp_all add: sent_keepsD open_result_def open_frame_def b1 reply_short_ok)
    apply (rule impI)
    apply (simp add: c_calloc_ok sent_keeps_mem file_of_reply_ok split_def file_add_insert file_key_def sent_keepsD)
    done
qed

lemma open_result_lookup:
  assumes "smb_session_share_get s tid \<noteq> None" and "files_inv s" and res: "open_result s tid oc r fd s'"
  shows "case fd of
        None \<Rightarrow> r \<noteq> DSM_SUCCESS \<and> shares s' = shares s
      | Some d \<Rightarrow> r = DSM_SUCCESS \<and> (d = 0 \<or> (\<forall>k. lookup_file s' k =
          (if lookup_file s k = None \<and> k = d
           then (case oc of Reply pkt \<Rightarrow> Some (pkt_file tid pkt) | _ \<Rightarrow> None)
           else lookup_file s k)))"
proof -
  have "lookup_file (insert_file s (pkt_file tid pkt)) k =
     (if lookup_file s k = None \<and> k = file_key (pkt_file tid pkt) then Some (pkt_file tid pkt) else lookup_file s k)"
    if "file_key (pkt_file tid pkt) \<noteq> 0" for pkt k
    using that assms(1,2) by (intro file_table.get_add) (simp_all add: file_insertable_def file_key_def)
  then show ?thesis
    using res lookup_same [of "insert_file s (pkt_file tid pkt)" s' for pkt]
    by (auto simp: open_result_def dsm_consts same_session_simps split: outcome.splits if_splits)
qed

section \<open>Requests with paths\<close>

text \<open>The four requests that expect an empty reply.\<close>

definition empty_result :: "layout \<Rightarrow> smb_session \<Rightarrow> outcome \<Rightarrow> int \<Rightarrow> smb_session \<Rightarrow> bool" where
  "empty_result L s oc r s' =
     (case oc of
        No_reply \<Rightarrow> r = DSM_ERROR_NETWORK \<and> same_session s s'
      | Nt_error st \<Rightarrow> r = DSM_ERROR_NT \<and> same_session (s\<lparr>nt_status := st\<rparr>) s'
      | Reply pkt \<Rightarrow> same_session s s' \<and>
          r = (if 32 + sizeof L \<le> length pkt \<and> pkt_field L ''wct'' pkt = 0 \<and> pkt_field L ''bct'' pkt = 0
               then DSM_SUCCESS else DSM_ERROR_NETWORK))"

lemma expect_empty_ok:
  assumes msg: "msg_is h bs msg" "calm w0 w" and peer: "peer_ok w0" and ready: "session_ready s"
    and sz: "session_sendable s (32 + length bs)" and L: "sizeof L = 3" "map_of L ''wct'' = Some 1" "map_of L ''bct'' = Some 2"
    and Q: "\<And>r s' w'. w_sent w' = w_sent w0 @ [smb_frame s h bs] \<Longrightarrow>
      empty_result L s (outcome_of (rx_stream (w_rx w0))) r s' \<Longrightarrow> Q (r, s', w')"
  shows "wp (expect_empty w s msg L) Q"
  unfolding expect_empty_def
  apply (rule send_recv_gen [where P = "\<lambda>c. wp c Q", OF msg peer ready sz])
    apply (simp add: sent_keepsD empty_result_def Q)
   apply (simp add: sent_keepsD empty_result_def Q)
  apply (auto simp: sent_keepsD empty_result_def L reply_short_ok reply_field_ok [OF _ _ L(2)] reply_field_ok [OF _ _ L(3)] intro!: Q)
  done

lemma path_tail_ok:
  assumes msg: "msg_is h [] msg" "calm w0 w" and u: "holds_text u dst" "u \<noteq> []" and peer: "peer_ok w0"
    and ready: "session_ready s" and sz: "session_sendable s (32 + sizeof L + length u)"
    and R: "sizeof R = 3" "map_of R ''wct'' = Some 1" "map_of R ''bct'' = Some 2"
    and Q: "\<And>r s' w'. w_sent w' = w_sent w0 @ [smb_frame s h (enc_struct L c @ u)] \<Longrightarrow>
      empty_result R s (outcome_of (rx_stream (w_rx w0))) r s' \<Longrightarrow> Q (r, s', w')"
  shows "wp (smb_msg_put_pkt w msg L c) (\<lambda>x. wp (case x of (_, msg, w) \<Rightarrow>
     do { (_, msg, w) \<leftarrow> smb_message_append w msg dst (word_of_nat (length u)); expect_empty w s msg R }) Q)"
proof -
  have l: "sizeof L + length u < 2 ^ 30" using sz by (simp add: session_sendable_def)
  show ?thesis
    apply (rule smb_msg_put_pkt_ok [OF msg])
     apply (use l in simp)
    apply simp
    apply (rule smb_message_append_text_ok, assumption+, rule u, rule u, use l in simp, simp)
    apply (rule expect_empty_ok [OF _ _ peer ready _ R], assumption+)
     apply (rule back_subst [of "session_sendable s", OF sz], simp)
    apply (rule Q; assumption)
    done
qed

lemmas simple_resp = smb_file_rm_resp_def smb_directory_rm_resp_def smb_directory_mk_resp_def smb_file_mv_resp_def
  smb_simple_struct_def sizeof_def

lemma smb_file_rm_ok:
  assumes ready: "session_ready s" and peer: "peer_ok w" and u: "utf16_of w (path @ [0]) = u" "u \<noteq> []"
    and conv: "iconv_fits w" "conv_small (path @ [0])" and sz: "session_sendable s (38 + length u)"
  shows "wp (smb_file_rm w s tid path) (\<lambda>(r, s', w').
     w_sent w' = w_sent w @ [smb_frame s ((new_header SMB_CMD_RMFILE (w_pid w))(''tid'' := unat tid))
        (enc_struct smb_file_rm_req (file_rm_request (length u)) @ u)] \<and>
     empty_result smb_file_rm_resp s (outcome_of (rx_stream (w_rx w))) r s')"
  using calm_start [OF peer]
  apply (simp add: smb_file_rm_def)
  apply (rule smb_to_utf16_ok, assumption, rule conv, rule conv)
  apply (simp add: u)
  apply (rule smb_message_new_ok, assumption)
  apply (simp add: msg_is_null)
  apply (rule smb_message_set_header_ok, assumption, rule smb_header_fields)
  apply (rule smb_message_set_header_ok, assumption, rule smb_header_fields)
  apply (rule path_tail_ok [OF _ _ _ u(2) peer ready], assumption+)
  using sz apply simp
  apply (simp_all add: simple_resp smb_frame_flags2)
  done

lemma smb_directory_rm_ok:
  assumes ready: "session_ready s" and peer: "peer_ok w" and u: "utf16_of w (path @ [0]) = u" "u \<noteq> []"
    and conv: "iconv_fits w" "conv_small (path @ [0])" and sz: "session_sendable s (36 + length u)"
  shows "wp (smb_directory_rm w s tid path) (\<lambda>(r, s', w').
     w_sent w' = w_sent w @ [smb_frame s ((new_header SMB_CMD_RMDIR (w_pid w))(''tid'' := unat tid))
        (enc_struct smb_directory_rm_req (directory_request (length u)) @ u)] \<and>
     empty_result smb_directory_rm_resp s (outcome_of (rx_stream (w_rx w))) r s')"
  using calm_start [OF peer]
  apply (simp add: smb_directory_rm_def)
  apply (rule smb_to_utf16_ok, assumption, rule conv, rule conv)
  apply (simp add: u)
  apply (rule smb_message_new_ok, assumption)
  apply (simp add: msg_is_null)
  apply (rule smb_message_set_header_ok, assumption, rule smb_header_fields)
  apply (rule path_tail_ok [OF _ _ _ u(2) peer ready], assumption+)
  using sz apply simp
  apply (simp_all add: simple_resp)
  done

lemma smb_directory_create_ok:
  assumes ready: "session_ready s" and peer: "peer_ok w" and u: "utf16_of w (path @ [0]) = u" "u \<noteq> []"
    and conv: "iconv_fits w" "conv_small (path @ [0])" and sz: "session_sendable s (36 + length u)"
  shows "wp (smb_directory_create w s tid path) (\<lambda>(r, s', w').
     w_sent w' = w_sent w @ [smb_frame s ((new_header SMB_CMD_MKDIR (w_pid w))(''tid'' := unat tid))
        (enc_struct smb_directory_mk_req (directory_request (length u)) @ u)] \<and>
     empty_result smb_directory_mk_resp s (outcome_of (rx_stream (w_rx w))) r s')"
  using calm_start [OF peer]
  apply (simp add: smb_directory_create_def)
  apply (rule smb_to_utf16_ok, assumption, rule conv, rule conv)
  apply (simp add: u)
  apply (rule smb_message_new_ok, assumption)
  apply (simp add: msg_is_null)
  apply (rule smb_message_set_header_ok, assumption, rule smb_header_fields)
  apply (rule path_tail_ok [OF _ _ _ u(2) peer ready], assumption+)
  using sz apply simp
  apply (simp_all add: simple_resp)
  done

lemma smb_file_mv_ok:
  assumes ready: "session_ready s" and peer: "peer_ok w" 
    and old: "utf16_of w (old_path @ [0]) = o16" "o16 \<noteq> []" "conv_small (old_path @ [0])"
    and new: "utf16_of w (new_path @ [0]) = n16" "n16 \<noteq> []" "conv_small (new_path @ [0])"
    and conv: "iconv_fits w" and sz: "session_sendable s (40 + length o16 + length n16)"
  shows "wp (smb_file_mv w s tid old_path new_path) (\<lambda>(r, s', w').
     w_sent w' = w_sent w @ [smb_frame s ((new_header SMB_CMD_MOVE (w_pid w))(''tid'' := unat tid))
        (enc_struct smb_file_mv_req (file_mv_request (length o16) (length n16)) @ [4] @ o16 @ [0, 4] @ n16)] \<and>
     empty_result smb_file_mv_resp s (outcome_of (rx_stream (w_rx w))) r s')"
proof -
  have l: "length o16 + length n16 < 2 ^ 30" using sz by (simp add: session_sendable_def)
  show ?thesis
    using calm_start [OF peer]
    apply (simp add: smb_file_mv_def)
    apply (rule smb_to_utf16_ok, assumption, rule conv, rule old)
    apply (simp add: old)
    apply (rule smb_to_utf16_ok, assumption, rule conv, rule new)
    apply (simp add: new)
    apply (rule smb_message_new_ok, assumption)
    apply (simp add: msg_is_null)
    apply (rule smb_message_set_header_ok, assumption, rule smb_header_fields)
    apply (rule smb_message_set_header_ok, assumption, rule smb_header_fields)
    apply (rule smb_msg_put_pkt_ok, assumption+, simp, simp)
    apply (rule smb_message_put8_ok, assumption+, simp, simp)
    apply (rule smb_message_append_text_ok, assumption+, rule old, use l in simp, simp)
    apply (rule smb_message_put8_ok, assumption+, use l in simp, simp)
    apply (rule smb_message_put8_ok, assumption+, use l in simp, simp)
    apply (rule smb_message_append_text_ok, assumption+, rule new, use l in simp, simp)
    apply (rule expect_empty_ok [OF _ _ peer ready], assumption+)
    apply (rule back_subst [of "session_sendable s", OF sz], simp)
    apply (simp_all add: simple_resp smb_frame_flags2)
    done
qed

section \<open>Properties\<close>

definition sample_share_session :: smb_session where
  "sample_share_session = sample_smb\<lparr>shares := [new_share\<lparr>sh_tid := 1, sh_files := [sample_open_file 4]\<rparr>]\<rparr>"

lemma sample_share_session_ok:
  "session_ready sample_share_session" "session_cap sample_share_session = 8192"
  "lookup_file sample_share_session (SMB_FD 1 4) = Some (sample_open_file 4)"
  "smb_session_share_get sample_share_session 1 \<noteq> None" "files_inv sample_share_session"
proof -
  show "session_ready sample_share_session" "session_cap sample_share_session = 8192"
    using sample_smb_ready by (simp_all add: sample_share_session_def session_ready_def uses_link_def session_cap_def)
  have "SMB_FD 1 4 \<noteq> 0" by (simp add: SMB_FD_def)
  then show "lookup_file sample_share_session (SMB_FD 1 4) = Some (sample_open_file 4)"
    by (simp add: lookup_file_eq sample_share_session_def new_share_def sample_open_file_def new_file_def)
  show "smb_session_share_get sample_share_session 1 \<noteq> None"
    by (simp add: smb_session_share_get_def sample_share_session_def new_share_def)
  show "files_inv sample_share_session"
    by (simp add: files_inv_def sample_share_session_def new_share_def sample_open_file_def)
qed

text \<open>
  C2 (write). Writing to an open file sends exactly one frame: a write request for the
  file's id and offset, followed by the first 65471 bytes of the buffer at most, so that
  the SMB message never exceeds the 65535 bytes a frame can hold, and the data starts where
  the request says it does. The call returns the number of bytes the server acknowledges and
  moves the file's offset by it. When the reply is missing or refused it returns -1, and when it
  is short DSM_ERROR_NETWORK, which is -3, where \<^verbatim>\<open>smb_file.h\<close> announces -1 for every error;
  the offset then stays.
\<close>

theorem fwrite_one_frame:
  assumes "session_ready s" and "peer_ok w" and "lookup_file s fd = Some f" and "unat n \<le> length buf"
    and "session_sendable s (64 + min 65471 (unat n))"
  shows "wp (smb_fwrite w s fd (Some buf) n) (\<lambda>(r, s', w').
       w_sent w' = w_sent w @ [write_frame s (w_pid w) f (take (min 65471 (unat n)) buf)] \<and>
       write_result s fd (outcome_of (rx_stream (w_rx w))) r s') \<and>
     length (write_frame s (w_pid w) f (take (min 65471 (unat n)) buf)) \<le> 4 + 65535 \<and>
     drop (4 + write_request f 0 ''data_offset'') (write_frame s (w_pid w) f (take (min 65471 (unat n)) buf))
       = take (min 65471 (unat n)) buf"
proof -
  have "length (write_frame s p f d) = 68 + length d" "drop 68 (write_frame s p f d) = d" for p d
    by (simp_all add: write_frame_def smb_frame_def nbt_frame_def smb_bytes_def)
  moreover have "write_request f 0 ''data_offset'' = 64" by (simp add: write_request_def)
  ultimately show ?thesis
    using smb_fwrite_ok [OF assms] by simp
qed

theorem fwrite_one_frame_witness:
  "wp (smb_fwrite (answer_world (reply_packet smb_write_resp ((\<lambda>_. 0)(''data_len'' := 3)) [])) sample_share_session
       (SMB_FD 1 4) (Some [1, 2, 3]) 3)
     (\<lambda>(r, s', w'). r = 3 \<and> length (w_sent w') = 1 \<and>
       lookup_file s' (SMB_FD 1 4) = Some ((sample_open_file 4)\<lparr>f_offset := 3\<rparr>))"
proof -
  let ?p = "reply_packet smb_write_resp ((\<lambda>_. 0)(''data_len'' := 3)) []"
  have oc: "outcome_of (rx_stream (w_rx (answer_world ?p))) = Reply ?p" by (rule answer_outcome) simp_all
  have "pkt_field smb_write_resp ''data_len'' ?p = 3"
    by (subst reply_packet_field [of _ _ 2]) (simp_all add: smb_write_resp_def)
  then have res: "write_result sample_share_session (SMB_FD 1 4) (Reply ?p) r s' \<Longrightarrow>
     r = 3 \<and> lookup_file s' (SMB_FD 1 4) = Some ((sample_open_file 4)\<lparr>f_offset := 3\<rparr>)" for r s'
    by (auto simp: write_result_def lookup_update_file sample_share_session_ok seek_to_def dsm_consts
        sample_open_file_def new_file_def dest!: lookup_same [where fd = "SMB_FD 1 4"])
  have "wp (smb_fwrite (answer_world ?p) sample_share_session (SMB_FD 1 4) (Some [1, 2, 3]) 3) (\<lambda>(r, s', w').
       w_sent w' = [write_frame sample_share_session (w_pid (answer_world ?p)) (sample_open_file 4) (take 3 [1, 2, 3])] \<and>
       write_result sample_share_session (SMB_FD 1 4) (Reply ?p) r s')"
    using fwrite_one_frame [OF sample_share_session_ok(1) answer_world_ok(1) [of ?p] sample_share_session_ok(3), of 3 "[1, 2, 3]"] oc
    by (simp add: session_sendable_def sample_share_session_ok answer_world_ok)
  then show ?thesis by (rule wp_mono) (auto dest: res)
qed

text \<open>
  C3 (read). Reading from an open file into a buffer that has room for what the server
  returns, which the code does not check, sends one read request for at most 65535 bytes at the
  file's offset, copies
  exactly the data the reply points to into the buffer, and moves the offset by their number;
  a missing, refused or malformed reply leaves buffer and offset alone. The first two return -1,
  a malformed reply DSM_ERROR_NETWORK, which is -3, where \<^verbatim>\<open>smb_file.h\<close> announces -1 for every
  error.
\<close>

theorem fread_delivers:
  assumes "session_ready s" and "peer_ok w" and "lookup_file s fd = Some f" and "session_sendable s 59"
    and "\<And>pkt data. outcome_of (rx_stream (w_rx w)) = Reply pkt \<Longrightarrow> read_data pkt = Some data \<Longrightarrow> length data \<le> length b"
  shows "wp (smb_fread w s fd (Some b) n) (\<lambda>(r, b', s', w'). b' \<noteq> None \<and>
     w_sent w' = w_sent w @ [read_frame s (w_pid w) f n] \<and>
     read_result s fd b (outcome_of (rx_stream (w_rx w))) r (the b') s')"
  by (rule smb_fread_gen [where P = "\<lambda>c. wp c Q" for Q, OF assms(1-4)]) (use assms(5) in fastforce)+

text \<open>The reply to a read: 12 parameter words, the data right behind them.\<close>

definition sample_read_reply :: "byte list \<Rightarrow> byte list" where
  "sample_read_reply data =
     reply_packet smb_read_resp ((\<lambda>_. 0)(''data_len'' := length data, ''data_offset'' := 59)) data"

lemma sample_read_reply_ok:
  assumes "length data < 60000"
  shows "outcome_of (rx_stream (w_rx (answer_world (sample_read_reply data)))) = Reply (sample_read_reply data)"
    and "read_data (sample_read_reply data) = Some data"
proof -
  show "outcome_of (rx_stream (w_rx (answer_world (sample_read_reply data)))) = Reply (sample_read_reply data)"
    unfolding sample_read_reply_def by (rule answer_outcome) (use assms in simp_all)
  have "pkt_field smb_read_resp ''data_len'' (sample_read_reply data) = length data"
    "pkt_field smb_read_resp ''data_offset'' (sample_read_reply data) = 59"
    unfolding sample_read_reply_def
    using assms by (subst reply_packet_field [of _ _ 2]; simp add: smb_read_resp_def)+
  then show "read_data (sample_read_reply data) = Some data"
    by (simp add: read_data_def buf_read_def) (simp add: sample_read_reply_def reply_packet_def)
qed

theorem fread_delivers_witness:
  "wp (smb_fread (answer_world (sample_read_reply [7, 8])) sample_share_session (SMB_FD 1 4) (Some [0, 0, 0]) 3)
     (\<lambda>(r, b', s', w'). r = 2 \<and> b' = Some [7, 8, 0])"
proof -
  note ok = sample_read_reply_ok [of "[7, 8]", simplified]
  have "wp (smb_fread (answer_world (sample_read_reply [7, 8])) sample_share_session (SMB_FD 1 4) (Some [0, 0, 0]) 3)
     (\<lambda>(r, b', s', w'). b' \<noteq> None \<and>
     w_sent w' = w_sent (answer_world (sample_read_reply [7, 8])) @
       [read_frame sample_share_session (w_pid (answer_world (sample_read_reply [7, 8]))) (sample_open_file 4) 3] \<and>
     read_result sample_share_session (SMB_FD 1 4) [0, 0, 0]
       (outcome_of (rx_stream (w_rx (answer_world (sample_read_reply [7, 8]))))) r (the b') s')"
    by (rule fread_delivers [OF sample_share_session_ok(1) answer_world_ok(1) sample_share_session_ok(3)])
      (auto simp: session_sendable_def sample_share_session_ok ok)
  then show ?thesis by (rule wp_mono) (auto simp: read_result_def ok)
qed

text \<open>
  C4 (read overrun). The length of the data in a read reply is checked against the size of
  the reply only, never against the size of the caller's buffer: a server that returns more
  than was asked for makes the copy write past the end of the buffer.
\<close>

theorem fread_overrun:
  assumes "session_ready s" and "peer_ok w" and "lookup_file s fd = Some f" and "session_sendable s 59"
    and "outcome_of (rx_stream (w_rx w)) = Reply pkt" and "read_data pkt = Some data" and "length b < length data"
  shows "smb_fread w s fd (Some b) n = None"
  by (rule smb_fread_gen [where P = "\<lambda>c. c = None", OF assms(1-4)]) (use assms(5-) in \<open>auto simp: read_result_def\<close>)

theorem fread_overrun_witness:
  "smb_fread (answer_world (sample_read_reply [7, 8, 9])) sample_share_session (SMB_FD 1 4) (Some [0, 0]) 2 = None"
  using fread_overrun [OF sample_share_session_ok(1) answer_world_ok(1) sample_share_session_ok(3), of
      "sample_read_reply [7, 8, 9]" "sample_read_reply [7, 8, 9]" "[7, 8, 9]" "[0, 0]" 2]
    sample_read_reply_ok [of "[7, 8, 9]"]
  by (simp add: session_sendable_def sample_share_session_ok)

text \<open>
  C5 (open). Opening a file of a connected share sends one create request with the share's
  tree id and the path in UTF-16, and on a well-formed reply returns the descriptor of a file
  with the ids, dates and sizes of the reply, which that descriptor then finds at offset 0,
  unless it is 0, which stands for no file, or the table has a file with these ids, which is
  then found still; every other file is found as before. Any other outcome returns an error and no descriptor
  and opens nothing.
\<close>

theorem fopen_opens:
  assumes "session_ready s" and "peer_ok w" and "smb_session_share_get s tid \<noteq> None" and "files_inv s"
    and "iconv_fits w" and "conv_small (path @ [0])" and "utf16_of w (path @ [0]) \<noteq> []"
    and "session_sendable s (84 + length (utf16_of w (path @ [0])))"
  shows "wp (smb_fopen w s tid path o_flags) (\<lambda>(r, fd, s', w').
     w_sent w' = w_sent w @ [open_frame s (w_pid w) tid (utf16_of w (path @ [0])) o_flags] \<and>
     open_result s tid (outcome_of (rx_stream (w_rx w))) r fd s' \<and>
     (case fd of
        None \<Rightarrow> r \<noteq> DSM_SUCCESS \<and> shares s' = shares s
      | Some d \<Rightarrow> r = DSM_SUCCESS \<and> (d = 0 \<or> (\<forall>k. lookup_file s' k =
          (if lookup_file s k = None \<and> k = d
           then (case outcome_of (rx_stream (w_rx w)) of Reply pkt \<Rightarrow> Some (pkt_file tid pkt) | _ \<Rightarrow> None)
           else lookup_file s k)))))"
proof (rule wp_mono [OF smb_fopen_ok [OF assms(1-3,5-8), where o_flags = o_flags]], unfold case_prod_beta, elim conjE, intro conjI)
  fix x
  assume res: "open_result s tid (outcome_of (rx_stream (w_rx w))) (fst x) (fst (snd x)) (fst (snd (snd x)))"
  show "case fst (snd x) of
        None \<Rightarrow> fst x \<noteq> DSM_SUCCESS \<and> shares (fst (snd (snd x))) = shares s
      | Some d \<Rightarrow> fst x = DSM_SUCCESS \<and> (d = 0 \<or> (\<forall>k. lookup_file (fst (snd (snd x))) k =
          (if lookup_file s k = None \<and> k = d
           then (case outcome_of (rx_stream (w_rx w)) of Reply pkt \<Rightarrow> Some (pkt_file tid pkt) | _ \<Rightarrow> None)
           else lookup_file s k)))"
    by (rule open_result_lookup [OF assms(3,4) res])
qed

lemma sample_utf16: "utf16_of (answer_world pkt) [97, 0] = [97, 0, 0, 0]" "utf16_of (answer_world pkt) [98, 0] = [98, 0, 0, 0]"
  by (simp_all add: conv_out_def answer_world_def sample_world_def sample_iconv_def)

theorem fopen_opens_witness:
  "wp (smb_fopen (answer_world (reply_packet smb_create_resp ((\<lambda>_. 0)(''fid'' := 9)) [])) sample_share_session 1 [97] 1)
     (\<lambda>(r, fd, s', w'). r = DSM_SUCCESS \<and> fd = Some (SMB_FD 1 9) \<and> length (w_sent w') = 1)"
proof -
  let ?p = "reply_packet smb_create_resp ((\<lambda>_. 0)(''fid'' := 9)) []"
  have oc: "outcome_of (rx_stream (w_rx (answer_world ?p))) = Reply ?p" by (rule answer_outcome) simp_all
  have "pkt_field smb_create_resp ''fid'' ?p = 9"
    by (subst reply_packet_field [of _ _ 2]) (simp_all add: smb_create_resp_def)
  then have key: "file_key (pkt_file 1 ?p) = SMB_FD 1 9" by (simp add: file_key_def) (simp add: pkt_file_def)
  have "conv_small ([97] @ [0])" by (simp add: conv_small_def)
  then show ?thesis
    by (rule wp_mono [OF fopen_opens [OF sample_share_session_ok(1) answer_world_ok(1) sample_share_session_ok(4,5)
        answer_world_ok(5)]])
      (auto simp: sample_utf16 session_sendable_def sample_share_session_ok answer_world_ok(3,4) open_result_def oc key)
qed

text \<open>
  Renaming sends one request whose byte count is exactly the number of bytes
  that follow it, both paths in UTF-16 with their markers, and succeeds exactly when the
  reply is empty.
\<close>

lemma file_mv_request_exact:
  assumes "session_ready s" and "peer_ok w" and "iconv_fits w"
    and "conv_small (old_path @ [0])" and "conv_small (new_path @ [0])"
    and "utf16_of w (old_path @ [0]) = o16" and "o16 \<noteq> []" and "utf16_of w (new_path @ [0]) = n16" and "n16 \<noteq> []"
    and "session_sendable s (40 + length o16 + length n16)"
  shows "wp (smb_file_mv w s tid old_path new_path) (\<lambda>(r, s', w').
     w_sent w' = w_sent w @ [smb_frame s ((new_header SMB_CMD_MOVE (w_pid w))(''tid'' := unat tid))
        (enc_struct smb_file_mv_req (file_mv_request (length o16) (length n16)) @ [4] @ o16 @ [0, 4] @ n16)] \<and>
     empty_result smb_file_mv_resp s (outcome_of (rx_stream (w_rx w))) r s') \<and>
     file_mv_request (length o16) (length n16) ''bct'' = length ([4] @ o16 @ [0, 4] @ n16)"
  using smb_file_mv_ok [OF assms(1,2,6,7,4,8,9,5,3,10)] by (simp add: file_mv_request_def)

text \<open>
  C34 (path requests). Removing a file and removing or creating a directory each send one
  request, with the tree id, the path in UTF-16 and a byte count that covers the format byte
  and the path, and succeed exactly when the server answers with an empty reply.
\<close>

theorem path_requests_exact:
  assumes "session_ready s" and "peer_ok w" and "iconv_fits w" and "conv_small (path @ [0])"
    and "utf16_of w (path @ [0]) = u" and "u \<noteq> []"
    and "session_sendable s (38 + length u)" and "session_sendable s (36 + length u)"
  shows "wp (smb_file_rm w s tid path) (\<lambda>(r, s', w').
       w_sent w' = w_sent w @ [smb_frame s ((new_header SMB_CMD_RMFILE (w_pid w))(''tid'' := unat tid))
          (enc_struct smb_file_rm_req (file_rm_request (length u)) @ u)] \<and>
       empty_result smb_file_rm_resp s (outcome_of (rx_stream (w_rx w))) r s') \<and>
     wp (smb_directory_rm w s tid path) (\<lambda>(r, s', w').
       w_sent w' = w_sent w @ [smb_frame s ((new_header SMB_CMD_RMDIR (w_pid w))(''tid'' := unat tid))
          (enc_struct smb_directory_rm_req (directory_request (length u)) @ u)] \<and>
       empty_result smb_directory_rm_resp s (outcome_of (rx_stream (w_rx w))) r s') \<and>
     wp (smb_directory_create w s tid path) (\<lambda>(r, s', w').
       w_sent w' = w_sent w @ [smb_frame s ((new_header SMB_CMD_MKDIR (w_pid w))(''tid'' := unat tid))
          (enc_struct smb_directory_mk_req (directory_request (length u)) @ u)] \<and>
       empty_result smb_directory_mk_resp s (outcome_of (rx_stream (w_rx w))) r s')"
  using smb_file_rm_ok [OF assms(1,2,5,6,3,4,7)] smb_directory_rm_ok [OF assms(1,2,5,6,3,4,8)]
    smb_directory_create_ok [OF assms(1,2,5,6,3,4,8)] by blast

theorem path_requests_exact_witness:
  "wp (smb_file_rm (answer_world (reply_packet smb_file_rm_resp (\<lambda>_. 0) [])) sample_share_session 1 [97])
     (\<lambda>(r, s', w'). r = DSM_SUCCESS)"
proof -
  let ?p = "reply_packet smb_file_rm_resp (\<lambda>_. 0) []"
  have oc: "outcome_of (rx_stream (w_rx (answer_world ?p))) = Reply ?p" by (rule answer_outcome) simp_all
  have f: "pkt_field smb_file_rm_resp ''wct'' ?p = 0" "pkt_field smb_file_rm_resp ''bct'' ?p = 0"
    by (subst reply_packet_field [of _ _ 1], simp_all add: simple_resp) (subst reply_packet_field [of _ _ 2], simp_all)
  have small: "conv_small ([97] @ [0])" by (simp add: conv_small_def)
  show ?thesis
    by (rule wp_mono [OF path_requests_exact [OF sample_share_session_ok(1) answer_world_ok(1) answer_world_ok(5) small,
          of _ "[97, 0, 0, 0]", THEN conjunct1]])
      (auto simp: sample_utf16 session_sendable_def sample_share_session_ok empty_result_def oc f)
qed

text \<open>
  Closing the first file of a share sends one close request with its file id and
  takes exactly that file out of the share, whatever the server answers.
\<close>

lemma fclose_first:
  assumes "session_ready s" and "peer_ok w" and "fd \<noteq> 0" and "session_sendable s 41"
    and "smb_session_share_get s (SMB_FD_TID fd) = Some sh" and "sh_files sh = f # fs" and "f_fid f = SMB_FD_FID fd"
  shows "wp (smb_fclose w s fd) (\<lambda>(s', w').
     w_sent w' = w_sent w @ [smb_frame s ((new_header SMB_CMD_CLOSE (w_pid w))(''tid'' := unat (SMB_FD_TID fd)))
       (enc_struct smb_close_req (close_request (SMB_FD_FID fd)))] \<and>
     shares s' = update_share (SMB_FD_TID fd) (\<lambda>sh. sh\<lparr>sh_files := fs\<rparr>) (shares s))"
proof -
  let ?s = "s\<lparr>shares := update_share (SMB_FD_TID fd) (\<lambda>sh. sh\<lparr>sh_files := fs\<rparr>) (shares s)\<rparr>"
  have rm: "smb_session_file_remove s fd = Some (Some f, ?s)"
    using assms(3,5-7) by (simp add: smb_session_file_remove_def)
  have rd: "session_ready ?s" "session_sendable ?s 41"
    using assms(1,4) by (simp_all add: session_ready_def uses_link_def session_sendable_def session_cap_def)
  have fr: "smb_frame ?s = smb_frame s" by (intro ext) (simp add: smb_frame_def smb_bytes_def)
  show ?thesis
    using calm_start [OF assms(2)] assms(3)
    apply (simp add: smb_fclose_def rm)
    apply (rule smb_message_new_ok, assumption)
    apply (simp add: msg_is_null)
    apply (rule smb_message_set_header_ok, assumption, rule smb_header_fields)
    apply (rule smb_msg_put_pkt_ok, assumption+, simp, simp)
    apply (rule smb_session_send_msg_ok [OF _ _ assms(2) rd(1)], assumption+)
     apply (simp add: rd)
    apply simp
    apply (rule smb_session_recv_msg_ok, assumption+)
    apply (simp add: fr same_session_simps)
    done
qed

text \<open>
  C33 (close leak). Closing a file that is not the first of its share, when no later file of
  that share has the tree id as its file id, does nothing: no close request is sent, and the
  file stays open on the server and in the table.
\<close>

theorem fclose_leak:
  assumes "fd \<noteq> 0" and "smb_session_share_get s (SMB_FD_TID fd) = Some sh"
    and "sh_files sh = g # fs" and "f_fid g \<noteq> SMB_FD_FID fd" and "SMB_FD_TID fd \<notin> f_fid ` set fs"
  shows "smb_fclose w s fd = Some (s, w)"
proof -
  have "find (\<lambda>f. f_fid f = SMB_FD_TID fd) fs = None" using assms(5) by (force simp: find_None_iff image_iff)
  then have "smb_session_file_remove s fd = Some (None, s)"
    using file_remove_missed [OF assms(1-4)] by auto
  then show ?thesis using assms(1) by (simp add: smb_fclose_def)
qed

theorem fclose_leak_witness:
  "smb_fclose sample_world (sample_smb\<lparr>shares := [new_share\<lparr>sh_tid := 1, sh_files := [sample_open_file 4, sample_open_file 5]\<rparr>]\<rparr>)
     (SMB_FD 1 5) =
   Some (sample_smb\<lparr>shares := [new_share\<lparr>sh_tid := 1, sh_files := [sample_open_file 4, sample_open_file 5]\<rparr>]\<rparr>, sample_world)"
proof -
  have fd: "SMB_FD 1 5 \<noteq> 0" by (simp add: SMB_FD_def)
  show ?thesis
    by (rule fclose_leak [OF fd, where g = "sample_open_file 4" and fs = "[sample_open_file 5]"
          and sh = "new_share\<lparr>sh_tid := 1, sh_files := [sample_open_file 4, sample_open_file 5]\<rparr>"])
      (simp_all add: smb_session_share_get_def new_share_def sample_open_file_def new_file_def)
qed

end
