(* ===== verification/Mdx.thy ===== *)
theory Mdx
  imports Prelude
begin

text \<open>
  \<^verbatim>\<open>contrib/mdx/md4.c\<close> and \<^verbatim>\<open>contrib/mdx/md5.c\<close>, for a host that reads words from
  memory directly; the words are the same on the others, which store them in the member
  \<open>block\<close> first. The two files share everything but the
  function of one block: the context, the loop over blocks, the buffering of partial blocks
  and the padding are defined once, for any block function.

  The reference is the definition of RFC 1320 and RFC 1321: pad the message with a one bit,
  zeros and its length in bits, and run the block function over the result. The incremental
  operations compute it for every way of passing the message in pieces.
\<close>

section \<open>The context\<close>

type_synonym mdx_regs = "u32 \<times> u32 \<times> u32 \<times> u32"

record mdx_ctx =
  ctx_lo :: u32
  ctx_hi :: u32
  ctx_regs :: mdx_regs \<comment> \<open>the members \<open>a\<close> to \<open>d\<close>\<close>
  ctx_buffer :: "byte list"

definition mdx_init :: "mdx_ctx \<Rightarrow> mdx_ctx" where
  "mdx_init ctx = ctx\<lparr>ctx_regs := (0x67452301, 0xefcdab89, 0x98badcfe, 0x10325476), ctx_lo := 0, ctx_hi := 0\<rparr>"

text \<open>
  The loop over the blocks of \<open>data\<close>: the registers and the rest of the data. A read past
  the end of the data is a fault.
\<close>

function mdx_body :: "(mdx_regs \<Rightarrow> byte list \<Rightarrow> mdx_regs) \<Rightarrow> mdx_regs \<Rightarrow> byte list \<Rightarrow> u64 \<Rightarrow> (mdx_regs \<times> byte list) option" where
  "mdx_body blk regs ptr sz =
     (if length ptr < 64 then None
      else (let regs = blk regs (take 64 ptr); ptr = drop 64 ptr; sz = sz - 64
            in if sz = 0 then Some (regs, ptr) else mdx_body blk regs ptr sz))"
  by pat_completeness auto
termination by (relation "measure (\<lambda>(blk, regs, ptr, sz). length ptr)") auto

declare mdx_body.simps [simp del]

text \<open>Completing a partial block, and the whole blocks of the rest, in \<open>MD5_Update\<close>.\<close>

definition mdx_fill :: "(mdx_regs \<Rightarrow> byte list \<Rightarrow> mdx_regs) \<Rightarrow> nat \<Rightarrow> mdx_ctx \<Rightarrow> byte list \<Rightarrow> u64
    \<Rightarrow> (mdx_ctx \<times> byte list \<times> u64) option" where
  "mdx_fill blk used ctx data sz =
     (if used \<noteq> 0 then do {
        let available = 64 - used;
        src \<leftarrow> buf_read data 0 available;
        b \<leftarrow> buf_write (ctx_buffer ctx) used src;
        (regs, _) \<leftarrow> mdx_body blk (ctx_regs ctx) b 64;
        Some (ctx\<lparr>ctx_buffer := b, ctx_regs := regs\<rparr>, drop available data, sz - word_of_nat available)
      } else Some (ctx, data, sz))"

definition mdx_whole :: "(mdx_regs \<Rightarrow> byte list \<Rightarrow> mdx_regs) \<Rightarrow> mdx_ctx \<Rightarrow> byte list \<Rightarrow> u64
    \<Rightarrow> (mdx_ctx \<times> byte list \<times> u64) option" where
  "mdx_whole blk ctx data sz =
     (if 64 \<le> sz then do {
        (regs, data) \<leftarrow> mdx_body blk (ctx_regs ctx) data (sz AND NOT 0x3f);
        Some (ctx\<lparr>ctx_regs := regs\<rparr>, data, sz AND 0x3f)
      } else Some (ctx, data, sz))"

definition mdx_update :: "(mdx_regs \<Rightarrow> byte list \<Rightarrow> mdx_regs) \<Rightarrow> mdx_ctx \<Rightarrow> byte list \<Rightarrow> u64 \<Rightarrow> mdx_ctx option" where
  "mdx_update blk ctx data sz = do {
     let saved_lo = ctx_lo ctx;
     let lo = ucast ((ucast saved_lo + sz) AND 0x1fffffff);
     let hi = (if lo < saved_lo then ctx_hi ctx + 1 else ctx_hi ctx) + ucast (drop_bit 29 sz);
     let ctx = ctx\<lparr>ctx_lo := lo, ctx_hi := hi\<rparr>;
     let used = unat (saved_lo AND 0x3f);
     if used \<noteq> 0 \<and> unat sz < 64 - used then do {
       src \<leftarrow> buf_read data 0 (unat sz);
       b \<leftarrow> buf_write (ctx_buffer ctx) used src;
       Some (ctx\<lparr>ctx_buffer := b\<rparr>)
     } else do {
       (ctx, data, sz) \<leftarrow> mdx_fill blk used ctx data sz;
       (ctx, data, sz) \<leftarrow> mdx_whole blk ctx data sz;
       src \<leftarrow> buf_read data 0 (unat sz);
       b \<leftarrow> buf_write (ctx_buffer ctx) 0 src;
       Some (ctx\<lparr>ctx_buffer := b\<rparr>)
     }
   }"

fun regs_bytes :: "mdx_regs \<Rightarrow> byte list" where
  "regs_bytes (a, b, c, d) = le_bytes 4 a @ le_bytes 4 b @ le_bytes 4 c @ le_bytes 4 d"

text \<open>The 16 bytes of the result; the context is cleared afterwards.\<close>

definition mdx_final :: "(mdx_regs \<Rightarrow> byte list \<Rightarrow> mdx_regs) \<Rightarrow> mdx_ctx \<Rightarrow> byte list option" where
  "mdx_final blk ctx = do {
     let used = unat (ctx_lo ctx AND 0x3f);
     b \<leftarrow> buf_write (ctx_buffer ctx) used [0x80];
     let used = used + 1;
     let available = 64 - used;
     (b, regs, used, available) \<leftarrow>
       (if available < 8 then do {
          b \<leftarrow> buf_write b used (replicate available 0);
          (regs, _) \<leftarrow> mdx_body blk (ctx_regs ctx) b 64;
          Some (b, regs, 0, 64)
        } else Some (b, ctx_regs ctx, used, available));
     b \<leftarrow> buf_write b used (replicate (available - 8) 0);
     b \<leftarrow> buf_write b 56 (le_bytes 4 (push_bit 3 (ctx_lo ctx)));
     b \<leftarrow> buf_write b 60 (le_bytes 4 (ctx_hi ctx));
     (regs, _) \<leftarrow> mdx_body blk regs b 64;
     Some (regs_bytes regs)
   }"

section \<open>The block functions\<close>

definition mdx_word :: "byte list \<Rightarrow> nat \<Rightarrow> u32" where
  "mdx_word ptr n = le_word (take 4 (drop (n * 4) ptr))"

definition mdx_rotate :: "u32 \<Rightarrow> nat \<Rightarrow> u32" where
  "mdx_rotate a s = push_bit s a OR drop_bit (32 - s) (a AND 0xffffffff)"

text \<open>
  On other hosts a word is put together from its bytes and stored in the member \<open>block\<close> of the
  context, from where the later rounds read it. The first round stores all sixteen, in order.
\<close>

definition SET :: "byte list \<Rightarrow> nat \<Rightarrow> u32 list \<Rightarrow> u32 \<times> u32 list" where
  "SET ptr n block =
     (let w = ucast (ptr ! (n * 4)) OR push_bit 8 (ucast (ptr ! (n * 4 + 1))) OR
              push_bit 16 (ucast (ptr ! (n * 4 + 2))) OR push_bit 24 (ucast (ptr ! (n * 4 + 3)))
      in (w, block[n := w]))"

definition GET :: "u32 list \<Rightarrow> nat \<Rightarrow> u32" where
  "GET block n = block ! n"

definition first_round :: "byte list \<Rightarrow> u32 list \<Rightarrow> u32 list" where
  "first_round ptr block = fold (\<lambda>n block. snd (SET ptr n block)) [0..<16] block"

subsection \<open>MD4\<close>

definition md4_F :: "u32 \<Rightarrow> u32 \<Rightarrow> u32 \<Rightarrow> u32" where "md4_F x y z = z XOR (x AND (y XOR z))"
definition md4_G :: "u32 \<Rightarrow> u32 \<Rightarrow> u32 \<Rightarrow> u32" where "md4_G x y z = (x AND (y OR z)) OR (y AND z)"
definition md4_H :: "u32 \<Rightarrow> u32 \<Rightarrow> u32 \<Rightarrow> u32" where "md4_H x y z = x XOR y XOR z"

definition md4_step :: "(u32 \<Rightarrow> u32 \<Rightarrow> u32 \<Rightarrow> u32) \<Rightarrow> u32 \<Rightarrow> u32 \<Rightarrow> u32 \<Rightarrow> u32 \<Rightarrow> u32 \<Rightarrow> nat \<Rightarrow> u32" where
  "md4_step f a b c d x s = mdx_rotate (a + (f b c d + x)) s"

definition md4_round1 :: "byte list \<Rightarrow> mdx_regs \<Rightarrow> mdx_regs" where
  "md4_round1 ptr = (\<lambda>(a, b, c, d).
     let a = md4_step md4_F a b c d (mdx_word ptr 0) 3;
         d = md4_step md4_F d a b c (mdx_word ptr 1) 7;
         c = md4_step md4_F c d a b (mdx_word ptr 2) 11;
         b = md4_step md4_F b c d a (mdx_word ptr 3) 19;
         a = md4_step md4_F a b c d (mdx_word ptr 4) 3;
         d = md4_step md4_F d a b c (mdx_word ptr 5) 7;
         c = md4_step md4_F c d a b (mdx_word ptr 6) 11;
         b = md4_step md4_F b c d a (mdx_word ptr 7) 19;
         a = md4_step md4_F a b c d (mdx_word ptr 8) 3;
         d = md4_step md4_F d a b c (mdx_word ptr 9) 7;
         c = md4_step md4_F c d a b (mdx_word ptr 10) 11;
         b = md4_step md4_F b c d a (mdx_word ptr 11) 19;
         a = md4_step md4_F a b c d (mdx_word ptr 12) 3;
         d = md4_step md4_F d a b c (mdx_word ptr 13) 7;
         c = md4_step md4_F c d a b (mdx_word ptr 14) 11;
         b = md4_step md4_F b c d a (mdx_word ptr 15) 19
     in (a, b, c, d))"

definition md4_round2 :: "byte list \<Rightarrow> mdx_regs \<Rightarrow> mdx_regs" where
  "md4_round2 ptr = (\<lambda>(a, b, c, d).
     let a = md4_step md4_G a b c d (mdx_word ptr 0 + 0x5a827999) 3;
         d = md4_step md4_G d a b c (mdx_word ptr 4 + 0x5a827999) 5;
         c = md4_step md4_G c d a b (mdx_word ptr 8 + 0x5a827999) 9;
         b = md4_step md4_G b c d a (mdx_word ptr 12 + 0x5a827999) 13;
         a = md4_step md4_G a b c d (mdx_word ptr 1 + 0x5a827999) 3;
         d = md4_step md4_G d a b c (mdx_word ptr 5 + 0x5a827999) 5;
         c = md4_step md4_G c d a b (mdx_word ptr 9 + 0x5a827999) 9;
         b = md4_step md4_G b c d a (mdx_word ptr 13 + 0x5a827999) 13;
         a = md4_step md4_G a b c d (mdx_word ptr 2 + 0x5a827999) 3;
         d = md4_step md4_G d a b c (mdx_word ptr 6 + 0x5a827999) 5;
         c = md4_step md4_G c d a b (mdx_word ptr 10 + 0x5a827999) 9;
         b = md4_step md4_G b c d a (mdx_word ptr 14 + 0x5a827999) 13;
         a = md4_step md4_G a b c d (mdx_word ptr 3 + 0x5a827999) 3;
         d = md4_step md4_G d a b c (mdx_word ptr 7 + 0x5a827999) 5;
         c = md4_step md4_G c d a b (mdx_word ptr 11 + 0x5a827999) 9;
         b = md4_step md4_G b c d a (mdx_word ptr 15 + 0x5a827999) 13
     in (a, b, c, d))"

definition md4_round3 :: "byte list \<Rightarrow> mdx_regs \<Rightarrow> mdx_regs" where
  "md4_round3 ptr = (\<lambda>(a, b, c, d).
     let a = md4_step md4_H a b c d (mdx_word ptr 0 + 0x6ed9eba1) 3;
         d = md4_step md4_H d a b c (mdx_word ptr 8 + 0x6ed9eba1) 9;
         c = md4_step md4_H c d a b (mdx_word ptr 4 + 0x6ed9eba1) 11;
         b = md4_step md4_H b c d a (mdx_word ptr 12 + 0x6ed9eba1) 15;
         a = md4_step md4_H a b c d (mdx_word ptr 2 + 0x6ed9eba1) 3;
         d = md4_step md4_H d a b c (mdx_word ptr 10 + 0x6ed9eba1) 9;
         c = md4_step md4_H c d a b (mdx_word ptr 6 + 0x6ed9eba1) 11;
         b = md4_step md4_H b c d a (mdx_word ptr 14 + 0x6ed9eba1) 15;
         a = md4_step md4_H a b c d (mdx_word ptr 1 + 0x6ed9eba1) 3;
         d = md4_step md4_H d a b c (mdx_word ptr 9 + 0x6ed9eba1) 9;
         c = md4_step md4_H c d a b (mdx_word ptr 5 + 0x6ed9eba1) 11;
         b = md4_step md4_H b c d a (mdx_word ptr 13 + 0x6ed9eba1) 15;
         a = md4_step md4_H a b c d (mdx_word ptr 3 + 0x6ed9eba1) 3;
         d = md4_step md4_H d a b c (mdx_word ptr 11 + 0x6ed9eba1) 9;
         c = md4_step md4_H c d a b (mdx_word ptr 7 + 0x6ed9eba1) 11;
         b = md4_step md4_H b c d a (mdx_word ptr 15 + 0x6ed9eba1) 15
     in (a, b, c, d))"

fun mdx_add :: "mdx_regs \<Rightarrow> mdx_regs \<Rightarrow> mdx_regs" where
  "mdx_add (a, b, c, d) (a', b', c', d') = (a + a', b + b', c + c', d + d')"

definition md4_block :: "mdx_regs \<Rightarrow> byte list \<Rightarrow> mdx_regs" where
  "md4_block saved ptr = mdx_add (md4_round3 ptr (md4_round2 ptr (md4_round1 ptr saved))) saved"

definition MD4_body :: "mdx_regs \<Rightarrow> byte list \<Rightarrow> u64 \<Rightarrow> (mdx_regs \<times> byte list) option" where "MD4_body = mdx_body md4_block"
definition MD4_Init :: "mdx_ctx \<Rightarrow> mdx_ctx" where "MD4_Init = mdx_init"
definition MD4_Update :: "mdx_ctx \<Rightarrow> byte list \<Rightarrow> u64 \<Rightarrow> mdx_ctx option" where "MD4_Update = mdx_update md4_block"
definition MD4_Final :: "mdx_ctx \<Rightarrow> byte list option" where "MD4_Final = mdx_final md4_block"

subsection \<open>MD5\<close>

definition md5_F :: "u32 \<Rightarrow> u32 \<Rightarrow> u32 \<Rightarrow> u32" where "md5_F x y z = z XOR (x AND (y XOR z))"
definition md5_G :: "u32 \<Rightarrow> u32 \<Rightarrow> u32 \<Rightarrow> u32" where "md5_G x y z = y XOR (z AND (x XOR y))"
definition md5_H :: "u32 \<Rightarrow> u32 \<Rightarrow> u32 \<Rightarrow> u32" where "md5_H x y z = (x XOR y) XOR z"
definition md5_H2 :: "u32 \<Rightarrow> u32 \<Rightarrow> u32 \<Rightarrow> u32" where "md5_H2 x y z = x XOR (y XOR z)"
definition md5_I :: "u32 \<Rightarrow> u32 \<Rightarrow> u32 \<Rightarrow> u32" where "md5_I x y z = y XOR (x OR NOT z)"

definition md5_step :: "(u32 \<Rightarrow> u32 \<Rightarrow> u32 \<Rightarrow> u32) \<Rightarrow> u32 \<Rightarrow> u32 \<Rightarrow> u32 \<Rightarrow> u32 \<Rightarrow> u32 \<Rightarrow> u32 \<Rightarrow> nat \<Rightarrow> u32" where
  "md5_step f a b c d x t s = mdx_rotate (a + (f b c d + x + t)) s + b"

definition md5_round1 :: "byte list \<Rightarrow> mdx_regs \<Rightarrow> mdx_regs" where
  "md5_round1 ptr = (\<lambda>(a, b, c, d).
     let a = md5_step md5_F a b c d (mdx_word ptr 0) 0xd76aa478 7;
         d = md5_step md5_F d a b c (mdx_word ptr 1) 0xe8c7b756 12;
         c = md5_step md5_F c d a b (mdx_word ptr 2) 0x242070db 17;
         b = md5_step md5_F b c d a (mdx_word ptr 3) 0xc1bdceee 22;
         a = md5_step md5_F a b c d (mdx_word ptr 4) 0xf57c0faf 7;
         d = md5_step md5_F d a b c (mdx_word ptr 5) 0x4787c62a 12;
         c = md5_step md5_F c d a b (mdx_word ptr 6) 0xa8304613 17;
         b = md5_step md5_F b c d a (mdx_word ptr 7) 0xfd469501 22;
         a = md5_step md5_F a b c d (mdx_word ptr 8) 0x698098d8 7;
         d = md5_step md5_F d a b c (mdx_word ptr 9) 0x8b44f7af 12;
         c = md5_step md5_F c d a b (mdx_word ptr 10) 0xffff5bb1 17;
         b = md5_step md5_F b c d a (mdx_word ptr 11) 0x895cd7be 22;
         a = md5_step md5_F a b c d (mdx_word ptr 12) 0x6b901122 7;
         d = md5_step md5_F d a b c (mdx_word ptr 13) 0xfd987193 12;
         c = md5_step md5_F c d a b (mdx_word ptr 14) 0xa679438e 17;
         b = md5_step md5_F b c d a (mdx_word ptr 15) 0x49b40821 22
     in (a, b, c, d))"

definition md5_round2 :: "byte list \<Rightarrow> mdx_regs \<Rightarrow> mdx_regs" where
  "md5_round2 ptr = (\<lambda>(a, b, c, d).
     let a = md5_step md5_G a b c d (mdx_word ptr 1) 0xf61e2562 5;
         d = md5_step md5_G d a b c (mdx_word ptr 6) 0xc040b340 9;
         c = md5_step md5_G c d a b (mdx_word ptr 11) 0x265e5a51 14;
         b = md5_step md5_G b c d a (mdx_word ptr 0) 0xe9b6c7aa 20;
         a = md5_step md5_G a b c d (mdx_word ptr 5) 0xd62f105d 5;
         d = md5_step md5_G d a b c (mdx_word ptr 10) 0x02441453 9;
         c = md5_step md5_G c d a b (mdx_word ptr 15) 0xd8a1e681 14;
         b = md5_step md5_G b c d a (mdx_word ptr 4) 0xe7d3fbc8 20;
         a = md5_step md5_G a b c d (mdx_word ptr 9) 0x21e1cde6 5;
         d = md5_step md5_G d a b c (mdx_word ptr 14) 0xc33707d6 9;
         c = md5_step md5_G c d a b (mdx_word ptr 3) 0xf4d50d87 14;
         b = md5_step md5_G b c d a (mdx_word ptr 8) 0x455a14ed 20;
         a = md5_step md5_G a b c d (mdx_word ptr 13) 0xa9e3e905 5;
         d = md5_step md5_G d a b c (mdx_word ptr 2) 0xfcefa3f8 9;
         c = md5_step md5_G c d a b (mdx_word ptr 7) 0x676f02d9 14;
         b = md5_step md5_G b c d a (mdx_word ptr 12) 0x8d2a4c8a 20
     in (a, b, c, d))"

definition md5_round3 :: "byte list \<Rightarrow> mdx_regs \<Rightarrow> mdx_regs" where
  "md5_round3 ptr = (\<lambda>(a, b, c, d).
     let a = md5_step md5_H a b c d (mdx_word ptr 5) 0xfffa3942 4;
         d = md5_step md5_H2 d a b c (mdx_word ptr 8) 0x8771f681 11;
         c = md5_step md5_H c d a b (mdx_word ptr 11) 0x6d9d6122 16;
         b = md5_step md5_H2 b c d a (mdx_word ptr 14) 0xfde5380c 23;
         a = md5_step md5_H a b c d (mdx_word ptr 1) 0xa4beea44 4;
         d = md5_step md5_H2 d a b c (mdx_word ptr 4) 0x4bdecfa9 11;
         c = md5_step md5_H c d a b (mdx_word ptr 7) 0xf6bb4b60 16;
         b = md5_step md5_H2 b c d a (mdx_word ptr 10) 0xbebfbc70 23;
         a = md5_step md5_H a b c d (mdx_word ptr 13) 0x289b7ec6 4;
         d = md5_step md5_H2 d a b c (mdx_word ptr 0) 0xeaa127fa 11;
         c = md5_step md5_H c d a b (mdx_word ptr 3) 0xd4ef3085 16;
         b = md5_step md5_H2 b c d a (mdx_word ptr 6) 0x04881d05 23;
         a = md5_step md5_H a b c d (mdx_word ptr 9) 0xd9d4d039 4;
         d = md5_step md5_H2 d a b c (mdx_word ptr 12) 0xe6db99e5 11;
         c = md5_step md5_H c d a b (mdx_word ptr 15) 0x1fa27cf8 16;
         b = md5_step md5_H2 b c d a (mdx_word ptr 2) 0xc4ac5665 23
     in (a, b, c, d))"

definition md5_round4 :: "byte list \<Rightarrow> mdx_regs \<Rightarrow> mdx_regs" where
  "md5_round4 ptr = (\<lambda>(a, b, c, d).
     let a = md5_step md5_I a b c d (mdx_word ptr 0) 0xf4292244 6;
         d = md5_step md5_I d a b c (mdx_word ptr 7) 0x432aff97 10;
         c = md5_step md5_I c d a b (mdx_word ptr 14) 0xab9423a7 15;
         b = md5_step md5_I b c d a (mdx_word ptr 5) 0xfc93a039 21;
         a = md5_step md5_I a b c d (mdx_word ptr 12) 0x655b59c3 6;
         d = md5_step md5_I d a b c (mdx_word ptr 3) 0x8f0ccc92 10;
         c = md5_step md5_I c d a b (mdx_word ptr 10) 0xffeff47d 15;
         b = md5_step md5_I b c d a (mdx_word ptr 1) 0x85845dd1 21;
         a = md5_step md5_I a b c d (mdx_word ptr 8) 0x6fa87e4f 6;
         d = md5_step md5_I d a b c (mdx_word ptr 15) 0xfe2ce6e0 10;
         c = md5_step md5_I c d a b (mdx_word ptr 6) 0xa3014314 15;
         b = md5_step md5_I b c d a (mdx_word ptr 13) 0x4e0811a1 21;
         a = md5_step md5_I a b c d (mdx_word ptr 4) 0xf7537e82 6;
         d = md5_step md5_I d a b c (mdx_word ptr 11) 0xbd3af235 10;
         c = md5_step md5_I c d a b (mdx_word ptr 2) 0x2ad7d2bb 15;
         b = md5_step md5_I b c d a (mdx_word ptr 9) 0xeb86d391 21
     in (a, b, c, d))"

definition md5_block :: "mdx_regs \<Rightarrow> byte list \<Rightarrow> mdx_regs" where
  "md5_block saved ptr = mdx_add (md5_round4 ptr (md5_round3 ptr (md5_round2 ptr (md5_round1 ptr saved)))) saved"

definition MD5_Init :: "mdx_ctx \<Rightarrow> mdx_ctx" where "MD5_Init = mdx_init"
definition MD5_Update :: "mdx_ctx \<Rightarrow> byte list \<Rightarrow> u64 \<Rightarrow> mdx_ctx option" where "MD5_Update = mdx_update md5_block"
definition MD5_Final :: "mdx_ctx \<Rightarrow> byte list option" where "MD5_Final = mdx_final md5_block"

section \<open>The words on other hosts\<close>

text \<open>Reading a word from memory directly and putting it together give the same.\<close>

lemma SET_word:
  assumes "n * 4 + 4 \<le> length ptr"
  shows "fst (SET ptr n block) = mdx_word ptr n"
proof -
  have d: "drop i ptr = ptr ! i # drop (Suc i) ptr" if "i < length ptr" for i using that by (simp add: Cons_nth_drop_Suc)
  have "take 4 (drop (n * 4) ptr) = [ptr ! (n * 4), ptr ! (n * 4 + 1), ptr ! (n * 4 + 2), ptr ! (n * 4 + 3)]"
    using assms by (simp add: d eval_nat_numeral)
  then show ?thesis by (simp add: SET_def mdx_word_def Let_def push_bit_or)
qed

lemma GET_word:
  assumes "64 \<le> length ptr" and "length block = 16" and "n < 16"
  shows "GET (first_round ptr block) n = mdx_word ptr n"
proof -
  have "length (fold (\<lambda>n b. snd (SET ptr n b)) [0..<k] block) = 16 \<and>
     (\<forall>i < k. fold (\<lambda>n b. snd (SET ptr n b)) [0..<k] block ! i = mdx_word ptr i)" if "k \<le> 16" for k
    using that
  proof (induction k)
    case (Suc k)
    have "snd (SET ptr k b) = b[k := mdx_word ptr k]" for b
      using SET_word [of k ptr b] Suc.prems assms(1) by (simp add: SET_def Let_def)
    then show ?case using Suc by (auto simp: nth_list_update less_Suc_eq)
  qed (simp add: assms(2))
  from this [of 16] show ?thesis using assms(3) by (simp add: GET_def first_round_def)
qed

section \<open>The reference\<close>

abbreviation mdx_iv :: mdx_regs where
  "mdx_iv \<equiv> (0x67452301, 0xefcdab89, 0x98badcfe, 0x10325476)"

function md_blocks :: "(mdx_regs \<Rightarrow> byte list \<Rightarrow> mdx_regs) \<Rightarrow> mdx_regs \<Rightarrow> byte list \<Rightarrow> mdx_regs" where
  "md_blocks blk regs bs =
     (if length bs < 64 then regs else md_blocks blk (blk regs (take 64 bs)) (drop 64 bs))"
  by pat_completeness auto
termination by (relation "measure (\<lambda>(blk, regs, bs). length bs)") auto

declare md_blocks.simps [simp del]

text \<open>A one bit, zeros up to eight bytes before the end of a block, the length in bits.\<close>

definition mdx_pad :: "nat \<Rightarrow> byte list" where
  "mdx_pad n = 0x80 # replicate ((119 - n mod 64) mod 64) 0 @ le_bytes 8 (word_of_nat (8 * n) :: u64)"

definition mdx_digest :: "(mdx_regs \<Rightarrow> byte list \<Rightarrow> mdx_regs) \<Rightarrow> byte list \<Rightarrow> byte list" where
  "mdx_digest blk m = regs_bytes (md_blocks blk mdx_iv (m @ mdx_pad (length m)))"

lemma md_blocks_short: "length bs < 64 \<Longrightarrow> md_blocks blk r bs = r"
  by (simp add: md_blocks.simps)

lemma md_blocks_one: "length bs = 64 \<Longrightarrow> md_blocks blk r (bs @ cs) = md_blocks blk (blk r bs) cs"
  by (simp add: md_blocks.simps [of blk r "bs @ cs"])

lemma md_blocks_append:
  "64 dvd length xs \<Longrightarrow> md_blocks blk r (xs @ ys) = md_blocks blk (md_blocks blk r xs) ys"
proof (induction blk r xs rule: md_blocks.induct)
  case (1 blk r xs)
  show ?case
  proof (cases "length xs < 64")
    case True
    then have "xs = []" using 1(2) by (auto simp: dvd_def)
    then show ?thesis by (simp add: md_blocks_short)
  next
    case False
    have "64 dvd length (drop 64 xs)" using 1(2) False by (simp add: dvd_diff_nat)
    then show ?thesis
      using 1(1) [OF False] False by (simp add: md_blocks.simps [of blk r "xs @ ys"] md_blocks.simps [of blk r xs])
  qed
qed

lemma mdx_body_blocks:
  assumes "k \<noteq> 0" and "64 * k \<le> length ptr" and "64 * k < 2 ^ 64"
  shows "mdx_body blk r ptr (word_of_nat (64 * k)) = Some (md_blocks blk r (take (64 * k) ptr), drop (64 * k) ptr)"
  using assms
proof (induction k arbitrary: r ptr)
  case 0
  then show ?case by simp
next
  case (Suc k)
  have len: "\<not> length ptr < 64" using Suc.prems by simp
  have sub: "word_of_nat (64 * Suc k) - (64 :: u64) = word_of_nat (64 * k)" by simp
  have z: "word_of_nat (64 * k) = (0 :: u64) \<longleftrightarrow> k = 0"
  proof -
    have "unat (word_of_nat (64 * k) :: u64) = 64 * k" using Suc.prems by (intro unat_u64_of_nat) simp
    then show ?thesis by (auto simp: word_unat_eq_iff)
  qed
  have tk: "take (64 * Suc k) ptr = take 64 ptr @ take (64 * k) (drop 64 ptr)"
    by (metis mult_Suc_right take_add)
  have bl: "md_blocks blk r (take (64 * Suc k) ptr) = md_blocks blk (blk r (take 64 ptr)) (take (64 * k) (drop 64 ptr))"
    unfolding tk using len by (intro md_blocks_one) simp
  show ?case
  proof (cases "k = 0")
    case True
    then show ?thesis
      using len bl by (simp add: mdx_body.simps [of blk r ptr] md_blocks_short)
  next
    case False
    have "mdx_body blk r ptr (word_of_nat (64 * Suc k)) = mdx_body blk (blk r (take 64 ptr)) (drop 64 ptr) (word_of_nat (64 * k))"
      using len False z unfolding mdx_body.simps [of blk r ptr] sub by (simp add: Let_def)
    then show ?thesis
      using Suc.IH [OF False, of "drop 64 ptr" "blk r (take 64 ptr)"] Suc.prems bl by (simp add: add.commute)
  qed
qed

lemma mdx_body_one: "length b = 64 \<Longrightarrow> mdx_body blk r b 64 = Some (blk r b, [])"
  by (simp add: mdx_body.simps)

section \<open>The counter\<close>

lemma unat_and_mask: "unat (w AND mask n) = unat (w :: 'a::len word) mod 2 ^ n"
proof -
  have "w AND mask n = take_bit n w" by (simp add: take_bit_eq_mask)
  then show ?thesis by (simp only: unsigned_take_bit_eq) (simp add: take_bit_eq_mod)
qed

lemma carry_nat:
  assumes "a < B" and "b < (B :: nat)"
  shows "(a + b) mod B < a \<longleftrightarrow> B \<le> a + b" and "(a + b) div B = (if B \<le> a + b then 1 else 0)"
  using assms by (cases "B \<le> a + b"; simp add: le_mod_geq not_le div_nat_eqI)+

lemma mask_values: "(0x1fffffff :: u64) = mask 29" "(0x3f :: u32) = mask 6" "(0x3f :: u64) = mask 6"
  by (simp_all add: mask_eq_exp_minus_1)

lemma mdx_lo:
  "(ucast ((ucast (word_of_nat (x mod 2 ^ 29) :: u32) + sz :: u64) AND 0x1fffffff) :: u32)
     = word_of_nat ((x + unat sz) mod 2 ^ 29)"
proof -
  have x: "unat (word_of_nat (x mod 2 ^ 29) :: u32) = x mod 2 ^ 29"
    by (rule unat_word_of_nat) (simp add: order_less_trans [OF mod_less_divisor])
  have "unat (ucast (word_of_nat (x mod 2 ^ 29) :: u32) :: u64) = x mod 2 ^ 29"
    using x by (simp add: unsigned_ucast_eq take_bit_nat_eq_self order_less_trans [OF mod_less_divisor])
  then have "unat ((ucast (word_of_nat (x mod 2 ^ 29) :: u32) + sz :: u64) AND 0x1fffffff) = (x + unat sz) mod 2 ^ 29"
    unfolding mask_values unat_and_mask unat_word_ariths by (simp add: mod_mod_cancel mod_add_left_eq)
  then show ?thesis
    by (metis of_nat_unat)
qed

lemma mdx_hi:
  assumes "lo' = (word_of_nat ((x + unat sz) mod 2 ^ 29) :: u32)"
  shows "(if lo' < word_of_nat (x mod 2 ^ 29) then word_of_nat (x div 2 ^ 29) + 1 else word_of_nat (x div 2 ^ 29))
     + (ucast (drop_bit 29 (sz :: u64)) :: u32) = word_of_nat ((x + unat sz) div 2 ^ 29)"
proof -
  let ?B = "2 ^ 29 :: nat"
  have u: "unat (word_of_nat (y mod ?B) :: u32) = y mod ?B" for y
    by (rule unat_word_of_nat) (simp add: order_less_trans [OF mod_less_divisor])
  have lt: "lo' < word_of_nat (x mod ?B) \<longleftrightarrow> (x + unat sz) mod ?B < x mod ?B"
    unfolding assms by (simp only: word_less_nat_alt u)
  have b: "x mod ?B < ?B" "unat sz mod ?B < ?B" by simp_all
  have c: "(x + unat sz) mod ?B < x mod ?B \<longleftrightarrow> ?B \<le> x mod ?B + unat sz mod ?B"
    by (simp only: carry_nat(1) [OF b, symmetric] mod_add_eq)
  have d: "(x + unat sz) div ?B = x div ?B + unat sz div ?B + (if ?B \<le> x mod ?B + unat sz mod ?B then 1 else 0)"
    by (simp only: carry_nat(2) [OF b, symmetric] div_add1_eq [of x "unat sz" ?B])
  have s: "(ucast (drop_bit 29 sz) :: u32) = word_of_nat (unat sz div ?B)"
    by (metis of_nat_unat unat_drop_bit_eq drop_bit_eq_div)
  show ?thesis unfolding lt c d s by (simp del: of_nat_unat)
qed

section \<open>The context holds the message read so far\<close>

definition ctx_holds :: "(mdx_regs \<Rightarrow> byte list \<Rightarrow> mdx_regs) \<Rightarrow> byte list \<Rightarrow> mdx_ctx \<Rightarrow> bool" where
  "ctx_holds blk m ctx \<longleftrightarrow> length (ctx_buffer ctx) = 64 \<and>
     ctx_lo ctx = word_of_nat (length m mod 2 ^ 29) \<and> ctx_hi ctx = word_of_nat (length m div 2 ^ 29) \<and>
     ctx_regs ctx = md_blocks blk mdx_iv m \<and>
     take (length m mod 64) (ctx_buffer ctx) = drop (length m - length m mod 64) m"

lemma md_blocks_tail:
  assumes "64 dvd length xs" and "length ys < 64"
  shows "md_blocks blk r (xs @ ys) = md_blocks blk r xs"
  using assms by (simp add: md_blocks_append md_blocks_short)

lemma mdx_used: "unat (word_of_nat (n mod 2 ^ 29) AND (0x3f :: u32)) = n mod 64"
proof -
  have "unat (word_of_nat (n mod 2 ^ 29) :: u32) = n mod 2 ^ 29"
    by (rule unat_word_of_nat) (simp add: order_less_trans [OF mod_less_divisor])
  then show ?thesis unfolding mask_values unat_and_mask by (simp add: mod_mod_cancel)
qed

text \<open>Completing the partial block.\<close>

lemma mdx_fill_ok:
  assumes tail: "length xs = used" "used < 64" "64 dvd length m" and r: "ctx_regs ctx = md_blocks blk mdx_iv m"
    and b: "length (ctx_buffer ctx) = 64" "take used (ctx_buffer ctx) = xs"
    and n: "unat sz \<le> length data" "used \<noteq> 0 \<Longrightarrow> 64 - used \<le> unat sz"
  shows "\<exists>ctx' k sz'. mdx_fill blk used ctx data sz = Some (ctx', drop k data, sz') \<and> k \<le> unat sz \<and> unat sz' = unat sz - k
     \<and> ctx_lo ctx' = ctx_lo ctx \<and> ctx_hi ctx' = ctx_hi ctx \<and> length (ctx_buffer ctx') = 64
     \<and> ctx_regs ctx' = md_blocks blk mdx_iv (m @ xs @ take k data) \<and> 64 dvd length (m @ xs @ take k data)"
proof (cases "used = 0")
  case True
  then show ?thesis using assms by (intro exI [of _ ctx] exI [of _ 0] exI [of _ sz]) (simp add: mdx_fill_def)
next
  case False
  let ?k = "64 - used" and ?blkb = "xs @ take (64 - used) data"
  have k: "?k \<le> length data" "?k \<le> unat sz" using n False by auto
  have w: "buf_write (ctx_buffer ctx) used (take ?k data) = Some ?blkb"
    using k b tail by (simp add: buf_write_def)
  have len: "length ?blkb = 64" using k tail by simp
  have u: "unat (word_of_nat ?k :: u64) = ?k" by (rule unat_u64_of_nat) simp
  have s: "unat (sz - word_of_nat ?k) = unat sz - ?k"
    using k(2) u by (subst unat_sub) (simp_all add: word_le_nat_alt)
  have "md_blocks blk mdx_iv (m @ ?blkb) = blk (md_blocks blk mdx_iv m) ?blkb"
    using tail(3) len md_blocks_one [OF len, of blk "md_blocks blk mdx_iv m" "[]"]
    by (simp add: md_blocks_append md_blocks_short)
  then show ?thesis
    using False w len k s u r tail
    by (intro exI [of _ "ctx\<lparr>ctx_buffer := ?blkb, ctx_regs := blk (ctx_regs ctx) ?blkb\<rparr>"] exI [of _ ?k]
        exI [of _ "sz - word_of_nat ?k"])
      (simp add: mdx_fill_def buf_read_def mdx_body_one Let_def)
qed

text \<open>The whole blocks.\<close>

lemma mdx_whole_ok:
  assumes d: "64 dvd length m" and r: "ctx_regs ctx = md_blocks blk mdx_iv m"
    and n: "unat sz \<le> length data" and b: "length (ctx_buffer ctx) = 64"
  shows "\<exists>ctx' sz'. mdx_whole blk ctx data sz = Some (ctx', drop (unat sz - unat sz mod 64) data, sz')
     \<and> unat sz' = unat sz mod 64 \<and> ctx_lo ctx' = ctx_lo ctx \<and> ctx_hi ctx' = ctx_hi ctx \<and> length (ctx_buffer ctx') = 64
     \<and> ctx_regs ctx' = md_blocks blk mdx_iv (m @ take (unat sz - unat sz mod 64) data)"
proof (cases "64 \<le> unat sz")
  case False
  then show ?thesis
    using r b by (intro exI [of _ ctx] exI [of _ sz]) (simp add: mdx_whole_def word_le_nat_alt)
next
  case True
  let ?k = "unat sz div 64"
  have k: "unat sz - unat sz mod 64 = 64 * ?k" by (simp add: minus_mod_eq_mult_div)
  have "unat (sz AND NOT 0x3f) = 64 * ?k"
  proof -
    have t: "unat (take_bit 6 sz) = unat sz mod 64"
      by (simp only: unsigned_take_bit_eq) (simp add: take_bit_eq_mod)
    have "sz AND NOT (mask 6) = push_bit 6 (drop_bit 6 sz)"
      by (rule bit_word_eqI) (auto simp: bit_simps)
    moreover have "unat (push_bit 6 (drop_bit 6 sz)) + unat (take_bit 6 sz) = unat sz"
    proof -
      have "take_bit 6 sz \<le> sz" by (simp add: word_le_nat_alt t)
      moreover have "push_bit 6 (drop_bit 6 sz) = sz - take_bit 6 sz" using bits_ident [of 6 sz] by (simp add: eq_diff_eq)
      ultimately show ?thesis by (simp add: unat_sub word_le_nat_alt)
    qed
    ultimately show ?thesis
      unfolding mask_values using k t by simp
  qed
  then have e: "sz AND NOT 0x3f = word_of_nat (64 * ?k)" by (metis word_of_nat_unat_self)
  have "unat sz < 2 ^ 64" by (rule order_less_le_trans [OF unsigned_less]) simp
  then have lt: "64 * ?k < 2 ^ 64" using k by linarith
  have "?k \<noteq> 0" "64 * ?k \<le> length data" using True n k by auto
  note body = mdx_body_blocks [OF this lt, of blk "md_blocks blk mdx_iv m"]
  have "unat (sz AND 0x3f) = unat sz mod 64" unfolding mask_values unat_and_mask by simp
  then show ?thesis
    unfolding k using True body e r b d
    by (intro exI [of _ "ctx\<lparr>ctx_regs := md_blocks blk mdx_iv (m @ take (64 * ?k) data)\<rparr>"] exI [of _ "sz AND 0x3f"])
      (simp add: mdx_whole_def word_le_nat_alt md_blocks_append)
qed

text \<open>The message read so far as its whole blocks and the rest.\<close>

lemma ctx_holdsE:
  assumes "ctx_holds blk m ctx"
  obtains M xs where "m = M @ xs" and "64 dvd length M" and "length xs = length m mod 64" and "length xs < 64"
    and "length (ctx_buffer ctx) = 64" and "take (length xs) (ctx_buffer ctx) = xs" and "ctx_regs ctx = md_blocks blk mdx_iv M"
proof -
  let ?q = "length m - length m mod 64"
  have d: "64 dvd length (take ?q m)" by (simp add: minus_mod_eq_mult_div)
  have x: "length (drop ?q m) = length m mod 64" by simp
  have "md_blocks blk mdx_iv (take ?q m @ drop ?q m) = md_blocks blk mdx_iv (take ?q m)"
    by (rule md_blocks_tail [OF d]) (simp add: x)
  then show thesis using assms d x by (intro that [of "take ?q m" "drop ?q m"]) (simp_all add: ctx_holds_def)
qed

lemma ctx_holdsI:
  assumes "64 dvd length M" and "length xs < 64" and "length (ctx_buffer ctx) = 64" and "take (length xs) (ctx_buffer ctx) = xs"
    and "ctx_regs ctx = md_blocks blk mdx_iv M" and "ctx_lo ctx = word_of_nat (length (M @ xs) mod 2 ^ 29)"
    and "ctx_hi ctx = word_of_nat (length (M @ xs) div 2 ^ 29)"
  shows "ctx_holds blk (M @ xs) ctx"
proof -
  have "(length M + length xs) mod 64 = length xs" using assms(1,2) by (simp add: mod_add_left_eq [symmetric])
  then show ?thesis using assms md_blocks_tail [OF assms(1,2), of blk mdx_iv] by (simp add: ctx_holds_def)
qed

text \<open>The counters after an update, and what is left to do.\<close>

definition mdx_counted :: "mdx_ctx \<Rightarrow> nat \<Rightarrow> mdx_ctx" where
  "mdx_counted ctx n = ctx\<lparr>ctx_lo := word_of_nat (n mod 2 ^ 29), ctx_hi := word_of_nat (n div 2 ^ 29)\<rparr>"

lemma mdx_counted_simps [simp]:
  "ctx_lo (mdx_counted ctx n) = word_of_nat (n mod 2 ^ 29)" "ctx_hi (mdx_counted ctx n) = word_of_nat (n div 2 ^ 29)"
  "ctx_regs (mdx_counted ctx n) = ctx_regs ctx" "ctx_buffer (mdx_counted ctx n) = ctx_buffer ctx"
  by (simp_all add: mdx_counted_def)

lemma mdx_update_counts:
  assumes "ctx_holds blk m ctx"
  shows "mdx_update blk ctx data sz =
     (let ctx1 = mdx_counted ctx (length m + unat sz); used = length m mod 64
      in if used \<noteq> 0 \<and> unat sz < 64 - used then do {
       src \<leftarrow> buf_read data 0 (unat sz);
       b \<leftarrow> buf_write (ctx_buffer ctx1) used src;
       Some (ctx1\<lparr>ctx_buffer := b\<rparr>)
     } else do {
       (ctx, data, sz) \<leftarrow> mdx_fill blk used ctx1 data sz;
       (ctx, data, sz) \<leftarrow> mdx_whole blk ctx data sz;
       src \<leftarrow> buf_read data 0 (unat sz);
       b \<leftarrow> buf_write (ctx_buffer ctx) 0 src;
       Some (ctx\<lparr>ctx_buffer := b\<rparr>)
     })"
proof -
  have b: "ctx_lo ctx = word_of_nat (length m mod 2 ^ 29)" "ctx_hi ctx = word_of_nat (length m div 2 ^ 29)"
    using assms by (simp_all add: ctx_holds_def)
  show ?thesis unfolding mdx_update_def b Let_def mdx_used mdx_lo mdx_hi [OF refl] mdx_counted_def by simp
qed

text \<open>The data fit into the partial block; or they complete it, and more blocks after it.\<close>

lemma mdx_update_short:
  assumes h: "ctx_holds blk m ctx" and n: "unat sz \<le> length data" and short: "length m mod 64 \<noteq> 0 \<and> unat sz < 64 - length m mod 64"
  shows "\<exists>ctx'. mdx_update blk ctx data sz = Some ctx' \<and> ctx_holds blk (m @ take (unat sz) data) ctx'"
proof -
  let ?used = "length m mod 64" and ?n = "unat sz"
  let ?b = "take ?used (ctx_buffer ctx) @ take ?n data @ drop (?used + ?n) (ctx_buffer ctx)"
  let ?ctx = "(mdx_counted ctx (length m + ?n))\<lparr>ctx_buffer := ?b\<rparr>"
  obtain M xs where m: "m = M @ xs" "64 dvd length M" "length xs = ?used" "length xs < 64"
    "length (ctx_buffer ctx) = 64" "take (length xs) (ctx_buffer ctx) = xs" "ctx_regs ctx = md_blocks blk mdx_iv M"
    using ctx_holdsE [OF h] by metis
  have fit: "?used + ?n < 64" using short by linarith
  have "mdx_update blk ctx data sz = Some ?ctx"
    unfolding mdx_update_counts [OF h] Let_def using short fit n m(5) by (simp add: buf_read_def buf_write_def)
  moreover have "ctx_holds blk (M @ xs @ take ?n data) ?ctx"
    by (rule ctx_holdsI) (use m fit n in \<open>simp_all add: ac_simps\<close>)
  ultimately show ?thesis using m(1) by simp
qed

lemma mdx_update_long:
  assumes h: "ctx_holds blk m ctx" and n: "unat sz \<le> length data" and long: "\<not> (length m mod 64 \<noteq> 0 \<and> unat sz < 64 - length m mod 64)"
  shows "\<exists>ctx'. mdx_update blk ctx data sz = Some ctx' \<and> ctx_holds blk (m @ take (unat sz) data) ctx'"
proof -
  let ?used = "length m mod 64" and ?n = "unat sz" and ?ctx1 = "mdx_counted ctx (length m + unat sz)"
  obtain M xs where m: "m = M @ xs" "64 dvd length M" "length xs = ?used" "length xs < 64"
    "length (ctx_buffer ctx) = 64" "take (length xs) (ctx_buffer ctx) = xs" "ctx_regs ctx = md_blocks blk mdx_iv M"
    using ctx_holdsE [OF h] by metis
  have c1: "ctx_regs ?ctx1 = md_blocks blk mdx_iv M" "length (ctx_buffer ?ctx1) = 64" "take ?used (ctx_buffer ?ctx1) = xs"
    using m(5-7) by (simp_all flip: m(3))
  have nf: "?used \<noteq> 0 \<Longrightarrow> 64 - ?used \<le> ?n" using long by simp
  obtain ctx2 k sz2 where s1: "mdx_fill blk ?used ?ctx1 data sz = Some (ctx2, drop k data, sz2)" "k \<le> ?n"
    "unat sz2 = ?n - k" "ctx_lo ctx2 = ctx_lo ?ctx1" "ctx_hi ctx2 = ctx_hi ?ctx1" "length (ctx_buffer ctx2) = 64"
    "ctx_regs ctx2 = md_blocks blk mdx_iv (M @ xs @ take k data)" "64 dvd length (M @ xs @ take k data)"
    using mdx_fill_ok [OF m(3) _ m(2) c1 n nf] by auto
  have n2: "unat sz2 \<le> length (drop k data)" using n s1(2,3) by simp
  define j where "j = unat sz2 - unat sz2 mod 64"
  obtain ctx3 sz3 where s2: "mdx_whole blk ctx2 (drop k data) sz2 = Some (ctx3, drop j (drop k data), sz3)"
    "unat sz3 = unat sz2 mod 64" "ctx_lo ctx3 = ctx_lo ctx2" "ctx_hi ctx3 = ctx_hi ctx2" "length (ctx_buffer ctx3) = 64"
    "ctx_regs ctx3 = md_blocks blk mdx_iv ((M @ xs @ take k data) @ take j (drop k data))"
    using mdx_whole_ok [OF s1(8,7) n2 s1(6)] unfolding j_def by blast
  define N where "N = (M @ xs @ take k data) @ take j (drop k data)"
  define ys where "ys = take (unat sz3) (drop j (drop k data))"
  let ?ctx = "ctx3\<lparr>ctx_buffer := ys @ drop (unat sz3) (ctx_buffer ctx3)\<rparr>"
  have lj: "k + j + unat sz3 = ?n" using s1(2,3) s2(2) by (simp add: j_def)
  have ly: "length ys = unat sz3" "unat sz3 < 64" using lj n s2(2) by (simp_all add: ys_def)
  have full: "m @ take ?n data = N @ ys"
    unfolding m(1) ys_def N_def using lj by (metis append.assoc take_add drop_drop add.commute)
  have "length (take j (drop k data)) = j" "64 dvd j" using n2 by (simp_all add: j_def minus_mod_eq_mult_div)
  then have "64 dvd length N" unfolding N_def using s1(8) by (simp only: length_append dvd_add)
  moreover have "length (N @ ys) = length m + ?n" using arg_cong [OF full, of length] n by simp
  moreover have "ctx_regs ctx3 = md_blocks blk mdx_iv N" using s2(6) by (simp only: N_def)
  ultimately have "ctx_holds blk (N @ ys) ?ctx" using s1(4,5) s2(3-5) ly by (intro ctx_holdsI) simp_all
  moreover have "mdx_update blk ctx data sz = Some ?ctx"
    unfolding mdx_update_counts [OF h] Let_def if_not_P [OF long] using s1(1) s2(1,5) lj n ly
    by (simp add: buf_read_def buf_write_def ys_def)
  ultimately show ?thesis using full by simp
qed

lemma mdx_update_ok:
  assumes "ctx_holds blk m ctx" and "unat sz \<le> length data"
  shows "\<exists>ctx'. mdx_update blk ctx data sz = Some ctx' \<and> ctx_holds blk (m @ take (unat sz) data) ctx'"
  using mdx_update_short [OF assms] mdx_update_long [OF assms] by blast

lemma mdx_init_holds: "length (ctx_buffer ctx) = 64 \<Longrightarrow> ctx_holds blk [] (mdx_init ctx)"
  by (simp add: ctx_holds_def mdx_init_def md_blocks_short)

text \<open>The two words of the counter are the length in bits.\<close>

lemma mdx_length_bytes:
  "le_bytes 4 (push_bit 3 (word_of_nat (n mod 2 ^ 29) :: u32)) @ le_bytes 4 (word_of_nat (n div 2 ^ 29) :: u32)
     = le_bytes 8 (word_of_nat (8 * n) :: u64)"
proof (rule nth_equalityI)
  fix i assume "i < length (le_bytes 4 (push_bit 3 (word_of_nat (n mod 2 ^ 29) :: u32)) @ le_bytes 4 (word_of_nat (n div 2 ^ 29) :: u32))"
  then have i: "i < 8" by simp
  have m29: "n mod 2 ^ 29 = take_bit 29 n" and d29: "n div 2 ^ 29 = drop_bit 29 n"
    by (simp_all add: take_bit_eq_mod drop_bit_eq_div)
  have w8: "(word_of_nat (8 * n) :: u64) = push_bit 3 (word_of_nat n)" by (simp add: push_bit_eq_mult)
  show "(le_bytes 4 (push_bit 3 (word_of_nat (n mod 2 ^ 29) :: u32)) @ le_bytes 4 (word_of_nat (n div 2 ^ 29) :: u32)) ! i
     = le_bytes 8 (word_of_nat (8 * n) :: u64) ! i"
  proof (cases "i < 4")
    case True
    have "(ucast (drop_bit (8 * i) (push_bit 3 (word_of_nat (n mod 2 ^ 29) :: u32))) :: byte)
        = ucast (drop_bit (8 * i) (push_bit 3 (word_of_nat n :: u64)))"
      unfolding m29 using True by (intro bit_word_eqI) (auto simp: bit_simps)
    then show ?thesis using i True unfolding w8 by (simp add: nth_append le_bytes_nth)
  next
    case False
    have e: "8 * i + k - 3 = 29 + (8 * (i - 4) + k)" for k using False by simp
    have "(ucast (drop_bit (8 * (i - 4)) (word_of_nat (n div 2 ^ 29) :: u32)) :: byte)
        = ucast (drop_bit (8 * i) (push_bit 3 (word_of_nat n :: u64)))"
      unfolding d29 using i False by (intro bit_word_eqI) (auto simp: bit_simps e)
    then show ?thesis using i False unfolding w8 by (simp add: nth_append le_bytes_nth)
  qed
qed simp

text \<open>The end of the last block: zeros from \<open>k\<close> on, and the length.\<close>

lemma mdx_final_tail:
  assumes "k \<le> 56" and "length c = 64" and "ctx_lo ctx = word_of_nat (n mod 2 ^ 29)" and "ctx_hi ctx = word_of_nat (n div 2 ^ 29)"
  shows "do {
       b \<leftarrow> buf_write c k (replicate (64 - k - 8) 0);
       b \<leftarrow> buf_write b 56 (le_bytes 4 (push_bit 3 (ctx_lo ctx)));
       b \<leftarrow> buf_write b 60 (le_bytes 4 (ctx_hi ctx));
       (regs, _) \<leftarrow> mdx_body blk r b 64;
       Some (regs_bytes regs)
     } = Some (regs_bytes (blk r (take k c @ replicate (56 - k) 0 @ le_bytes 8 (word_of_nat (8 * n) :: u64))))"
proof -
  have "length (le_bytes 4 (push_bit 3 (ctx_lo ctx))) = 4" "length (le_bytes 4 (ctx_hi ctx)) = 4" by simp_all
  then show ?thesis unfolding mdx_length_bytes [symmetric] assms(3,4) using assms(1,2) by (simp add: buf_write_def mdx_body_one)
qed

text \<open>The padding completes the block of the message's tail, or takes one more.\<close>

lemma md_blocks_padded:
  assumes "length xs = n mod 64"
  defines "len8 \<equiv> le_bytes 8 (word_of_nat (8 * n) :: u64)"
  shows "md_blocks blk r (xs @ mdx_pad n) =
     (if length xs \<le> 55 then blk r (xs @ 0x80 # replicate (55 - length xs) 0 @ len8)
      else blk (blk r (xs @ 0x80 # replicate (63 - length xs) 0)) (replicate 56 0 @ len8))"
proof -
  have l8: "length len8 = 8" and u: "length xs < 64" using assms(1) by (simp_all add: len8_def)
  have pad: "mdx_pad n = 0x80 # replicate ((119 - length xs) mod 64) 0 @ len8" by (simp only: mdx_pad_def assms len8_def)
  show ?thesis
  proof (cases "length xs \<le> 55")
    case True
    then have "(119 - length xs) mod 64 = 55 - length xs" by (simp add: le_mod_geq)
    then show ?thesis
      using md_blocks_one [of "xs @ 0x80 # replicate (55 - length xs) 0 @ len8" blk r "[]"] True l8 by (simp add: pad md_blocks_short)
  next
    case False
    let ?b1 = "xs @ 0x80 # replicate (63 - length xs) 0"
    have z: "(119 - length xs) mod 64 = 63 - length xs + 56" using False u by simp
    show ?thesis
      using md_blocks_one [of ?b1 blk r "replicate 56 0 @ len8"]
        md_blocks_one [of "replicate 56 0 @ len8" blk "blk r ?b1" "[]"] False u l8
      unfolding pad z replicate_add by (simp add: md_blocks_short)
  qed
qed

text \<open>The last block, or the last two, are the message's tail with the padding.\<close>

lemma mdx_final_ok:
  assumes h: "ctx_holds blk m ctx"
  shows "mdx_final blk ctx = Some (mdx_digest blk m)"
proof -
  obtain M xs where m: "m = M @ xs" "64 dvd length M" "length xs = length m mod 64" "length xs < 64"
    "length (ctx_buffer ctx) = 64" "take (length xs) (ctx_buffer ctx) = xs" "ctx_regs ctx = md_blocks blk mdx_iv M"
    using ctx_holdsE [OF h] by metis
  have c: "ctx_lo ctx = word_of_nat (length m mod 2 ^ 29)" "ctx_hi ctx = word_of_nat (length m div 2 ^ 29)"
    using h by (simp_all add: ctx_holds_def)
  let ?u = "length xs" and ?c = "xs @ 0x80 # drop (Suc (length xs)) (ctx_buffer ctx)"
  have dig: "mdx_digest blk m = regs_bytes (md_blocks blk (ctx_regs ctx) (xs @ mdx_pad (length m)))"
    unfolding mdx_digest_def m(7) md_blocks_append [OF m(2), symmetric] using m(1) by (metis append.assoc)
  have w: "buf_write (ctx_buffer ctx) ?u [0x80] = Some ?c" using m(4-6) by (simp add: buf_write_def)
  have used: "unat (ctx_lo ctx AND 0x3f) = ?u" unfolding c(1) mdx_used m(3) ..
  note tail = mdx_final_tail [OF _ _ c, of _ _ blk]
  show ?thesis
  proof (cases "?u \<le> 55")
    case True
    then have "\<not> 63 - ?u < 8" by simp
    then show ?thesis
      unfolding mdx_final_def dig used Let_def md_blocks_padded [OF m(3)]
      using True w m(4,5) tail [of "Suc ?u" ?c] by simp
  next
    case False
    let ?b1 = "xs @ 0x80 # replicate (63 - ?u) 0"
    have av: "63 - ?u < 8" using False by simp
    have "buf_write ?c (Suc ?u) (replicate (63 - ?u) 0) = Some ?b1" using m(4,5) by (simp add: buf_write_def)
    then show ?thesis
      unfolding mdx_final_def dig used Let_def md_blocks_padded [OF m(3)]
      using False av w m(4,5) tail [of 0 ?b1] by (simp add: mdx_body_one)
  qed
qed

section \<open>Incremental hashing\<close>

text \<open>What a client of a hash relies on, and what follows for data passed in pieces.\<close>

fun hash_feed :: "('c \<Rightarrow> byte list \<Rightarrow> u64 \<Rightarrow> 'c option) \<Rightarrow> 'c \<Rightarrow> byte list list \<Rightarrow> 'c option" where
  "hash_feed update c [] = Some c"
| "hash_feed update c (d # ds) = do { c \<leftarrow> update c d (word_of_nat (length d)); hash_feed update c ds }"

locale incremental_hash =
  fixes init :: "'c \<Rightarrow> 'c"
    and update :: "'c \<Rightarrow> byte list \<Rightarrow> u64 \<Rightarrow> 'c option"
    and final :: "'c \<Rightarrow> byte list option"
    and fresh :: "'c \<Rightarrow> bool"
    and holds :: "byte list \<Rightarrow> 'c \<Rightarrow> bool"
    and digest :: "byte list \<Rightarrow> byte list"
  assumes init_holds: "fresh c \<Longrightarrow> holds [] (init c)"
    and update_holds: "holds m c \<Longrightarrow> unat n \<le> length d \<Longrightarrow>
      \<exists>c'. update c d n = Some c' \<and> holds (m @ take (unat n) d) c'"
    and final_digest: "holds m c \<Longrightarrow> final c = Some (digest m)"
begin

lemma feed_holds:
  "holds m c \<Longrightarrow> (\<And>d. d \<in> set ds \<Longrightarrow> length d < 2 ^ 64) \<Longrightarrow>
     \<exists>c'. hash_feed update c ds = Some c' \<and> holds (m @ concat ds) c'"
proof (induction ds arbitrary: m c)
  case Nil
  then show ?case by simp
next
  case (Cons d ds)
  have u: "unat (word_of_nat (length d) :: u64) = length d" using Cons.prems(2) by (intro unat_u64_of_nat) simp
  then obtain c' where c': "update c d (word_of_nat (length d)) = Some c'" "holds (m @ d) c'"
    using update_holds [OF Cons.prems(1), of "word_of_nat (length d)" d] by auto
  then show ?case using Cons.IH [OF c'(2)] Cons.prems(2) by auto
qed

lemma feed_digest:
  assumes "fresh c" and "\<And>d. d \<in> set ds \<Longrightarrow> length d < 2 ^ 64"
  shows "(hash_feed update (init c) ds \<bind> final) = Some (digest (concat ds))"
  using feed_holds [OF init_holds [OF assms(1)], of ds] assms(2) final_digest by auto

lemma one_shot:
  assumes "fresh c" and "unat n \<le> length d"
  shows "(update (init c) d n \<bind> final) = Some (digest (take (unat n) d))"
  using update_holds [OF init_holds [OF assms(1)] assms(2)] final_digest by auto

end

abbreviation ctx_fresh :: "mdx_ctx \<Rightarrow> bool" where
  "ctx_fresh ctx \<equiv> length (ctx_buffer ctx) = 64"

interpretation md4_hash: incremental_hash MD4_Init MD4_Update MD4_Final ctx_fresh "ctx_holds md4_block" "mdx_digest md4_block"
  unfolding MD4_Init_def MD4_Update_def MD4_Final_def
  by unfold_locales (auto intro: mdx_init_holds mdx_final_ok dest: mdx_update_ok)

interpretation md5_hash: incremental_hash MD5_Init MD5_Update MD5_Final ctx_fresh "ctx_holds md5_block" "mdx_digest md5_block"
  unfolding MD5_Init_def MD5_Update_def MD5_Final_def
  by unfold_locales (auto intro: mdx_init_holds mdx_final_ok dest: mdx_update_ok)

section \<open>Properties\<close>

text \<open>
  C37 (digests). However a message is cut into pieces, and from a context whose memory holds
  anything, initialising, updating with each piece and finishing computes the digest of RFC
  1320 (MD4) and RFC 1321 (MD5): the block function run over the message padded with a one
  bit, zeros and its length in bits. No call faults, whatever the sizes of the pieces, and
  the two counters carry the length correctly past 512 megabytes.
\<close>

theorem mdx_incremental:
  assumes "ctx_fresh ctx" and "\<forall>d \<in> set ds. length d < 2 ^ 64"
  shows "(hash_feed MD4_Update (MD4_Init ctx) ds \<bind> MD4_Final) = Some (mdx_digest md4_block (concat ds)) \<and>
     (hash_feed MD5_Update (MD5_Init ctx) ds \<bind> MD5_Final) = Some (mdx_digest md5_block (concat ds))"
  using md4_hash.feed_digest [OF assms(1)] md5_hash.feed_digest [OF assms(1)] assms(2) by blast

definition sample_ctx :: mdx_ctx where
  "sample_ctx = \<lparr>ctx_lo = 7, ctx_hi = 7, ctx_regs = (1, 2, 3, 4), ctx_buffer = replicate 64 0xcc\<rparr>"

theorem mdx_incremental_witness:
  "(hash_feed MD5_Update (MD5_Init sample_ctx) [replicate 100 1, [], [2, 3]] \<bind> MD5_Final)
     = Some (mdx_digest md5_block (replicate 100 1 @ [2, 3]))"
proof -
  have f: "ctx_fresh sample_ctx" by (simp add: sample_ctx_def)
  have "\<forall>d \<in> set [replicate 100 1, [], [2, 3] :: byte list]. length d < 2 ^ 64" by simp
  from mdx_incremental [OF f this] show ?thesis by simp
qed

text \<open>
  The boolean functions of the two implementations, rewritten to
  save operations, are those of the RFCs, and their shift-and-or is a rotation.
\<close>

lemma mdx_functions_rfc:
  "md4_F x y z = (x AND y) OR (NOT x AND z) \<and> md4_G x y z = (x AND y) OR (x AND z) OR (y AND z) \<and>
     md4_H x y z = x XOR y XOR z \<and>
     md5_F x y z = (x AND y) OR (NOT x AND z) \<and> md5_G x y z = (x AND z) OR (y AND NOT z) \<and>
     md5_H x y z = x XOR y XOR z \<and> md5_H2 x y z = md5_H x y z \<and> md5_I x y z = y XOR (x OR NOT z) \<and>
     mdx_rotate x (s mod 32) = word_rotl (s mod 32) x"
proof -
  have "mdx_rotate x s = word_rotl s x" if s: "s < 32" for s
  proof (rule bit_word_eqI)
    fix n assume "n < LENGTH(32)"
    then have n: "n < 32" by simp
    have "(n + (32 - s)) mod 32 = (if n < s then 32 + n - s else n - s)"
      using n s by (auto simp: le_mod_geq)
    moreover have "x AND 0xffffffff = x"
    proof -
      have "(0xffffffff :: u32) = - 1" by simp
      then show ?thesis by (simp only: and.right_neutral)
    qed
    ultimately show "bit (mdx_rotate x s) n = bit (word_rotl s x) n"
      using n s by (auto simp: mdx_rotate_def bit_simps dest: bit_imp_le_length)
  qed
  moreover have "md4_F x y z = (x AND y) OR (NOT x AND z)" "md4_G x y z = (x AND y) OR (x AND z) OR (y AND z)"
    "md5_F x y z = (x AND y) OR (NOT x AND z)" "md5_G x y z = (x AND z) OR (y AND NOT z)"
    by (rule bit_word_eqI; auto simp: md4_F_def md4_G_def md5_F_def md5_G_def bit_simps)+
  moreover have "s mod 32 < 32" by simp
  ultimately show ?thesis
    by (simp add: md4_H_def md5_H_def md5_H2_def md5_I_def xor.assoc)
qed

end
