(* ===== verification/Rc4.thy ===== *)
theory Rc4
  imports Prelude "HOL-Library.Multiset"
begin

text \<open>
  \<^verbatim>\<open>contrib/rc4/rc4.c\<close>: the stream cipher that encrypts the exported session key. The
  state is an array of 256 bytes and two indices that are themselves bytes, so that every
  index wraps around and stays in the array.
\<close>

section \<open>State and operations\<close>

record rc4_state =
  perm :: "byte list" \<comment> \<open>the 256 bytes of the array\<close>
  index1 :: byte
  index2 :: byte

definition swap_bytes :: "nat \<Rightarrow> nat \<Rightarrow> byte list \<Rightarrow> byte list" where
  "swap_bytes a b p = p[a := p ! b, b := p ! a]"

text \<open>
  The loop that shuffles the identity permutation, from index \<open>i\<close>: a read of the key outside
  it is a fault.
\<close>

fun rc4_shuffle :: "byte list \<Rightarrow> nat \<Rightarrow> nat list \<Rightarrow> byte \<Rightarrow> byte list \<Rightarrow> byte list option" where
  "rc4_shuffle key keylen [] j p = Some p"
| "rc4_shuffle key keylen (i # is) j p = do {
     k \<leftarrow> rd8 key (i mod keylen);
     let j = j + (p ! i + k);
     rc4_shuffle key keylen is j (swap_bytes i (unat j) p)
   }"

definition rc4_init :: "byte list \<Rightarrow> nat \<Rightarrow> rc4_state option" where
  "rc4_init key keylen = do {
     c_assert (keylen \<noteq> 0); \<comment> \<open>\<^verbatim>\<open>i % keylen\<close>\<close>
     p \<leftarrow> rc4_shuffle key keylen [0..<256] 0 (map word_of_nat [0..<256]);
     Some \<lparr>perm = p, index1 = 0, index2 = 0\<rparr>
   }"

definition rc4_step :: "rc4_state \<Rightarrow> byte \<Rightarrow> byte \<times> rc4_state" where
  "rc4_step st b =
     (let i1 = index1 st + 1;
          i2 = index2 st + perm st ! unat i1;
          p = swap_bytes (unat i1) (unat i2) (perm st);
          j = p ! unat i1 + p ! unat i2
      in (b XOR p ! unat j, st\<lparr>perm := p, index1 := i1, index2 := i2\<rparr>))"

text \<open>The \<^verbatim>\<open>buflen\<close> bytes written to the output buffer for those of the input, and the state.\<close>

fun rc4_crypt :: "rc4_state \<Rightarrow> byte list \<Rightarrow> byte list \<times> rc4_state" where
  "rc4_crypt st [] = ([], st)"
| "rc4_crypt st (b # bs) = (let (c, st) = rc4_step st b; (cs, st) = rc4_crypt st bs in (c # cs, st))"

section \<open>The state is a permutation\<close>

definition rc4_inv :: "rc4_state \<Rightarrow> bool" where
  "rc4_inv st \<longleftrightarrow> mset (perm st) = mset (map word_of_nat [0..<256])"

lemma byte_index: "unat (b :: byte) < 256"
  by (rule order_less_le_trans [OF unsigned_less]) simp

lemma length_swap_bytes [simp]: "length (swap_bytes a b p) = length p"
  by (simp add: swap_bytes_def)

lemma mset_swap_bytes: "a < length p \<Longrightarrow> b < length p \<Longrightarrow> mset (swap_bytes a b p) = mset p"
  by (simp add: swap_bytes_def mset_swap)

lemma rc4_inv_length: "rc4_inv st \<Longrightarrow> length (perm st) = 256"
  using mset_eq_length [of "perm st" "map word_of_nat [0..<256]"] by (simp add: rc4_inv_def del: upt_rec_numeral)

lemma rc4_shuffle_perm:
  assumes "\<forall>i \<in> set is. i < length p" and "length p = 256" and "0 < keylen" and "keylen \<le> length key"
  shows "\<exists>p'. rc4_shuffle key keylen is j p = Some p' \<and> mset p' = mset p"
  using assms(1,2)
proof (induction "is" arbitrary: j p)
  case Nil
  then show ?case by simp
next
  case (Cons i "is")
  have "i mod keylen < length key" using assms(3,4) mod_less_divisor [of keylen i] by linarith
  then have k: "rd8 key (i mod keylen) = Some (key ! (i mod keylen))" by (simp add: rd8_eq)
  let ?j = "j + (p ! i + key ! (i mod keylen))"
  have "mset (swap_bytes i (unat ?j) p) = mset p"
    using Cons.prems byte_index [of ?j] by (intro mset_swap_bytes) auto
  then show ?case
    using k Cons.prems Cons.IH [of "swap_bytes i (unat ?j) p" ?j] by (auto simp: Let_def)
qed

lemma rc4_init_inv:
  assumes "0 < keylen" and "keylen \<le> length key"
  shows "\<exists>st. rc4_init key keylen = Some st \<and> rc4_inv st"
proof -
  let ?id = "map word_of_nat [0..<256] :: byte list"
  have l: "length ?id = 256" by (simp del: upt_rec_numeral)
  then have "\<forall>i \<in> set [0..<256]. i < length ?id" by (simp del: upt_rec_numeral)
  from rc4_shuffle_perm [OF this l assms, of 0]
  obtain p where p: "rc4_shuffle key keylen [0..<256] 0 ?id = Some p" "mset p = mset ?id" by blast
  show ?thesis
    using assms(1) p unfolding rc4_init_def rc4_inv_def by (simp del: upt_rec_numeral)
qed

lemma rc4_step_inv: "rc4_inv st \<Longrightarrow> rc4_inv (snd (rc4_step st b))"
  using rc4_inv_length [of st] mset_swap_bytes [of _ "perm st"]
  by (simp add: rc4_inv_def rc4_step_def Let_def byte_index del: upt_rec_numeral)

section \<open>The keystream\<close>

text \<open>The state after a step does not depend on the byte encrypted.\<close>

lemma rc4_step_xor: "rc4_step st b = (b XOR fst (rc4_step st 0), snd (rc4_step st 0))"
  by (simp add: rc4_step_def Let_def)

lemma rc4_crypt_append:
  "rc4_crypt st (xs @ ys) =
     (let (cs, st') = rc4_crypt st xs; (ds, st'') = rc4_crypt st' ys in (cs @ ds, st''))"
  by (induction xs arbitrary: st) (simp_all add: split_def Let_def)

lemma rc4_crypt_length: "length (fst (rc4_crypt st xs)) = length xs"
  by (induction xs arbitrary: st) (simp_all add: split_def Let_def)

lemma rc4_crypt_twice:
  "rc4_crypt st (fst (rc4_crypt st xs)) = (xs, snd (rc4_crypt st xs))"
proof (induction xs arbitrary: st)
  case Nil
  show ?case by simp
next
  case (Cons x xs)
  have "rc4_step st (x XOR fst (rc4_step st 0)) = (x, snd (rc4_step st 0))"
    by (simp add: rc4_step_xor [of st "x XOR fst (rc4_step st 0)"] xor.assoc)
  then show ?case
    using Cons.IH [of "snd (rc4_step st 0)"] rc4_step_xor [of st x] by (simp add: split_def Let_def)
qed

section \<open>Properties\<close>

text \<open>
  C39 (RC4 invariant). From any non-empty key that is as long as claimed the cipher is set
  up without reading outside the key, and its array is then a permutation of the 256 byte
  values and stays one however much data is encrypted; so every index the cipher uses is
  inside the array, in spite of the unchecked byte arithmetic.
\<close>

theorem rc4_permutation:
  assumes "0 < keylen" and "keylen \<le> length key"
  shows "\<exists>st. rc4_init key keylen = Some st \<and> rc4_inv (snd (rc4_crypt st data))"
proof -
  have "rc4_inv st \<Longrightarrow> rc4_inv (snd (rc4_crypt st data))" for st
    by (induction data arbitrary: st) (simp_all add: split_def Let_def rc4_step_inv)
  then show ?thesis using rc4_init_inv [OF assms] by blast
qed

theorem rc4_permutation_witness:
  "\<exists>st. rc4_init [1, 2, 3] 3 = Some st \<and> rc4_inv (snd (rc4_crypt st [7, 7]))"
  using rc4_permutation [of 3 "[1, 2, 3]" "[7, 7]"] by simp

text \<open>
  Encryption and decryption are the same operation: encrypting twice
  from the same state gives the data back, and data may be passed in pieces of any size.
\<close>

lemma rc4_roundtrip:
  "fst (rc4_crypt st (fst (rc4_crypt st data))) = data \<and>
     fst (rc4_crypt st (xs @ ys)) = fst (rc4_crypt st xs) @ fst (rc4_crypt (snd (rc4_crypt st xs)) ys)"
  by (simp add: rc4_crypt_twice rc4_crypt_append split_def Let_def)

end
