(* ===== verification/Ntlm.thy ===== *)
theory Ntlm
  imports Packets Utils Netbios_Utils Mdx Rc4
begin

text \<open>
  \<^verbatim>\<open>src/hmac_md5.c\<close> and \<^verbatim>\<open>src/smb_ntlm.c\<close>: the keyed hash, the NTLMv2 hashes and
  responses, and the NTLMSSP tokens. Random numbers come from the world, one for each read
  of the system's generator. Local arrays start with the contents of uninitialised memory.
\<close>

section \<open>HMAC\<close>

definition stack_bytes :: "world \<Rightarrow> nat \<Rightarrow> byte list" where
  "stack_bytes w n = map (w_junk w) [0..<n]"

definition stack_ctx :: "world \<Rightarrow> mdx_ctx" where
  "stack_ctx w = \<lparr>ctx_lo = le_word (stack_bytes w 4), ctx_hi = le_word (stack_bytes w 4),
     ctx_regs = (0, 0, 0, 0), ctx_buffer = stack_bytes w 64\<rparr>"

text \<open>\<^verbatim>\<open>memcpy\<close> from a pointer that may be null.\<close>

definition c_bytes :: "byte list option \<Rightarrow> nat \<Rightarrow> byte list option" where
  "c_bytes p n = (case p of None \<Rightarrow> (if n = 0 then Some [] else None) | Some b \<Rightarrow> buf_read b 0 n)"

text \<open>The bytes stored in the output, or null when the concatenation cannot be allocated.\<close>

definition HMAC_MD5 ::
  "world \<Rightarrow> byte list option \<Rightarrow> u64 \<Rightarrow> byte list option \<Rightarrow> u64 \<Rightarrow> (byte list option \<times> world) option" where
  "HMAC_MD5 w key key_len msg msg_len = do {
     c_assert (key \<noteq> None \<and> msg \<noteq> None);
     let key_len = (if 64 < key_len then 64 else key_len);
     k \<leftarrow> c_bytes key (unat key_len);
     key_pad \<leftarrow> buf_write (stack_bytes w 64) 0 k;
     key_pad \<leftarrow> (if key_len < 64 then buf_write key_pad (unat key_len) (replicate (64 - unat key_len) 0)
                  else Some key_pad);
     let o_key_pad = map (\<lambda>b. 0x5c XOR b) key_pad;
     let i_key_pad = map (\<lambda>b. 0x36 XOR b) key_pad;
     let (cat, w) = c_malloc w (msg_len + 64);
     case cat of
       None \<Rightarrow> Some (None, w)
     | Some cat \<Rightarrow> do {
         cat \<leftarrow> buf_write cat 0 i_key_pad;
         m \<leftarrow> c_bytes msg (unat msg_len);
         cat \<leftarrow> buf_write cat 64 m;
         ctx \<leftarrow> MD5_Update (MD5_Init (stack_ctx w)) cat (msg_len + 64);
         digest \<leftarrow> MD5_Final ctx;
         let kcat = o_key_pad @ digest;
         ctx \<leftarrow> MD5_Update (MD5_Init (stack_ctx w)) kcat 80;
         out \<leftarrow> MD5_Final ctx;
         Some (Some out, w)
       }
   }"

section \<open>Random numbers\<close>

definition smb_ntlm_generate_challenge :: "world \<Rightarrow> u64 \<times> world" where
  "smb_ntlm_generate_challenge w =
     (case w_rand w of [] \<Rightarrow> (0, w) | r # rs \<Rightarrow> (r, w\<lparr>w_rand := rs\<rparr>))"

definition smb_ntlm_generate_xkey :: "world \<Rightarrow> byte list \<times> world" where
  "smb_ntlm_generate_xkey w =
     (let (a, w) = smb_ntlm_generate_challenge w; (b, w) = smb_ntlm_generate_challenge w
      in (le_bytes 8 a @ le_bytes 8 b, w))"

section \<open>Hashes\<close>

definition SMB_NTLM_HASH_SIZE :: nat where [dsm_consts]: "SMB_NTLM_HASH_SIZE = 16"

definition smb_ntlm_hash :: "world \<Rightarrow> cstring \<Rightarrow> (byte list \<times> world) option" where
  "smb_ntlm_hash w password = do {
     (sz, ucs2le_pass, w) \<leftarrow> smb_to_utf16 w password;
     ctx \<leftarrow> MD4_Update (MD4_Init (stack_ctx w)) (case ucs2le_pass of None \<Rightarrow> [] | Some b \<Rightarrow> b) (word_of_nat sz);
     hash \<leftarrow> MD4_Final ctx;
     Some (hash, w)
   }"

text \<open>\<open>_upcase\<close>, on the bytes of the array that holds the string.\<close>

definition c_isalpha :: "int \<Rightarrow> bool" where
  "c_isalpha c \<longleftrightarrow> 65 \<le> c \<and> c \<le> 90 \<or> 97 \<le> c \<and> c \<le> 122"

fun upcase :: "byte list \<Rightarrow> byte list option" where
  "upcase [] = None"
| "upcase (c # s) =
     (if c = 0 then Some (c # s)
      else do {
        s \<leftarrow> upcase s;
        Some ((if c_isalpha (sint c) then word_of_int (c_toupper (sint c)) else c) # s)
      })"

definition smb_ntlm2_hash :: "world \<Rightarrow> cstring \<Rightarrow> cstring \<Rightarrow> cstring \<Rightarrow> (byte list \<times> world) option" where
  "smb_ntlm2_hash w user password dest = do {
     (hash_v1, w) \<leftarrow> smb_ntlm_hash w password;
     (user_upper, _) \<leftarrow> strlcpy (stack_bytes w 64) (user @ [0]) 64;
     user_upper \<leftarrow> upcase user_upper;
     n \<leftarrow> c_strlen user_upper;
     (ucs_user_len, ucs_user, w) \<leftarrow> smb_to_utf16 w (take n user_upper);
     (ucs_dest_len, ucs_dest, w) \<leftarrow> smb_to_utf16 w dest;
     a \<leftarrow> c_bytes ucs_user ucs_user_len;
     b \<leftarrow> c_bytes ucs_dest ucs_dest_len;
     (hash, w) \<leftarrow> HMAC_MD5 w (Some hash_v1) 16 (Some (a @ b)) (word_of_nat (ucs_user_len + ucs_dest_len));
     Some (case hash of None \<Rightarrow> stack_bytes w SMB_NTLM_HASH_SIZE | Some h \<Rightarrow> h, w)
   }"

section \<open>Responses\<close>

text \<open>A response is null when memory runs out.\<close>

definition smb_ntlm2_response ::
  "world \<Rightarrow> byte list \<Rightarrow> u64 \<Rightarrow> smb_buffer \<Rightarrow> (byte list option \<times> world) option" where
  "smb_ntlm2_response w hash_v2 srv_challenge blob =
     (let (ok, data, w) = smb_buffer_alloc w (smb_buffer_init None 0) (8 + buf_size blob)
      in if ok = 0 then Some (None, w)
         else do {
           d \<leftarrow> buf_data data;
           d \<leftarrow> buf_write d 0 (le_bytes 8 srv_challenge);
           b \<leftarrow> c_bytes (buf_data blob) (unat (buf_size blob));
           d \<leftarrow> buf_write d 8 b;
           (hmac, w) \<leftarrow> HMAC_MD5 w (Some hash_v2) 16 (Some d) (buf_size data);
           let hmac = (case hmac of None \<Rightarrow> stack_bytes w 16 | Some h \<Rightarrow> h);
           let (response, w) = c_malloc w (buf_size blob + 16);
           case response of
             None \<Rightarrow> Some (None, w)
           | Some r \<Rightarrow> do {
               r \<leftarrow> buf_write r 0 hmac;
               r \<leftarrow> buf_write r 16 b;
               Some (Some r, w)
             }
         })"

definition smb_lm2_response ::
  "world \<Rightarrow> byte list \<Rightarrow> u64 \<Rightarrow> u64 \<Rightarrow> (byte list option \<times> world) option" where
  "smb_lm2_response w hash_v2 srv_challenge user_challenge =
     smb_ntlm2_response w hash_v2 srv_challenge (smb_buffer_init (Some (le_bytes 8 user_challenge)) 8)"

text \<open>The size returned and the blob, null when it cannot be allocated.\<close>

definition smb_ntlm_make_blob ::
  "world \<Rightarrow> u64 \<Rightarrow> u64 \<Rightarrow> smb_buffer \<Rightarrow> (u64 \<times> byte list option \<times> world) option" where
  "smb_ntlm_make_blob w ts user_challenge target =
     (let (blob, w) = c_malloc w (buf_size target + word_of_nat (sizeof smb_ntlm_blob))
      in case blob of
           None \<Rightarrow> Some (0, None, w)
         | Some b \<Rightarrow> do {
             b \<leftarrow> buf_write b 0 (enc_struct smb_ntlm_blob
                ((\<lambda>_. 0)(''header'' := 0x101, ''timestamp'' := unat ts, ''challenge'' := unat user_challenge)));
             t \<leftarrow> c_bytes (buf_data target) (unat (buf_size target));
             b \<leftarrow> buf_write b (sizeof smb_ntlm_blob) t;
             Some (word_of_nat (sizeof smb_ntlm_blob) + buf_size target, Some b, w)
           })"

definition smb_ntlm2_session_key ::
  "world \<Rightarrow> byte list \<Rightarrow> byte list option \<Rightarrow> byte list \<Rightarrow> (byte list \<times> world) option" where
  "smb_ntlm2_session_key w hash_v2 ntlm2 xkey = do {
     (hmac, w) \<leftarrow> HMAC_MD5 w (Some hash_v2) 16 ntlm2 16;
     let hmac_ntlm2 = (case hmac of None \<Rightarrow> stack_bytes w 16 | Some h \<Rightarrow> h);
     rc4 \<leftarrow> rc4_init hmac_ntlm2 16;
     Some (fst (rc4_crypt rc4 xkey), w)
   }"

section \<open>Tokens\<close>

definition SMB_NTLMSSP_CMD_NEGO :: nat where [dsm_consts]: "SMB_NTLMSSP_CMD_NEGO = 1"
definition SMB_NTLMSSP_CMD_AUTH :: nat where [dsm_consts]: "SMB_NTLMSSP_CMD_AUTH = 3"

definition ntlmssp_id :: nat where
  "ntlmssp_id = 0x005053534d4c544e" \<comment> \<open>the bytes of \<^verbatim>\<open>"NTLMSSP"\<close>\<close>

text \<open>The members assigned by \<open>smb_ntlmssp_negotiate\<close>.\<close>

definition ntlmssp_nego_fields :: "nat \<Rightarrow> nat \<Rightarrow> cstruct" where
  "ntlmssp_nego_fields domain_len host_len =
     (\<lambda>_. 0)(''id'' := ntlmssp_id, ''type'' := SMB_NTLMSSP_CMD_NEGO, ''flags'' := 0x60088215,
       ''domain_len'' := domain_len, ''domain_maxlen'' := domain_len, ''domain_offset'' := 32,
       ''host_len'' := host_len, ''host_maxlen'' := host_len, ''host_offset'' := 32 + domain_len)"

definition smb_ntlmssp_negotiate :: "world \<Rightarrow> cstring \<Rightarrow> cstring \<Rightarrow> smb_buffer \<Rightarrow> (smb_buffer \<times> world) option" where
  "smb_ntlmssp_negotiate w host domain token =
     (let sz = sizeof smb_ntlmssp_nego + length host + length domain;
          sz = (if sz mod 2 \<noteq> 0 then sz + 1 else sz);
          token = token\<lparr>buf_size := word_of_nat sz\<rparr>;
          (ok, token, w) = smb_buffer_alloc w token (word_of_nat sz)
      in if ok = 0 then Some (token, w)
         else do {
           d \<leftarrow> buf_data token;
           d \<leftarrow> buf_write d 0 (enc_struct smb_ntlmssp_nego (ntlmssp_nego_fields (length domain) (length host)));
           d \<leftarrow> buf_write d (sizeof smb_ntlmssp_nego) domain;
           d \<leftarrow> buf_write d (sizeof smb_ntlmssp_nego + length domain) domain;
           Some (token\<lparr>buf_data := Some d\<rparr>, w)
         })"

text \<open>\<open>__AUTH_APPEND\<close>: the token and the cursor.\<close>

definition auth_append ::
  "string \<times> string \<times> string \<Rightarrow> byte list option \<Rightarrow> nat \<Rightarrow> byte list \<Rightarrow> nat \<Rightarrow> (byte list \<times> nat) option" where
  "auth_append field value sz token cur = do {
     v \<leftarrow> c_bytes value sz;
     token \<leftarrow> buf_write token (sizeof smb_ntlmssp_auth + cur) v;
     token \<leftarrow> wr_field smb_ntlmssp_auth (fst field) sz token 0;
     token \<leftarrow> wr_field smb_ntlmssp_auth (fst (snd field)) sz token 0;
     token \<leftarrow> wr_field smb_ntlmssp_auth (snd (snd field)) (64 + cur) token 0;
     Some (token, cur + sz)
   }"

text \<open>Appending a name in UTF-16, when it is not empty.\<close>

definition auth_append_name ::
  "world \<Rightarrow> string \<times> string \<times> string \<Rightarrow> cstring \<Rightarrow> byte list \<Rightarrow> nat \<Rightarrow> (byte list \<times> nat \<times> world) option" where
  "auth_append_name w field name token cur =
     (if name \<noteq> [] then do {
        (utf_sz, utf, w) \<leftarrow> smb_to_utf16 w name;
        (token, cur) \<leftarrow> auth_append field utf utf_sz token cur;
        Some (token, cur, w)
      } else Some (token, cur, w))"

definition auth_token_size :: "cstring \<Rightarrow> cstring \<Rightarrow> cstring \<Rightarrow> nat \<Rightarrow> nat" where
  "auth_token_size host domain user blob_size =
     (let sz = sizeof smb_ntlmssp_auth + length host * 2 + length domain * 2 + length user * 2
               + blob_size + 16 + 8 + 16 + 16
      in if sz mod 2 \<noteq> 0 then sz + 1 else sz)"

definition smb_ntlmssp_response ::
  "world \<Rightarrow> u64 \<Rightarrow> u64 \<Rightarrow> cstring \<Rightarrow> cstring \<Rightarrow> cstring \<Rightarrow> cstring \<Rightarrow> smb_buffer \<Rightarrow> smb_buffer
   \<Rightarrow> (smb_buffer \<times> world) option" where
  "smb_ntlmssp_response w srv_challenge srv_ts host domain user password target token = do {
     (hash_v2, w) \<leftarrow> smb_ntlm2_hash w user password domain;
     let (user_challenge, w) = smb_ntlm_generate_challenge w;
     let (xkey, w) = smb_ntlm_generate_xkey w;
     (blob_size, blob, w) \<leftarrow> smb_ntlm_make_blob w srv_ts user_challenge target;
     let (c, w) = smb_ntlm_generate_challenge w;
     (lm2, w) \<leftarrow> smb_lm2_response w hash_v2 srv_challenge c;
     (ntlm2, w) \<leftarrow> smb_ntlm2_response w hash_v2 srv_challenge (smb_buffer_init blob blob_size);
     (xkey_crypt, w) \<leftarrow> smb_ntlm2_session_key w hash_v2 ntlm2 xkey;
     let sz = auth_token_size host domain user (unat blob_size);
     let token = token\<lparr>buf_size := word_of_nat sz\<rparr>;
     let (ok, token, w) = smb_buffer_alloc w token (word_of_nat sz);
     if ok = 0 then Some (token, w)
     else do {
       d \<leftarrow> buf_data token;
       d \<leftarrow> buf_write d 0 (replicate sz 0);
       d \<leftarrow> wr_field smb_ntlmssp_auth ''id'' ntlmssp_id d 0;
       d \<leftarrow> wr_field smb_ntlmssp_auth ''type'' SMB_NTLMSSP_CMD_AUTH d 0;
       d \<leftarrow> wr_field smb_ntlmssp_auth ''flags'' 0x60088215 d 0;
       (d, cur) \<leftarrow>
         (if domain \<noteq> [] \<or> user \<noteq> [] \<or> password \<noteq> [] then do {
            (d, cur) \<leftarrow> auth_append (''lm_len'', ''lm_maxlen'', ''lm_offset'') lm2 24 d 0;
            auth_append (''ntlm_len'', ''ntlm_maxlen'', ''ntlm_offset'') ntlm2 (unat blob_size + 16) d cur
          } else Some (d, 0));
       (d, cur, w) \<leftarrow> auth_append_name w (''domain_len'', ''domain_maxlen'', ''domain_offset'') domain d cur;
       (d, cur, w) \<leftarrow> auth_append_name w (''user_len'', ''user_maxlen'', ''user_offset'') user d cur;
       (d, cur, w) \<leftarrow> auth_append_name w (''host_len'', ''host_maxlen'', ''host_offset'') host d cur;
       (d, cur) \<leftarrow> auth_append (''session_key_len'', ''session_key_maxlen'', ''session_key_offset'') (Some xkey_crypt) 16 d cur;
       Some (token\<lparr>buf_data := Some d\<rparr>, w)
     }
   }"

section \<open>What the hashes compute\<close>

definition md4 :: "byte list \<Rightarrow> byte list" where "md4 = mdx_digest md4_block"
definition md5 :: "byte list \<Rightarrow> byte list" where "md5 = mdx_digest md5_block"

text \<open>The keyed hash of RFC 2104, except that a long key is cut to 64 bytes instead of hashed.\<close>

definition hmac_md5 :: "byte list \<Rightarrow> byte list \<Rightarrow> byte list" where
  "hmac_md5 key m =
     (let kp = take 64 key @ replicate (64 - length key) 0
      in md5 (map (\<lambda>b. 0x5c XOR b) kp @ md5 (map (\<lambda>b. 0x36 XOR b) kp @ m)))"

lemma length_regs_bytes: "length (regs_bytes r) = 16"
  by (cases r) simp

lemma length_digests [simp]: "length (md4 m) = 16" "length (md5 m) = 16" "length (hmac_md5 k m) = 16"
  by (simp_all add: md4_def md5_def hmac_md5_def mdx_digest_def length_regs_bytes Let_def)

lemma length_stack_bytes [simp]: "length (stack_bytes w n) = n"
  by (simp add: stack_bytes_def)

lemma stack_ctx_fresh: "ctx_fresh (stack_ctx w)"
  by (simp add: stack_ctx_def)

lemma md5_run:
  assumes "unat n \<le> length d"
  shows "(do { ctx \<leftarrow> MD5_Update (MD5_Init (stack_ctx w)) d n; h \<leftarrow> MD5_Final ctx; k h })
     = k (md5 (take (unat n) d))"
  using md5_hash.one_shot [OF stack_ctx_fresh assms, of w] by (auto simp: md5_def split: bind_splits)

lemma md4_run:
  assumes "unat n \<le> length d"
  shows "(do { ctx \<leftarrow> MD4_Update (MD4_Init (stack_ctx w)) d n; h \<leftarrow> MD4_Final ctx; k h })
     = k (md4 (take (unat n) d))"
  using md4_hash.one_shot [OF stack_ctx_fresh assms, of w] by (auto simp: md4_def split: bind_splits)

lemma HMAC_MD5_eq:
  assumes kl: "unat key_len \<le> length key" and ml: "unat msg_len \<le> length msg" "unat msg_len < 2 ^ 62"
  shows "HMAC_MD5 w (Some key) key_len (Some msg) msg_len =
     Some (if alloc_ok w (msg_len + 64) then Some (hmac_md5 (take (unat key_len) key) (take (unat msg_len) msg)) else None,
       alloc_tick w)"
proof -
  let ?kl = "min 64 (unat key_len)" and ?K = "take (unat key_len) key" and ?M = "take (unat msg_len) msg"
  define kp where "kp = take 64 ?K @ replicate (64 - length ?K) 0"
  have k1: "unat (if 64 < key_len then 64 else key_len) = ?kl" by (simp add: word_less_nat_alt min_def)
  have k2: "(if 64 < key_len then 64 else key_len) < 64 \<longleftrightarrow> unat key_len < 64"
    by (simp add: word_less_nat_alt)
  have kb: "c_bytes (Some key) ?kl = Some (take ?kl key)" using kl by (simp add: c_bytes_def buf_read_def)
  have pad: "(do { kp1 \<leftarrow> buf_write (stack_bytes w 64) 0 (take ?kl key);
       kp2 \<leftarrow> (if unat key_len < 64 then buf_write kp1 ?kl (replicate (64 - ?kl) 0) else Some kp1); k kp2 }) = k kp" for k
    using kl by (cases "unat key_len < 64") (simp_all add: buf_write_def kp_def min_def)
  have lk: "length kp = 64" using kl by (simp add: kp_def)
  have u: "unat (msg_len + 64) = unat msg_len + 64" using ml(2) by (simp add: unat_word_add_nowrap)
  have run: "(do {
         cat \<leftarrow> buf_write cat 0 (map (\<lambda>b. 0x36 XOR b) kp);
         m \<leftarrow> c_bytes (Some msg) (unat msg_len);
         cat \<leftarrow> buf_write cat 64 m;
         ctx \<leftarrow> MD5_Update (MD5_Init (stack_ctx w')) cat (msg_len + 64);
         digest \<leftarrow> MD5_Final ctx;
         ctx \<leftarrow> MD5_Update (MD5_Init (stack_ctx w')) (map (\<lambda>b. 0x5c XOR b) kp @ digest) 80;
         out \<leftarrow> MD5_Final ctx;
         Some (Some out, w')
       }) = Some (Some (hmac_md5 ?K ?M), w')" if "length cat = unat (msg_len + 64)" for cat w'
  proof -
    let ?i = "map (\<lambda>b. 0x36 XOR b) kp" and ?o = "map (\<lambda>b. 0x5c XOR b) kp"
    have a: "buf_write cat 0 ?i = Some (?i @ drop 64 cat)" using that u lk by (simp add: buf_write_def)
    have b: "c_bytes (Some msg) (unat msg_len) = Some ?M" using ml by (simp add: c_bytes_def buf_read_def)
    have c: "buf_write (?i @ drop 64 cat) 64 ?M = Some (?i @ ?M)" using that u lk ml by (simp add: buf_write_def)
    have d: "unat (msg_len + 64) \<le> length (?i @ ?M)" "take (unat (msg_len + 64)) (?i @ ?M) = ?i @ ?M"
      using u lk ml by simp_all
    have e: "unat (80 :: u64) \<le> length (?o @ md5 (?i @ ?M))" "take (unat (80 :: u64)) (?o @ md5 (?i @ ?M)) = ?o @ md5 (?i @ ?M)"
      using lk by simp_all
    have "hmac_md5 ?K ?M = md5 (?o @ md5 (?i @ ?M))" by (simp only: hmac_md5_def kp_def Let_def)
    then show ?thesis
      by (simp only: a b c bind.bind_lunit md5_run [OF d(1)] d(2) md5_run [OF e(1)] e(2))
  qed
  show ?thesis
    unfolding HMAC_MD5_def Let_def k1 k2 kb bind.bind_lunit pad
    using run [of "map (w_junk w) [0..<unat (msg_len + 64)]" "alloc_tick w"]
    by (simp add: c_malloc_def)
qed

lemma calm_step: "calm w0 w \<Longrightarrow> calm w0 (alloc_tick w)"
  using same_io_trans [OF _ same_io_tick, of w0 w] by (simp add: calm_def)

lemma HMAC_MD5_ok [wp_rules]:
  assumes "calm w0 w" and "unat key_len \<le> length key" and "unat msg_len \<le> length msg" and "unat msg_len < 2 ^ 62"
    and Q: "\<And>w'. calm w0 w' \<Longrightarrow> Q (Some (hmac_md5 (take (unat key_len) key) (take (unat msg_len) msg)), w')"
  shows "wp (HMAC_MD5 w (Some key) key_len (Some msg) msg_len) Q"
proof -
  have "alloc_ok w (msg_len + 64)"
    using assms(1,4) by (intro mem_ok_alloc) (simp_all add: calm_def unat_word_add_nowrap)
  then show ?thesis using assms(1) Q [OF calm_step] by (simp add: HMAC_MD5_eq [OF assms(2-4)])
qed

section \<open>The NTLMv2 hash\<close>

lemma upcase_string: "0 \<notin> set s \<Longrightarrow> upcase (s @ 0 # t) = Some (map byte_upper s @ 0 # t)"
  by (induction s) (auto simp: byte_upper_def c_isalpha_def c_toupper_def)

lemma byte_upper_nonzero: "c \<noteq> 0 \<Longrightarrow> byte_upper c \<noteq> 0"
proof
  assume "c \<noteq> 0" and z: "byte_upper c = 0"
  have "sint (byte_upper c) = c_toupper (sint c)"
    using c_toupper_range [OF sint_byte_range [of c]] by (simp add: byte_upper_def sint_byte_of_int)
  then have "sint c = 0" using z by (auto simp: c_toupper_def split: if_splits)
  then show False using \<open>c \<noteq> 0\<close> by (metis signed_0 signed_word_eqI)
qed

lemma smb_ntlm_hash_ok [wp_rules]:
  assumes "calm w0 w" and "iconv_fits w0" and "conv_small password"
    and Q: "\<And>w'. calm w0 w' \<Longrightarrow> Q (md4 (utf16_of w0 password), w')"
  shows "wp (smb_ntlm_hash w password) Q"
  unfolding smb_ntlm_hash_def wp_bind
proof (rule smb_to_utf16_ok [OF assms(1-3)])
  fix dst :: "byte list option" and w'
  let ?u = "utf16_of w0 password" and ?d = "case dst of None \<Rightarrow> [] | Some b \<Rightarrow> b"
  assume c: "calm w0 w'" and h: "holds_text ?u dst"
  have "length ?u < 2 ^ 64"
    using conv_out_length [OF assms(2), of "w_charset w0" "''UCS-2LE''" password] assms(3) by (simp add: conv_small_def)
  then have n: "unat (word_of_nat (length ?u) :: u64) = length ?u" by (rule unat_u64_of_nat)
  have d: "length ?u \<le> length ?d" "take (length ?u) ?d = ?u"
    using h by (auto simp: holds_text_def split: option.splits)
  then show "wp (case (length ?u, dst, w') of (sz, ucs2le_pass, w) \<Rightarrow> do {
       ctx \<leftarrow> MD4_Update (MD4_Init (stack_ctx w)) (case ucs2le_pass of None \<Rightarrow> [] | Some b \<Rightarrow> b) (word_of_nat sz);
       hash \<leftarrow> MD4_Final ctx;
       Some (hash, w)
     }) Q"
    unfolding prod.case using md4_run [of "word_of_nat (length ?u)" ?d w' "\<lambda>h. Some (h, w')"] n Q [OF c] by simp
qed

definition ntlmv2_hash :: "world \<Rightarrow> cstring \<Rightarrow> cstring \<Rightarrow> cstring \<Rightarrow> byte list" where
  "ntlmv2_hash w user password dest =
     hmac_md5 (md4 (utf16_of w password)) (utf16_of w (map byte_upper (take 63 user)) @ utf16_of w dest)"

lemma c_bytes_text: "holds_text u dst \<Longrightarrow> c_bytes dst (length u) = Some u"
  by (auto simp: holds_text_def c_bytes_def buf_read_def split: option.splits)

lemma smb_ntlm2_hash_ok [wp_rules]:
  assumes c: "calm w0 w" and fits: "iconv_fits w0" and small: "conv_small password" "conv_small dest"
    and user: "0 \<notin> set user"
    and Q: "\<And>w'. calm w0 w' \<Longrightarrow> Q (ntlmv2_hash w0 user password dest, w')"
  shows "wp (smb_ntlm2_hash w user password dest) Q"
proof -
  let ?U = "map byte_upper (take 63 user)"
  have sl: "\<exists>rest. strlcpy (stack_bytes w' 64) (user @ [0]) 64 = Some (take 63 user @ 0 # rest, length user)" for w'
    using strlcpy_result [OF user, of 64 "stack_bytes w' 64" "[]"] by simp
  have u0: "0 \<notin> set (take 63 user)" using user by (meson in_set_takeD)
  have up: "upcase (take 63 user @ 0 # rest) = Some (?U @ 0 # rest)" for rest by (rule upcase_string [OF u0])
  have "0 \<notin> set ?U" by (simp add: image_iff) (metis u0 byte_upper_nonzero)
  then have len: "c_strlen (?U @ 0 # rest) = Some (length ?U)" for rest by (rule c_strlen_append)
  have su: "conv_small ?U" by (simp add: conv_small_def)
  have l: "length (utf16_of w0 s) \<le> 15 * length s" for s by (rule conv_out_length [OF fits])
  have ul: "length (utf16_of w0 ?U) < 2 ^ 61" using l [of ?U] by simp
  have dl: "length (utf16_of w0 dest) < 2 ^ 61" using l [of dest] small(2) by (simp add: conv_small_def)
  have nn: "unat (word_of_nat (length (utf16_of w0 ?U) + length (utf16_of w0 dest)) :: u64)
     = length (utf16_of w0 ?U) + length (utf16_of w0 dest)"
    by (rule unat_u64_of_nat) (use ul dl in simp)
  show ?thesis
    unfolding smb_ntlm2_hash_def wp_bind
  proof (rule smb_ntlm_hash_ok [OF c fits small(1)], unfold prod.case wp_bind)
    fix w1 assume c1: "calm w0 w1"
    obtain rest where r: "strlcpy (stack_bytes w1 64) (user @ [0]) 64 = Some (take 63 user @ 0 # rest, length user)"
      using sl by blast
    have tk: "take (length ?U) (?U @ 0 # rest) = ?U" by (rule append_eq_conv_conj [THEN iffD1, THEN conjunct1, symmetric]) simp
    show "wp (strlcpy (stack_bytes w1 64) (user @ [0]) 64) (\<lambda>x. wp (case x of (user_upper, _) \<Rightarrow> do {
       user_upper \<leftarrow> upcase user_upper;
       n \<leftarrow> c_strlen user_upper;
       (ucs_user_len, ucs_user, w) \<leftarrow> smb_to_utf16 w1 (take n user_upper);
       (ucs_dest_len, ucs_dest, w) \<leftarrow> smb_to_utf16 w dest;
       a \<leftarrow> c_bytes ucs_user ucs_user_len;
       b \<leftarrow> c_bytes ucs_dest ucs_dest_len;
       (hash, w) \<leftarrow> HMAC_MD5 w (Some (md4 (utf16_of w0 password))) 16 (Some (a @ b)) (word_of_nat (ucs_user_len + ucs_dest_len));
       Some (case hash of None \<Rightarrow> stack_bytes w SMB_NTLM_HASH_SIZE | Some h \<Rightarrow> h, w)
     }) Q)"
      apply (simp only: r wp_Some prod.case up bind.bind_lunit len tk wp_bind)
      apply (rule smb_to_utf16_ok [OF c1 fits su])
      apply (simp only: prod.case wp_bind)
      apply (rule smb_to_utf16_ok [OF _ fits small(2)], assumption)
      apply (simp only: prod.case wp_bind c_bytes_text wp_Some)
      apply (rule HMAC_MD5_ok, assumption)
         apply simp
        apply (simp only: nn length_append)
       apply (use ul dl in \<open>simp only: nn\<close>, simp)
      apply (simp only: nn)
      using Q by (simp add: ntlmv2_hash_def)
  qed
qed

section \<open>Responses\<close>

definition ntlmv2_response :: "byte list \<Rightarrow> u64 \<Rightarrow> byte list \<Rightarrow> byte list" where
  "ntlmv2_response hash srv_challenge blob = hmac_md5 hash (le_bytes 8 srv_challenge @ blob) @ blob"

lemma c_malloc_calm:
  assumes "calm w0 w" and "unat n < 2 ^ 63"
  shows "\<exists>b. c_malloc w n = (Some b, alloc_tick w) \<and> length b = unat n"
  using assms mem_ok_alloc [of w n] by (simp add: c_malloc_def calm_def)

lemma smb_ntlm2_response_ok [wp_rules]:
  assumes c: "calm w0 w" and h: "length hash = 16" and b: "buf_data blob = Some b" "length b = unat (buf_size blob)"
    "length b < 2 ^ 60"
    and Q: "\<And>w'. calm w0 w' \<Longrightarrow> Q (Some (ntlmv2_response hash srv_challenge b), w')"
  shows "wp (smb_ntlm2_response w hash srv_challenge blob) Q"
proof -
  have u: "unat (8 + buf_size blob) = 8 + length b" "unat (buf_size blob + 16) = length b + 16"
    using b by (simp_all add: unat_word_add_nowrap)
  obtain d where d: "c_malloc w (8 + buf_size blob) = (Some d, alloc_tick w)" "length d = 8 + length b"
    using c_malloc_calm [OF c, of "8 + buf_size blob"] u b(3) by auto
  have c1: "calm w0 (alloc_tick w)" by (rule calm_step [OF c])
  have w1: "buf_write d 0 (le_bytes 8 srv_challenge) = Some (le_bytes 8 srv_challenge @ drop 8 d)"
    using d(2) by (simp add: buf_write_def)
  have cb: "c_bytes (buf_data blob) (unat (buf_size blob)) = Some b" using b by (simp add: c_bytes_def buf_read_def)
  have w2: "buf_write (le_bytes 8 srv_challenge @ drop 8 d) 8 b = Some (le_bytes 8 srv_challenge @ b)"
    using d(2) by (simp add: buf_write_def)
  have al: "alloc_ok (alloc_tick w) (8 + buf_size blob + 64)"
    using c1 u(1) b(3) by (intro mem_ok_alloc) (simp_all only: calm_def, subst unat_word_add_nowrap, simp_all)
  have hm: "HMAC_MD5 (alloc_tick w) (Some hash) 16 (Some (le_bytes 8 srv_challenge @ b)) (8 + buf_size blob)
     = Some (Some (hmac_md5 hash (le_bytes 8 srv_challenge @ b)), alloc_tick (alloc_tick w))"
    using HMAC_MD5_eq [of 16 hash "8 + buf_size blob" "le_bytes 8 srv_challenge @ b" "alloc_tick w"] h u b(3) al
    by simp
  obtain r where r: "c_malloc (alloc_tick (alloc_tick w)) (buf_size blob + 16) = (Some r, alloc_tick (alloc_tick (alloc_tick w)))"
    "length r = length b + 16"
    using c_malloc_calm [OF calm_step [OF c1], of "buf_size blob + 16"] u b(3) by auto
  have w3: "buf_write r 0 (hmac_md5 hash x) = Some (hmac_md5 hash x @ drop 16 r)"
    "buf_write (hmac_md5 hash x @ drop 16 r) 16 b = Some (hmac_md5 hash x @ b)" for x
    using r(2) by (simp_all add: buf_write_def)
  show ?thesis
    using Q [OF calm_step [OF calm_step [OF c1]]]
    by (simp add: smb_ntlm2_response_def smb_buffer_alloc_def d w1 cb w2 hm r w3 Let_def ntlmv2_response_def smb_buffer_init_def)
qed

lemma smb_lm2_response_ok [wp_rules]:
  assumes "calm w0 w" and "length hash = 16"
    and Q: "\<And>w'. calm w0 w' \<Longrightarrow> Q (Some (ntlmv2_response hash srv_challenge (le_bytes 8 c)), w')"
  shows "wp (smb_lm2_response w hash srv_challenge c) Q"
  unfolding smb_lm2_response_def
  by (rule smb_ntlm2_response_ok [OF assms(1,2), where b = "le_bytes 8 c"]) (simp_all add: smb_buffer_init_def Q)

definition ntlmv2_blob :: "u64 \<Rightarrow> u64 \<Rightarrow> byte list \<Rightarrow> byte list" where
  "ntlmv2_blob ts user_challenge target =
     enc_struct smb_ntlm_blob ((\<lambda>_. 0)(''header'' := 0x101, ''timestamp'' := unat ts, ''challenge'' := unat user_challenge))
     @ target"

lemma smb_ntlm_make_blob_ok [wp_rules]:
  assumes c: "calm w0 w" and tg: "buf_data target = Some tg" "length tg = unat (buf_size target)" "length tg < 2 ^ 59"
    and Q: "\<And>w'. calm w0 w' \<Longrightarrow> Q (word_of_nat (28 + length tg), Some (ntlmv2_blob ts user_challenge tg), w')"
  shows "wp (smb_ntlm_make_blob w ts user_challenge target) Q"
proof -
  have u: "unat (buf_size target + 28) = length tg + 28" using tg by (simp add: unat_word_add_nowrap)
  obtain b where b: "c_malloc w (buf_size target + 28) = (Some b, alloc_tick w)" "length b = length tg + 28"
    using c_malloc_calm [OF c, of "buf_size target + 28"] u tg(3) by auto
  have w1: "buf_write b 0 (enc_struct smb_ntlm_blob s) = Some (enc_struct smb_ntlm_blob s @ drop 28 b)" for s
    using b(2) by (simp add: buf_write_def)
  have w2: "buf_write (enc_struct smb_ntlm_blob s @ drop 28 b) 28 tg = Some (enc_struct smb_ntlm_blob s @ tg)" for s
    using b(2) by (simp add: buf_write_def)
  have cb: "c_bytes (buf_data target) (unat (buf_size target)) = Some tg" using tg by (simp add: c_bytes_def buf_read_def)
  have sz: "28 + buf_size target = word_of_nat (28 + length tg)" using tg(2) by (simp add: word_unat_eq_iff)
  have "Q (28 + buf_size target, Some (ntlmv2_blob ts user_challenge tg), alloc_tick w)"
    using Q [OF calm_step [OF c]] by (simp only: sz)
  then show ?thesis
    by (simp add: smb_ntlm_make_blob_def b w1 w2 cb ntlmv2_blob_def)
qed

text \<open>The exported session key, encrypted.\<close>

definition crypt_key :: "byte list \<Rightarrow> byte list \<Rightarrow> byte list" where
  "crypt_key key x = fst (rc4_crypt (the (rc4_init key 16)) x)"

lemma smb_ntlm2_session_key_ok [wp_rules]:
  assumes "calm w0 w" and "length hash = 16" and "16 \<le> length r"
    and Q: "\<And>w'. calm w0 w' \<Longrightarrow> Q (crypt_key (hmac_md5 hash (take 16 r)) xkey, w')"
  shows "wp (smb_ntlm2_session_key w hash (Some r) xkey) Q"
  unfolding smb_ntlm2_session_key_def wp_bind
proof (rule HMAC_MD5_ok [OF assms(1)])
  fix w' assume c: "calm w0 w'"
  obtain st where "rc4_init (hmac_md5 hash (take 16 r)) 16 = Some st"
    using rc4_init_inv [of 16 "hmac_md5 hash (take 16 r)"] by auto
  then show "wp (case (Some (hmac_md5 (take (unat (16 :: u64)) hash) (take (unat (16 :: u64)) r)), w') of (hmac, w) \<Rightarrow>
     let hmac_ntlm2 = case hmac of None \<Rightarrow> stack_bytes w 16 | Some h \<Rightarrow> h
     in rc4_init hmac_ntlm2 16 \<bind> (\<lambda>rc4. Some (fst (rc4_crypt rc4 xkey), w))) Q"
    using Q [OF c] assms(2) by (simp add: crypt_key_def)
qed (use assms in simp_all)

section \<open>Tokens\<close>

text \<open>The \<open>i\<close>-th random number still to come, and the world after \<open>n\<close> of them.\<close>

definition rnd :: "world \<Rightarrow> nat \<Rightarrow> u64" where
  "rnd w i = (if i < length (w_rand w) then w_rand w ! i else 0)"

abbreviation skip_rand :: "nat \<Rightarrow> world \<Rightarrow> world" where
  "skip_rand n w \<equiv> w\<lparr>w_rand := drop n (w_rand w)\<rparr>"

lemma conv_out_rand [simp]: "conv_out (w\<lparr>w_rand := r\<rparr>) = conv_out w"
  by (intro ext) (simp add: conv_out_def)

lemma iconv_fits_rand [simp]: "iconv_fits (w\<lparr>w_rand := r\<rparr>) = iconv_fits w"
  by (simp add: iconv_fits_def)

lemma generate_challenge_eq:
  assumes "calm (skip_rand n w0) w"
  shows "smb_ntlm_generate_challenge w = (rnd w0 n, w\<lparr>w_rand := drop (Suc n) (w_rand w0)\<rparr>) \<and>
     calm (skip_rand (Suc n) w0) (w\<lparr>w_rand := drop (Suc n) (w_rand w0)\<rparr>)"
proof -
  have io: "same_io (skip_rand n w0) w" and "mem_ok w" using assms by (simp_all add: calm_def)
  have r: "w_rand w = drop n (w_rand w0)" using same_io_fields(3) [OF io] by simp
  have "same_io (skip_rand (Suc n) w0) (w\<lparr>w_rand := drop (Suc n) (w_rand w0)\<rparr>)"
    using io by (cases w; cases w0) (simp add: same_io_def)
  moreover have "smb_ntlm_generate_challenge w = (rnd w0 n, w\<lparr>w_rand := drop (Suc n) (w_rand w0)\<rparr>)"
  proof (cases "n < length (w_rand w0)")
    case True
    then have "drop n (w_rand w0) = w_rand w0 ! n # drop (Suc n) (w_rand w0)" by (simp add: Cons_nth_drop_Suc)
    then show ?thesis using r True by (simp add: smb_ntlm_generate_challenge_def rnd_def)
  next
    case False
    then show ?thesis using r by (simp add: smb_ntlm_generate_challenge_def rnd_def)
  qed
  ultimately show ?thesis using \<open>mem_ok w\<close> by (simp add: calm_def mem_ok_def)
qed

lemma generate_challenge_ok:
  assumes "calm (skip_rand n w0) w"
    and Q: "\<And>w'. calm (skip_rand (Suc n) w0) w' \<Longrightarrow> P (rnd w0 n, w')"
  shows "P (smb_ntlm_generate_challenge w)"
  using generate_challenge_eq [OF assms(1)] Q by auto

lemma generate_xkey_ok:
  assumes "calm (skip_rand n w0) w"
    and Q: "\<And>w'. calm (skip_rand (Suc (Suc n)) w0) w' \<Longrightarrow> P (le_bytes 8 (rnd w0 n) @ le_bytes 8 (rnd w0 (Suc n)), w')"
  shows "P (smb_ntlm_generate_xkey w)"
proof -
  note 1 = generate_challenge_eq [OF assms(1)]
  from generate_challenge_eq [OF conjunct2 [OF 1]] 1 show ?thesis
    using Q by (auto simp: smb_ntlm_generate_xkey_def)
qed

text \<open>The parts of an authentication token: its members, and the data behind them.\<close>

fun auth_put :: "string \<times> string \<times> string \<Rightarrow> byte list \<Rightarrow> cstruct \<times> byte list \<Rightarrow> cstruct \<times> byte list" where
  "auth_put (len, maxlen, off) v (s, c) =
     (s(len := length v, maxlen := length v, off := 64 + length c), c @ v)"

definition auth_is :: "nat \<Rightarrow> cstruct \<times> byte list \<Rightarrow> byte list \<Rightarrow> nat \<Rightarrow> bool" where
  "auth_is sz a d cur \<longleftrightarrow> length (snd a) = cur \<and> 64 + cur \<le> sz \<and>
     d = enc_struct smb_ntlmssp_auth (fst a) @ snd a @ replicate (sz - 64 - cur) 0"

definition auth_field :: "string \<times> string \<times> string \<Rightarrow> bool" where
  "auth_field f \<longleftrightarrow> map_of smb_ntlmssp_auth (fst f) = Some 2 \<and> map_of smb_ntlmssp_auth (fst (snd f)) = Some 2 \<and>
     map_of smb_ntlmssp_auth (snd (snd f)) = Some 4"

lemma auth_append_ok:
  assumes a: "auth_is sz a d cur" and v: "c_bytes value n = Some v" "length v = n" and fit: "64 + cur + n \<le> sz"
    and f: "auth_field f"
    and Q: "\<And>d'. auth_is sz (auth_put f v a) d' (cur + n) \<Longrightarrow> Q (d', cur + n)"
  shows "wp (auth_append f value n d cur) Q"
proof -
  obtain len maxlen off where ff: "f = (len, maxlen, off)" by (cases f)
  obtain s c where aa: "a = (s, c)" by (cases a)
  have dist: "distinct (map fst smb_ntlmssp_auth)" by (simp add: smb_ntlmssp_auth_def)
  have m: "map_of smb_ntlmssp_auth len = Some 2" "map_of smb_ntlmssp_auth maxlen = Some 2" "map_of smb_ntlmssp_auth off = Some 4"
    using f ff by (simp_all add: auth_field_def)
  note wr = wr_field_enc_struct [OF dist m(1)] wr_field_enc_struct [OF dist m(2)] wr_field_enc_struct [OF dist m(3)]
  let ?z = "c @ v @ replicate (sz - 64 - (cur + n)) 0"
  have "buf_write d (64 + cur) v = Some (enc_struct smb_ntlmssp_auth s @ ?z)"
    using a aa v(2) fit by (simp add: auth_is_def buf_write_def)
  moreover have "auth_is sz (auth_put f v a) (enc_struct smb_ntlmssp_auth (s(len := n, maxlen := n, off := 64 + cur)) @ ?z) (cur + n)"
    using a aa ff v(2) fit by (simp add: auth_is_def)
  ultimately show ?thesis
    using v(1) Q by (simp add: auth_append_def ff wr)
qed

lemma auth_append_name_ok:
  assumes c: "calm w0 w" and fits: "iconv_fits w0" and small: "conv_small name"
    and a: "auth_is sz a d cur" and len: "length (utf16_of w0 name) \<le> 2 * length name"
    and fit: "64 + cur + 2 * length name \<le> sz" and f: "auth_field f"
    and Q: "\<And>d' w'. calm w0 w' \<Longrightarrow> auth_is sz (if name = [] then a else auth_put f (utf16_of w0 name) a) d'
        (cur + (if name = [] then 0 else length (utf16_of w0 name))) \<Longrightarrow>
      Q (d', cur + (if name = [] then 0 else length (utf16_of w0 name)), w')"
  shows "wp (auth_append_name w f name d cur) Q"
proof (cases "name = []")
  case True
  then show ?thesis using Q [OF c, of d] a by (simp add: auth_append_name_def)
next
  case False
  show ?thesis
    apply (simp only: auth_append_name_def False not_False_eq_True if_True wp_bind)
    apply (rule smb_to_utf16_ok [OF c fits small])
    apply (simp only: prod.case wp_bind)
    apply (rule auth_append_ok [OF a c_bytes_text refl _ f], assumption)
    using len fit apply simp
    using Q False apply simp
    done
qed

definition auth_names :: "world \<Rightarrow> cstring \<Rightarrow> cstring \<Rightarrow> cstring \<Rightarrow> cstruct \<times> byte list \<Rightarrow> cstruct \<times> byte list" where
  "auth_names w host domain user a =
     (let a = (if domain = [] then a else auth_put (''domain_len'', ''domain_maxlen'', ''domain_offset'') (utf16_of w domain) a);
          a = (if user = [] then a else auth_put (''user_len'', ''user_maxlen'', ''user_offset'') (utf16_of w user) a)
      in if host = [] then a else auth_put (''host_len'', ''host_maxlen'', ''host_offset'') (utf16_of w host) a)"

definition auth_spec ::
  "world \<Rightarrow> u64 \<Rightarrow> u64 \<Rightarrow> cstring \<Rightarrow> cstring \<Rightarrow> cstring \<Rightarrow> cstring \<Rightarrow> byte list \<Rightarrow> cstruct \<times> byte list" where
  "auth_spec w srv_challenge srv_ts host domain user password tg =
     (let h = ntlmv2_hash w user password domain;
          lm2 = ntlmv2_response h srv_challenge (le_bytes 8 (rnd w 3));
          nt2 = ntlmv2_response h srv_challenge (ntlmv2_blob srv_ts (rnd w 0) tg);
          key = crypt_key (hmac_md5 h (take 16 nt2)) (le_bytes 8 (rnd w 1) @ le_bytes 8 (rnd w 2));
          a = ((\<lambda>_. 0)(''id'' := ntlmssp_id, ''type'' := SMB_NTLMSSP_CMD_AUTH, ''flags'' := 0x60088215), []);
          a = (if domain \<noteq> [] \<or> user \<noteq> [] \<or> password \<noteq> []
               then auth_put (''ntlm_len'', ''ntlm_maxlen'', ''ntlm_offset'') nt2
                      (auth_put (''lm_len'', ''lm_maxlen'', ''lm_offset'') lm2 a) else a)
      in auth_put (''session_key_len'', ''session_key_maxlen'', ''session_key_offset'') key (auth_names w host domain user a))"

lemma auth_fields:
  "auth_field (''lm_len'', ''lm_maxlen'', ''lm_offset'')" "auth_field (''ntlm_len'', ''ntlm_maxlen'', ''ntlm_offset'')"
  "auth_field (''domain_len'', ''domain_maxlen'', ''domain_offset'')" "auth_field (''user_len'', ''user_maxlen'', ''user_offset'')"
  "auth_field (''host_len'', ''host_maxlen'', ''host_offset'')"
  "auth_field (''session_key_len'', ''session_key_maxlen'', ''session_key_offset'')"
  by (simp_all add: auth_field_def smb_ntlmssp_auth_def)

lemma auth_names_ok:
  assumes c: "calm w0 w" and fits: "iconv_fits w0" and small: "conv_small host" "conv_small domain" "conv_small user"
    and len: "\<And>s. s \<in> {host, domain, user} \<Longrightarrow> length (utf16_of w0 s) \<le> 2 * length s"
    and a: "auth_is sz a d cur" and fit: "64 + cur + 2 * (length host + length domain + length user) + 16 \<le> sz"
    and key: "length key = 16"
    and Q: "\<And>d' cur' w'. calm w0 w' \<Longrightarrow>
      auth_is sz (auth_put (''session_key_len'', ''session_key_maxlen'', ''session_key_offset'') key (auth_names w0 host domain user a)) d' cur' \<Longrightarrow>
      Q (token\<lparr>buf_data := Some d'\<rparr>, w')"
  shows "wp (do {
       (d, cur, w) \<leftarrow> auth_append_name w (''domain_len'', ''domain_maxlen'', ''domain_offset'') domain d cur;
       (d, cur, w) \<leftarrow> auth_append_name w (''user_len'', ''user_maxlen'', ''user_offset'') user d cur;
       (d, cur, w) \<leftarrow> auth_append_name w (''host_len'', ''host_maxlen'', ''host_offset'') host d cur;
       (d, cur) \<leftarrow> auth_append (''session_key_len'', ''session_key_maxlen'', ''session_key_offset'') (Some key) 16 d cur;
       Some (token\<lparr>buf_data := Some d\<rparr>, w)
     }) Q"
proof -
  have ck: "c_bytes (Some key) 16 = Some key" using key by (simp add: c_bytes_def buf_read_def)
  have ld: "length (utf16_of w0 domain) \<le> 2 * length domain" and lu: "length (utf16_of w0 user) \<le> 2 * length user"
    and lh: "length (utf16_of w0 host) \<le> 2 * length host" using len by simp_all
  show ?thesis
    apply (simp only: wp_bind)
    apply (rule auth_append_name_ok [OF c fits small(2) a ld _ auth_fields(3)])
    using fit apply simp
    apply (simp only: prod.case wp_bind)
    apply (rule auth_append_name_ok [OF _ fits small(3) _ lu _ auth_fields(4)], assumption+)
    using fit ld apply simp
    apply (simp only: prod.case wp_bind)
    apply (rule auth_append_name_ok [OF _ fits small(1) _ lh _ auth_fields(5)], assumption+)
    using fit ld lu apply simp
    apply (simp only: prod.case wp_bind)
    apply (rule auth_append_ok [OF _ ck key _ auth_fields(6)], assumption)
    using fit ld lu lh apply simp
    apply (simp only: prod.case wp_Some)
    apply (rule Q, assumption)
    apply (simp add: auth_names_def Let_def)
    done
qed

lemma length_ntlmv2_response [simp]: "length (ntlmv2_response h c b) = 16 + length b"
  by (simp add: ntlmv2_response_def)

lemma length_ntlmv2_blob [simp]: "length (ntlmv2_blob ts c b) = 28 + length b"
  by (simp add: ntlmv2_blob_def)

lemma length_crypt_key [simp]: "length (crypt_key k x) = length x"
  by (simp add: crypt_key_def rc4_crypt_length)

lemma auth_start_ok:
  assumes sz: "64 \<le> sz" "length d = sz"
  shows "\<exists>d'. (do {
       d \<leftarrow> buf_write d 0 (replicate sz 0);
       d \<leftarrow> wr_field smb_ntlmssp_auth ''id'' ntlmssp_id d 0;
       d \<leftarrow> wr_field smb_ntlmssp_auth ''type'' SMB_NTLMSSP_CMD_AUTH d 0;
       d \<leftarrow> wr_field smb_ntlmssp_auth ''flags'' 0x60088215 d 0;
       k d }) = k d' \<and> auth_is sz ((\<lambda>_. 0)(''id'' := ntlmssp_id, ''type'' := SMB_NTLMSSP_CMD_AUTH, ''flags'' := 0x60088215), []) d' 0"
proof -
  have dist: "distinct (map fst smb_ntlmssp_auth)" by (simp add: smb_ntlmssp_auth_def)
  have m: "map_of smb_ntlmssp_auth ''id'' = Some 8" "map_of smb_ntlmssp_auth ''type'' = Some 4" "map_of smb_ntlmssp_auth ''flags'' = Some 4"
    by (simp_all add: smb_ntlmssp_auth_def)
  note wr = wr_field_enc_struct [OF dist m(1)] wr_field_enc_struct [OF dist m(2)] wr_field_enc_struct [OF dist m(3)]
  have "replicate sz (0 :: byte) = replicate 64 0 @ replicate (sz - 64) 0" using sz(1) by (simp flip: replicate_add)
  then have "replicate sz 0 = enc_struct smb_ntlmssp_auth (\<lambda>_. 0) @ replicate (sz - 64) 0" by (simp add: enc_struct_zero)
  then have "buf_write d 0 (replicate sz 0) = Some (enc_struct smb_ntlmssp_auth (\<lambda>_. 0) @ replicate (sz - 64) 0)"
    using sz by (simp add: buf_write_def)
  then show ?thesis
    using sz by (intro exI [of _ "enc_struct smb_ntlmssp_auth ((\<lambda>_. 0)(''id'' := ntlmssp_id, ''type'' := SMB_NTLMSSP_CMD_AUTH, ''flags'' := 0x60088215)) @ replicate (sz - 64) 0"])
      (simp add: wr auth_is_def)
qed

lemma auth_start_wp:
  assumes "64 \<le> sz" "length d = sz"
    and "\<And>d'. auth_is sz ((\<lambda>_. 0)(''id'' := ntlmssp_id, ''type'' := SMB_NTLMSSP_CMD_AUTH, ''flags'' := 0x60088215), []) d' 0 \<Longrightarrow>
       wp (k d') Q"
  shows "wp (do {
       d \<leftarrow> buf_write d 0 (replicate sz 0);
       d \<leftarrow> wr_field smb_ntlmssp_auth ''id'' ntlmssp_id d 0;
       d \<leftarrow> wr_field smb_ntlmssp_auth ''type'' SMB_NTLMSSP_CMD_AUTH d 0;
       d \<leftarrow> wr_field smb_ntlmssp_auth ''flags'' 0x60088215 d 0;
       k d }) Q"
  using auth_start_ok [OF assms(1,2), of k] assms(3) by metis

lemma auth_hashes_ok:
  assumes a: "auth_is sz ((\<lambda>_. 0)(''id'' := ntlmssp_id, ''type'' := SMB_NTLMSSP_CMD_AUTH, ''flags'' := 0x60088215), []) d 0"
    and l: "length lm2 = 24" "length nt2 = n" and fit: "64 + 24 + n \<le> sz"
    and Q: "\<And>d' cur'. cur' \<le> 24 + n \<Longrightarrow> auth_is sz
      (if b then auth_put (''ntlm_len'', ''ntlm_maxlen'', ''ntlm_offset'') nt2
                      (auth_put (''lm_len'', ''lm_maxlen'', ''lm_offset'') lm2
         ((\<lambda>_. 0)(''id'' := ntlmssp_id, ''type'' := SMB_NTLMSSP_CMD_AUTH, ''flags'' := 0x60088215), []))
       else ((\<lambda>_. 0)(''id'' := ntlmssp_id, ''type'' := SMB_NTLMSSP_CMD_AUTH, ''flags'' := 0x60088215), [])) d' cur' \<Longrightarrow> Q (d', cur')"
  shows "wp (if b then do {
            (d, cur) \<leftarrow> auth_append (''lm_len'', ''lm_maxlen'', ''lm_offset'') (Some lm2) 24 d 0;
            auth_append (''ntlm_len'', ''ntlm_maxlen'', ''ntlm_offset'') (Some nt2) n d cur
          } else Some (d, 0)) Q"
proof (cases b)
  case False
  then show ?thesis using Q [of 0 d] a by simp
next
  case True
  have cb: "c_bytes (Some lm2) 24 = Some lm2" "c_bytes (Some nt2) n = Some nt2"
    using l by (simp_all add: c_bytes_def buf_read_def)
  show ?thesis
    apply (simp only: True if_True wp_bind)
    apply (rule auth_append_ok [OF a cb(1) l(1) _ auth_fields(1)])
    using fit apply simp
    apply (simp only: prod.case)
    apply (rule auth_append_ok [OF _ cb(2) l(2) _ auth_fields(2)], assumption)
    using fit apply simp
    apply (rule Q, simp, simp only: True if_True)
    done
qed

lemma length_ntlmv2_hash [simp]: "length (ntlmv2_hash w u p d) = 16"
  by (simp add: ntlmv2_hash_def)

lemma token_alloc:
  assumes "calm w0 w" and "sz < 2 ^ 62"
  shows "\<exists>d. smb_buffer_alloc w token (word_of_nat sz) =
     (1, token\<lparr>buf_data := Some d, buf_size := word_of_nat sz\<rparr>, alloc_tick w) \<and> length d = sz"
proof -
  have u: "unat (word_of_nat sz :: u64) = sz" by (rule unat_u64_of_nat) (use assms(2) in simp)
  obtain d where "c_malloc w (word_of_nat sz) = (Some d, alloc_tick w)" "length d = sz"
    using c_malloc_calm [OF assms(1), of "word_of_nat sz"] assms(2) unfolding u by auto
  then show ?thesis by (intro exI [of _ d]) (simp add: smb_buffer_alloc_def)
qed

abbreviation auth_empty :: "cstruct \<times> byte list" where
  "auth_empty \<equiv> ((\<lambda>_. 0)(''id'' := ntlmssp_id, ''type'' := SMB_NTLMSSP_CMD_AUTH, ''flags'' := 0x60088215), [])"

lemma auth_build_ok:
  assumes c: "calm w0 w" and fits: "iconv_fits w0" and small: "conv_small host" "conv_small domain" "conv_small user"
    and len: "\<And>s. s \<in> {host, domain, user} \<Longrightarrow> length (utf16_of w0 s) \<le> 2 * length s"
    and l: "length lm2 = 24" "length nt2 = n" "length key = 16"
    and sz: "sz < 2 ^ 62" "104 + n + 2 * (length host + length domain + length user) \<le> sz"
    and Q: "\<And>d cur w'. calm w0 w' \<Longrightarrow> auth_is sz
      (auth_put (''session_key_len'', ''session_key_maxlen'', ''session_key_offset'') key
        (auth_names w0 host domain user
          (if b then auth_put (''ntlm_len'', ''ntlm_maxlen'', ''ntlm_offset'') nt2
                       (auth_put (''lm_len'', ''lm_maxlen'', ''lm_offset'') lm2 auth_empty) else auth_empty))) d cur \<Longrightarrow>
      Q (token\<lparr>buf_data := Some d, buf_size := word_of_nat sz\<rparr>, w')"
  shows "wp (case smb_buffer_alloc w (token\<lparr>buf_size := word_of_nat sz\<rparr>) (word_of_nat sz) of (ok, token, w) \<Rightarrow>
     if ok = 0 then Some (token, w)
     else do {
       d \<leftarrow> buf_data token;
       d \<leftarrow> buf_write d 0 (replicate sz 0);
       d \<leftarrow> wr_field smb_ntlmssp_auth ''id'' ntlmssp_id d 0;
       d \<leftarrow> wr_field smb_ntlmssp_auth ''type'' SMB_NTLMSSP_CMD_AUTH d 0;
       d \<leftarrow> wr_field smb_ntlmssp_auth ''flags'' 0x60088215 d 0;
       (d, cur) \<leftarrow>
         (if b then do {
            (d, cur) \<leftarrow> auth_append (''lm_len'', ''lm_maxlen'', ''lm_offset'') (Some lm2) 24 d 0;
            auth_append (''ntlm_len'', ''ntlm_maxlen'', ''ntlm_offset'') (Some nt2) n d cur
          } else Some (d, 0));
       (d, cur, w) \<leftarrow> auth_append_name w (''domain_len'', ''domain_maxlen'', ''domain_offset'') domain d cur;
       (d, cur, w) \<leftarrow> auth_append_name w (''user_len'', ''user_maxlen'', ''user_offset'') user d cur;
       (d, cur, w) \<leftarrow> auth_append_name w (''host_len'', ''host_maxlen'', ''host_offset'') host d cur;
       (d, cur) \<leftarrow> auth_append (''session_key_len'', ''session_key_maxlen'', ''session_key_offset'') (Some key) 16 d cur;
       Some (token\<lparr>buf_data := Some d\<rparr>, w)
     }) Q"
proof -
  obtain d where d: "smb_buffer_alloc w (token\<lparr>buf_size := word_of_nat sz\<rparr>) (word_of_nat sz) =
     (1, token\<lparr>buf_data := Some d, buf_size := word_of_nat sz\<rparr>, alloc_tick w)" "length d = sz"
    using token_alloc [OF c sz(1), of "token\<lparr>buf_size := word_of_nat sz\<rparr>"] by auto
  have "64 \<le> sz" using sz(2) by simp
  note start = auth_start_wp [OF this d(2)]
  have bd: "buf_data (token\<lparr>buf_data := Some d, buf_size := word_of_nat sz\<rparr>) = Some d" by simp
  show ?thesis
    unfolding d(1) prod.case if_not_P [OF one_neq_zero] bd bind.bind_lunit
    apply (rule start)
    apply (simp only: wp_bind)
    apply (rule auth_hashes_ok [OF _ l(1,2)], assumption)
    using sz(2) apply simp
    apply (simp only: prod.case)
    apply (rule auth_names_ok [OF calm_step [OF c] fits small len _ _ l(3)], assumption, assumption)
    using sz(2) apply simp
    apply (drule Q, assumption)
    apply (cases token, simp)
    done
qed

lemma ntlmv2_rand:
  "ntlmv2_hash (w\<lparr>w_rand := r\<rparr>) u p d = ntlmv2_hash w u p d"
  "auth_names (w\<lparr>w_rand := r\<rparr>) h d u a = auth_names w h d u a"
  by (simp_all add: ntlmv2_hash_def auth_names_def)

lemma smb_ntlmssp_response_ok:
  assumes c: "calm w w1" and fits: "iconv_fits w" and small: "conv_small password" "conv_small host" "conv_small domain" "conv_small user"
    and user: "0 \<notin> set user" and tg: "buf_data target = Some tg" "length tg = unat (buf_size target)" "length tg < 2 ^ 58"
    and len: "\<And>s. s \<in> {host, domain, user} \<Longrightarrow> length (utf16_of w s) \<le> 2 * length s"
    and Q: "\<And>d cur w'. calm (skip_rand 4 w) w' \<Longrightarrow>
      auth_is (auth_token_size host domain user (28 + length tg)) (auth_spec w srv_challenge srv_ts host domain user password tg) d cur \<Longrightarrow>
      Q (token\<lparr>buf_data := Some d, buf_size := word_of_nat (auth_token_size host domain user (28 + length tg))\<rparr>, w')"
  shows "wp (smb_ntlmssp_response w1 srv_challenge srv_ts host domain user password target token) Q"
proof -
  let ?sz = "auth_token_size host domain user (28 + length tg)"
  have c0: "calm (skip_rand 0 w) w1" using c by simp
  have sz: "?sz < 2 ^ 62" "120 + 2 * (length host + length domain + length user) + 28 + length tg \<le> ?sz"
    using small tg(3) by (auto simp: auth_token_size_def Let_def conv_small_def)
  have nums: "Suc (Suc (Suc (Suc 0))) = 4" by simp
  have bs: "unat (word_of_nat (28 + length tg) :: u64) = 28 + length tg" by (rule unat_u64_of_nat) (use tg in simp)
  show ?thesis
    unfolding smb_ntlmssp_response_def wp_bind
    apply (rule smb_ntlm2_hash_ok [OF c0], simp add: fits, rule small, rule small, rule user)
    apply (simp only: prod.case Let_def)
    apply (rule generate_challenge_ok, assumption)
    apply (simp only: prod.case)
    apply (rule generate_xkey_ok, assumption)
    apply (simp only: prod.case wp_bind)
    apply (rule smb_ntlm_make_blob_ok [OF _ tg(1,2)], assumption, use tg in simp)
    apply (simp only: prod.case)
    apply (rule generate_challenge_ok, assumption)
    apply (simp only: prod.case wp_bind)
    apply (rule smb_lm2_response_ok, assumption, simp)
    apply (simp only: prod.case wp_bind)
    apply (rule smb_ntlm2_response_ok [where b = "ntlmv2_blob srv_ts (rnd w 0) tg"], assumption, simp)
       apply (simp add: smb_buffer_init_def)
      apply (simp only: smb_buffer_init_def smb_buffer.simps bs, simp)
     apply (use tg in simp)
    apply (simp only: prod.case wp_bind)
    apply (rule smb_ntlm2_session_key_ok, assumption, simp, simp)
    apply (simp only: prod.case bs)
    apply (rule auth_build_ok)
              apply assumption
             apply (simp add: fits)
            apply (rule small)+
         apply (simp add: len)
        apply simp
       apply simp
      apply simp
     apply (rule sz)
    using sz(2) apply simp
    apply (rule Q, simp only: nums)
    apply (simp add: auth_spec_def Let_def ntlmv2_rand numeral_2_eq_2 numeral_3_eq_3 cong: if_cong)
    done
qed

section \<open>The properties\<close>

text \<open>
  C38 (hmac). The keyed hash is the one of RFC 2104 over MD5, with the key cut to 64 bytes and
  padded with zeros; when the temporary copy of the message cannot be allocated it returns
  null and stores nothing.
\<close>

theorem hmac_md5_rfc2104:
  assumes "unat key_len \<le> length key" and "unat msg_len \<le> length msg" and "unat msg_len < 2 ^ 62"
    and "K = take (min 64 (unat key_len)) key @ replicate (64 - unat key_len) 0"
  shows "HMAC_MD5 w (Some key) key_len (Some msg) msg_len =
     Some (if alloc_ok w (msg_len + 64)
           then Some (mdx_digest md5_block (map (\<lambda>b. 0x5c XOR b) K @
                  mdx_digest md5_block (map (\<lambda>b. 0x36 XOR b) K @ take (unat msg_len) msg)))
           else None, alloc_tick w)"
proof -
  have "K = take 64 (take (unat key_len) key) @ replicate (64 - length (take (unat key_len) key)) 0"
    using assms(1,4) by (simp add: min_def)
  then show ?thesis unfolding HMAC_MD5_eq [OF assms(1-3)] by (simp add: hmac_md5_def md5_def Let_def)
qed

theorem hmac_md5_rfc2104_witness:
  "\<exists>h w'. HMAC_MD5 sample_world (Some [1, 2]) 2 (Some [3]) 1 = Some (Some h, w') \<and> length h = 16"
  using hmac_md5_rfc2104 [of 2 "[1, 2]" 1 "[3]" "[1, 2] @ replicate 62 0" sample_world]
    mem_ok_alloc [OF sample_world_mem, of 65]
  by (simp add: mdx_digest_def length_regs_bytes Let_def)

text \<open>
  C36 (negotiate token). When memory is available, the type 1 message is the fixed header, the
  domain twice (the second time where the header announces the host) and uninitialised bytes
  up to the announced size; when the domain does not fit in the space left for the host (and
  the alignment byte) the second copy is written past the end of the token, a fault.
\<close>

theorem ntlmssp_negotiate_token:
  assumes "mem_ok w" and "length host + length domain < 2 ^ 62"
    and "sz = 32 + length host + length domain + (length host + length domain) mod 2"
  shows "smb_ntlmssp_negotiate w host domain token =
     (if length host + (length host + length domain) mod 2 < length domain then None
      else Some (token\<lparr>buf_data := Some (enc_struct smb_ntlmssp_nego (ntlmssp_nego_fields (length domain) (length host))
             @ domain @ domain @ map (w_junk w) [32 + length domain + length domain..<sz]), buf_size := word_of_nat sz\<rparr>,
          alloc_tick w))"
proof -
  have z: "sizeof smb_ntlmssp_nego = 32" by simp
  have n: "(if (32 + length host + length domain) mod 2 \<noteq> 0 then 32 + length host + length domain + 1
      else 32 + length host + length domain) = sz"
    using assms(3) by presburger
  have "(length host + length domain) mod 2 \<le> 1" by simp
  then have lt: "sz < 2 ^ 63" using assms(2,3) by simp
  then have u: "unat (word_of_nat sz :: u64) = sz" by simp
  have a: "smb_buffer_alloc w (token\<lparr>buf_size := word_of_nat sz\<rparr>) (word_of_nat sz) =
     (1, token\<lparr>buf_data := Some (map (w_junk w) [0..<sz]), buf_size := word_of_nat sz\<rparr>, alloc_tick w)"
    using mem_ok_alloc [OF assms(1), of "word_of_nat sz"] lt u by (cases token) (simp add: smb_buffer_alloc_def c_malloc_def)
  have d: "drop k (map (w_junk w) [m..<n]) = map (w_junk w) [m + k..<n]" for k m n by (simp add: drop_map)
  show ?thesis
    unfolding smb_ntlmssp_negotiate_def Let_def z n a prod.case
    using assms(3) by (cases token) (simp add: buf_write_def d add.assoc)
qed

theorem ntlmssp_negotiate_token_witness:
  "smb_ntlmssp_negotiate sample_world [72] [68, 79, 77] (smb_buffer_init None 0) = None"
  using ntlmssp_negotiate_token [OF sample_world_mem, of "[72]" "[68, 79, 77]" 36] by simp

text \<open>
  C35 (authenticate token). When memory is available and no name grows by more than a factor of
  two in UTF-16, building the type 3 message stays within the token. The message is the header
  followed by the NTLMv2 responses to the server's challenge (unless domain, user and password
  are all empty), the names in UTF-16 and the encrypted session key, each with its length and
  offset in the header, and zeros up to the announced size; four random numbers are consumed.
\<close>

theorem ntlmssp_response_token:
  assumes "mem_ok w" and "iconv_fits w"
    and "conv_small password" "conv_small host" "conv_small domain" "conv_small user" and "0 \<notin> set user"
    and "buf_data target = Some tg" "length tg = unat (buf_size target)" "length tg < 2 ^ 58"
    and "\<And>s. s \<in> {host, domain, user} \<Longrightarrow> length (utf16_of w s) \<le> 2 * length s"
    and "auth_spec w srv_challenge srv_ts host domain user password tg = (header, payload)"
    and "sz = auth_token_size host domain user (28 + length tg)"
  shows "wp (smb_ntlmssp_response w srv_challenge srv_ts host domain user password target token)
     (\<lambda>(token', w'). buf_size token' = word_of_nat sz \<and> 64 + length payload \<le> sz \<and>
        buf_data token' = Some (enc_struct smb_ntlmssp_auth header @ payload @ replicate (sz - 64 - length payload) 0) \<and>
        same_io (w\<lparr>w_rand := drop 4 (w_rand w)\<rparr>) w')"
  by (rule smb_ntlmssp_response_ok [OF calm_refl [OF assms(1)] assms(2-10)])
    (use assms(11-13) in \<open>auto simp: auth_is_def calm_def\<close>)

lemma sample_iconv_fits: "iconv_fits sample_world"
  by (auto simp: iconv_fits_def sample_world_def sample_iconv_def Let_def split: if_splits)

theorem ntlmssp_response_token_witness:
  "wp (smb_ntlmssp_response sample_world 7 9 [72] [68] [117] [112] (smb_buffer_init (Some [1, 2]) 2) (smb_buffer_init None 0))
     (\<lambda>(token', w'). buf_size token' = 156)"
proof -
  let ?a = "auth_spec sample_world 7 9 [72] [68] [117] [112] [1, 2]"
  have u: "s \<in> {[72], [68], [117]} \<Longrightarrow> length (utf16_of sample_world s) \<le> 2 * length s" for s
    by (auto simp: conv_out_def sample_world_def sample_iconv_def upt_rec first_fit.simps)
  have sz: "auth_token_size [72] [68] [117] (28 + length [1, 2 :: byte]) = 156" by (simp add: auth_token_size_def)
  have "wp (smb_ntlmssp_response sample_world 7 9 [72] [68] [117] [112] (smb_buffer_init (Some [1, 2]) 2) (smb_buffer_init None 0))
     (\<lambda>(token', w'). buf_size token' = word_of_nat 156 \<and> 64 + length (snd ?a) \<le> 156 \<and>
        buf_data token' = Some (enc_struct smb_ntlmssp_auth (fst ?a) @ snd ?a @ replicate (156 - 64 - length (snd ?a)) 0) \<and>
        same_io (sample_world\<lparr>w_rand := drop 4 (w_rand sample_world)\<rparr>) w')"
    by (rule ntlmssp_response_token [OF sample_world_mem sample_iconv_fits _ _ _ _ _ _ _ _ u _ sz [symmetric]])
      (simp_all add: conv_small_def smb_buffer_init_def)
  then show ?thesis by (rule wp_mono) auto
qed

end
