(* ===== verification/Spnego.thy ===== *)
theory Spnego
  imports Session_Msg Ntlm
begin

text \<open>
  \<^verbatim>\<open>src/smb_spnego.c\<close>: the extended-security login. The ASN.1 library is a parameter:
  a record of its functions, over a type of elements. An element is null or a value; a
  function that changes an element returns it. The compiled definitions of
  \<^verbatim>\<open>contrib/spnego/spnego.asn1\<close> are the result of \<open>asn1_array2tree\<close>.
\<close>

section \<open>The ASN.1 library\<close>

record 't asn1_lib =
  asn1_array2tree :: "int \<times> 't option"
  asn1_create_element :: "'t option \<Rightarrow> string \<Rightarrow> 't option"
  asn1_write_value :: "'t option \<Rightarrow> string \<Rightarrow> byte list option \<Rightarrow> int \<Rightarrow> int \<times> 't option"
  asn1_der_coding :: "'t option \<Rightarrow> string \<Rightarrow> int \<Rightarrow> int \<times> byte list \<times> int"
  asn1_der_decoding :: "'t option \<Rightarrow> byte list \<Rightarrow> int \<times> 't option"
  asn1_read_value :: "'t option \<Rightarrow> string \<Rightarrow> int \<Rightarrow> int \<times> byte list \<times> int"

text \<open>
  An encoder or reader returns its code, the bytes it stored at the start of the caller's
  array, and the size it reports. What the callers rely on: a success stores no more bytes
  than the array has room for, and reports their number.
\<close>

definition asn1_bounded :: "'t asn1_lib \<Rightarrow> bool" where
  "asn1_bounded lib \<longleftrightarrow>
     (\<forall>t f n. case asn1_der_coding lib t f n of (res, bs, sz) \<Rightarrow>
        int (length bs) \<le> max 0 n \<and> (res = 0 \<longrightarrow> sz = int (length bs))) \<and>
     (\<forall>t f n. case asn1_read_value lib t f n of (res, bs, sz) \<Rightarrow> int (length bs) \<le> max 0 n)"

section \<open>Strings and constants\<close>

definition c_str :: "string \<Rightarrow> cstring" where
  "c_str s = map (\<lambda>c. word_of_nat (of_char c)) s"

definition ASN1_SUCCESS :: int where [dsm_consts]: "ASN1_SUCCESS = 0"
definition NT_STATUS_MORE_PROCESSING_REQUIRED :: nat where [dsm_consts]: "NT_STATUS_MORE_PROCESSING_REQUIRED = 0xc0000016"

definition SMB_OS :: cstring where "SMB_OS = c_str ''Unix''"
definition SMB_LANMAN :: cstring where "SMB_LANMAN = c_str ''liBDSM''"
definition spnego_oid :: cstring where "spnego_oid = c_str ''1.3.6.1.5.5.2''"
definition ntlmssp_oid :: cstring where "ntlmssp_oid = c_str ''1.3.6.1.4.1.311.2.2.10''"

section \<open>The parser's life\<close>

definition asn1_definitions :: "'t asn1_lib \<Rightarrow> smb_session \<Rightarrow> 't option" where
  "asn1_definitions lib s = (if spnego_asn1 s then snd (asn1_array2tree lib) else None)"

definition init_asn1 :: "'t asn1_lib \<Rightarrow> smb_session \<Rightarrow> int \<times> smb_session" where
  "init_asn1 lib s =
     (if spnego_asn1 s then (DSM_ERROR_GENERIC, s)
      else
        (let (res, tree) = asn1_array2tree lib; s = s\<lparr>spnego_asn1 := tree \<noteq> None\<rparr>
         in if res \<noteq> ASN1_SUCCESS then (DSM_ERROR_GENERIC, s) else (DSM_SUCCESS, s)))"

definition clean_asn1 :: "smb_session \<Rightarrow> smb_session" where
  "clean_asn1 s = (if spnego_asn1 s then s\<lparr>spnego_asn1 := False\<rparr> else s)"

text \<open>A sequence of \<open>asn1_write_value\<close>, left at the first one that fails.\<close>

fun asn1_writes :: "'t asn1_lib \<Rightarrow> 't option \<Rightarrow> (string \<times> byte list option \<times> int) list \<Rightarrow> int \<times> 't option" where
  "asn1_writes lib token [] = (ASN1_SUCCESS, token)"
| "asn1_writes lib token ((name, v, len) # ws) =
     (let (res, token) = asn1_write_value lib token name v len
      in if res \<noteq> ASN1_SUCCESS then (res, token) else asn1_writes lib token ws)"

text \<open>The conversion of a \<^verbatim>\<open>size_t\<close> to the \<^verbatim>\<open>int\<close> argument of the library.\<close>

definition int_of_size :: "u64 \<Rightarrow> int" where
  "int_of_size n = sint (ucast n :: u32)"

section \<open>The session setup request\<close>

definition xsec_request :: "smb_session \<Rightarrow> nat \<Rightarrow> u64 \<Rightarrow> cstruct" where
  "xsec_request s der_size cur =
     smb_msg_init_pkt_andx(''wct'' := 12, ''max_buffer'' := SMB_SESSION_MAX_BUFFER, ''mpx_count'' := 16,
       ''vc_count'' := 1, ''caps'' := unat (srv_caps (srv s)), ''session_key'' := unat (srv_session_key (srv s)),
       ''xsec_blob_size'' := der_size, ''payload_size'' := unat (cur - word_of_nat (sizeof smb_session_xsec_req)))"

text \<open>The strings that end the request.\<close>

definition put_identity ::
  "world \<Rightarrow> smb_message option \<Rightarrow> (smb_message option \<times> world) option" where
  "put_identity w msg = do {
     (_, msg, w) \<leftarrow> smb_message_put_utf16 w msg SMB_OS;
     (_, msg, w) \<leftarrow> smb_message_put16 w msg 0;
     (_, msg, w) \<leftarrow> smb_message_put_utf16 w msg SMB_LANMAN;
     (_, msg, w) \<leftarrow> smb_message_put16 w msg 0;
     (_, msg, w) \<leftarrow> smb_message_put16 w msg 0;
     Some (msg, w)
   }"

text \<open>Inserting the fixed part, now that the size of the payload is known.\<close>

definition insert_xsec_request ::
  "world \<Rightarrow> smb_session \<Rightarrow> smb_message option \<Rightarrow> int \<Rightarrow> (smb_message option \<times> world) option" where
  "insert_xsec_request w s msg der_size = do {
     m \<leftarrow> msg;
     (_, msg, w) \<leftarrow> smb_msg_insert_pkt w msg 0 smb_session_xsec_req
        (xsec_request s (nat (der_size mod 65536)) (cursor m));
     Some (msg, w)
   }"

definition spnego_negotiate ::
  "'t asn1_lib \<Rightarrow> world \<Rightarrow> smb_session \<Rightarrow> cstring \<Rightarrow> (int \<times> smb_session \<times> world) option" where
  "spnego_negotiate lib w s domain = do {
     (msg, w) \<leftarrow> smb_message_new w SMB_CMD_SETUP;
     if msg = None then Some (DSM_ERROR_GENERIC, s, w)
     else do {
       (_, msg, w) \<leftarrow> smb_msg_advance_pkt w msg smb_session_xsec_req;
       let token = asn1_create_element lib (asn1_definitions lib s) ''SPNEGO.GSSAPIContextToken'';
       let (res, token) = asn1_writes lib token
         [(''thisMech'', Some spnego_oid, 1),
          (''spnego'', Some (c_str ''negTokenInit''), 1),
          (''spnego.negTokenInit.mechTypes'', Some (c_str ''NEW''), 1),
          (''spnego.negTokenInit.mechTypes.?1'', Some ntlmssp_oid, 1),
          (''spnego.negTokenInit.reqFlags'', None, 0),
          (''spnego.negTokenInit.mechListMIC'', None, 0)];
       if res \<noteq> ASN1_SUCCESS then Some (DSM_ERROR_GENERIC, s, w)
       else do {
         (ntlm, w) \<leftarrow> smb_ntlmssp_negotiate w domain domain (smb_buffer_init None 0);
         let (res, token) = asn1_write_value lib token ''spnego.negTokenInit.mechToken'' (buf_data ntlm)
                              (int_of_size (buf_size ntlm));
         if res \<noteq> ASN1_SUCCESS then Some (DSM_ERROR_GENERIC, s, w)
         else do {
           let (res, bs, der_size) = asn1_der_coding lib token [] 128;
           der \<leftarrow> buf_write (stack_bytes w 128) 0 bs;
           if res \<noteq> ASN1_SUCCESS then Some (DSM_ERROR_GENERIC, s, w)
           else do {
             (_, msg, w) \<leftarrow> smb_message_append w msg (Some der) (word_of_int der_size);
             (msg, w) \<leftarrow> put_identity w msg;
             (msg, w) \<leftarrow> insert_xsec_request w s msg der_size;
             (r, s, msg, w) \<leftarrow> smb_session_send_msg w s msg;
             if r = 0 then Some (DSM_ERROR_NETWORK, s, w) else Some (DSM_SUCCESS, s, w)
           }
         }
       }
     }
   }"

section \<open>The server's challenge\<close>

text \<open>What is taken from the NTLMSSP challenge in the 512-byte array.\<close>

definition take_challenge ::
  "world \<Rightarrow> smb_session \<Rightarrow> smb_message option \<Rightarrow> byte list \<Rightarrow> (int \<times> smb_session \<times> world) option" where
  "take_challenge w s msg resp_token = do {
     tgt_len \<leftarrow> rd_field smb_ntlmssp_challenge ''tgt_len'' resp_token 0;
     let (ok, target, w) = smb_buffer_alloc w (xsec_target s) (word_of_nat tgt_len);
     if ok = 0 then Some (DSM_ERROR_GENERIC, s\<lparr>xsec_target := target\<rparr>, w)
     else do {
       tgt_offset \<leftarrow> rd_field smb_ntlmssp_challenge ''tgt_offset'' resp_token 0;
       info \<leftarrow> buf_read resp_token tgt_offset tgt_len;
       d \<leftarrow> buf_data target;
       d \<leftarrow> buf_write d 0 info;
       ch \<leftarrow> rd_field smb_ntlmssp_challenge ''challenge'' resp_token 0;
       uid \<leftarrow> reply_header ''uid'' msg;
       Some (DSM_SUCCESS, s\<lparr>xsec_target := target\<lparr>buf_data := Some d\<rparr>,
          srv := (srv s)\<lparr>srv_challenge := word_of_nat ch, srv_uid := word_of_nat uid\<rparr>\<rparr>, w)
     }
   }"

definition spnego_challenge ::
  "'t asn1_lib \<Rightarrow> world \<Rightarrow> smb_session \<Rightarrow> (int \<times> smb_session \<times> world) option" where
  "spnego_challenge lib w s = do {
     (n, msg, s, w) \<leftarrow> smb_session_recv_msg w s;
     if n = 0 then Some (DSM_ERROR_NETWORK, s, w)
     else do {
       status \<leftarrow> reply_header ''status'' msg;
       if status \<noteq> NT_STATUS_MORE_PROCESSING_REQUIRED then Some (DSM_ERROR_GENERIC, s, w)
       else do {
         short \<leftarrow> reply_short smb_session_xsec_resp msg;
         if short then Some (DSM_ERROR_NETWORK, s, w)
         else do {
           let token = asn1_create_element lib (asn1_definitions lib s) ''SPNEGO.NegotiationToken'';
           blob_size \<leftarrow> reply_field smb_session_xsec_resp ''xsec_blob_size'' msg;
           m \<leftarrow> msg;
           p \<leftarrow> packet m;
           blob \<leftarrow> buf_read p (sizeof smb_packet + sizeof smb_session_xsec_resp) blob_size;
           let (res, token) = asn1_der_decoding lib token blob;
           if res \<noteq> ASN1_SUCCESS then Some (DSM_ERROR_GENERIC, s, w)
           else do {
             let (res, bs, sz) = asn1_read_value lib token ''negTokenResp.responseToken'' 512;
             resp_token \<leftarrow> buf_write (stack_bytes w 512) 0 bs;
             if res \<noteq> ASN1_SUCCESS then Some (DSM_ERROR_GENERIC, s, w)
             else take_challenge w s msg resp_token
           }
         }
       }
     }
   }"

section \<open>Authentication\<close>

text \<open>The end of both logins: guest flag, user id, logged in.\<close>

definition note_login :: "smb_session \<Rightarrow> nat \<Rightarrow> nat \<Rightarrow> smb_session" where
  "note_login s action uid =
     (let s = (if odd action then s\<lparr>guest := True\<rparr> else s)
      in s\<lparr>srv := (srv s)\<lparr>srv_uid := word_of_nat uid\<rparr>, logged := True\<rparr>)"

definition spnego_auth ::
  "'t asn1_lib \<Rightarrow> world \<Rightarrow> smb_session \<Rightarrow> cstring \<Rightarrow> cstring \<Rightarrow> cstring \<Rightarrow> (int \<times> smb_session \<times> world) option" where
  "spnego_auth lib w s domain user password = do {
     (msg, w) \<leftarrow> smb_message_new w SMB_CMD_SETUP;
     if msg = None then Some (DSM_ERROR_GENERIC, s, w)
     else do {
       (_, msg, w) \<leftarrow> smb_msg_advance_pkt w msg smb_session_xsec_req;
       let token = asn1_create_element lib (asn1_definitions lib s) ''SPNEGO.NegotiationToken'';
       let (res, token) = asn1_writes lib token
         [([], Some (c_str ''negTokenResp''), 1),
          (''negTokenResp.negResult'', None, 0),
          (''negTokenResp.supportedMech'', None, 0),
          (''negTokenResp.mechListMIC'', None, 0)];
       if res \<noteq> ASN1_SUCCESS then Some (DSM_ERROR_GENERIC, s, w)
       else do {
         (ntlm, w) \<leftarrow> smb_ntlmssp_response w (srv_challenge (srv s)) (srv_ts (srv s) - 4200) domain domain user password
                        (xsec_target s) (smb_buffer_init None 0);
         let (res, token) = asn1_write_value lib token ''negTokenResp.responseToken'' (buf_data ntlm)
                              (int_of_size (buf_size ntlm));
         if res \<noteq> ASN1_SUCCESS then Some (DSM_ERROR_GENERIC, s, w)
         else do {
           let (res, bs, der_size) = asn1_der_coding lib token [] 512;
           der \<leftarrow> buf_write (stack_bytes w 512) 0 bs;
           if res \<noteq> ASN1_SUCCESS then Some (DSM_ERROR_GENERIC, s, w)
           else do {
             (_, msg, w) \<leftarrow> smb_message_append w msg (Some der) (word_of_int der_size);
             m \<leftarrow> msg;
             (msg, w) \<leftarrow> (if odd (unat (cursor m)) then do { (_, msg, w) \<leftarrow> smb_message_put8 w msg 0; Some (msg, w) }
                          else Some (msg, w));
             (msg, w) \<leftarrow> put_identity w msg;
             (msg, w) \<leftarrow> insert_xsec_request w s msg der_size;
             (r, s, msg, w) \<leftarrow> smb_session_send_msg w s msg;
             if r = 0 then Some (DSM_ERROR_NETWORK, s, w)
             else do {
               (n, resp, s, w) \<leftarrow> smb_session_recv_msg w s;
               if n = 0 then Some (DSM_ERROR_NETWORK, s, w)
               else do {
                 (ok, s) \<leftarrow> smb_session_check_nt_status s resp;
                 if \<not> ok then Some (DSM_ERROR_NT, s, w)
                 else do {
                   short \<leftarrow> reply_short smb_session_xsec_resp resp;
                   if short then Some (DSM_ERROR_NETWORK, s, w)
                   else do {
                     action \<leftarrow> reply_field smb_session_xsec_resp ''action'' resp;
                     uid \<leftarrow> reply_header ''uid'' resp;
                     Some (DSM_SUCCESS, note_login s action uid, w)
                   }
                 }
               }
             }
           }
         }
       }
     }
   }"

definition smb_session_login_spnego ::
  "'t asn1_lib \<Rightarrow> world \<Rightarrow> smb_session \<Rightarrow> cstring \<Rightarrow> cstring \<Rightarrow> cstring \<Rightarrow> (int \<times> smb_session \<times> world) option" where
  "smb_session_login_spnego lib w s domain user password = do {
     let s = s\<lparr>srv := (srv s)\<lparr>srv_uid := 0\<rparr>\<rparr>;
     let (r, s) = init_asn1 lib s;
     if r \<noteq> DSM_SUCCESS then Some (DSM_ERROR_GENERIC, s, w)
     else do {
       (res, s, w) \<leftarrow> spnego_negotiate lib w s domain;
       if res \<noteq> DSM_SUCCESS then Some (res, clean_asn1 s, w)
       else do {
         (res, s, w) \<leftarrow> spnego_challenge lib w s;
         if res \<noteq> DSM_SUCCESS then Some (res, clean_asn1 s, w)
         else do {
           (res, s, w) \<leftarrow> spnego_auth lib w s domain user password;
           Some (res, clean_asn1 s, w)
         }
       }
     }
   }"

end
