(* ===== verification/Session.thy ===== *)
theory Session
  imports Spnego Fd
begin

text \<open>
  \<^verbatim>\<open>src/smb_session.c\<close>: the life of a session, from its creation over connection,
  negotiation and login to its end. \<^verbatim>\<open>smb_session_check_nt_status\<close> is with the
  messages, in the theory \<open>Session_Msg\<close>.
\<close>

section \<open>Creation and destruction\<close>

definition SMB_TRANSPORT_TCP :: int where [dsm_consts]: "SMB_TRANSPORT_TCP = 1"
definition SMB_TRANSPORT_NBT :: int where [dsm_consts]: "SMB_TRANSPORT_NBT = 2"
definition SMB_SESSION_XSEC :: int where [dsm_consts]: "SMB_SESSION_XSEC = 0"

definition smb_session_new :: "world \<Rightarrow> smb_session option \<times> world" where
  "smb_session_new w =
     (let (obj, w) = c_calloc w 176
      in if obj = None then (None, w)
         else
           (let (ns, w) = smb_transport_new_session w SMB_DEFAULT_BUFSIZE
            in if ns = None then (None, w)
               else (Some (zero_session\<lparr>transport := new_transport\<lparr>tr_session := ns\<rparr>\<rparr>), w)))"

definition session_disconnect :: "smb_session \<Rightarrow> smb_session" where
  "session_disconnect s =
     (case tr_disconnect (transport s) of
        None \<Rightarrow> s
      | Some f \<Rightarrow> s\<lparr>transport := (transport s)\<lparr>tr_session := f (tr_session (transport s))\<rparr>\<rparr>)"

text \<open>The nodes freed, in order; a fault when there is no transport session.\<close>

definition smb_session_destroy :: "smb_session \<Rightarrow> freed_node list option" where
  "smb_session_destroy s = do {
     let freed = smb_session_share_clear s;
     c_assert (tr_session (transport s) \<noteq> None);
     let s = session_disconnect s;
     let _ = smb_transport_destroy_session (tr_session (transport s));
     Some freed
   }"

definition smb_session_abort :: "smb_session \<Rightarrow> smb_session option" where
  "smb_session_abort s = do {
     ns \<leftarrow> tr_session (transport s);
     Some (with_ns s (smb_transport_abort_session ns))
   }"

text \<open>One of the three strings of the credentials.\<close>

definition set_cred :: "world \<Rightarrow> cstring option \<Rightarrow> cstring option \<Rightarrow> cstring option \<times> world" where
  "set_cred w old new = (case new of None \<Rightarrow> (old, w) | Some str \<Rightarrow> strndup w str SMB_CREDS_MAXLEN)"

definition smb_session_set_creds ::
  "world \<Rightarrow> smb_session \<Rightarrow> cstring option \<Rightarrow> cstring option \<Rightarrow> cstring option \<Rightarrow> smb_session \<times> world" where
  "smb_session_set_creds w s domain login password =
     (let (d, w) = set_cred w (cr_domain (creds s)) domain;
          (l, w) = set_cred w (cr_login (creds s)) login;
          (p, w) = set_cred w (cr_password (creds s)) password
      in (s\<lparr>creds := \<lparr>cr_domain = d, cr_login = l, cr_password = p\<rparr>\<rparr>, w))"

section \<open>What the server offers\<close>

definition smb_session_supports :: "smb_session \<Rightarrow> int \<Rightarrow> int" where
  "smb_session_supports s what =
     (if what = SMB_SESSION_XSEC then sint (srv_caps (srv s) AND SMB_CAPS_XSEC) else 0)"

definition smb_session_is_guest :: "smb_session \<Rightarrow> int" where
  "smb_session_is_guest s = (if \<not> logged s then - 1 else if guest s then 1 else 0)"

definition smb_session_server_name :: "smb_session \<Rightarrow> byte list" where
  "smb_session_server_name s = srv_name (srv s)"

definition smb_session_get_nt_status :: "smb_session \<Rightarrow> u32" where
  "smb_session_get_nt_status s = nt_status s"

section \<open>Negotiation\<close>

definition SMB_DIALECTS :: "cstring list" where
  "SMB_DIALECTS = [2 # c_str ''Samba'', 2 # c_str ''NT LM 0.12'']"

fun append_dialects :: "world \<Rightarrow> smb_message option \<Rightarrow> cstring list \<Rightarrow> (smb_message option \<times> world) option" where
  "append_dialects w msg [] = Some (msg, w)"
| "append_dialects w msg (d # ds) = do {
     (_, msg, w) \<leftarrow> smb_message_append w msg (Some (d @ [0])) (word_of_nat (length d + 1));
     append_dialects w msg ds
   }"

text \<open>The store of the payload size over the zero count that was put first.\<close>

definition patch_bct :: "smb_message option \<Rightarrow> smb_message option option" where
  "patch_bct msg = do {
     m \<leftarrow> msg;
     p \<leftarrow> packet m;
     p \<leftarrow> buf_write p (sizeof smb_packet + 1) (le_bytes 2 (ucast (cursor m - 3) :: u16));
     Some (Some (m\<lparr>packet := Some p\<rparr>))
   }"

text \<open>What is recorded of the server.\<close>

definition srv_of_reply :: "smb_session \<Rightarrow> smb_message option \<Rightarrow> smb_session option" where
  "srv_of_reply s answer = do {
     dialect \<leftarrow> reply_field smb_nego_resp ''dialect_index'' answer;
     mode \<leftarrow> reply_field smb_nego_resp ''security_mode'' answer;
     caps \<leftarrow> reply_field smb_nego_resp ''caps'' answer;
     ts \<leftarrow> reply_field smb_nego_resp ''ts'' answer;
     key \<leftarrow> reply_field smb_nego_resp ''session_key'' answer;
     let s = s\<lparr>srv := (srv s)\<lparr>srv_dialect := word_of_nat dialect, srv_security_mode := word_of_nat mode,
       srv_caps := word_of_nat caps, srv_ts := word_of_nat ts, srv_session_key := word_of_nat key\<rparr>\<rparr>;
     if smb_session_supports s SMB_SESSION_XSEC \<noteq> 0 then Some s
     else do {
       ch \<leftarrow> reply_field smb_nego_resp ''challenge'' answer;
       Some (s\<lparr>srv := (srv s)\<lparr>srv_challenge := word_of_nat ch\<rparr>\<rparr>)
     }
   }"

definition smb_negotiate :: "world \<Rightarrow> smb_session \<Rightarrow> (int \<times> smb_session \<times> world) option" where
  "smb_negotiate w s = do {
     (msg, w) \<leftarrow> smb_message_new w SMB_CMD_NEGOTIATE;
     if msg = None then Some (DSM_ERROR_GENERIC, s, w)
     else do {
       (_, msg, w) \<leftarrow> smb_message_put8 w msg 0;
       (_, msg, w) \<leftarrow> smb_message_put16 w msg 0;
       (msg, w) \<leftarrow> append_dialects w msg SMB_DIALECTS;
       msg \<leftarrow> patch_bct msg;
       (r, s, msg, w) \<leftarrow> smb_session_send_msg w s msg;
       if r = 0 then Some (DSM_ERROR_NETWORK, s, w)
       else do {
         (n, answer, s, w) \<leftarrow> smb_session_recv_msg w s;
         if n = 0 then Some (DSM_ERROR_NETWORK, s, w)
         else do {
           short \<leftarrow> reply_short smb_nego_resp answer;
           if short then Some (DSM_ERROR_NETWORK, s, w)
           else do {
             (ok, s) \<leftarrow> smb_session_check_nt_status s answer;
             if \<not> ok then Some (DSM_ERROR_NT, s, w)
             else do {
               wct \<leftarrow> reply_field smb_nego_resp ''wct'' answer;
               if wct \<noteq> 0x11 then Some (DSM_ERROR_NETWORK, s, w)
               else do { s \<leftarrow> srv_of_reply s answer; Some (DSM_SUCCESS, s, w) }
             }
           }
         }
       }
     }
   }"

definition smb_session_connect ::
  "world \<Rightarrow> smb_session \<Rightarrow> cstring \<Rightarrow> u32 \<Rightarrow> int \<Rightarrow> (int \<times> smb_session \<times> world) option" where
  "smb_session_connect w s name ip tr = do {
     let s = session_disconnect s;
     if tr \<noteq> SMB_TRANSPORT_TCP \<and> tr \<noteq> SMB_TRANSPORT_NBT then Some (DSM_ERROR_GENERIC, s, w)
     else do {
       let s = s\<lparr>transport := (if tr = SMB_TRANSPORT_TCP then smb_transport_tcp else smb_transport_nbt) (transport s)\<rparr>;
       connect \<leftarrow> tr_connect (transport s);
       ns \<leftarrow> tr_session (transport s);
       (r, ns, w) \<leftarrow> connect w ip ns name;
       let s = with_ns s ns;
       if r = 0 then Some (DSM_ERROR_NETWORK, s, w)
       else do {
         nm \<leftarrow> buf_write (srv_name (srv s)) 0 (name @ [0]);
         smb_negotiate w (s\<lparr>srv := (srv s)\<lparr>srv_name := nm\<rparr>\<rparr>)
       }
     }
   }"

section \<open>Login\<close>

definition session_request :: "smb_session \<Rightarrow> u64 \<Rightarrow> cstruct" where
  "session_request s cur =
     smb_msg_init_pkt_andx(''wct'' := 13, ''max_buffer'' := SMB_SESSION_MAX_BUFFER, ''mpx_count'' := 16,
       ''vc_count'' := 1, ''caps'' := unat (srv_caps (srv s)), ''oem_pass_len'' := 24, ''uni_pass_len'' := 0,
       ''payload_size'' := unat (cur - word_of_nat (sizeof smb_session_req)))"

text \<open>A string in UTF-16 and a zero after it.\<close>

definition put_name :: "world \<Rightarrow> smb_message option \<Rightarrow> cstring \<Rightarrow> (smb_message option \<times> world) option" where
  "put_name w msg str = do {
     (_, msg, w) \<leftarrow> smb_message_put_utf16 w msg str;
     (_, msg, w) \<leftarrow> smb_message_put16 w msg 0;
     Some (msg, w)
   }"

definition smb_session_login_ntlm ::
  "world \<Rightarrow> smb_session \<Rightarrow> cstring \<Rightarrow> cstring \<Rightarrow> cstring \<Rightarrow> (int \<times> smb_session \<times> world) option" where
  "smb_session_login_ntlm w s domain user password = do {
     (msg, w) \<leftarrow> smb_message_new w SMB_CMD_SETUP;
     if msg = None then Some (DSM_ERROR_GENERIC, s, w)
     else do {
       (_, msg, w) \<leftarrow> smb_msg_advance_pkt w msg smb_session_req;
       let (user_challenge, w) = smb_ntlm_generate_challenge w;
       (hash_v2, w) \<leftarrow> smb_ntlm2_hash w user password domain;
       (ntlm2, w) \<leftarrow> smb_lm2_response w hash_v2 (srv_challenge (srv s)) user_challenge;
       (_, msg, w) \<leftarrow> smb_message_append w msg ntlm2 24;
       m \<leftarrow> msg;
       (msg, w) \<leftarrow> (if cursor m div 2 \<noteq> 0 then do { (_, msg, w) \<leftarrow> smb_message_put8 w msg 0; Some (msg, w) }
                    else Some (msg, w));
       (msg, w) \<leftarrow> put_name w msg user;
       (msg, w) \<leftarrow> put_name w msg domain;
       (msg, w) \<leftarrow> put_name w msg SMB_OS;
       (msg, w) \<leftarrow> put_name w msg SMB_LANMAN;
       m \<leftarrow> msg;
       (_, msg, w) \<leftarrow> smb_msg_insert_pkt w msg 0 smb_session_req (session_request s (cursor m));
       (r, s, msg, w) \<leftarrow> smb_session_send_msg w s msg;
       if r = 0 then Some (DSM_ERROR_NETWORK, s, w)
       else do {
         (n, answer, s, w) \<leftarrow> smb_session_recv_msg w s;
         if n = 0 then Some (DSM_ERROR_NETWORK, s, w)
         else do {
           short \<leftarrow> reply_short smb_session_resp answer;
           if short then Some (DSM_ERROR_NETWORK, s, w)
           else do {
             (ok, s) \<leftarrow> smb_session_check_nt_status s answer;
             if \<not> ok then Some (DSM_ERROR_NT, s, w)
             else do {
               action \<leftarrow> reply_field smb_session_resp ''action'' answer;
               uid \<leftarrow> reply_header ''uid'' answer;
               Some (DSM_SUCCESS, note_login s action uid, w)
             }
           }
         }
       }
     }
   }"

definition smb_session_login :: "'t asn1_lib \<Rightarrow> world \<Rightarrow> smb_session \<Rightarrow> (int \<times> smb_session \<times> world) option" where
  "smb_session_login lib w s =
     (case (cr_domain (creds s), cr_login (creds s), cr_password (creds s)) of
        (Some domain, Some user, Some password) \<Rightarrow>
          (if smb_session_supports s SMB_SESSION_XSEC \<noteq> 0
           then smb_session_login_spnego lib w s domain user password
           else smb_session_login_ntlm w s domain user password)
      | _ \<Rightarrow> Some (DSM_ERROR_GENERIC, s, w))"

definition smb_session_logoff :: "world \<Rightarrow> smb_session \<Rightarrow> (int \<times> smb_session \<times> world) option" where
  "smb_session_logoff w s = do {
     (msg, w) \<leftarrow> smb_message_new w SMB_CMD_LOGOFF;
     if msg = None then Some (DSM_ERROR_GENERIC, s, w)
     else do {
       (_, msg, w) \<leftarrow> smb_message_put8 w msg 0x02;
       (_, msg, w) \<leftarrow> smb_message_put8 w msg 0xff;
       (_, msg, w) \<leftarrow> smb_message_put8 w msg 0;
       (_, msg, w) \<leftarrow> smb_message_put16 w msg 0;
       (_, msg, w) \<leftarrow> smb_message_put16 w msg 0;
       (r, s, msg, w) \<leftarrow> smb_session_send_msg w s msg;
       if r = 0 then Some (DSM_ERROR_NETWORK, s, w)
       else Some (DSM_SUCCESS, s\<lparr>srv := (srv s)\<lparr>srv_uid := 0\<rparr>, logged := False, guest := False\<rparr>, w)
     }
   }"

end
