(* ===== verification/Session_Spec.thy ===== *)
theory Session_Spec
  imports Session File_Spec
begin

text \<open>
  What the calls that set up a session promise: the frames of negotiation and login, byte for
  byte, and what is recorded of the server's answer, for every outcome of the exchange.
\<close>

section \<open>An exchange whose reply has a minimal size\<close>

text \<open>The outcome when the size of the reply is checked before its status.\<close>

definition sized_outcome :: "layout \<Rightarrow> byte list \<Rightarrow> outcome" where
  "sized_outcome L st =
     (case next_reply st of
        None \<Rightarrow> No_reply
      | Some (pkt, rest) \<Rightarrow>
          (if length pkt < 32 + sizeof L then No_reply
           else if pkt_header ''status'' pkt \<noteq> 0 then Nt_error (word_of_nat (pkt_header ''status'' pkt))
           else Reply pkt))"

lemma sized_outcome_reply: "sized_outcome L st = Reply pkt \<Longrightarrow> 32 + sizeof L \<le> length pkt"
  by (auto simp: sized_outcome_def split: option.splits prod.splits if_splits)

lemma check_nt_status_ok:
  assumes "reply_is pkt m"
  shows "smb_session_check_nt_status s (Some m) = Some
     (if pkt_header ''status'' pkt \<noteq> 0 then (False, s\<lparr>nt_status := word_of_nat (pkt_header ''status'' pkt)\<rparr>) else (True, s))"
  using reply_header_ok [OF assms smb_header_fields(5)]
  by (auto simp: smb_session_check_nt_status_def reply_header_def split: bind_splits)

lemma sized_exchange_gen:
  assumes msg: "msg_is h bs msg" and c: "calm w0 w" and peer: "peer_ok w0" and ready: "session_ready s"
    and sz: "session_sendable s (32 + length bs)" and L: "0 < sizeof L" "sizeof L < 2 ^ 32"
    and no: "\<And>s' w'. sent_keeps s w0 (smb_frame s h bs) s' w' \<Longrightarrow> sized_outcome L (rx_stream (w_rx w0)) = No_reply \<Longrightarrow>
      P (k0 s' w')"
    and nt: "\<And>s' w' st. sent_keeps s w0 (smb_frame s h bs) s' w' \<Longrightarrow> sized_outcome L (rx_stream (w_rx w0)) = Nt_error st \<Longrightarrow>
      P (k1 (s'\<lparr>nt_status := st\<rparr>) w')"
    and re: "\<And>s' w' pkt m. sent_keeps s w0 (smb_frame s h bs) s' w' \<Longrightarrow> sized_outcome L (rx_stream (w_rx w0)) = Reply pkt \<Longrightarrow>
      reply_is pkt m \<Longrightarrow> P (k2 (Some m) s' w')"
  shows "P (smb_session_send_msg w s msg \<bind> (\<lambda>(r, s, msg, w).
     if r = 0 then kf s w
     else do {
       (n, answer, s, w) \<leftarrow> smb_session_recv_msg w s;
       if n = 0 then k0 s w
       else do {
         short \<leftarrow> reply_short L answer;
         if short then k0 s w
         else do { (ok, s) \<leftarrow> smb_session_check_nt_status s answer; if \<not> ok then k1 s w else k2 answer s w }
       }
     }))"
proof (rule bind_out, rule smb_session_send_msg_ok [OF msg c peer ready sz])
  fix s1 msg1 w1
  assume 1: "same_session s s1" "session_ready s1" "session_cap s \<le> session_cap s1" "peer_ok w1"
    "w_sent w1 = w_sent w0 @ [smb_frame s h bs]" "w_rx w1 = w_rx w0" "steady w1 = steady w0"
  let ?k = "\<lambda>(n, answer, s, w). if n = 0 then k0 s w
       else do {
         short \<leftarrow> reply_short L answer;
         if short then k0 s w
         else do { (ok, s) \<leftarrow> smb_session_check_nt_status s answer; if \<not> ok then k1 s w else k2 answer s w }
       }"
  have "wp (smb_session_recv_msg w1 s1) (\<lambda>x. P (?k x))"
  proof (rule smb_session_recv_msg_ok [OF 1(2,4)])
    fix r mo s' w'
    assume k: "same_session s1 s'" "session_ready s'" "session_cap s1 \<le> session_cap s'" "peer_ok w'" "w_sent w' = w_sent w1"
        "steady w' = steady w1"
      and rx: "case next_reply (rx_stream (w_rx w1)) of
        None \<Rightarrow> r = 0 \<and> mo = None
      | Some (pkt, rest) \<Rightarrow> rx_stream (w_rx w') = rest \<and> r = length pkt - 32 \<and>
          (if length pkt < 32 then mo = None else \<exists>m. mo = Some m \<and> reply_is pkt m)"
    have sent: "sent_keeps s w0 (smb_frame s h bs) s' w'"
      using 1 k same_session_trans [OF 1(1) k(1)] by (simp add: sent_keeps_def)
    show "P (?k (r, mo, s', w'))"
    proof (cases "next_reply (rx_stream (w_rx w0))")
      case None
      then show ?thesis using rx 1(6) no [OF sent] by (simp add: sized_outcome_def)
    next
      case (Some a)
      obtain pkt rest where a: "a = (pkt, rest)" by (cases a)
      show ?thesis
      proof (cases "length pkt \<le> 32")
        case True
        then show ?thesis using rx 1(6) no [OF sent] Some a L by (simp add: sized_outcome_def)
      next
        case False
        then obtain m where m: "mo = Some m" "reply_is pkt m" "r \<noteq> 0" using rx Some a 1(6) by auto
        show ?thesis
          using m no [OF sent] nt [OF sent] re [OF sent _ m(2)] reply_short_ok [OF m(2) L(2)] check_nt_status_ok [OF m(2)] Some a
          by (simp add: sized_outcome_def)
      qed
    qed
  qed
  then show "P (case (1 :: int, s1, msg1, w1) of (r, s, msg, w) \<Rightarrow>
     if r = 0 then kf s w else smb_session_recv_msg w s \<bind> ?k)"
    by (simp add: bind_out)
qed

section \<open>Negotiation\<close>

lemma append_dialects_ok:
  assumes "msg_is h bs msg" and "calm w0 w" and "length bs + length (concat (map (\<lambda>d. d @ [0]) ds)) < 2 ^ 30"
    and Q: "\<And>msg' w'. msg_is h (bs @ concat (map (\<lambda>d. d @ [0]) ds)) msg' \<Longrightarrow> calm w0 w' \<Longrightarrow> Q (msg', w')"
  shows "wp (append_dialects w msg ds) Q"
  using assms
proof (induction ds arbitrary: bs msg w)
  case Nil
  then show ?case by simp
next
  case (Cons d ds)
  have u: "unat (word_of_nat (length d + 1) :: u64) = length d + 1"
    by (rule unat_u64_of_nat) (use Cons.prems(3) in simp)
  have next': "wp (append_dialects w1 msg1 ds) Q" if "msg_is h (bs @ d @ [0]) msg1" "calm w0 w1" for msg1 w1
    using Cons.prems(3,4) by (intro Cons.IH [OF that]) simp_all
  show ?case
    unfolding append_dialects.simps wp_bind
    by (rule smb_message_append_ok [OF Cons.prems(1,2)]) (use u Cons.prems(3) next' in simp_all)
qed

lemma patch_bct_ok:
  assumes "msg_is h ([a, b, c] @ bs) msg" and "length bs < 65536"
    and Q: "\<And>msg'. msg_is h ([a] @ nat_bytes 2 (length bs) @ bs) msg' \<Longrightarrow> Q msg'"
  shows "wp (patch_bct msg) Q"
proof -
  obtain m where m: "msg = Some m" "msg_inv m" "msg_header m = enc_struct smb_header h"
    "msg_content m = [a, b, c] @ bs" using assms(1) by (auto simp: msg_is_def)
  obtain p where p: "packet m = Some p" "length p = 32 + unat (payload_size m)" using msg_invD [OF m(2)] by blast
  have cur: "unat (cursor m) = 3 + length bs" using length_msg_content [OF m(2)] m(4) by simp
  have cle: "unat (cursor m) \<le> unat (payload_size m)" using msg_invD [OF m(2)] by simp
  have v: "le_bytes 2 (ucast (cursor m - 3) :: u16) = nat_bytes 2 (length bs)"
  proof -
    have "unat (cursor m - 3) = length bs" using cur by (simp add: unat_sub word_le_nat_alt)
    then have "unat (ucast (cursor m - 3) :: u16) = length bs"
      using assms(2) by (simp add: unsigned_ucast_eq take_bit_nat_eq_self)
    then show ?thesis by (simp add: le_bytes_nat_bytes)
  qed
  let ?p = "take 33 p @ nat_bytes 2 (length bs) @ drop 35 p"
  have w: "buf_write p 33 (nat_bytes 2 (length bs)) = Some ?p" using p cur cle by (simp add: buf_write_def)
  have 1: "take 32 ?p = take 32 p" using p by simp
  have 2: "take (3 + length bs) (drop 32 ?p) = [a] @ nat_bytes 2 (length bs) @ bs"
  proof -
    have c0: "take (3 + length bs) (drop 32 p) = [a, b, c] @ bs" using m(4) p cur by (simp add: msg_content_def)
    have "take (3 + length bs) (drop 32 (take (32 + 1) p @ nat_bytes 2 (length bs) @ drop (32 + 1 + length (nat_bytes 2 (length bs))) p))
      = take 1 (take (3 + length bs) (drop 32 p)) @ nat_bytes 2 (length bs) @
        drop (1 + length (nat_bytes 2 (length bs))) (take (3 + length bs) (drop 32 p))"
      using p cur cle by (intro splice_window) simp_all
    then show ?thesis using c0 by simp
  qed
  have "msg_is h ([a] @ nat_bytes 2 (length bs) @ bs) (Some (m\<lparr>packet := Some ?p\<rparr>))"
    using m p w 1 2 cur cle by (auto simp: msg_is_def msg_inv_def msg_header_def msg_content_def)
  then show ?thesis using m(1) p(1) w v Q by (simp add: patch_bct_def)
qed

definition negotiate_frame :: "smb_session \<Rightarrow> u32 \<Rightarrow> byte list" where
  "negotiate_frame s pid = smb_frame s (new_header SMB_CMD_NEGOTIATE pid)
     ([0] @ nat_bytes 2 19 @ [2] @ c_str ''Samba'' @ [0, 2] @ c_str ''NT LM 0.12'' @ [0])"

text \<open>What the session learns about the server: no challenge when it offers extended security.\<close>

definition server_info :: "byte list \<Rightarrow> smb_srv_info \<Rightarrow> smb_srv_info" where
  "server_info pkt v =
     (let f = (\<lambda>n. pkt_field smb_nego_resp n pkt);
          v = v\<lparr>srv_dialect := word_of_nat (f ''dialect_index''), srv_security_mode := word_of_nat (f ''security_mode''),
            srv_caps := word_of_nat (f ''caps''), srv_ts := word_of_nat (f ''ts''), srv_session_key := word_of_nat (f ''session_key'')\<rparr>
      in if srv_caps v AND SMB_CAPS_XSEC \<noteq> 0 then v else v\<lparr>srv_challenge := word_of_nat (f ''challenge'')\<rparr>)"

definition negotiate_result :: "smb_session \<Rightarrow> outcome \<Rightarrow> int \<Rightarrow> smb_session \<Rightarrow> bool" where
  "negotiate_result s oc r s' =
     (case oc of
        No_reply \<Rightarrow> r = DSM_ERROR_NETWORK \<and> same_session s s'
      | Nt_error st \<Rightarrow> r = DSM_ERROR_NT \<and> same_session (s\<lparr>nt_status := st\<rparr>) s'
      | Reply pkt \<Rightarrow>
          if pkt_field smb_nego_resp ''wct'' pkt \<noteq> 0x11 then r = DSM_ERROR_NETWORK \<and> same_session s s'
          else r = DSM_SUCCESS \<and> same_session (s\<lparr>srv := server_info pkt (srv s)\<rparr>) s')"

lemma same_session_srv: "same_session s s' \<Longrightarrow> same_session (s\<lparr>srv := g (srv s)\<rparr>) (s'\<lparr>srv := g (srv s')\<rparr>)"
  by (cases s) (auto simp: same_session_def with_ns_def)

lemma srv_of_reply_ok:
  assumes "reply_is pkt m" and "32 + sizeof smb_nego_resp \<le> length pkt"
  shows "srv_of_reply s (Some m) = Some (s\<lparr>srv := server_info pkt (srv s)\<rparr>)"
proof -
  have f: "map_of smb_nego_resp f \<noteq> None \<Longrightarrow> reply_field smb_nego_resp f (Some m) = Some (pkt_field smb_nego_resp f pkt)" for f
    using reply_field_ok [OF assms, of f] by auto
  have "\<forall>f \<in> {''dialect_index'', ''security_mode'', ''caps'', ''ts'', ''session_key'', ''challenge''}. map_of smb_nego_resp f \<noteq> None"
    by (simp add: smb_nego_resp_def)
  then show ?thesis
    by (cases s) (simp add: srv_of_reply_def f server_info_def smb_session_supports_def dsm_consts Let_def signed_eq_0_iff)
qed

lemma smb_negotiate_ok:
  assumes ready: "session_ready s" and peer: "peer_ok w" and sz: "session_sendable s 54"
  shows "wp (smb_negotiate w s) (\<lambda>(r, s', w'). w_sent w' = w_sent w @ [negotiate_frame s (w_pid w)] \<and>
     negotiate_result s (sized_outcome smb_nego_resp (rx_stream (w_rx w))) r s')"
proof -
  let ?ds = "concat (map (\<lambda>d. d @ [0]) SMB_DIALECTS)"
  have ds: "?ds = [2] @ c_str ''Samba'' @ [0, 2] @ c_str ''NT LM 0.12'' @ [0]" by (simp add: SMB_DIALECTS_def)
  have l: "length ?ds = 19" by (simp add: ds c_str_def)
  have z: "[0] @ nat_bytes 2 0 = [0, 0, 0]" by (simp add: nat_bytes_numeral)
  have wct: "map_of smb_nego_resp ''wct'' = Some 1" by (simp add: smb_nego_resp_def)
  show ?thesis
    using calm_start [OF peer]
    apply (simp add: smb_negotiate_def)
    apply (rule smb_message_new_ok, assumption)
    apply (simp add: msg_is_null)
    apply (rule smb_message_put8_ok, assumption+, simp, simp)
    apply (rule smb_message_put16_ok, assumption+, simp, simp only: prod.case wp_bind append_Nil z)
    apply (rule append_dialects_ok, assumption+, simp only: l, simp)
    apply (simp only: prod.case wp_bind)
    apply (rule patch_bct_ok, assumption, simp only: l, simp)
    apply (simp only: l)
    apply (simp only: wp_bind [symmetric])
    apply (rule sized_exchange_gen [where P = "\<lambda>c. wp c Q" and L = smb_nego_resp for Q, OF _ _ peer ready], assumption+)
    using sz apply (simp add: l)
    apply simp
    apply simp
    apply (simp_all add: sent_keepsD negotiate_result_def negotiate_frame_def ds)
    apply (drule sized_outcome_reply)
    apply (simp add: reply_field_ok [OF _ _ wct] srv_of_reply_ok sent_keepsD same_session_srv)
    done
qed

section \<open>Connecting\<close>

text \<open>The session once a direct connection is up and the name of the server is stored.\<close>

definition named_session :: "smb_session \<Rightarrow> cstring \<Rightarrow> smb_session" where
  "named_session s name = s\<lparr>transport := smb_transport_tcp (transport s),
     srv := (srv s)\<lparr>srv_name := name @ [0] @ drop (length name + 1) (srv_name (srv s))\<rparr>\<rparr>"

lemma connect_tcp:
  assumes "w_conn w = Conn_ok fd # es" and "ns_packet ns \<noteq> None"
  shows "transport_connect_tcp w ip ns name = Some (1, ns\<lparr>remote_addr := (htons NETBIOS_PORT_DIRECT, ip), ns_socket := int fd,
     ns_state := NETBIOS_SESSION_CONNECTED\<rparr>, w\<lparr>w_conn := es\<rparr>)"
  using assms by (simp add: transport_connect_tcp_def netbios_session_connect_def open_socket_and_connect_def)

lemma session_connect_unfold:
  assumes s: "tr_session (transport s) = Some ns" "tr_disconnect (transport s) \<in> {None, Some netbios_session_disconnect}"
    and ns: "ns_packet ns \<noteq> None" and w: "w_conn w = Conn_ok fd # es"
  shows "\<exists>ns1. smb_session_connect w s name ip SMB_TRANSPORT_TCP =
     do { nm \<leftarrow> buf_write (srv_name (srv s)) 0 (name @ [0]);
       smb_negotiate (w\<lparr>w_conn := es\<rparr>) (with_ns (s\<lparr>transport := smb_transport_tcp (transport s), srv := (srv s)\<lparr>srv_name := nm\<rparr>\<rparr>) ns1) } \<and>
     ns1 = ns\<lparr>remote_addr := (htons NETBIOS_PORT_DIRECT, ip), ns_socket := int fd, ns_state := NETBIOS_SESSION_CONNECTED\<rparr>"
proof -
  obtain sk where d: "tr_session (transport (session_disconnect s)) = Some (ns\<lparr>ns_socket := sk\<rparr>)"
    and d': "session_disconnect s = s\<lparr>transport := (transport s)\<lparr>tr_session := Some (ns\<lparr>ns_socket := sk\<rparr>)\<rparr>\<rparr>"
  proof (cases "tr_disconnect (transport s)")
    case None
    then show ?thesis using s that [of "ns_socket ns"] by (cases s; cases ns) (auto simp: session_disconnect_def)
  next
    case (Some f)
    then show ?thesis using s that [of "if ns_socket ns \<noteq> - 1 then - 1 else ns_socket ns"]
      by (auto simp: session_disconnect_def netbios_session_disconnect_def)
  qed
  have c: "transport_connect_tcp w ip (ns\<lparr>ns_socket := sk\<rparr>) name = Some (1, ns\<lparr>remote_addr := (htons NETBIOS_PORT_DIRECT, ip), ns_socket := int fd,
     ns_state := NETBIOS_SESSION_CONNECTED\<rparr>, w\<lparr>w_conn := es\<rparr>)"
    using connect_tcp [OF w, of "ns\<lparr>ns_socket := sk\<rparr>" ip name] ns by (cases ns) simp
  show ?thesis
    unfolding smb_session_connect_def d' using c
    by (cases s) (simp add: dsm_consts smb_transport_tcp_def with_ns_def Let_def)
qed

lemma connected_ready:
  assumes "tr_session (transport s) = Some ns" "nbs_buf ns" "abort_ctx ns = Pipe_open False" "peer_ok w"
  shows "session_ready (with_ns (s\<lparr>transport := smb_transport_tcp (transport s), srv := v\<rparr>) (ns\<lparr>remote_addr := a, ns_socket := int fd, ns_state := NETBIOS_SESSION_CONNECTED\<rparr>))"
    "session_cap (with_ns (s\<lparr>transport := smb_transport_tcp (transport s), srv := v\<rparr>) (ns\<lparr>remote_addr := a, ns_socket := int fd, ns_state := NETBIOS_SESSION_CONNECTED\<rparr>)) = session_cap s"
    "peer_ok (w\<lparr>w_conn := es\<rparr>)"
  using assms
  by (simp_all add: session_ready_def uses_link_def smb_transport_tcp_def with_ns_def nbs_ready_def nbs_buf_def link_up_def session_cap_def
      dsm_consts peer_ok_def mem_ok_def split: option.splits)

lemma negotiate_result_cong: "same_session s t \<Longrightarrow> negotiate_result t oc r s' \<Longrightarrow> negotiate_result s oc r s'"
proof -
  assume "same_session s t"
  note st = this same_session_srv [OF this, of "server_info p" for p] same_session_updates(1) [OF this]
  assume "negotiate_result t oc r s'"
  then show ?thesis
    using st by (auto simp: negotiate_result_def split: outcome.splits if_splits intro: same_session_trans)
qed

lemma smb_session_connect_ok:
  assumes s: "tr_session (transport s) = Some ns" "tr_disconnect (transport s) \<in> {None, Some netbios_session_disconnect}"
    and ns: "nbs_buf ns" "abort_ctx ns = Pipe_open False" and w: "w_conn w = Conn_ok fd # es" "peer_ok w"
    and nm: "length (srv_name (srv s)) = 16" "length name < 16" and sz: "session_sendable s 54"
  shows "wp (smb_session_connect w s name ip SMB_TRANSPORT_TCP) (\<lambda>(r, s', w').
     w_sent w' = w_sent w @ [negotiate_frame s (w_pid w)] \<and>
     negotiate_result (named_session s name) (sized_outcome smb_nego_resp (rx_stream (w_rx w))) r s')"
proof -
  let ?ns = "ns\<lparr>remote_addr := (htons NETBIOS_PORT_DIRECT, ip), ns_socket := int fd, ns_state := NETBIOS_SESSION_CONNECTED\<rparr>"
  let ?t = "with_ns (named_session s name) ?ns"
  have p: "ns_packet ns \<noteq> None" using ns by (auto simp: nbs_buf_def split: option.splits)
  have bw: "buf_write (srv_name (srv s)) 0 (name @ [0]) = Some (name @ [0] @ drop (length name + 1) (srv_name (srv s)))"
    using nm by (simp add: buf_write_def)
  have eq: "smb_session_connect w s name ip SMB_TRANSPORT_TCP = smb_negotiate (w\<lparr>w_conn := es\<rparr>) ?t"
    using session_connect_unfold [OF s p w(1), of name ip] bw by (auto simp: named_session_def)
  note r = connected_ready [OF s(1) ns w(2)]
  have "session_ready ?t" "session_sendable ?t 54" using r(1,2) sz by (simp_all add: named_session_def session_sendable_def)
  note neg = smb_negotiate_ok [OF this(1) r(3) this(2)]
  have fr: "negotiate_frame ?t (w_pid w) = negotiate_frame s (w_pid w)"
    by (simp add: negotiate_frame_def smb_frame_def smb_bytes_def named_session_def)
  have "same_session (named_session s name) ?t" by (auto simp: same_session_def)
  note n = negotiate_result_cong [OF this]
  show ?thesis unfolding eq by (rule wp_mono [OF neg]) (auto simp: fr intro: n)
qed

lemma smb_session_connect_overflow:
  assumes s: "tr_session (transport s) = Some ns" "tr_disconnect (transport s) \<in> {None, Some netbios_session_disconnect}"
    and ns: "ns_packet ns \<noteq> None" and w: "w_conn w = Conn_ok fd # es"
    and nm: "length (srv_name (srv s)) = 16" "16 \<le> length name"
  shows "smb_session_connect w s name ip SMB_TRANSPORT_TCP = None"
  using session_connect_unfold [OF s ns w, of name ip] nm by (auto simp: buf_write_def)

section \<open>Logging in\<close>

definition login_names :: "world \<Rightarrow> cstring \<Rightarrow> cstring \<Rightarrow> byte list" where
  "login_names w domain user = utf16_of w user @ [0, 0] @ utf16_of w domain @ [0, 0] @
     utf16_of w SMB_OS @ [0, 0] @ utf16_of w SMB_LANMAN @ [0, 0]"

definition login_body :: "world \<Rightarrow> smb_session \<Rightarrow> cstring \<Rightarrow> cstring \<Rightarrow> cstring \<Rightarrow> byte list" where
  "login_body w s domain user password =
     enc_struct smb_session_req (session_request s (word_of_nat (54 + length (login_names w domain user)))) @
     ntlmv2_response (ntlmv2_hash w user password domain) (srv_challenge (srv s)) (le_bytes 8 (rnd w 0)) @
     [0] @ login_names w domain user"

lemma put_name_ok:
  assumes "msg_is h bs msg" and "calm w0 w" and "iconv_fits w0" and "conv_small str" and "length bs + length (utf16_of w0 str) < 2 ^ 60"
    and Q: "\<And>msg' w'. msg_is h (bs @ utf16_of w0 str @ [0, 0]) msg' \<Longrightarrow> calm w0 w' \<Longrightarrow> Q (msg', w')"
  shows "wp (put_name w msg str) Q"
  unfolding put_name_def wp_bind
  apply (rule smb_message_put_utf16_ok [OF assms(1-4)], use assms(5) in simp)
  apply (simp only: prod.case wp_bind)
  apply (rule smb_message_put16_ok, assumption+, use assms(5) in simp)
  apply (simp add: nat_bytes_numeral Q)
  done

lemma msg_cursor_ok:
  assumes "msg_is h bs msg"
    and "\<And>m. msg = Some m \<Longrightarrow> cursor m = word_of_nat (length bs) \<Longrightarrow> unat (cursor m) = length bs \<Longrightarrow> Q m"
  shows "wp msg Q"
proof -
  obtain m where m: "msg = Some m" "msg_inv m" "msg_content m = bs" using assms(1) by (auto simp: msg_is_def)
  then have "unat (cursor m) = length bs" using length_msg_content [OF m(2)] by simp
  then show ?thesis using m(1) assms(2) [OF m(1)] word_of_nat_unat_self [of "cursor m"] by simp
qed

lemma length_login_names: "length (login_names w domain user) = 8 + length (utf16_of w user) + length (utf16_of w domain) +
     length (utf16_of w SMB_OS) + length (utf16_of w SMB_LANMAN)"
  by (simp add: login_names_def)

text \<open>The first random number of the world becomes the client's challenge.\<close>

definition login_result :: "smb_session \<Rightarrow> outcome \<Rightarrow> int \<Rightarrow> smb_session \<Rightarrow> bool" where
  "login_result s oc r s' =
     (case oc of
        No_reply \<Rightarrow> r = DSM_ERROR_NETWORK \<and> same_session s s'
      | Nt_error st \<Rightarrow> r = DSM_ERROR_NT \<and> same_session (s\<lparr>nt_status := st\<rparr>) s'
      | Reply pkt \<Rightarrow> r = DSM_SUCCESS \<and>
          same_session (note_login s (pkt_field smb_session_resp ''action'' pkt) (pkt_header ''uid'' pkt)) s')"

lemma same_session_note_login: "same_session s s' \<Longrightarrow> same_session (note_login s a u) (note_login s' a u)"
  by (cases s) (auto simp: same_session_def with_ns_def note_login_def Let_def)

lemma smb_session_login_ntlm_ok:
  assumes ready: "session_ready s" and peer: "peer_ok w" and fits: "iconv_fits w" and user: "0 \<notin> set user"
    and small: "conv_small domain" "conv_small user" "conv_small password"
    and sz: "session_sendable s (86 + length (login_names w domain user))"
  shows "wp (smb_session_login_ntlm w s domain user password) (\<lambda>(r, s', w').
     w_sent w' = w_sent w @ [smb_frame s (new_header SMB_CMD_SETUP (w_pid w)) (login_body w s domain user password)] \<and>
     login_result s (sized_outcome smb_session_resp (rx_stream (w_rx w))) r s')"
proof -
  let ?w = "skip_rand 1 w"
  have peer1: "peer_ok ?w" using peer by (simp add: peer_ok_def mem_ok_def)
  have l: "54 + length (login_names w domain user) < 2 ^ 30" using sz by (simp add: session_sendable_def)
  note ll = length_login_names [of w domain user]
  have c0: "calm (skip_rand 0 w) w" using calm_start [OF peer] by simp
  have cur: "cursor m div 2 \<noteq> 0" if "unat (cursor m) = 53" for m :: smb_message
  proof -
    have "unat (cursor m div 2) = 26" using that by (simp add: unat_div)
    then show ?thesis by auto
  qed
  have os: "conv_small SMB_OS" "conv_small SMB_LANMAN" by (simp_all add: conv_small_def SMB_OS_def SMB_LANMAN_def c_str_def)
  have f: "map_of smb_session_resp ''action'' = Some 2" by (simp add: smb_session_resp_def)
  show ?thesis
    unfolding smb_session_login_ntlm_def wp_bind
    apply (rule smb_message_new_ok [OF c0])
    apply (simp only: prod.case msg_is_null if_False wp_bind smb_msg_advance_pkt_def)
    apply (rule smb_message_advance_ok, assumption+, simp)
    apply (simp only: prod.case wp_bind Let_def append_Nil)
    apply (rule generate_challenge_ok, assumption)
    apply (simp only: prod.case wp_bind One_nat_def [symmetric])
    apply (rule smb_ntlm2_hash_ok, assumption, simp add: fits, rule small, rule small, rule user)
    apply (simp only: prod.case wp_bind)
    apply (rule smb_lm2_response_ok, assumption, simp)
    apply (simp only: prod.case wp_bind)
    apply (rule smb_message_append_ok, assumption, assumption, simp, simp)
    apply (simp only: prod.case wp_bind)
    apply (rule msg_cursor_ok, assumption)
    apply (subst if_P, rule cur, simp)
    apply (simp only: wp_bind)
    apply (rule smb_message_put8_ok, assumption, assumption, simp)
    apply (simp only: prod.case wp_bind wp_Some)
    apply (rule put_name_ok, assumption, assumption, simp add: fits, rule small, use l ll in simp)
    apply (simp only: prod.case wp_bind)
    apply (rule put_name_ok, assumption, assumption, simp add: fits, rule small, use l ll in simp)
    apply (simp only: prod.case wp_bind)
    apply (rule put_name_ok, assumption, assumption, simp add: fits, rule os, use l ll in simp)
    apply (simp only: prod.case wp_bind)
    apply (rule put_name_ok, assumption, assumption, simp add: fits, rule os, use l ll in simp)
    apply (simp only: prod.case wp_bind)
    apply (rule msg_cursor_ok, assumption)
    apply (simp only: smb_msg_insert_pkt_def)
    apply (rule smb_message_insert_ok, assumption, assumption, simp, simp, use l ll in simp, simp)
    apply (simp only: prod.case wp_bind [symmetric])
    apply (rule sized_exchange_gen [where P = "\<lambda>c. wp c Q" and L = smb_session_resp for Q, OF _ _ peer1 ready], assumption+)
    using sz ll apply simp
    apply simp
    apply simp
    apply (simp_all add: sent_keepsD login_result_def login_body_def login_names_def ntlmv2_rand add.assoc nat_bytes_numeral)
    apply (frule sized_outcome_reply)
    apply (simp add: reply_field_ok [OF _ _ f] reply_header_ok [OF _ smb_header_fields(3)] sent_keepsD same_session_note_login)
    done
qed

section \<open>The challenge of the extended login\<close>

text \<open>A member of the challenge in the token.\<close>

definition challenge_field :: "string \<Rightarrow> byte list \<Rightarrow> nat" where
  "challenge_field f tok = the (rd_field smb_ntlmssp_challenge f tok 0)"

lemma challenge_field_ok:
  assumes "length tok = 512" and "map_of smb_ntlmssp_challenge f = Some n"
  shows "rd_field smb_ntlmssp_challenge f tok 0 = Some (challenge_field f tok) \<and> challenge_field f tok < 256 ^ n"
  using rd_field_total [OF assms(2), of 0 tok] assms(1) by (auto simp: challenge_field_def)

section \<open>Properties\<close>

text \<open>
  C9 (connect). Connecting over TCP to a server whose name has at most 15 characters sends
  exactly one frame, the negotiation of two dialects with its byte count, and its outcome is
  a function of the next SMB packet of the server: no packet or one shorter than the
  structure is a network error, a status an NT error that is recorded, a word count other
  than 17 a network error; otherwise the session records dialect, mode, capabilities, time and
  session key, and the challenge unless the server offers extended security.
\<close>

theorem session_connect_negotiates:
  assumes "tr_session (transport s) = Some ns" "tr_disconnect (transport s) \<in> {None, Some netbios_session_disconnect}"
    and "nbs_buf ns" "abort_ctx ns = Pipe_open False" and "w_conn w = Conn_ok fd # es" "peer_ok w"
    and "length (srv_name (srv s)) = 16" "length name < 16" and "session_sendable s 54"
  shows "wp (smb_session_connect w s name ip SMB_TRANSPORT_TCP) (\<lambda>(r, s', w').
     w_sent w' = w_sent w @ [smb_frame s (new_header SMB_CMD_NEGOTIATE (w_pid w))
        ([0, 19, 0] @ [2] @ c_str ''Samba'' @ [0, 2] @ c_str ''NT LM 0.12'' @ [0])] \<and>
     (case sized_outcome smb_nego_resp (rx_stream (w_rx w)) of
        No_reply \<Rightarrow> r = DSM_ERROR_NETWORK \<and> same_session (named_session s name) s'
      | Nt_error st \<Rightarrow> r = DSM_ERROR_NT \<and> same_session ((named_session s name)\<lparr>nt_status := st\<rparr>) s'
      | Reply pkt \<Rightarrow>
          if pkt_field smb_nego_resp ''wct'' pkt \<noteq> 0x11 then r = DSM_ERROR_NETWORK \<and> same_session (named_session s name) s'
          else r = DSM_SUCCESS \<and>
            same_session ((named_session s name)\<lparr>srv := server_info pkt (srv (named_session s name))\<rparr>) s'))"
  by (rule wp_mono [OF smb_session_connect_ok [OF assms]])
    (auto simp: negotiate_frame_def negotiate_result_def nat_bytes_numeral)

definition fresh_smb :: smb_session where
  "fresh_smb = zero_session\<lparr>transport := new_transport\<lparr>tr_session := Some sample_session\<rparr>\<rparr>"

lemma fresh_smb_ok:
  "tr_session (transport fresh_smb) = Some sample_session" "tr_disconnect (transport fresh_smb) = None"
  "nbs_buf sample_session" "abort_ctx sample_session = Pipe_open False" "length (srv_name (srv fresh_smb)) = 16"
  "session_sendable fresh_smb 54"
  using sample_session_inv by (simp_all add: fresh_smb_def new_transport_def zero_session_def link_up_def session_sendable_def session_cap_def)

definition nego_answer :: "byte list" where
  "nego_answer = reply_packet smb_nego_resp ((\<lambda>_. 0)(''wct'' := 0x11, ''caps'' := 5, ''challenge'' := 77)) []"

definition nego_world :: world where
  "nego_world = (answer_world nego_answer)\<lparr>w_conn := [Conn_ok 4]\<rparr>"

lemma nego_world_ok: "w_conn nego_world = [Conn_ok 4]" "peer_ok nego_world" "w_sent nego_world = []"
    "sized_outcome smb_nego_resp (rx_stream (w_rx nego_world)) = Reply nego_answer"
proof -
  show w: "w_conn nego_world = [Conn_ok 4]" "peer_ok nego_world" "w_sent nego_world = []"
    using answer_world_ok [of nego_answer] by (simp_all add: nego_world_def peer_ok_def mem_ok_def)
  have "outcome_of (rx_stream (w_rx (answer_world nego_answer))) = Reply nego_answer"
    unfolding nego_answer_def by (rule answer_outcome) simp_all
  moreover have "32 + sizeof smb_nego_resp \<le> length nego_answer" by (simp add: nego_answer_def)
  ultimately show "sized_outcome smb_nego_resp (rx_stream (w_rx nego_world)) = Reply nego_answer"
    by (simp add: nego_world_def) (auto simp: outcome_of_def sized_outcome_def split: option.splits prod.splits if_splits)
qed

lemma nego_answer_fields: "pkt_field smb_nego_resp ''wct'' nego_answer = 0x11" "pkt_field smb_nego_resp ''caps'' nego_answer = 5"
    "pkt_field smb_nego_resp ''challenge'' nego_answer = 77"
  by (simp_all add: nego_answer_def reply_packet_field [where n = 1] reply_packet_field [where n = 4]
      reply_packet_field [where n = 8] smb_nego_resp_def)

theorem session_connect_negotiates_witness:
  "wp (smb_session_connect nego_world fresh_smb [65, 66] 1 SMB_TRANSPORT_TCP)
     (\<lambda>(r, s', w'). r = DSM_SUCCESS \<and> srv_caps (srv s') = 5 \<and> srv_challenge (srv s') = 77 \<and> length (w_sent w') = 1)"
proof -
  have d: "tr_disconnect (transport fresh_smb) \<in> {None, Some netbios_session_disconnect}" by (simp add: fresh_smb_ok)
  have l: "length [65 :: byte, 66] < 16" by simp
  note c = session_connect_negotiates [OF fresh_smb_ok(1) d fresh_smb_ok(3,4) nego_world_ok(1,2) fresh_smb_ok(5) l fresh_smb_ok(6), of 1]
  show ?thesis
    by (rule wp_mono [OF c])
      (auto simp: nego_world_ok nego_answer_fields same_session_simps server_info_def Let_def SMB_CAPS_XSEC_def)
qed

text \<open>
  C16 (server name). The session stores the name it was given in an array of 16 bytes, with a
  terminator and without a check: as soon as the connection is up, a name of 16 characters or
  more writes outside the array.
\<close>

theorem session_connect_overflow:
  assumes "tr_session (transport s) = Some ns" "tr_disconnect (transport s) \<in> {None, Some netbios_session_disconnect}"
    and "ns_packet ns \<noteq> None" and "w_conn w = Conn_ok fd # es"
    and "length (srv_name (srv s)) = 16" "16 \<le> length name"
  shows "smb_session_connect w s name ip SMB_TRANSPORT_TCP = None"
  using assms by (rule smb_session_connect_overflow)

theorem session_connect_overflow_witness:
  "smb_session_connect (sample_world\<lparr>w_conn := [Conn_ok 4]\<rparr>) fresh_smb (replicate 16 65) 1 SMB_TRANSPORT_TCP = None"
proof -
  have "tr_disconnect (transport fresh_smb) \<in> {None, Some netbios_session_disconnect}" by (simp add: fresh_smb_ok)
  moreover have "ns_packet sample_session \<noteq> None" using sample_session_inv by (auto simp: nbs_buf_def split: option.splits)
  ultimately show ?thesis
    using session_connect_overflow [OF fresh_smb_ok(1) _ _ _ fresh_smb_ok(5), of "sample_world\<lparr>w_conn := [Conn_ok 4]\<rparr>" 4 "[]" "replicate 16 65"]
    by simp
qed

text \<open>
  C10 (login). Without extended security a login sends exactly one frame: the session request
  with the capabilities and sizes, the NTLMv2 response to the server's challenge, computed
  from the first random number as client challenge, one padding byte, and the user, domain
  and system names in UTF-16, each followed by a zero. On a well-formed answer without an
  error status the session is logged in with the user id of the answer, as a guest when its
  action says so; any other answer leaves the session as it was, but for the error recorded.
\<close>

theorem login_ntlm_exact:
  assumes "session_ready s" and "peer_ok w" and "iconv_fits w" and "0 \<notin> set user"
    and "conv_small domain" "conv_small user" "conv_small password"
    and "session_sendable s (86 + length (login_names w domain user))"
  shows "wp (smb_session_login_ntlm w s domain user password) (\<lambda>(r, s', w').
     w_sent w' = w_sent w @ [smb_frame s (new_header SMB_CMD_SETUP (w_pid w))
       (enc_struct smb_session_req (session_request s (word_of_nat (54 + length (login_names w domain user)))) @
        ntlmv2_response (ntlmv2_hash w user password domain) (srv_challenge (srv s)) (le_bytes 8 (rnd w 0)) @
        [0] @ login_names w domain user)] \<and>
     (case sized_outcome smb_session_resp (rx_stream (w_rx w)) of
        No_reply \<Rightarrow> r = DSM_ERROR_NETWORK \<and> same_session s s'
      | Nt_error st \<Rightarrow> r = DSM_ERROR_NT \<and> same_session (s\<lparr>nt_status := st\<rparr>) s'
      | Reply pkt \<Rightarrow> r = DSM_SUCCESS \<and>
          same_session (note_login s (pkt_field smb_session_resp ''action'' pkt) (pkt_header ''uid'' pkt)) s'))"
  by (rule wp_mono [OF smb_session_login_ntlm_ok [OF assms]]) (auto simp: login_body_def login_result_def)

definition setup_answer :: "byte list" where
  "setup_answer = reply_packet smb_session_resp ((\<lambda>_. 0)(''action'' := 1)) []"

lemma setup_answer_ok: "sized_outcome smb_session_resp (rx_stream (w_rx (answer_world setup_answer))) = Reply setup_answer"
    "odd (pkt_field smb_session_resp ''action'' setup_answer)"
proof -
  have "outcome_of (rx_stream (w_rx (answer_world setup_answer))) = Reply setup_answer"
    unfolding setup_answer_def by (rule answer_outcome) simp_all
  moreover have "32 + sizeof smb_session_resp \<le> length setup_answer" by (simp add: setup_answer_def)
  ultimately show "sized_outcome smb_session_resp (rx_stream (w_rx (answer_world setup_answer))) = Reply setup_answer"
    by (auto simp: outcome_of_def sized_outcome_def split: option.splits prod.splits if_splits)
  show "odd (pkt_field smb_session_resp ''action'' setup_answer)"
    by (simp add: setup_answer_def reply_packet_field [where n = 2] smb_session_resp_def)
qed

theorem login_ntlm_exact_witness:
  "wp (smb_session_login_ntlm (answer_world setup_answer) sample_smb [68] [85] [80])
     (\<lambda>(r, s', w'). r = DSM_SUCCESS \<and> logged s' \<and> guest s' \<and> length (w_sent w') = 1)"
proof -
  let ?w = "answer_world setup_answer"
  have small: "conv_small [68]" "conv_small [85]" "conv_small [80]" by (simp_all add: conv_small_def)
  have len: "length (utf16_of ?w x) \<le> 15 * length x" for x
    by (rule conv_out_length [OF answer_world_ok(5)])
  have "86 + length (login_names ?w [68] [85]) + 4 \<le> 8192"
    using len [of "[68]"] len [of "[85]"] len [of SMB_OS] len [of SMB_LANMAN]
    by (simp add: length_login_names) (simp add: SMB_OS_def SMB_LANMAN_def c_str_def)
  then have sz: "session_sendable sample_smb (86 + length (login_names ?w [68] [85]))"
    by (simp add: session_sendable_def sample_smb_ready)
  have u: "0 \<notin> set [85 :: byte]" by simp
  show ?thesis
    by (rule wp_mono [OF login_ntlm_exact [OF sample_smb_ready(1) answer_world_ok(1,5) u small sz]])
      (auto simp: setup_answer_ok same_session_simps note_login_def answer_world_ok(3))
qed

text \<open>
  C15 (challenge). The target information the client copies from the server's challenge starts
  at an offset and has a length that the server chooses, and neither is checked: when they
  lie in the 512-byte array of the token the session stores exactly those bytes with the
  challenge and the user id of the reply, and otherwise the client reads outside the array.
\<close>

theorem challenge_copied_or_overread:
  assumes "length tok = 512" and "mem_ok w" and "reply_is pkt m"
  shows "take_challenge w s (Some m) tok =
     (let off = challenge_field ''tgt_offset'' tok; len = challenge_field ''tgt_len'' tok
      in if off + len \<le> 512
         then Some (DSM_SUCCESS,
           s\<lparr>xsec_target := \<lparr>buf_data = Some (take len (drop off tok)), buf_size = word_of_nat len\<rparr>,
             srv := (srv s)\<lparr>srv_challenge := word_of_nat (challenge_field ''challenge'' tok),
               srv_uid := word_of_nat (pkt_header ''uid'' pkt)\<rparr>\<rparr>, alloc_tick w)
         else None)"
proof -
  have f: "map_of smb_ntlmssp_challenge ''tgt_len'' = Some 2" "map_of smb_ntlmssp_challenge ''tgt_offset'' = Some 4"
    "map_of smb_ntlmssp_challenge ''challenge'' = Some 8" by (simp_all add: smb_ntlmssp_challenge_def)
  note c = challenge_field_ok [OF assms(1) f(1)] challenge_field_ok [OF assms(1) f(2)] challenge_field_ok [OF assms(1) f(3)]
  let ?len = "challenge_field ''tgt_len'' tok" and ?off = "challenge_field ''tgt_offset'' tok"
  have u: "unat (word_of_nat ?len :: u64) = ?len" by (rule unat_u64_of_nat) (use c(1) in simp)
  have al: "smb_buffer_alloc w b (word_of_nat ?len) =
      (1, \<lparr>buf_data = Some (map (w_junk w) [0..<?len]), buf_size = word_of_nat ?len\<rparr>, alloc_tick w)" for b
    using mem_ok_alloc [OF assms(2), of "word_of_nat ?len"] c(1) u
    by (cases b) (simp add: smb_buffer_alloc_def c_malloc_def)
  have uid: "reply_header ''uid'' (Some m) = Some (pkt_header ''uid'' pkt)"
    using reply_header_ok [OF assms(3) smb_header_fields(3)] by blast
  show ?thesis
  proof (cases "?off + ?len \<le> 512")
    case True
    then have "buf_read tok ?off ?len = Some (take ?len (drop ?off tok))" using assms(1) by (simp add: buf_read_def)
    moreover have "buf_write (map (w_junk w) [0..<?len]) 0 (take ?len (drop ?off tok)) = Some (take ?len (drop ?off tok))"
      using True assms(1) by (simp add: buf_write_def)
    ultimately show ?thesis using True c al uid by (simp add: take_challenge_def Let_def)
  next
    case False
    then have "buf_read tok ?off ?len = None" using assms(1) by (simp add: buf_read_def)
    then show ?thesis using False c al by (simp add: take_challenge_def Let_def)
  qed
qed

theorem challenge_copied_or_overread_witness:
  "take_challenge sample_world sample_smb (Some \<lparr>payload_size = 8, cursor = 0, packet = Some (replicate 40 0)\<rparr>) (replicate 512 0xff) = None"
proof -
  let ?m = "\<lparr>payload_size = 8, cursor = 0, packet = Some (replicate 40 0)\<rparr> :: smb_message" and ?t = "replicate 512 0xff :: byte list"
  have m: "reply_is (replicate 40 0) ?m" by (simp add: reply_is_def)
  have "replicate 4 x = [x, x, x, x]" for x :: byte by (simp add: numeral_eq_Suc)
  then have "rd_field smb_ntlmssp_challenge ''tgt_offset'' ?t 0 = Some 0xffffffff"
    by (simp add: rd_field_def smb_ntlmssp_challenge_def buf_read_def)
  then have "512 < challenge_field ''tgt_offset'' ?t" by (simp add: challenge_field_def)
  then show ?thesis
    using challenge_copied_or_overread [OF _ sample_world_mem m, of ?t sample_smb] by (simp add: Let_def)
qed

end
