(* ===== verification/Share.thy ===== *)
theory Share
  imports Session File
begin

text \<open>
  \<^verbatim>\<open>src/smb_share.c\<close>: connecting to shares, and listing the shares of a server through
  the remote procedure \<^verbatim>\<open>NetShareEnumAll\<close>. A share list is an array of strings ended by
  a null pointer; the strings are the buffers of the converter.
\<close>

section \<open>Trees\<close>

definition tree_path :: "byte list \<Rightarrow> cstring \<Rightarrow> cstring option" where
  "tree_path srv_nm name = do {
     n \<leftarrow> c_strlen srv_nm;
     Some ([92, 92] @ take n srv_nm @ [92] @ name)
   }"

definition tree_connect_request :: "nat \<Rightarrow> cstruct" where
  "tree_connect_request utf_path_len =
     smb_msg_init_pkt_andx(''wct'' := 4, ''flags'' := 0x0c, ''passwd_len'' := 1, ''bct'' := utf_path_len + 6 + 1)"

text \<open>
  The share a reply describes: \<open>Inl\<close> the error for a malformed reply. The rights are
  truncated to 16 bits.
\<close>

definition share_of_reply :: "smb_message option \<Rightarrow> (int + smb_share) option" where
  "share_of_reply resp_msg = do {
     m \<leftarrow> resp_msg;
     p \<leftarrow> packet m;
     wct \<leftarrow> rd8 p (sizeof smb_packet);
     if wct = 3 then do {
       short \<leftarrow> reply_short smb_tree_connect_resp resp_msg;
       if short then Some (Inl DSM_ERROR_NETWORK)
       else do {
         tid \<leftarrow> reply_header ''tid'' resp_msg;
         opts \<leftarrow> reply_field smb_tree_connect_resp ''opt_support'' resp_msg;
         Some (Inr (new_share\<lparr>sh_tid := word_of_nat tid, sh_opts := word_of_nat opts\<rparr>))
       }
     }
     else if wct = 7 then do {
       short \<leftarrow> reply_short smb_tree_connect_respx resp_msg;
       if short then Some (Inl DSM_ERROR_NETWORK)
       else do {
         tid \<leftarrow> reply_header ''tid'' resp_msg;
         opts \<leftarrow> reply_field smb_tree_connect_respx ''opt_support'' resp_msg;
         rights \<leftarrow> reply_field smb_tree_connect_respx ''max_rights'' resp_msg;
         guest_rights \<leftarrow> reply_field smb_tree_connect_respx ''guest_rights'' resp_msg;
         Some (Inr (new_share\<lparr>sh_tid := word_of_nat tid, sh_opts := word_of_nat opts,
           sh_rights := word_of_nat rights, sh_guest_rights := word_of_nat guest_rights\<rparr>))
       }
     }
     else Some (Inl DSM_ERROR_NETWORK)
   }"

text \<open>The value returned and the tree id stored, if any.\<close>

definition smb_tree_connect ::
  "world \<Rightarrow> smb_session \<Rightarrow> cstring \<Rightarrow> (int \<times> u16 option \<times> smb_session \<times> world) option" where
  "smb_tree_connect w s name = do {
     (req_msg, w) \<leftarrow> smb_message_new w SMB_CMD_TREE_CONNECT;
     if req_msg = None then Some (DSM_ERROR_GENERIC, None, s, w)
     else do {
       path \<leftarrow> tree_path (srv_name (srv s)) name;
       (utf_path_len, utf_path, w) \<leftarrow> smb_to_utf16 w (path @ [0]);
       req_msg \<leftarrow> smb_message_set_header ''tid'' 0xffff req_msg;
       req_msg \<leftarrow> smb_message_set_andx_members req_msg;
       (_, req_msg, w) \<leftarrow> smb_msg_put_pkt w req_msg smb_tree_connect_req (tree_connect_request utf_path_len);
       (_, req_msg, w) \<leftarrow> smb_message_put8 w req_msg 0;
       (_, req_msg, w) \<leftarrow> smb_message_append w req_msg utf_path (word_of_nat utf_path_len);
       (_, req_msg, w) \<leftarrow> smb_message_append w req_msg (Some (replicate 5 63 @ [0])) 6;
       (r, s, req_msg, w) \<leftarrow> smb_session_send_msg w s req_msg;
       if r = 0 then Some (DSM_ERROR_NETWORK, None, s, w)
       else do {
         (n, resp_msg, s, w) \<leftarrow> smb_session_recv_msg w s;
         if n = 0 then Some (DSM_ERROR_NETWORK, None, s, w)
         else do {
           (ok, s) \<leftarrow> smb_session_check_nt_status s resp_msg;
           if \<not> ok then Some (DSM_ERROR_NT, None, s, w)
           else do {
             let (obj, w) = c_calloc w 24;
             if obj = None then Some (DSM_ERROR_GENERIC, None, s, w)
             else do {
               share \<leftarrow> share_of_reply resp_msg;
               case share of
                 Inl err \<Rightarrow> Some (err, None, s, w)
               | Inr share \<Rightarrow> Some (0, Some (sh_tid share), smb_session_share_add s share, w)
             }
           }
         }
       }
     }
   }"

definition tree_disconnect_request :: cstruct where
  "tree_disconnect_request = (\<lambda>_. 0)(''wct'' := 0, ''bct'' := 0)"

definition smb_tree_disconnect :: "world \<Rightarrow> smb_session \<Rightarrow> u16 \<Rightarrow> (int \<times> smb_session \<times> world) option" where
  "smb_tree_disconnect w s tid = do {
     (req_msg, w) \<leftarrow> smb_message_new w SMB_CMD_TREE_DISCONNECT;
     if req_msg = None then Some (DSM_ERROR_GENERIC, s, w)
     else do {
       req_msg \<leftarrow> smb_message_set_header ''tid'' (unat tid) req_msg;
       (_, req_msg, w) \<leftarrow> smb_msg_put_pkt w req_msg smb_tree_disconnect_req tree_disconnect_request;
       (r, s, req_msg, w) \<leftarrow> smb_session_send_msg w s req_msg;
       if r = 0 then Some (DSM_ERROR_NETWORK, s, w)
       else do {
         (n, resp_msg, s, w) \<leftarrow> smb_session_recv_msg w s;
         if n = 0 then Some (DSM_ERROR_NETWORK, s, w)
         else do {
           (ok, s) \<leftarrow> smb_session_check_nt_status s resp_msg;
           if \<not> ok then Some (DSM_ERROR_NT, s, w)
           else do {
             short \<leftarrow> reply_short smb_tree_disconnect_resp resp_msg;
             if short then Some (DSM_ERROR_NETWORK, s, w)
             else do {
               wct \<leftarrow> reply_field smb_tree_disconnect_resp ''wct'' resp_msg;
               bct \<leftarrow> reply_field smb_tree_disconnect_resp ''bct'' resp_msg;
               if wct \<noteq> 0 \<or> bct \<noteq> 0 then Some (DSM_ERROR_NETWORK, s, w) else Some (DSM_SUCCESS, s, w)
             }
           }
         }
       }
     }
   }"

section \<open>Share lists\<close>

type_synonym share_list = "byte list option list"

fun smb_share_list_count_from :: "share_list \<Rightarrow> nat option" where
  "smb_share_list_count_from [] = None"
| "smb_share_list_count_from (x # xs) = (if x = None then Some 0 else map_option Suc (smb_share_list_count_from xs))"

definition smb_share_list_count :: "share_list option \<Rightarrow> nat option" where
  "smb_share_list_count list = (case list of None \<Rightarrow> Some 0 | Some l \<Rightarrow> smb_share_list_count_from l)"

text \<open>The entry, a null pointer included; reading past the array is a fault.\<close>

definition smb_share_list_at :: "share_list option \<Rightarrow> u64 \<Rightarrow> byte list option option" where
  "smb_share_list_at list index = do {
     l \<leftarrow> list;
     if unat index < length l then Some (l ! unat index) else None
   }"

text \<open>The strings freed.\<close>

definition smb_share_list_destroy :: "share_list option \<Rightarrow> byte list option list option" where
  "smb_share_list_destroy list = do {
     l \<leftarrow> list;
     n \<leftarrow> smb_share_list_count_from l;
     Some (take n l)
   }"

text \<open>
  The loop over the entries of the reply. Positions are offsets in the payload; a product by
  2 is computed in 32 bits.
\<close>

function parse_enum_loop ::
  "world \<Rightarrow> smb_message \<Rightarrow> nat \<Rightarrow> nat \<Rightarrow> nat \<Rightarrow> share_list \<Rightarrow> (nat \<times> share_list \<times> world) option" where
  "parse_enum_loop w msg share_count i data list =
     (let eod = unat (payload_size msg)
      in if \<not> (i < share_count \<and> data < eod) then Some (i, list, w)
         else if eod < data + 4 then Some (i, list, w)
         else do {
           p \<leftarrow> packet msg;
           name_len \<leftarrow> rd32 p (sizeof smb_packet + data);
           let data = data + 12;
           if eod < data + 4 + unat (name_len * 2) + 4 then Some (i, list, w)
           else do {
             src \<leftarrow> buf_read p (sizeof smb_packet + data) (unat (name_len * 2));
             (_, str, w) \<leftarrow> smb_from_utf16 w src;
             c_assert (i < length list);
             let list = list[i := str];
             let name_len = (if name_len mod 2 \<noteq> 0 then name_len + 1 else name_len);
             let data = data + unat (name_len * 2);
             com_len \<leftarrow> rd32 p (sizeof smb_packet + data);
             let data = data + 12;
             let com_len = (if com_len mod 2 \<noteq> 0 then com_len + 1 else com_len);
             parse_enum_loop w msg share_count (i + 1) (data + unat (com_len * 2)) list
           }
         })"
  by pat_completeness auto
termination
  by (relation "measure (\<lambda>(w, msg, share_count, i, data, list). share_count - i)") auto

declare parse_enum_loop.simps [simp del]

text \<open>The value returned, and the list (null when it cannot be allocated).\<close>

definition smb_share_parse_enum :: "world \<Rightarrow> smb_message option \<Rightarrow> (int \<times> share_list option \<times> world) option" where
  "smb_share_parse_enum w msg = do {
     m \<leftarrow> msg;
     p \<leftarrow> packet m;
     share_count \<leftarrow> rd32 p (sizeof smb_packet + 60);
     let data = 72 + unat (share_count * 12);
     let (obj, w) = c_calloc w (ucast (share_count + 1) * 8);
     if obj = None then Some (- 1, None, w)
     else do {
       (i, list, w) \<leftarrow> parse_enum_loop w m (unat share_count) 0 data (replicate (unat (share_count + 1)) None);
       Some (int i, Some list, w)
     }
   }"

section \<open>Listing the shares\<close>

datatype put = Put8 nat | Put16 nat | Put32 nat | Put64 nat

fun smb_message_put :: "world \<Rightarrow> smb_message option \<Rightarrow> put \<Rightarrow> (int \<times> smb_message option \<times> world) option" where
  "smb_message_put w msg (Put8 v) = smb_message_put8 w msg v"
| "smb_message_put w msg (Put16 v) = smb_message_put16 w msg v"
| "smb_message_put w msg (Put32 v) = smb_message_put32 w msg v"
| "smb_message_put w msg (Put64 v) = smb_message_put64 w msg v"

fun smb_message_puts :: "world \<Rightarrow> smb_message option \<Rightarrow> put list \<Rightarrow> (smb_message option \<times> world) option" where
  "smb_message_puts w msg [] = Some (msg, w)"
| "smb_message_puts w msg (p # ps) = do { (_, msg, w) \<leftarrow> smb_message_put w msg p; smb_message_puts w msg ps }"

text \<open>The padding and the name of the pipe between backslashes, with its NUL.\<close>

definition put_pipe :: "world \<Rightarrow> smb_message option \<Rightarrow> (smb_message option \<times> world) option" where
  "put_pipe w req = do {
     (_, req, w) \<leftarrow> smb_message_put8 w req 0;
     (_, req, w) \<leftarrow> smb_message_put_utf16 w req (c_str [CHR 0x5c] @ c_str ''PIPE'' @ c_str [CHR 0x5c] @ [0]);
     (_, req, w) \<leftarrow> smb_message_put16 w req 0;
     Some (req, w)
   }"

definition bind_trans :: "u16 \<Rightarrow> cstruct" where
  "bind_trans fid = smb_msg_init_pkt(''wct'' := 16, ''total_data_count'' := 72, ''max_data_count'' := 0xffff,
     ''param_offset'' := 84, ''data_count'' := 72, ''data_offset'' := 84, ''setup_count'' := 2,
     ''pipe_function'' := 0x26, ''fid'' := unat fid, ''bct'' := 89)"

text \<open>The DCE/RPC bind to the server service.\<close>

definition put_bind :: "world \<Rightarrow> smb_message option \<Rightarrow> (smb_message option \<times> world) option" where
  "put_bind w req = do {
     (req, w) \<leftarrow> smb_message_puts w req
       [Put8 5, Put8 0, Put8 0x0b, Put8 0x03, Put32 0x10, Put16 72, Put16 0, Put32 19,
        Put16 0xffff, Put16 0xffff, Put32 0, Put32 1, Put16 0, Put16 1];
     (_, req, w) \<leftarrow> smb_message_put_uuid w req 0x4b324fc8 0x1670 0x01d3 [0x12, 0x78, 0x5a, 0x47, 0xbf, 0x6e, 0xe1, 0x88];
     (req, w) \<leftarrow> smb_message_puts w req [Put16 3, Put16 0];
     (_, req, w) \<leftarrow> smb_message_put_uuid w req 0x8a885d04 0x1ceb 0x11c9 [0x9f, 0xe8, 0x08, 0x00, 0x2b, 0x10, 0x48, 0x60];
     (_, req, w) \<leftarrow> smb_message_put32 w req 2;
     Some (req, w)
   }"

text \<open>
  The end of both phases: the pipe is closed whatever happened. \<open>finish_list\<close> returns the
  code with the list and the count stored for the caller.
\<close>

definition finish_list ::
  "world \<Rightarrow> smb_session \<Rightarrow> u32 \<Rightarrow> int \<Rightarrow> share_list option \<Rightarrow> nat option
   \<Rightarrow> (int \<times> share_list option \<times> nat option \<times> smb_session \<times> world) option" where
  "finish_list w s fd ret lst cnt = do { (s, w) \<leftarrow> smb_fclose w s fd; Some (ret, lst, cnt, s, w) }"

text \<open>
  After a receive that filled nothing in, the caller's variable still holds the previous
  message: it points into the transport's buffer, whose bytes are those of now, unless the
  buffer has been reallocated meanwhile.
\<close>

definition stale_reply :: "smb_session \<Rightarrow> smb_session \<Rightarrow> smb_message option \<Rightarrow> smb_message option" where
  "stale_reply s s' resp = do {
     m \<leftarrow> resp;
     ns \<leftarrow> tr_session (transport s);
     ns' \<leftarrow> tr_session (transport s');
     p \<leftarrow> ns_packet ns;
     p' \<leftarrow> ns_packet ns';
     if length p = length p' then Some (m\<lparr>packet := Some (drop (sizeof netbios_session_packet) p')\<rparr>) else None
   }"

definition enum_trans :: "u16 \<Rightarrow> u64 \<Rightarrow> cstruct" where
  "enum_trans fid cur =
     (let bct = (ucast (cur - word_of_nat (sizeof smb_trans_req)) :: u16); data_count = bct - 17
      in smb_msg_init_pkt(''wct'' := 16, ''max_data_count'' := 4280, ''setup_count'' := 2, ''pipe_function'' := 0x26,
           ''fid'' := unat fid, ''bct'' := unat bct, ''data_count'' := unat data_count,
           ''total_data_count'' := unat data_count, ''data_offset'' := 84, ''param_offset'' := 84))"

text \<open>The request for the list; its result is the message and the position of the fragment length.\<close>

definition put_enum :: "world \<Rightarrow> smb_session \<Rightarrow> smb_message option \<Rightarrow> (u64 \<times> smb_message option \<times> world) option" where
  "put_enum w s req = do {
     (req, w) \<leftarrow> smb_message_puts w req [Put8 5, Put8 0, Put8 0, Put8 0x03, Put32 0x10];
     m \<leftarrow> req;
     let frag_len_cursor = cursor m;
     (req, w) \<leftarrow> smb_message_puts w req [Put16 0, Put16 0, Put32 12, Put32 64, Put16 0, Put16 15];
     n \<leftarrow> c_strlen (srv_name (srv s));
     (req, w) \<leftarrow> smb_message_puts w req [Put32 0x00020000, Put32 (n + 1), Put32 0, Put32 (n + 1)];
     (_, req, w) \<leftarrow> smb_message_put_utf16 w req (take (n + 1) (srv_name (srv s)));
     (req, w) \<leftarrow> (if even n then smb_message_puts w req [Put16 0] else Some (req, w));
     (req, w) \<leftarrow> smb_message_puts w req
       [Put32 1, Put32 1, Put32 0x00020004, Put64 0, Put32 0xffffffff, Put32 0x00020008, Put32 0];
     Some (frag_len_cursor, req, w)
   }"

definition patch_frag_len :: "u64 \<Rightarrow> nat \<Rightarrow> smb_message option \<Rightarrow> smb_message option option" where
  "patch_frag_len cur v msg = do {
     m \<leftarrow> msg;
     p \<leftarrow> packet m;
     p \<leftarrow> buf_write p (sizeof smb_packet + unat cur) (nat_bytes 1 v);
     Some (Some (m\<lparr>packet := Some p\<rparr>))
   }"

definition list_phase2 ::
  "world \<Rightarrow> smb_session \<Rightarrow> u16 \<Rightarrow> u32 \<Rightarrow> smb_message option
   \<Rightarrow> (int \<times> share_list option \<times> nat option \<times> smb_session \<times> world) option" where
  "list_phase2 w s ipc_tid fd resp = do {
     (req, w) \<leftarrow> smb_message_new w SMD_CMD_TRANS;
     if req = None then finish_list w s fd DSM_ERROR_GENERIC None None
     else do {
       req \<leftarrow> smb_message_set_header ''tid'' (unat ipc_tid) req;
       (_, req, w) \<leftarrow> smb_msg_advance_pkt w req smb_trans_req;
       (req, w) \<leftarrow> put_pipe w req;
       (frag_len_cursor, req, w) \<leftarrow> put_enum w s req;
       m \<leftarrow> req;
       let trans = enum_trans (SMB_FD_FID fd) (cursor m);
       (_, req, w) \<leftarrow> smb_msg_insert_pkt w req 0 smb_trans_req trans;
       req \<leftarrow> patch_frag_len frag_len_cursor (trans ''data_count'') req;
       let s0 = s;
       (res, s, req, w) \<leftarrow> smb_session_send_msg w s req;
       if res = 0 then finish_list w s fd DSM_ERROR_NETWORK None None
       else do {
         (n, mo, s, w) \<leftarrow> smb_session_recv_msg w s;
         resp \<leftarrow> (case mo of Some m \<Rightarrow> Some m | None \<Rightarrow> stale_reply s0 s resp);
         if payload_size resp < 4 then finish_list w s fd DSM_ERROR_NETWORK None None
         else do {
           bad \<leftarrow> (if n = 0 then do {
                     p \<leftarrow> packet resp;
                     b \<leftarrow> rd8 p (sizeof smb_packet + unat (payload_size resp) - 4);
                     Some (b \<noteq> 0)
                   } else Some False);
           if bad then finish_list w s fd DSM_ERROR_NETWORK None None
           else do {
             (cnt, lst, w) \<leftarrow> smb_share_parse_enum w (Some resp);
             if cnt = - 1 then finish_list w s fd DSM_ERROR_GENERIC None None
             else finish_list w s fd DSM_SUCCESS lst (Some (nat cnt))
           }
         }
       }
     }
   }"

definition list_phase1 ::
  "world \<Rightarrow> smb_session \<Rightarrow> u16 \<Rightarrow> u32 \<Rightarrow> (int \<times> share_list option \<times> nat option \<times> smb_session \<times> world) option" where
  "list_phase1 w s ipc_tid fd = do {
     (req, w) \<leftarrow> smb_message_new w SMD_CMD_TRANS;
     if req = None then finish_list w s fd DSM_ERROR_GENERIC None None
     else do {
       req \<leftarrow> smb_message_set_header ''tid'' (unat ipc_tid) req;
       (_, req, w) \<leftarrow> smb_msg_put_pkt w req smb_trans_req (bind_trans (SMB_FD_FID fd));
       (req, w) \<leftarrow> put_pipe w req;
       (req, w) \<leftarrow> put_bind w req;
       (res, s, req, w) \<leftarrow> smb_session_send_msg w s req;
       if res = 0 then finish_list w s fd DSM_ERROR_NETWORK None None
       else do {
         (n, resp, s, w) \<leftarrow> smb_session_recv_msg w s;
         m \<leftarrow> resp;
         if payload_size m < 71 then finish_list w s fd DSM_ERROR_NETWORK None None
         else do {
           p \<leftarrow> packet m;
           b \<leftarrow> rd8 p (sizeof smb_packet + 68);
           if n = 0 \<or> b \<noteq> 0 then finish_list w s fd DSM_ERROR_NETWORK None None
           else list_phase2 w s ipc_tid fd resp
         }
       }
     }
   }"

text \<open>The value returned, the list and the count stored for the caller, session and world.\<close>

definition smb_share_get_list ::
  "world \<Rightarrow> smb_session \<Rightarrow> (int \<times> share_list option \<times> nat option \<times> smb_session \<times> world) option" where
  "smb_share_get_list w s = do {
     (ret, ipc_tid, s, w) \<leftarrow> smb_tree_connect w s (c_str ''IPC$'');
     if ret \<noteq> DSM_SUCCESS then Some (ret, None, None, s, w)
     else do {
       tid \<leftarrow> ipc_tid;
       (ret, fd, s, w) \<leftarrow> smb_fopen w s tid (c_str [CHR 0x5c] @ c_str ''srvsvc'') (SMB_MOD_READ OR SMB_MOD_WRITE);
       if ret \<noteq> DSM_SUCCESS then Some (ret, None, None, s, w)
       else do { fd \<leftarrow> fd; list_phase1 w s tid fd }
     }
   }"

end
