(* ===== verification/Trans2.thy ===== *)
theory Trans2
  imports Session Stat
begin

text \<open>
  \<^verbatim>\<open>src/smb_trans2.c\<close>: searching directories and querying files. A reply may come in
  several messages, which are joined in a message of the library's own. Nothing bounds the
  number of messages or of rounds but the server, so that the two loops are partial
  functions; a peer that stops sending ends them.
\<close>

section \<open>Receiving a transaction\<close>

abbreviation tr2_field :: "string \<Rightarrow> smb_message option \<Rightarrow> nat option" where
  "tr2_field \<equiv> reply_field smb_trans2_resp"

text \<open>\<open>total_data_count - (data_displacement + data_count)\<close>, an \<^verbatim>\<open>int\<close>.\<close>

definition tr2_remaining :: "smb_message option \<Rightarrow> int option" where
  "tr2_remaining recv = do {
     total \<leftarrow> tr2_field ''total_data_count'' recv;
     displacement \<leftarrow> tr2_field ''data_displacement'' recv;
     n \<leftarrow> tr2_field ''data_count'' recv;
     Some (int total - (int displacement + int n))
   }"

text \<open>Appending the data of a message that continues the transaction.\<close>

definition tr2_join ::
  "world \<Rightarrow> smb_message option \<Rightarrow> smb_message option \<Rightarrow> (smb_message option \<times> world) option" where
  "tr2_join w res recv = do {
     m \<leftarrow> recv;
     p \<leftarrow> packet m;
     n \<leftarrow> tr2_field ''data_count'' recv;
     (_, res, w) \<leftarrow> smb_message_append w res (Some (drop (sizeof smb_packet + sizeof smb_trans2_resp) p)) (word_of_nat n);
     Some (res, w)
   }"

partial_function (option) smb_tr2_recv_loop ::
  "world \<Rightarrow> smb_session \<Rightarrow> smb_message option \<Rightarrow> int \<Rightarrow> (smb_message option \<times> smb_session \<times> world) option" where
  "smb_tr2_recv_loop w s res remaining =
     (if remaining \<le> 0 then Some (res, s, w)
      else do {
        (n, recv, s, w) \<leftarrow> smb_session_recv_msg w s;
        if n = 0 then Some (res, s, w)
        else do {
          (res, w) \<leftarrow> tr2_join w res recv;
          remaining \<leftarrow> tr2_remaining recv;
          smb_tr2_recv_loop w s res remaining
        }
      })"

definition smb_tr2_recv :: "world \<Rightarrow> smb_session \<Rightarrow> (smb_message option \<times> smb_session \<times> world) option" where
  "smb_tr2_recv w s = do {
     (n, recv, s, w) \<leftarrow> smb_session_recv_msg w s;
     if n = 0 then Some (None, s, w)
     else do {
       total \<leftarrow> tr2_field ''total_data_count'' recv;
       cnt \<leftarrow> tr2_field ''data_count'' recv;
       (res, w) \<leftarrow> smb_message_grow w recv (word_of_int (int total - int cnt));
       case res of
         None \<Rightarrow> Some (None, s, w)
       | Some r \<Rightarrow> do {
           m \<leftarrow> recv;
           remaining \<leftarrow> tr2_remaining recv;
           smb_tr2_recv_loop w s (Some (r\<lparr>cursor := payload_size m\<rparr>)) remaining
         }
     }
   }"

section \<open>Parsing a search reply\<close>

text \<open>
  The string in a converted buffer, after the store of a NUL at \<open>i\<close>; a fault when the buffer
  is null or has no such byte.
\<close>

definition name_at :: "byte list option \<Rightarrow> nat \<Rightarrow> cstring option" where
  "name_at buf i = do {
     b \<leftarrow> buf;
     b \<leftarrow> buf_write b i [0];
     n \<leftarrow> c_strlen b;
     Some (take n b)
   }"

text \<open>The members of an entry, at position \<open>iter\<close> of the packet.\<close>

definition file_of_entry :: "byte list \<Rightarrow> nat \<Rightarrow> cstring \<Rightarrow> nat \<Rightarrow> smb_file option" where
  "file_of_entry p iter name name_len = do {
     created \<leftarrow> rd_field smb_tr2_find2_entry ''created'' p iter;
     accessed \<leftarrow> rd_field smb_tr2_find2_entry ''accessed'' p iter;
     written \<leftarrow> rd_field smb_tr2_find2_entry ''written'' p iter;
     changed \<leftarrow> rd_field smb_tr2_find2_entry ''changed'' p iter;
     sz \<leftarrow> rd_field smb_tr2_find2_entry ''size'' p iter;
     alloc_size \<leftarrow> rd_field smb_tr2_find2_entry ''alloc_size'' p iter;
     attr \<leftarrow> rd_field smb_tr2_find2_entry ''attr'' p iter;
     Some (new_file\<lparr>f_name := Some name, f_name_len := word_of_nat name_len, f_created := word_of_nat created,
       f_accessed := word_of_nat accessed, f_written := word_of_nat written, f_changed := word_of_nat changed,
       f_size := word_of_nat sz, f_alloc_size := word_of_nat alloc_size, f_attr := word_of_nat attr,
       f_is_dir := uint ((word_of_nat attr :: u32) AND SMB_ATTR_DIR)\<rparr>)
   }"

primrec smb_tr2_find2_parse_entries ::
  "nat \<Rightarrow> world \<Rightarrow> smb_file list \<Rightarrow> byte list \<Rightarrow> nat \<Rightarrow> nat \<Rightarrow> (smb_file list \<times> world) option" where
  "smb_tr2_find2_parse_entries 0 w files p iter eod = Some (files, w)"
| "smb_tr2_find2_parse_entries (Suc i) w files p iter eod =
     (if \<not> iter < eod then Some (files, w)
      else
        (let (obj, w) = c_calloc w 104
         in if obj = None then Some (files, w)
            else do {
              src_len \<leftarrow> rd_field smb_tr2_find2_entry ''name_len'' p iter;
              src \<leftarrow> buf_read p (iter + sizeof smb_tr2_find2_entry) src_len;
              (name_len, buf, w) \<leftarrow> smb_from_utf16 w src;
              if name_len = 0 then Some (files, w)
              else do {
                name \<leftarrow> name_at buf name_len;
                file \<leftarrow> file_of_entry p iter name name_len;
                next_entry \<leftarrow> rd_field smb_tr2_find2_entry ''next_entry'' p iter;
                smb_tr2_find2_parse_entries i w (file # files) p (iter + next_entry) eod
              }
            }))"

definition tr2_payload :: nat where
  "tr2_payload = sizeof smb_packet + sizeof smb_trans2_resp"

definition smb_find_parse ::
  "layout \<Rightarrow> world \<Rightarrow> smb_message option \<Rightarrow> smb_file list \<Rightarrow> (smb_file list \<times> world) option" where
  "smb_find_parse L w msg files = do {
     m \<leftarrow> msg;
     p \<leftarrow> packet m;
     cnt \<leftarrow> rd_field L ''count'' p tr2_payload;
     smb_tr2_find2_parse_entries cnt w files p (tr2_payload + sizeof L) (sizeof smb_packet + unat (payload_size m))
   }"

definition smb_find_first_parse :: "world \<Rightarrow> smb_message option \<Rightarrow> smb_file list \<Rightarrow> (smb_file list \<times> world) option" where
  "smb_find_first_parse = smb_find_parse smb_tr2_findfirst2_params"

definition smb_find_next_parse :: "world \<Rightarrow> smb_message option \<Rightarrow> smb_file list \<Rightarrow> (smb_file list \<times> world) option" where
  "smb_find_next_parse = smb_find_parse smb_tr2_findnext2_params"

section \<open>The requests\<close>

definition SMB_FIND2_ATTR_DEFAULT :: nat where [dsm_consts]: "SMB_FIND2_ATTR_DEFAULT = 0x17"
definition SMB_FIND2_FLAG_CLOSE_EOS :: nat where [dsm_consts]: "SMB_FIND2_FLAG_CLOSE_EOS = 2"
definition SMB_FIND2_FLAG_RESUME :: nat where [dsm_consts]: "SMB_FIND2_FLAG_RESUME = 4"
definition SMB_FIND2_FLAG_CONTINUE :: nat where [dsm_consts]: "SMB_FIND2_FLAG_CONTINUE = 8"
definition SMB_FIND2_INTEREST_BOTH_DIRECTORY_INFO :: nat where [dsm_consts]: "SMB_FIND2_INTEREST_BOTH_DIRECTORY_INFO = 0x0104"
definition SMB_FIND2_QUERY_FILE_ALL_INFO :: nat where [dsm_consts]: "SMB_FIND2_QUERY_FILE_ALL_INFO = 0x0107"

text \<open>The padding that makes the byte count 3 modulo 4.\<close>

function find_padding :: "nat \<Rightarrow> nat \<Rightarrow> nat \<times> nat" where
  "find_padding tr2_bct padding =
     (if tr2_bct mod 4 \<noteq> 3 then find_padding (tr2_bct + 1) (padding + 1) else (tr2_bct, padding))"
  by pat_completeness auto
termination
  by (relation "measure (\<lambda>(bct, padding). 3 - bct mod 4)") (auto simp: mod_Suc)

primrec put_padding :: "nat \<Rightarrow> world \<Rightarrow> smb_message option \<Rightarrow> (smb_message option \<times> world) option" where
  "put_padding 0 w msg = Some (msg, w)"
| "put_padding (Suc n) w msg = do { (_, msg, w) \<leftarrow> smb_message_put8 w msg 0; put_padding n w msg }"

definition find_request :: "nat \<Rightarrow> nat \<Rightarrow> nat \<Rightarrow> cstruct" where
  "find_request cmd tr2_param_count tr2_bct =
     smb_msg_init_pkt(''wct'' := 15, ''max_param_count'' := 10, ''max_data_count'' := 0xffff, ''param_offset'' := 68,
       ''data_count'' := 0, ''data_offset'' := 88, ''setup_count'' := 1, ''cmd'' := cmd,
       ''total_param_count'' := tr2_param_count, ''param_count'' := tr2_param_count, ''bct'' := tr2_bct)"

definition findfirst2_request :: cstruct where
  "findfirst2_request = smb_msg_init_pkt(''attrs'' := SMB_FIND2_ATTR_DEFAULT, ''count'' := 1366,
     ''flags'' := SMB_FIND2_FLAG_CLOSE_EOS OR SMB_FIND2_FLAG_RESUME, ''interest'' := SMB_FIND2_INTEREST_BOTH_DIRECTORY_INFO)"

definition findnext2_request :: "nat \<Rightarrow> nat \<Rightarrow> cstruct" where
  "findnext2_request resume_key sid = smb_msg_init_pkt(''sid'' := sid, ''count'' := 255,
     ''interest'' := SMB_FIND2_INTEREST_BOTH_DIRECTORY_INFO,
     ''flags'' := SMB_FIND2_FLAG_CLOSE_EOS OR SMB_FIND2_FLAG_CONTINUE, ''resume_key'' := resume_key)"

text \<open>
  The request and its reply, for the structure \<open>L\<close> of the first or of a following request;
  a null message stands for every failure.
\<close>

definition trans2_find ::
  "nat \<Rightarrow> layout \<Rightarrow> cstruct \<Rightarrow> world \<Rightarrow> smb_session \<Rightarrow> u16 \<Rightarrow> cstring
   \<Rightarrow> (smb_message option \<times> smb_session \<times> world) option" where
  "trans2_find cmd L fnd w s tid pattern = do {
     (utf_pattern_len, utf_pattern, w) \<leftarrow> smb_to_utf16 w (pattern @ [0]);
     if utf_pattern_len = 0 then Some (None, s, w)
     else do {
       let tr2_param_count = sizeof L + utf_pattern_len;
       let (tr2_bct, padding) = find_padding (tr2_param_count + 3) 0;
       (msg, w) \<leftarrow> smb_message_new w SMB_CMD_TRANS2;
       if msg = None then Some (None, s, w)
       else do {
         msg \<leftarrow> smb_message_set_header ''tid'' (unat tid) msg;
         (_, msg, w) \<leftarrow> smb_msg_put_pkt w msg smb_trans2_req (find_request cmd tr2_param_count tr2_bct);
         (_, msg, w) \<leftarrow> smb_msg_put_pkt w msg L fnd;
         (_, msg, w) \<leftarrow> smb_message_append w msg utf_pattern (word_of_nat utf_pattern_len);
         (msg, w) \<leftarrow> put_padding padding w msg;
         (res, s, msg, w) \<leftarrow> smb_session_send_msg w s msg;
         if res = 0 then Some (None, s, w) else smb_tr2_recv w s
       }
     }
   }"

definition smb_trans2_find_first ::
  "world \<Rightarrow> smb_session \<Rightarrow> u16 \<Rightarrow> cstring \<Rightarrow> (smb_message option \<times> smb_session \<times> world) option" where
  "smb_trans2_find_first = trans2_find SMB_TR2_FIND_FIRST smb_tr2_findfirst2 findfirst2_request"

definition smb_trans2_find_next ::
  "world \<Rightarrow> smb_session \<Rightarrow> u16 \<Rightarrow> nat \<Rightarrow> nat \<Rightarrow> cstring \<Rightarrow> (smb_message option \<times> smb_session \<times> world) option" where
  "smb_trans2_find_next w s tid resume_key sid pattern =
     trans2_find SMB_TR2_FIND_NEXT smb_tr2_findnext2 (findnext2_request resume_key sid) w s tid pattern"

section \<open>Searching\<close>

text \<open>What a reply says about the rest of the search: end, resume key, error.\<close>

definition search_state :: "layout \<Rightarrow> smb_message option \<Rightarrow> (bool \<times> nat \<times> nat) option" where
  "search_state L msg = do {
     m \<leftarrow> msg;
     p \<leftarrow> packet m;
     eos \<leftarrow> rd_field L ''eos'' p tr2_payload;
     key \<leftarrow> rd_field L ''last_name_offset'' p tr2_payload;
     err \<leftarrow> rd_field L ''ea_error_offset'' p tr2_payload;
     Some (eos \<noteq> 0, key, err)
   }"

partial_function (option) smb_find_loop ::
  "world \<Rightarrow> smb_session \<Rightarrow> u16 \<Rightarrow> cstring \<Rightarrow> nat \<Rightarrow> smb_file list \<Rightarrow> bool \<Rightarrow> nat \<Rightarrow> nat
   \<Rightarrow> (smb_file list \<times> smb_session \<times> world) option" where
  "smb_find_loop w s tid pattern sid files end_of_search resume_key error_offset =
     (if end_of_search \<or> error_offset \<noteq> 0 then Some (files, s, w)
      else do {
        (msg, s, w) \<leftarrow> smb_trans2_find_next w s tid resume_key sid pattern;
        if msg = None then Some ([], s, w)
        else do {
          (end_of_search, resume_key, error_offset) \<leftarrow> search_state smb_tr2_findnext2_params msg;
          (files, w) \<leftarrow> smb_find_next_parse w msg files;
          smb_find_loop w s tid pattern sid files (end_of_search \<or> files = []) resume_key error_offset
        }
      })"

text \<open>The list of files found, the empty list for a null pointer.\<close>

definition smb_find :: "world \<Rightarrow> smb_session \<Rightarrow> u16 \<Rightarrow> cstring \<Rightarrow> (smb_file list \<times> smb_session \<times> world) option" where
  "smb_find w s tid pattern = do {
     (msg, s, w) \<leftarrow> smb_trans2_find_first w s tid pattern;
     if msg = None then Some ([], s, w)
     else do {
       (files, w) \<leftarrow> smb_find_first_parse w msg [];
       if files = [] then Some ([], s, w)
       else do {
         m \<leftarrow> msg;
         p \<leftarrow> packet m;
         sid \<leftarrow> rd_field smb_tr2_findfirst2_params ''id'' p tr2_payload;
         (end_of_search, resume_key, error_offset) \<leftarrow> search_state smb_tr2_findfirst2_params msg;
         smb_find_loop w s tid pattern sid files end_of_search resume_key error_offset
       }
     }
   }"

section \<open>Querying a file\<close>

definition query_request :: "nat \<Rightarrow> nat \<Rightarrow> cstruct" where
  "query_request utf_path_len padding =
     smb_msg_init_pkt(''wct'' := 15, ''total_param_count'' := utf_path_len + sizeof smb_tr2_query,
       ''param_count'' := utf_path_len + sizeof smb_tr2_query, ''max_param_count'' := 2, ''max_data_count'' := 0xffff,
       ''param_offset'' := 68, ''data_count'' := 0, ''data_offset'' := 96, ''setup_count'' := 1,
       ''cmd'' := SMB_TR2_QUERY_PATH, ''bct'' := sizeof smb_tr2_query + utf_path_len + padding)"

text \<open>The file a reply describes, null for a malformed reply. Its information starts at \<open>info\<close>.\<close>

definition stat_of_reply :: "world \<Rightarrow> smb_message option \<Rightarrow> (smb_file option \<times> world) option" where
  "stat_of_reply w reply = do {
     m \<leftarrow> reply;
     p \<leftarrow> packet m;
     let info = tr2_payload + 4;
     src_len \<leftarrow> rd_field smb_tr2_path_info ''name_len'' p info;
     if sizeof smb_packet + unat (payload_size m) < info + sizeof smb_tr2_path_info + src_len then Some (None, w)
     else do {
       let (obj, w) = c_calloc w 104;
       if obj = None then Some (None, w)
       else do {
         src \<leftarrow> buf_read p (info + sizeof smb_tr2_path_info) src_len;
         (name_len, buf, w) \<leftarrow> smb_from_utf16 w src;
         name \<leftarrow> name_at buf (src_len div 2);
         created \<leftarrow> rd_field smb_tr2_path_info ''created'' p info;
         accessed \<leftarrow> rd_field smb_tr2_path_info ''accessed'' p info;
         written \<leftarrow> rd_field smb_tr2_path_info ''written'' p info;
         changed \<leftarrow> rd_field smb_tr2_path_info ''changed'' p info;
         alloc_size \<leftarrow> rd_field smb_tr2_path_info ''alloc_size'' p info;
         sz \<leftarrow> rd_field smb_tr2_path_info ''size'' p info;
         attr \<leftarrow> rd_field smb_tr2_path_info ''attr'' p info;
         is_dir \<leftarrow> rd_field smb_tr2_path_info ''is_dir'' p info;
         Some (Some (new_file\<lparr>f_name := Some name, f_name_len := word_of_nat name_len, f_created := word_of_nat created,
           f_accessed := word_of_nat accessed, f_written := word_of_nat written, f_changed := word_of_nat changed,
           f_alloc_size := word_of_nat alloc_size, f_size := word_of_nat sz, f_attr := word_of_nat attr,
           f_is_dir := int is_dir\<rparr>), w)
       }
     }
   }"

definition smb_fstat ::
  "world \<Rightarrow> smb_session \<Rightarrow> u16 \<Rightarrow> cstring \<Rightarrow> (smb_file option \<times> smb_session \<times> world) option" where
  "smb_fstat w s tid path = do {
     (utf_path_len, utf_path, w) \<leftarrow> smb_to_utf16 w (path @ [0]);
     if utf_path_len = 0 then Some (None, s, w)
     else do {
       let msg_len = sizeof smb_trans2_req + sizeof smb_tr2_query + utf_path_len;
       let padding = (if msg_len mod 4 \<noteq> 0 then 4 - msg_len mod 4 else 0);
       (msg, w) \<leftarrow> smb_message_new w SMB_CMD_TRANS2;
       if msg = None then Some (None, s, w)
       else do {
         msg \<leftarrow> smb_message_set_header ''tid'' (unat tid) msg;
         (_, msg, w) \<leftarrow> smb_msg_put_pkt w msg smb_trans2_req (query_request utf_path_len padding);
         (_, msg, w) \<leftarrow> smb_msg_put_pkt w msg smb_tr2_query (smb_msg_init_pkt(''interest'' := SMB_FIND2_QUERY_FILE_ALL_INFO));
         (_, msg, w) \<leftarrow> smb_message_append w msg utf_path (word_of_nat utf_path_len);
         (msg, w) \<leftarrow> put_padding padding w msg;
         (res, s, msg, w) \<leftarrow> smb_session_send_msg w s msg;
         if res = 0 then Some (None, s, w)
         else do {
           (n, reply, s, w) \<leftarrow> smb_session_recv_msg w s;
           if n = 0 then Some (None, s, w)
           else do {
             (ok, s) \<leftarrow> smb_session_check_nt_status s reply;
             if \<not> ok then Some (None, s, w)
             else do {
               short \<leftarrow> reply_short smb_tr2_path_info reply;
               if short then Some (None, s, w)
               else do {
                 (file, w) \<leftarrow> stat_of_reply w reply;
                 Some (file, s, w)
               }
             }
           }
         }
       }
     }
   }"

end
