(* ===== verification/Session_Inv.thy ===== *)
theory Session_Inv
  imports Share Trans2
begin

text \<open>
  The application's view of a session: any sequence of calls, each in a world of its own, in
  which memory may run out, the peer may send anything and the socket may fail at any moment.
  What every call keeps is proved in a calculus of partial correctness, one rule for each
  operation that returns a session.
\<close>

section \<open>Partial correctness\<close>

text \<open>\<open>wlp c Q\<close>: if \<open>c\<close> returns normally, its result satisfies \<open>Q\<close>.\<close>

definition wlp :: "'a option \<Rightarrow> ('a \<Rightarrow> bool) \<Rightarrow> bool" where
  "wlp c Q \<longleftrightarrow> (case c of None \<Rightarrow> True | Some x \<Rightarrow> Q x)"

lemma wlp_simps:
  "wlp (Some x) Q \<longleftrightarrow> Q x" "wlp (Option.bind c k) Q \<longleftrightarrow> wlp c (\<lambda>x. wlp (k x) Q)"
  by (cases c; simp add: wlp_def)+

lemma wlpI: "(\<And>x. c = Some x \<Longrightarrow> Q x) \<Longrightarrow> wlp c Q"
  by (simp add: wlp_def split: option.split)

lemma wlpD: "wlp c Q \<Longrightarrow> c = Some x \<Longrightarrow> Q x"
  by (simp add: wlp_def)

lemma wlp_if: "(b \<Longrightarrow> wlp c Q) \<Longrightarrow> (\<not> b \<Longrightarrow> wlp d Q) \<Longrightarrow> wlp (if b then c else d) Q"
  by simp

lemma wlp_option: "(x = None \<Longrightarrow> wlp c Q) \<Longrightarrow> (\<And>y. x = Some y \<Longrightarrow> wlp (d y) Q) \<Longrightarrow>
    wlp (case x of None \<Rightarrow> c | Some y \<Rightarrow> d y) Q"
  by (cases x) simp_all

lemma wlp_prod: "(\<And>a b. x = (a, b) \<Longrightarrow> wlp (f a b) Q) \<Longrightarrow> wlp (case x of (a, b) \<Rightarrow> f a b) Q"
  by (cases x) simp

lemmas keep_vcg = wlp_if wlp_option wlp_prod wlpI

section \<open>Well-formed sessions\<close>

definition transport_ok :: "smb_transport \<Rightarrow> bool" where
  "transport_ok t \<longleftrightarrow> tr_session t \<noteq> None \<and>
     (t = new_transport\<lparr>tr_session := tr_session t\<rparr> \<or> t = smb_transport_tcp t \<or> t = smb_transport_nbt t)"

text \<open>
  The transport has its NetBIOS session, and its function table is empty or complete; the
  server's name is an array of 16 bytes; a guest is logged in; every open file belongs to the
  share that lists it.
\<close>

definition session_wf :: "smb_session \<Rightarrow> bool" where
  "session_wf s \<longleftrightarrow> transport_ok (transport s) \<and> length (srv_name (srv s)) = 16 \<and> (guest s \<longrightarrow> logged s) \<and> files_inv s"

definition session_keeps :: "smb_session \<Rightarrow> smb_session \<Rightarrow> bool" where
  "session_keeps s s' \<longleftrightarrow> (session_wf s \<longrightarrow> session_wf s') \<and> spnego_asn1 s' = spnego_asn1 s"

lemma keeps_refl: "session_keeps s s"
  by (simp add: session_keeps_def)

lemma keeps_trans: "session_keeps s s' \<Longrightarrow> session_keeps s' s'' \<Longrightarrow> session_keeps s s''"
  by (simp add: session_keeps_def)

lemma files_inv_frame: "shares s' = shares s \<Longrightarrow> files_inv s' = files_inv s"
  by (simp add: files_inv_def)

lemma keeps_with_ns: "session_keeps s (with_ns s ns)"
  by (cases "transport s") (auto simp: session_keeps_def session_wf_def transport_ok_def with_ns_def smb_transport_tcp_def smb_transport_nbt_def
      files_inv_def new_transport_def)

lemma keeps_update:
  "session_keeps s (s\<lparr>nt_status := x\<rparr>)" "session_keeps s (s\<lparr>creds := c\<rparr>)" "session_keeps s (s\<lparr>xsec_target := b\<rparr>)"
  "srv_name v = srv_name (srv s) \<Longrightarrow> session_keeps s (s\<lparr>srv := v\<rparr>)"
  "length (srv_name v) = 16 \<Longrightarrow> session_keeps s (s\<lparr>srv := v\<rparr>)"
  "srv_name v = srv_name (srv s) \<Longrightarrow> session_keeps s (s\<lparr>srv := v, logged := False, guest := False\<rparr>)"
  "srv_name v = srv_name (srv s) \<Longrightarrow> session_keeps s (s\<lparr>xsec_target := b, srv := v\<rparr>)"
  by (auto simp: session_keeps_def session_wf_def files_inv_def)

lemma keeps_shares:
  assumes "files_inv s \<Longrightarrow> files_inv (s\<lparr>shares := x\<rparr>)"
  shows "session_keeps s (s\<lparr>shares := x\<rparr>)"
  using assms by (auto simp: session_keeps_def session_wf_def)

lemma keeps_note_login: "session_keeps s (note_login s a u)"
  by (auto simp: note_login_def session_keeps_def session_wf_def files_inv_def Let_def)

lemma keeps_share_add: "sh_files sh = [] \<Longrightarrow> session_keeps s (smb_session_share_add s sh)"
  unfolding smb_session_share_add_def by (rule keeps_shares) (simp add: files_inv_def)

lemma unlink_next_subset: "set (snd (unlink_next P xs)) \<subseteq> set xs"
  by (induction P xs rule: unlink_next.induct) (auto split: prod.splits if_splits)

lemma keeps_file_add: "f_tid f = tid \<Longrightarrow> smb_session_file_add s tid f = (r, s') \<Longrightarrow> session_keeps s s'"
  by (auto simp: smb_session_file_add_def keeps_refl split: option.splits intro!: keeps_shares files_inv_update)

lemma keeps_update_file: "(\<And>f. f_tid (g f) = f_tid f) \<Longrightarrow> session_keeps s (session_update_file fd g s)"
proof -
  assume g: "\<And>f. f_tid (g f) = f_tid f"
  have "list_all (\<lambda>f. f_tid f = t) fs \<Longrightarrow> list_all (\<lambda>f. f_tid f = t) (update_file k g fs)" for t k fs
    using g by (induction fs) auto
  then show ?thesis unfolding session_update_file_def by (intro keeps_shares files_inv_update) auto
qed

lemma keeps_file_remove:
  assumes "smb_session_file_remove s fd = Some (f, s')"
  shows "session_keeps s s'"
proof -
  have "files_inv (s\<lparr>shares := update_share t (\<lambda>sh. sh\<lparr>sh_files := fs\<rparr>) (shares s)\<rparr>)"
    if "files_inv s" "smb_session_share_get s t = Some sh" "set fs \<subseteq> set (sh_files sh)" for t fs sh
  proof (rule files_inv_update [OF that(1)])
    have "sh \<in> set (shares s)" "sh_tid sh = t"
      using that(2) share_loop_mem share_loop_tid by (auto simp: smb_session_share_get_def)
    then show "list_all (\<lambda>f. f_tid f = t) (sh_files (x\<lparr>sh_files := fs\<rparr>))" for x :: smb_share
      using that by (auto simp: files_inv_def list_all_iff)
  qed simp
  note inv = this
  show ?thesis
  proof (cases "smb_session_share_get s (SMB_FD_TID fd)")
    case None
    then show ?thesis using assms by (auto simp: smb_session_file_remove_def keeps_refl split: bind_splits)
  next
    case (Some sh)
    show ?thesis
    proof (cases "sh_files sh")
      case Nil
      then show ?thesis using assms Some by (auto simp: smb_session_file_remove_def keeps_refl split: bind_splits)
    next
      case (Cons iter rest)
      obtain fs where fs: "s' = s\<lparr>shares := update_share (SMB_FD_TID fd) (\<lambda>sh. sh\<lparr>sh_files := fs\<rparr>) (shares s)\<rparr>"
        "fs = rest \<or> fs = snd (unlink_next (\<lambda>f. f_fid f = SMB_FD_TID fd) (sh_files sh))"
        using assms Some Cons by (auto simp: smb_session_file_remove_def split_def Let_def split: bind_splits if_splits)
      then have "set fs \<subseteq> set (sh_files sh)" using Cons unlink_next_subset by fastforce
      then show ?thesis using fs(1) inv [OF _ Some] by (simp add: keeps_shares)
    qed
  qed
qed

section \<open>The operations\<close>

named_theorems keep_rules \<open>what the operations keep of a session\<close>

lemma keep_send [keep_rules]:
  assumes "session_keeps s0 s" and Q: "\<And>r s' m' w'. session_keeps s0 s' \<Longrightarrow> Q (r, s', m', w')"
  shows "wlp (smb_session_send_msg w s m) Q"
proof (rule wlpI)
  fix x assume "smb_session_send_msg w s m = Some x"
  then obtain r ns m' w' where "x = (r, with_ns s ns, m', w')"
    by (auto simp: smb_session_send_msg_def Let_def split: bind_splits if_splits)
  then show "Q x" using Q keeps_trans [OF assms(1) keeps_with_ns] by auto
qed

lemma keep_recv [keep_rules]:
  assumes "session_keeps s0 s" and Q: "\<And>n m s' w'. session_keeps s0 s' \<Longrightarrow> Q (n, m, s', w')"
  shows "wlp (smb_session_recv_msg w s) Q"
proof (rule wlpI)
  fix x assume "smb_session_recv_msg w s = Some x"
  then obtain n ns m w' where "x = (n, m, with_ns s ns, w')"
    by (auto simp: smb_session_recv_msg_def Let_def split: bind_splits if_splits)
  then show "Q x" using Q keeps_trans [OF assms(1) keeps_with_ns] by auto
qed

lemma keep_check [keep_rules]:
  assumes "session_keeps s0 s" and Q: "\<And>ok s'. session_keeps s0 s' \<Longrightarrow> Q (ok, s')"
  shows "wlp (smb_session_check_nt_status s m) Q"
  using assms keeps_trans [OF assms(1) keeps_update(1)]
  by (auto simp: smb_session_check_nt_status_def wlp_def split: option.splits bind_splits if_splits)

lemma keep_seek [keep_rules]:
  assumes "session_keeps s0 s" and Q: "\<And>r s'. session_keeps s0 s' \<Longrightarrow> Q (r, s')"
  shows "wlp (smb_fseek s fd off wh) Q"
proof -
  have "f_tid (seek_to off wh f) = f_tid f" for f by (simp add: seek_to_def)
  from keeps_trans [OF assms(1) keeps_update_file [OF this]] show ?thesis
    using assms by (auto simp: smb_fseek_def wlp_def split: option.splits bind_splits)
qed

lemma keep_empty [keep_rules]:
  assumes "session_keeps s0 s" and "\<And>r s' w'. session_keeps s0 s' \<Longrightarrow> Q (r, s', w')"
  shows "wlp (expect_empty w s m L) Q"
  unfolding expect_empty_def wlp_simps
  by ((simp only: split_paired_all prod.case wlp_simps | assumption | rule assms keep_rules | rule keep_vcg)+)

lemma keep_fopen [keep_rules]:
  assumes "session_keeps s0 s" and Q: "\<And>r fd s' w'. session_keeps s0 s' \<Longrightarrow> Q (r, fd, s', w')"
  shows "wlp (smb_fopen w s tid path fl) Q"
proof -
  have add: "wlp (file_of_reply tid m) (\<lambda>f. wlp (case smb_session_file_add s1 tid f of (x, s) \<Rightarrow>
      Some (DSM_SUCCESS, Some (SMB_FD tid (f_fid f)), s, w1)) Q)" if "session_keeps s0 s1" for m s1 w1
  proof (rule wlpI)
    fix f assume "file_of_reply tid m = Some f"
    then have "f_tid f = tid" by (auto simp: file_of_reply_def Let_def split: bind_splits)
    then show "wlp (case smb_session_file_add s1 tid f of (x, s) \<Rightarrow>
      Some (DSM_SUCCESS, Some (SMB_FD tid (f_fid f)), s, w1)) Q"
      using Q keeps_trans [OF that keeps_file_add] by (auto simp: wlp_simps split: prod.splits)
  qed
  show ?thesis
    unfolding smb_fopen_def Let_def wlp_simps
    by ((simp only: split_paired_all prod.case wlp_simps | assumption | rule assms keep_rules add | rule keep_vcg)+)
qed

lemma keep_remove [keep_rules]:
  assumes "session_keeps s0 s" and Q: "\<And>f s'. session_keeps s0 s' \<Longrightarrow> Q (f, s')"
  shows "wlp (smb_session_file_remove s fd) Q"
  using assms keeps_trans [OF assms(1) keeps_file_remove] by (auto intro!: wlpI)

lemma keep_fclose [keep_rules]:
  assumes "session_keeps s0 s" and "\<And>s' w'. session_keeps s0 s' \<Longrightarrow> Q (s', w')"
  shows "wlp (smb_fclose w s fd) Q"
  unfolding smb_fclose_def wlp_simps
  by ((simp only: split_paired_all prod.case wlp_simps | assumption | rule assms keep_rules | rule keep_vcg)+)

lemma keep_fread [keep_rules]:
  assumes "session_keeps s0 s" and "\<And>r b s' w'. session_keeps s0 s' \<Longrightarrow> Q (r, b, s', w')"
  shows "wlp (smb_fread w s fd buf n) Q"
  unfolding smb_fread_def fread_deliver_def Let_def wlp_simps
  by ((simp only: split_paired_all prod.case wlp_simps | assumption | rule assms keep_rules | rule keep_vcg)+)

lemma keep_fwrite [keep_rules]:
  assumes "session_keeps s0 s" and "\<And>r s' w'. session_keeps s0 s' \<Longrightarrow> Q (r, s', w')"
  shows "wlp (smb_fwrite w s fd buf n) Q"
  unfolding smb_fwrite_def Let_def wlp_simps
  by ((simp only: split_paired_all prod.case wlp_simps | assumption | rule assms keep_rules | rule keep_vcg)+)

lemma keep_paths [keep_rules]:
  assumes "session_keeps s0 s" and "\<And>r s' w'. session_keeps s0 s' \<Longrightarrow> Q (r, s', w')"
  shows "wlp (smb_file_rm w s tid path) Q" "wlp (smb_directory_rm w s tid path) Q"
    "wlp (smb_directory_create w s tid path) Q" "wlp (smb_file_mv w s tid path path') Q"
  unfolding smb_file_rm_def smb_directory_rm_def smb_directory_create_def smb_file_mv_def wlp_simps
  by ((simp only: split_paired_all prod.case wlp_simps | assumption | rule assms keep_rules | rule keep_vcg)+)

lemma keep_tree_connect [keep_rules]:
  assumes "session_keeps s0 s" and Q: "\<And>r tid s' w'. session_keeps s0 s' \<Longrightarrow> Q (r, tid, s', w')"
  shows "wlp (smb_tree_connect w s name) Q"
proof -
  have add: "wlp (share_of_reply m) (\<lambda>share. wlp (case share of Inl err \<Rightarrow> Some (err, None, s1, w1)
      | Inr share \<Rightarrow> Some (0, Some (sh_tid share), smb_session_share_add s1 share, w1)) Q)" if "session_keeps s0 s1" for m s1 w1
  proof (rule wlpI)
    fix share assume "share_of_reply m = Some share"
    then have "\<And>sh. share = Inr sh \<Longrightarrow> sh_files sh = []"
      by (auto simp: share_of_reply_def new_share_def split: bind_splits if_splits)
    then show "wlp (case share of Inl err \<Rightarrow> Some (err, None, s1, w1)
      | Inr share \<Rightarrow> Some (0, Some (sh_tid share), smb_session_share_add s1 share, w1)) Q"
      using Q that keeps_trans [OF that keeps_share_add] by (auto simp: wlp_simps split: sum.split)
  qed
  show ?thesis
    unfolding smb_tree_connect_def Let_def wlp_simps
    by ((simp only: split_paired_all prod.case wlp_simps | assumption | rule assms keep_rules add | rule keep_vcg)+)
qed

lemma keep_tree_disconnect [keep_rules]:
  assumes "session_keeps s0 s" and "\<And>r s' w'. session_keeps s0 s' \<Longrightarrow> Q (r, s', w')"
  shows "wlp (smb_tree_disconnect w s tid) Q"
  unfolding smb_tree_disconnect_def wlp_simps
  by ((simp only: split_paired_all prod.case wlp_simps | assumption | rule assms keep_rules | rule keep_vcg)+)

lemma keep_finish [keep_rules]:
  assumes "session_keeps s0 s" and "\<And>r l n s' w'. session_keeps s0 s' \<Longrightarrow> Q (r, l, n, s', w')"
  shows "wlp (finish_list w s fd ret lst cnt) Q"
  unfolding finish_list_def wlp_simps
  by ((simp only: split_paired_all prod.case wlp_simps | assumption | rule assms keep_rules | rule keep_vcg)+)

lemma keep_list2 [keep_rules]:
  assumes "session_keeps s0 s" and "\<And>r l n s' w'. session_keeps s0 s' \<Longrightarrow> Q (r, l, n, s', w')"
  shows "wlp (list_phase2 w s tid fd resp) Q"
  unfolding list_phase2_def Let_def wlp_simps
  by ((simp only: split_paired_all prod.case wlp_simps | assumption | rule assms keep_rules | rule keep_vcg)+)

lemma keep_share_list [keep_rules]:
  assumes "session_keeps s0 s" and "\<And>r l n s' w'. session_keeps s0 s' \<Longrightarrow> Q (r, l, n, s', w')"
  shows "wlp (smb_share_get_list w s) Q"
  unfolding smb_share_get_list_def list_phase1_def wlp_simps
  by ((simp only: split_paired_all prod.case wlp_simps | assumption | rule assms keep_rules | rule keep_vcg)+)

lemma keep_fstat [keep_rules]:
  assumes "session_keeps s0 s" and "\<And>f s' w'. session_keeps s0 s' \<Longrightarrow> Q (f, s', w')"
  shows "wlp (smb_fstat w s tid path) Q"
  unfolding smb_fstat_def Let_def wlp_simps
  by ((simp only: split_paired_all prod.case wlp_simps | assumption | rule assms keep_rules | rule keep_vcg)+)

lemma keep_tr2_loop [keep_rules]:
  assumes "session_keeps s0 s" and Q: "\<And>m s' w'. session_keeps s0 s' \<Longrightarrow> Q (m, s', w')"
  shows "wlp (smb_tr2_recv_loop w s res rem) Q"
proof -
  have "session_keeps s0 s \<longrightarrow> session_keeps s0 (fst (snd y))" if "smb_tr2_recv_loop w s res rem = Some y" for w s res rem y
  proof (rule smb_tr2_recv_loop.raw_induct [OF _ that, where P = "\<lambda>w s res rem y. session_keeps s0 s \<longrightarrow> session_keeps s0 (fst (snd y))"])
    fix f and w :: world and s :: smb_session and res rem y
    assume 1: "\<And>w s res rem y. f w s res rem = Some y \<Longrightarrow> session_keeps s0 s \<longrightarrow> session_keeps s0 (fst (snd y))"
      "(if rem \<le> 0 then Some (res, s, w)
      else do {
        (n, recv, s, w) \<leftarrow> smb_session_recv_msg w s;
        if n = 0 then Some (res, s, w)
        else do {
          (res, w) \<leftarrow> tr2_join w res recv;
          remaining \<leftarrow> tr2_remaining recv;
          f w s res remaining
        }
      }) = Some y"
    have ih: "wlp (f w s res rem) (\<lambda>y. session_keeps s0 (fst (snd y)))" if "session_keeps s0 s" for w s res rem
      using 1(1) that by (auto intro: wlpI)
    have "wlp (if rem \<le> 0 then Some (res, s, w)
      else do {
        (n, recv, s, w) \<leftarrow> smb_session_recv_msg w s;
        if n = 0 then Some (res, s, w)
        else do {
          (res, w) \<leftarrow> tr2_join w res recv;
          remaining \<leftarrow> tr2_remaining recv;
          f w s res remaining
        }
      }) (\<lambda>y. session_keeps s0 (fst (snd y)))" if "session_keeps s0 s"
      by ((simp only: split_paired_all prod.case wlp_simps fst_conv snd_conv | assumption | rule that ih keep_rules | rule keep_vcg)+)
    then show "session_keeps s0 s \<longrightarrow> session_keeps s0 (fst (snd y))" using 1(2) by (auto dest: wlpD)
  qed
  then show ?thesis using assms by (auto intro!: wlpI)
qed

lemma keep_tr2_recv [keep_rules]:
  assumes "session_keeps s0 s" and "\<And>m s' w'. session_keeps s0 s' \<Longrightarrow> Q (m, s', w')"
  shows "wlp (smb_tr2_recv w s) Q"
  unfolding smb_tr2_recv_def wlp_simps
  by ((simp only: split_paired_all prod.case wlp_simps | assumption | rule assms keep_rules | rule keep_vcg)+)

lemma keep_trans2_find [keep_rules]:
  assumes "session_keeps s0 s" and "\<And>m s' w'. session_keeps s0 s' \<Longrightarrow> Q (m, s', w')"
  shows "wlp (trans2_find cmd L fnd w s tid pat) Q"
  unfolding trans2_find_def Let_def wlp_simps
  by ((simp only: split_paired_all prod.case wlp_simps | assumption | rule assms keep_rules | rule keep_vcg)+)

lemma keep_find_loop [keep_rules]:
  assumes "session_keeps s0 s" and Q: "\<And>fs s' w'. session_keeps s0 s' \<Longrightarrow> Q (fs, s', w')"
  shows "wlp (smb_find_loop w s tid pat sid files e k err) Q"
proof -
  have "session_keeps s0 s \<longrightarrow> session_keeps s0 (fst (snd y))" if "smb_find_loop w s tid pat sid files e k err = Some y"
    for w s tid pat sid files e k err y
  proof (rule smb_find_loop.raw_induct [OF _ that, where P = "\<lambda>w s tid pat sid files e k err y. session_keeps s0 s \<longrightarrow> session_keeps s0 (fst (snd y))"])
    fix f and w :: world and s :: smb_session and tid :: u16 and pat sid files e k err y
    assume 1: "\<And>w s tid pat sid files e k err y. f w s tid pat sid files e k err = Some y \<Longrightarrow> session_keeps s0 s \<longrightarrow> session_keeps s0 (fst (snd y))"
      "(if e \<or> err \<noteq> 0 then Some (files, s, w)
      else do {
        (msg, s, w) \<leftarrow> smb_trans2_find_next w s tid k sid pat;
        if msg = None then Some ([], s, w)
        else do {
          (end_of_search, resume_key, error_offset) \<leftarrow> search_state smb_tr2_findnext2_params msg;
          (files, w) \<leftarrow> smb_find_next_parse w msg files;
          f w s tid pat sid files (end_of_search \<or> files = []) resume_key error_offset
        }
      }) = Some y"
    have ih: "wlp (f w s tid pat sid files e k err) (\<lambda>y. session_keeps s0 (fst (snd y)))" if "session_keeps s0 s"
      for w s tid pat sid files e k err
      using 1(1) that by (auto intro: wlpI)
    have "wlp (if e \<or> err \<noteq> 0 then Some (files, s, w)
      else do {
        (msg, s, w) \<leftarrow> smb_trans2_find_next w s tid k sid pat;
        if msg = None then Some ([], s, w)
        else do {
          (end_of_search, resume_key, error_offset) \<leftarrow> search_state smb_tr2_findnext2_params msg;
          (files, w) \<leftarrow> smb_find_next_parse w msg files;
          f w s tid pat sid files (end_of_search \<or> files = []) resume_key error_offset
        }
      }) (\<lambda>y. session_keeps s0 (fst (snd y)))" if "session_keeps s0 s"
      unfolding smb_trans2_find_next_def
      by ((simp only: split_paired_all prod.case wlp_simps fst_conv snd_conv | assumption | rule that ih keep_rules | rule keep_vcg)+)
    then show "session_keeps s0 s \<longrightarrow> session_keeps s0 (fst (snd y))" using 1(2) by (auto dest: wlpD)
  qed
  then show ?thesis using assms by (auto intro!: wlpI)
qed

lemma keep_find [keep_rules]:
  assumes "session_keeps s0 s" and "\<And>fs s' w'. session_keeps s0 s' \<Longrightarrow> Q (fs, s', w')"
  shows "wlp (smb_find w s tid pat) Q"
  unfolding smb_find_def smb_trans2_find_first_def wlp_simps
  by ((simp only: split_paired_all prod.case wlp_simps | assumption | rule assms keep_rules | rule keep_vcg)+)

lemma keep_srv_of_reply [keep_rules]:
  assumes "session_keeps s0 s" and Q: "\<And>s'. session_keeps s0 s' \<Longrightarrow> Q s'"
  shows "wlp (srv_of_reply s m) Q"
proof (rule wlpI)
  fix s' assume "srv_of_reply s m = Some s'"
  then obtain v where "s' = s\<lparr>srv := v\<rparr>" "srv_name v = srv_name (srv s)"
    by (cases s) (auto simp: srv_of_reply_def Let_def split: bind_splits if_splits)
  then show "Q s'" using Q keeps_trans [OF assms(1) keeps_update(4)] by simp
qed

lemma keep_negotiate [keep_rules]:
  assumes "session_keeps s0 s" and "\<And>r s' w'. session_keeps s0 s' \<Longrightarrow> Q (r, s', w')"
  shows "wlp (smb_negotiate w s) Q"
  unfolding smb_negotiate_def wlp_simps
  by ((simp only: split_paired_all prod.case wlp_simps | assumption | rule assms keep_rules | rule keep_vcg)+)

lemma keep_disconnect: "session_keeps s (session_disconnect s)"
  by (cases "transport s")
    (auto simp: session_keeps_def session_wf_def transport_ok_def session_disconnect_def smb_transport_tcp_def smb_transport_nbt_def
      files_inv_def new_transport_def netbios_session_disconnect_def split: option.splits)

lemma keep_transport: "session_keeps s (s\<lparr>transport := smb_transport_tcp (transport s)\<rparr>)"
    "session_keeps s (s\<lparr>transport := smb_transport_nbt (transport s)\<rparr>)"
  by (cases "transport s"; auto simp: session_keeps_def session_wf_def transport_ok_def smb_transport_tcp_def smb_transport_nbt_def
      files_inv_def)+

lemma keep_connect [keep_rules]:
  assumes s: "session_keeps s0 s" and Q: "\<And>r s' w'. session_keeps s0 s' \<Longrightarrow> Q (r, s', w')"
  shows "wlp (smb_session_connect w s name ip tr) Q"
proof -
  let ?d = "session_disconnect s"
  let ?t = "?d\<lparr>transport := (if tr = SMB_TRANSPORT_TCP then smb_transport_tcp else smb_transport_nbt) (transport ?d)\<rparr>"
  have d: "session_keeps s0 ?d" using keeps_trans [OF s keep_disconnect] .
  have t: "session_keeps s0 ?t" using keeps_trans [OF d keep_transport(1)] keeps_trans [OF d keep_transport(2)] by simp
  have ns: "session_keeps s0 (with_ns ?t ns)" for ns using keeps_trans [OF t keeps_with_ns] .
  have nm: "wlp (buf_write (srv_name (srv s1)) 0 b) (\<lambda>nm. wlp (smb_negotiate w1 (s1\<lparr>srv := (srv s1)\<lparr>srv_name := nm\<rparr>\<rparr>)) Q)"
    if "session_keeps s0 s1" for s1 b w1
  proof (rule wlpI)
    fix nm assume "buf_write (srv_name (srv s1)) 0 b = Some nm"
    then have "length nm = length (srv_name (srv s1))" by (rule buf_write_length)
    then have "session_keeps s1 (s1\<lparr>srv := (srv s1)\<lparr>srv_name := nm\<rparr>\<rparr>)" by (simp add: session_keeps_def session_wf_def files_inv_def)
    then show "wlp (smb_negotiate w1 (s1\<lparr>srv := (srv s1)\<lparr>srv_name := nm\<rparr>\<rparr>)) Q"
      using keeps_trans [OF that] Q by (blast intro: keep_negotiate)
  qed
  show ?thesis
    unfolding smb_session_connect_def Let_def wlp_simps
    by ((simp only: split_paired_all prod.case wlp_simps | assumption | rule Q d ns nm | rule keep_vcg)+)
qed

section \<open>Logins\<close>

lemma keep_login_ntlm [keep_rules]:
  assumes "session_keeps s0 s" and "\<And>r s' w'. session_keeps s0 s' \<Longrightarrow> Q (r, s', w')"
  shows "wlp (smb_session_login_ntlm w s domain user password) Q"
  unfolding smb_session_login_ntlm_def Let_def wlp_simps
  by ((simp only: split_paired_all prod.case wlp_simps | assumption | rule assms keep_rules keeps_trans [OF _ keeps_note_login] | rule keep_vcg)+)

lemma keep_spnego_negotiate [keep_rules]:
  assumes "session_keeps s0 s" and "\<And>r s' w'. session_keeps s0 s' \<Longrightarrow> Q (r, s', w')"
  shows "wlp (spnego_negotiate lib w s domain) Q"
  unfolding spnego_negotiate_def Let_def wlp_simps
  by ((simp only: split_paired_all prod.case wlp_simps | assumption | rule assms keep_rules | rule keep_vcg)+)

lemma keep_take_challenge [keep_rules]:
  assumes "session_keeps s0 s" and Q: "\<And>r s' w'. session_keeps s0 s' \<Longrightarrow> Q (r, s', w')"
  shows "wlp (take_challenge w s m tok) Q"
proof (rule wlpI)
  fix x assume "take_challenge w s m tok = Some x"
  then obtain r b v w' where "x = (r, s\<lparr>xsec_target := b, srv := v\<rparr>, w')" "srv_name v = srv_name (srv s)"
    by (cases s) (auto simp: take_challenge_def Let_def split: bind_splits if_splits prod.splits)
  then show "Q x" using Q keeps_trans [OF assms(1) keeps_update(7)] by simp
qed

lemma keep_spnego_challenge [keep_rules]:
  assumes "session_keeps s0 s" and "\<And>r s' w'. session_keeps s0 s' \<Longrightarrow> Q (r, s', w')"
  shows "wlp (spnego_challenge lib w s) Q"
  unfolding spnego_challenge_def Let_def wlp_simps
  by ((simp only: split_paired_all prod.case wlp_simps | assumption | rule assms keep_rules | rule keep_vcg)+)

lemma keep_spnego_auth [keep_rules]:
  assumes "session_keeps s0 s" and "\<And>r s' w'. session_keeps s0 s' \<Longrightarrow> Q (r, s', w')"
  shows "wlp (spnego_auth lib w s domain user password) Q"
  unfolding spnego_auth_def Let_def wlp_simps
  by ((simp only: split_paired_all prod.case wlp_simps | assumption | rule assms keep_rules keeps_trans [OF _ keeps_note_login] | rule keep_vcg)+)

text \<open>What is relied on of the ASN.1 library: a compilation that fails leaves no definitions behind.\<close>

definition asn1_clean :: "'t asn1_lib \<Rightarrow> bool" where
  "asn1_clean lib \<longleftrightarrow> (fst (asn1_array2tree lib) \<noteq> ASN1_SUCCESS \<longrightarrow> snd (asn1_array2tree lib) = None)"

lemma keeps_clean:
  "session_keeps (s\<lparr>spnego_asn1 := b\<rparr>) s' \<Longrightarrow> \<not> spnego_asn1 s \<Longrightarrow> session_keeps s (clean_asn1 s')"
  by (auto simp: session_keeps_def session_wf_def files_inv_def clean_asn1_def)

lemma keep_login_spnego [keep_rules]:
  assumes lib: "asn1_clean lib" and s: "session_keeps s0 s" and Q: "\<And>r s' w'. session_keeps s0 s' \<Longrightarrow> Q (r, s', w')"
  shows "wlp (smb_session_login_spnego lib w s domain user password) Q"
proof -
  let ?u = "s\<lparr>srv := (srv s)\<lparr>srv_uid := 0\<rparr>\<rparr>"
  have u: "session_keeps s0 ?u" using keeps_trans [OF s keeps_update(4)] by simp
  show ?thesis
  proof (cases "spnego_asn1 s")
    case True
    then show ?thesis
      using Q [OF u] by (simp add: smb_session_login_spnego_def init_asn1_def wlp_simps dsm_consts)
  next
    case False
    obtain res tree where t: "asn1_array2tree lib = (res, tree)" by fastforce
    let ?i = "?u\<lparr>spnego_asn1 := tree \<noteq> None\<rparr>"
    have i: "session_keeps ?i ?i" by (rule keeps_refl)
    have fin: "Q (r, clean_asn1 s', w')" if "session_keeps ?i s'" for r s' w'
      using Q keeps_trans [OF u keeps_clean [OF that]] False by simp
    have fail: "wlp (Some (DSM_ERROR_GENERIC, ?i, w)) Q" if "tree = None"
      using Q u that False by (simp add: wlp_simps session_keeps_def session_wf_def files_inv_def)
    have run: "wlp (do { (res, s, w) \<leftarrow> spnego_negotiate lib w ?i domain;
       if res \<noteq> DSM_SUCCESS then Some (res, clean_asn1 s, w)
       else do {
         (res, s, w) \<leftarrow> spnego_challenge lib w s;
         if res \<noteq> DSM_SUCCESS then Some (res, clean_asn1 s, w)
         else do {
           (res, s, w) \<leftarrow> spnego_auth lib w s domain user password;
           Some (res, clean_asn1 s, w)
         }
       } }) Q"
      by ((simp only: split_paired_all prod.case wlp_simps | assumption | rule fin i keep_rules | rule keep_vcg)+)
    have eq: "init_asn1 lib ?u = (if res \<noteq> ASN1_SUCCESS then (DSM_ERROR_GENERIC, ?i) else (DSM_SUCCESS, ?i))"
      using False t by (simp add: init_asn1_def)
    show ?thesis
      unfolding smb_session_login_spnego_def Let_def eq
      using run fail lib t by (auto simp: asn1_clean_def dsm_consts)
  qed
qed

lemma keep_login [keep_rules]:
  assumes "asn1_clean lib" and "session_keeps s0 s" and "\<And>r s' w'. session_keeps s0 s' \<Longrightarrow> Q (r, s', w')"
  shows "wlp (smb_session_login lib w s) Q"
  unfolding smb_session_login_def
  by ((simp only: split_paired_all prod.case wlp_simps | assumption | rule assms keep_rules | rule keep_vcg)+)

lemma keep_logoff [keep_rules]:
  assumes "session_keeps s0 s" and Q: "\<And>r s' w'. session_keeps s0 s' \<Longrightarrow> Q (r, s', w')"
  shows "wlp (smb_session_logoff w s) Q"
proof -
  have out: "Q (r, s1\<lparr>srv := (srv s1)\<lparr>srv_uid := 0\<rparr>, logged := False, guest := False\<rparr>, w1)" if "session_keeps s0 s1" for r s1 w1
    using Q keeps_trans [OF that keeps_update(6)] by simp
  show ?thesis
    unfolding smb_session_logoff_def wlp_simps
    by ((simp only: split_paired_all prod.case wlp_simps | assumption | rule assms out keep_rules | rule keep_vcg)+)
qed

section \<open>Sequences of calls\<close>

inductive session_call :: "'t asn1_lib \<Rightarrow> smb_session \<Rightarrow> smb_session \<Rightarrow> bool" for lib :: "'t asn1_lib" where
  connect: "smb_session_connect w s name ip tr = Some (r, s', w') \<Longrightarrow> session_call lib s s'"
| set_creds: "smb_session_set_creds w s domain user password = (s', w') \<Longrightarrow> session_call lib s s'"
| login: "smb_session_login lib w s = Some (r, s', w') \<Longrightarrow> session_call lib s s'"
| logoff: "smb_session_logoff w s = Some (r, s', w') \<Longrightarrow> session_call lib s s'"
| abort: "smb_session_abort s = Some s' \<Longrightarrow> session_call lib s s'"
| tree_connect: "smb_tree_connect w s name = Some (r, tid, s', w') \<Longrightarrow> session_call lib s s'"
| tree_disconnect: "smb_tree_disconnect w s tid = Some (r, s', w') \<Longrightarrow> session_call lib s s'"
| share_list: "smb_share_get_list w s = Some (r, l, n, s', w') \<Longrightarrow> session_call lib s s'"
| fopen: "smb_fopen w s tid path fl = Some (r, fd, s', w') \<Longrightarrow> session_call lib s s'"
| fclose: "smb_fclose w s fd = Some (s', w') \<Longrightarrow> session_call lib s s'"
| fread: "smb_fread w s fd buf sz = Some (r, buf', s', w') \<Longrightarrow> session_call lib s s'"
| fwrite: "smb_fwrite w s fd buf sz = Some (r, s', w') \<Longrightarrow> session_call lib s s'"
| fseek: "smb_fseek s fd off wh = Some (r, s') \<Longrightarrow> session_call lib s s'"
| fstat: "smb_fstat w s tid path = Some (f, s', w') \<Longrightarrow> session_call lib s s'"
| find: "smb_find w s tid pattern = Some (fs, s', w') \<Longrightarrow> session_call lib s s'"
| file_rm: "smb_file_rm w s tid path = Some (r, s', w') \<Longrightarrow> session_call lib s s'"
| file_mv: "smb_file_mv w s tid path path' = Some (r, s', w') \<Longrightarrow> session_call lib s s'"
| directory_rm: "smb_directory_rm w s tid path = Some (r, s', w') \<Longrightarrow> session_call lib s s'"
| directory_create: "smb_directory_create w s tid path = Some (r, s', w') \<Longrightarrow> session_call lib s s'"

lemma call_keeps:
  assumes "asn1_clean lib" and "session_call lib s s'"
  shows "session_keeps s s'"
  using assms(2)
proof cases
  case (set_creds w domain user password w')
  then show ?thesis using keeps_update(2) by (auto simp: smb_session_set_creds_def split: prod.splits)
next
  case abort
  then show ?thesis using keeps_with_ns by (auto simp: smb_session_abort_def split: bind_splits)
next
  case (connect w name ip tr r w')
  then show ?thesis using wlpD [OF keep_connect [OF keeps_refl, where Q = "\<lambda>(r, s', w'). session_keeps s s'"]] by fastforce
next
  case (login w r w')
  then show ?thesis using wlpD [OF keep_login [OF assms(1) keeps_refl, where Q = "\<lambda>(r, s', w'). session_keeps s s'"]] by fastforce
next
  case (logoff w r w')
  then show ?thesis using wlpD [OF keep_logoff [OF keeps_refl, where Q = "\<lambda>(r, s', w'). session_keeps s s'"]] by fastforce
next
  case (tree_connect w name r tid w')
  then show ?thesis using wlpD [OF keep_tree_connect [OF keeps_refl, where Q = "\<lambda>(r, t, s', w'). session_keeps s s'"]] by fastforce
next
  case (tree_disconnect w tid r w')
  then show ?thesis using wlpD [OF keep_tree_disconnect [OF keeps_refl, where Q = "\<lambda>(r, s', w'). session_keeps s s'"]] by fastforce
next
  case (share_list w r l n w')
  then show ?thesis using wlpD [OF keep_share_list [OF keeps_refl, where Q = "\<lambda>(r, l, n, s', w'). session_keeps s s'"]] by fastforce
next
  case (fopen w tid path fl r fd w')
  then show ?thesis using wlpD [OF keep_fopen [OF keeps_refl, where Q = "\<lambda>(r, fd, s', w'). session_keeps s s'"]] by fastforce
next
  case (fclose w fd w')
  then show ?thesis using wlpD [OF keep_fclose [OF keeps_refl, where Q = "\<lambda>(s', w'). session_keeps s s'"]] by fastforce
next
  case (fread w fd buf sz r buf' w')
  then show ?thesis using wlpD [OF keep_fread [OF keeps_refl, where Q = "\<lambda>(r, b, s', w'). session_keeps s s'"]] by fastforce
next
  case (fwrite w fd buf sz r w')
  then show ?thesis using wlpD [OF keep_fwrite [OF keeps_refl, where Q = "\<lambda>(r, s', w'). session_keeps s s'"]] by fastforce
next
  case (fseek fd off wh r)
  then show ?thesis using wlpD [OF keep_seek [OF keeps_refl, where Q = "\<lambda>(r, s'). session_keeps s s'"]] by fastforce
next
  case (fstat w tid path f w')
  then show ?thesis using wlpD [OF keep_fstat [OF keeps_refl, where Q = "\<lambda>(f, s', w'). session_keeps s s'"]] by fastforce
next
  case (find w tid pattern fs w')
  then show ?thesis using wlpD [OF keep_find [OF keeps_refl, where Q = "\<lambda>(f, s', w'). session_keeps s s'"]] by fastforce
next
  case (file_rm w tid path r w')
  then show ?thesis using wlpD [OF keep_paths(1) [OF keeps_refl, where Q = "\<lambda>(r, s', w'). session_keeps s s'"]] by fastforce
next
  case (file_mv w tid path path' r w')
  then show ?thesis using wlpD [OF keep_paths(4) [OF keeps_refl, where Q = "\<lambda>(r, s', w'). session_keeps s s'"]] by fastforce
next
  case (directory_rm w tid path r w')
  then show ?thesis using wlpD [OF keep_paths(2) [OF keeps_refl, where Q = "\<lambda>(r, s', w'). session_keeps s s'"]] by fastforce
next
  case (directory_create w tid path r w')
  then show ?thesis using wlpD [OF keep_paths(3) [OF keeps_refl, where Q = "\<lambda>(r, s', w'). session_keeps s s'"]] by fastforce
qed

lemma calls_keep:
  assumes "(session_call lib)\<^sup>*\<^sup>* s s'" and "asn1_clean lib"
  shows "session_keeps s s'"
  using assms
  by (induction rule: rtranclp_induct) (auto intro: keeps_refl keeps_trans call_keeps)

lemma new_session_wf: "smb_session_new w = (Some s, w') \<Longrightarrow> session_wf s \<and> \<not> spnego_asn1 s"
  by (auto simp: smb_session_new_def session_wf_def transport_ok_def zero_session_def files_inv_def new_transport_def split: if_splits prod.splits)

text \<open>
  C11 (calls). After any sequence of calls on a new session, whatever memory, network and
  server do, the session is well formed: it has its transport session, with no function
  pointer of the transport set or all of them; the server's name has its 16 bytes; a guest is
  logged in; no ASN.1 definitions of an interrupted login are left; and every open file is
  listed under the share of its tree id. So the session can be destroyed without a fault.
\<close>

theorem session_calls_wf:
  assumes "smb_session_new w = (Some s0, w0)" and "(session_call lib)\<^sup>*\<^sup>* s0 s" and "asn1_clean lib"
  shows "tr_session (transport s) \<noteq> None \<and>
     (tr_connect (transport s) = None \<and> tr_recv (transport s) = None \<and> tr_send (transport s) = None \<or>
      tr_connect (transport s) \<in> {Some transport_connect_tcp, Some transport_connect_nbt} \<and>
      tr_recv (transport s) = Some netbios_session_packet_recv \<and> tr_send (transport s) = Some netbios_session_packet_send) \<and>
     length (srv_name (srv s)) = 16 \<and> (guest s \<longrightarrow> logged s) \<and> \<not> spnego_asn1 s \<and>
     (\<forall>sh \<in> set (shares s). \<forall>f \<in> set (sh_files sh). f_tid f = sh_tid sh) \<and>
     smb_session_destroy s \<noteq> None"
proof -
  have wf: "session_wf s" "\<not> spnego_asn1 s"
    using calls_keep [OF assms(2,3)] new_session_wf [OF assms(1)] by (simp_all add: session_keeps_def)
  obtain a b c d e f g where t: "transport s = \<lparr>tr_session = a, tr_connect = b, tr_disconnect = c, tr_pkt_init = d,
     tr_pkt_append = e, tr_send = f, tr_recv = g\<rparr>" by (cases "transport s")
  show ?thesis
    using wf t
    by (auto simp: session_wf_def transport_ok_def files_inv_def list_all_iff new_transport_def smb_transport_tcp_def
        smb_transport_nbt_def smb_session_destroy_def)
qed

definition sample_asn1 :: "unit asn1_lib" where
  "sample_asn1 = \<lparr>asn1_array2tree = (0, Some ()), asn1_create_element = (\<lambda>t _. t), asn1_write_value = (\<lambda>t _ _ _. (0, t)),
     asn1_der_coding = (\<lambda>_ _ _. (0, [], 0)), asn1_der_decoding = (\<lambda>t _. (0, t)), asn1_read_value = (\<lambda>_ _ _. (0, [], 0))\<rparr>"

theorem session_calls_wf_witness:
  "\<exists>s0 s. smb_session_new sample_world = (Some s0, sample_world) \<and> (session_call sample_asn1)\<^sup>*\<^sup>* s0 s \<and>
     cr_login (creds s) = Some [85] \<and> smb_session_destroy s \<noteq> None"
proof -
  have al: "alloc_tick sample_world = sample_world" by (simp add: alloc_tick_def sample_world_def)
  obtain s0 where s0: "smb_session_new sample_world = (Some s0, sample_world)"
    using sample_world_mem mem_ok_alloc [OF sample_world_mem]
    by (simp add: smb_session_new_def smb_transport_new_session_def netbios_session_new_def c_calloc_def c_malloc_def
        netbios_abort_ctx_init_def al dsm_consts del: upt_rec_numeral)
  obtain s w' where s: "smb_session_set_creds sample_world s0 None (Some [85]) None = (s, w')" by fastforce
  have "session_call sample_asn1 s0 s" using s by (rule session_call.set_creds)
  then have c: "(session_call sample_asn1)\<^sup>*\<^sup>* s0 s" by blast
  have "asn1_clean sample_asn1" by (simp add: asn1_clean_def sample_asn1_def dsm_consts)
  note wf = session_calls_wf [OF s0 c this]
  have "cr_login (creds s) = Some [85]"
    using s mem_ok_alloc [OF sample_world_mem]
    by (auto simp: smb_session_set_creds_def set_cred_def strndup_def c_malloc_def al dsm_consts split: prod.splits if_splits)
  then show ?thesis using s0 c wf by blast
qed

end
