(* ===== verification/Share_Spec.thy ===== *)
theory Share_Spec
  imports Share File_Spec
begin

text \<open>
  What the share operations promise: the request of a tree connect and the share it enters,
  and the list of names a share enumeration yields for any bytes the server sends.
\<close>

section \<open>Connecting to a share\<close>

text \<open>A message whose payload has room for \<open>n\<close> bytes.\<close>

definition msg_room :: "nat \<Rightarrow> smb_message option \<Rightarrow> bool" where
  "msg_room n msg \<longleftrightarrow> (\<exists>m. msg = Some m \<and> n \<le> unat (payload_size m))"

lemma message_new_room: "smb_message_new w cmd = Some (Some m, w') \<Longrightarrow> payload_size m = 256"
  by (auto simp: smb_message_new_def smb_message_expand_payload_def dsm_consts Let_def
      split: option.splits prod.splits if_splits bind_splits)

lemma smb_message_new_room_ok:
  assumes "calm w0 w"
    and Q: "\<And>msg w'. msg_is (new_header cmd (w_pid w0)) [] msg \<Longrightarrow> msg_room 256 msg \<Longrightarrow> calm w0 w' \<Longrightarrow> Q (msg, w')"
  shows "wp (smb_message_new w cmd) Q"
proof -
  have "wp (smb_message_new w cmd) (\<lambda>x. smb_message_new w cmd = Some x \<and> (case x of (msg, w') \<Rightarrow>
      msg_is (new_header cmd (w_pid w0)) [] msg \<and> calm w0 w'))"
    using smb_message_new_ok [OF assms(1), of cmd "\<lambda>(msg, w'). msg_is (new_header cmd (w_pid w0)) [] msg \<and> calm w0 w'"]
    by (auto simp: wp_iff)
  then show ?thesis
    by (rule wp_mono) (auto simp: msg_room_def msg_is_def dest!: message_new_room intro!: Q)
qed

lemma set_header_room: "smb_message_set_header f v msg = Some msg' \<Longrightarrow> msg_room n msg \<Longrightarrow> msg_room n msg'"
  by (auto simp: smb_message_set_header_def msg_room_def split: bind_splits)

text \<open>On an empty message the three members lie in the unused part of the payload.\<close>

lemma set_andx_ok:
  assumes "msg_is h [] msg" and "msg_room 256 msg" and Q: "\<And>msg'. msg_is h [] msg' \<Longrightarrow> Q msg'"
  shows "wp (smb_message_set_andx_members msg) Q"
proof -
  obtain m where m: "msg = Some m" "msg_inv m" "msg_header m = enc_struct smb_header h" "msg_content m = []"
    using assms(1) by (auto simp: msg_is_def)
  obtain p where p: "packet m = Some p" "length p = 32 + unat (payload_size m)" using msg_invD [OF m(2)] by blast
  have room: "256 \<le> unat (payload_size m)" using assms(2) m(1) by (auto simp: msg_room_def)
  have c0: "cursor m = 0" using length_msg_content [OF m(2)] m(4) by (simp add: unat_eq_zero)
  have wr: "\<exists>q'. wr_field smb_session_req f v q 32 = Some q' \<and> length q' = length q \<and> take 32 q' = take 32 q"
    if "map_of smb_session_req f = Some k" "length q = length p" for f k v q
    using that room p offsetof_bound [OF that(1)] by (auto simp: wr_field_def buf_write_def)
  have f: "map_of smb_session_req ''andx'' = Some 1" "map_of smb_session_req ''andx_reserved'' = Some 1"
    "map_of smb_session_req ''andx_offset'' = Some 2" by (simp_all add: smb_session_req_def)
  obtain q1 where q1: "wr_field smb_session_req ''andx'' 255 p 32 = Some q1" "length q1 = length p" "take 32 q1 = take 32 p"
    using wr [OF f(1)] by blast
  obtain q2 where q2: "wr_field smb_session_req ''andx_reserved'' 0 q1 32 = Some q2" "length q2 = length p" "take 32 q2 = take 32 p"
    using wr [OF f(2), of q1] q1 by auto
  obtain q3 where q3: "wr_field smb_session_req ''andx_offset'' 0 q2 32 = Some q3" "length q3 = length p" "take 32 q3 = take 32 p"
    using wr [OF f(3), of q2] q2 by auto
  have "msg_is h [] (Some (m\<lparr>packet := Some q3\<rparr>))"
    using m p q3 c0 by (auto simp: msg_is_def msg_inv_def msg_header_def msg_content_def)
  then show ?thesis using Q m(1) p(1) q1(1) q2(1) q3(1) by (simp add: smb_message_set_andx_members_def)
qed

text \<open>The share a reply describes.\<close>

definition pkt_share :: "byte list \<Rightarrow> int + smb_share" where
  "pkt_share pkt =
     (let tid = word_of_nat (pkt_header ''tid'' pkt)
      in if pkt ! 32 = 3 \<and> 32 + sizeof smb_tree_connect_resp \<le> length pkt
         then Inr (new_share\<lparr>sh_tid := tid, sh_opts := word_of_nat (pkt_field smb_tree_connect_resp ''opt_support'' pkt)\<rparr>)
         else if pkt ! 32 = 7 \<and> 32 + sizeof smb_tree_connect_respx \<le> length pkt
         then Inr (new_share\<lparr>sh_tid := tid, sh_opts := word_of_nat (pkt_field smb_tree_connect_respx ''opt_support'' pkt),
           sh_rights := word_of_nat (pkt_field smb_tree_connect_respx ''max_rights'' pkt),
           sh_guest_rights := word_of_nat (pkt_field smb_tree_connect_respx ''guest_rights'' pkt)\<rparr>)
         else Inl DSM_ERROR_NETWORK)"

lemma share_of_reply_ok:
  assumes m: "reply_is pkt m" and l: "32 < length pkt"
  shows "share_of_reply (Some m) = Some (pkt_share pkt)"
proof -
  obtain q where q: "packet m = Some q" "take (length pkt) q = pkt" "length pkt \<le> length q" using reply_isD(1) [OF m] by blast
  have "q ! 32 = pkt ! 32" using nth_take [of 32 "length pkt" q] l q(2) by simp
  then have r8: "rd8 q 32 = Some (pkt ! 32)" using l q(3) by (simp add: rd8_def)
  have t: "reply_header ''tid'' (Some m) = Some (pkt_header ''tid'' pkt)"
    using reply_header_ok [OF m smb_header_fields(4)] by blast
  have f: "reply_field L f (Some m) = Some (pkt_field L f pkt)" if "32 + sizeof L \<le> length pkt" "map_of L f \<noteq> None" for L f
    using reply_field_ok [OF m that(1)] that(2) by auto
  have "map_of smb_tree_connect_resp ''opt_support'' \<noteq> None" "map_of smb_tree_connect_respx ''opt_support'' \<noteq> None"
    "map_of smb_tree_connect_respx ''max_rights'' \<noteq> None" "map_of smb_tree_connect_respx ''guest_rights'' \<noteq> None"
    by (simp_all add: smb_tree_connect_resp_def smb_tree_connect_respx_def)
  then show ?thesis
    using q(1) r8 t f [of smb_tree_connect_resp] f [of smb_tree_connect_respx]
      reply_short_ok [OF m, of smb_tree_connect_resp] reply_short_ok [OF m, of smb_tree_connect_respx]
    by (simp add: share_of_reply_def pkt_share_def Let_def)
qed

definition tree_result :: "smb_session \<Rightarrow> outcome \<Rightarrow> int \<Rightarrow> u16 option \<Rightarrow> smb_session \<Rightarrow> bool" where
  "tree_result s oc r tid s' =
     (case oc of
        No_reply \<Rightarrow> r = DSM_ERROR_NETWORK \<and> tid = None \<and> same_session s s'
      | Nt_error st \<Rightarrow> r = DSM_ERROR_NT \<and> tid = None \<and> same_session (s\<lparr>nt_status := st\<rparr>) s'
      | Reply pkt \<Rightarrow>
          (case pkt_share pkt of
             Inl e \<Rightarrow> r = e \<and> tid = None \<and> same_session s s'
           | Inr sh \<Rightarrow> r = DSM_SUCCESS \<and> tid = Some (sh_tid sh) \<and> same_session (smb_session_share_add s sh) s'))"

definition tree_frame :: "world \<Rightarrow> smb_session \<Rightarrow> byte list \<Rightarrow> byte list" where
  "tree_frame w s u = smb_frame s ((new_header SMB_CMD_TREE_CONNECT (w_pid w))(''tid'' := 0xffff))
     (enc_struct smb_tree_connect_req (tree_connect_request (length u)) @ [0] @ u @ replicate 5 63 @ [0])"

lemma outcome_reply_length: "outcome_of st = Reply pkt \<Longrightarrow> 32 < length pkt"
  by (auto simp: outcome_of_def split: option.splits prod.splits if_splits)

lemma same_session_share_add: "same_session s s' \<Longrightarrow> same_session (smb_session_share_add s sh) (smb_session_share_add s' sh)"
  by (cases s) (auto simp: same_session_def with_ns_def smb_session_share_add_def)

lemma smb_tree_connect_ok:
  assumes ready: "session_ready s" and peer: "peer_ok w" and path: "tree_path (srv_name (srv s)) name = Some path"
    and conv: "iconv_fits w" "conv_small (path @ [0])" and u: "utf16_of w (path @ [0]) = u" "u \<noteq> []"
    and sz: "session_sendable s (50 + length u)"
  shows "wp (smb_tree_connect w s name) (\<lambda>(r, tid, s', w'). w_sent w' = w_sent w @ [tree_frame w s u] \<and>
     tree_result s (outcome_of (rx_stream (w_rx w))) r tid s')"
proof -
  have l: "length u < 2 ^ 30" using sz by (simp add: session_sendable_def)
  have hdr: "wp (smb_message_set_header f v msg) P"
    if "msg_is h [] msg" "msg_room 256 msg" "map_of smb_header f = Some n"
      "\<And>msg'. msg_is (h(f := v)) [] msg' \<Longrightarrow> msg_room 256 msg' \<Longrightarrow> P msg'" for f v msg h n P
    using smb_message_set_header_ok [OF that(1,3), of v "\<lambda>m. msg_is (h(f := v)) [] m"] set_header_room that
    by (auto simp: wp_iff)
  show ?thesis
    unfolding smb_tree_connect_def wp_bind
    apply (rule smb_message_new_room_ok [OF calm_start [OF peer]])
    apply (simp only: prod.case msg_is_null if_False wp_bind path wp_Some)
    apply (rule smb_to_utf16_ok, assumption, rule conv, rule conv)
    apply (simp only: prod.case wp_bind u)
    apply (rule hdr, assumption, assumption, rule smb_header_fields)
    apply (rule set_andx_ok, assumption, assumption)
    apply (rule smb_msg_put_pkt_ok, assumption, assumption, simp)
    apply (simp only: prod.case wp_bind)
    apply (rule smb_message_put8_ok, assumption, assumption, simp)
    apply (simp only: prod.case wp_bind)
    apply (rule smb_message_append_text_ok, assumption, assumption, assumption, rule u, use l in simp)
    apply (simp only: prod.case wp_bind)
    apply (rule smb_message_append_ok, assumption, assumption, use l in simp, simp)
    apply (simp only: prod.case)
    apply (rule round_trip_gen [where P = "\<lambda>c. wp c Q" for Q, OF _ _ peer ready], assumption, assumption)
    using sz apply simp
      apply (simp_all add: sent_keepsD tree_result_def tree_frame_def nat_bytes_numeral)
    apply (frule outcome_reply_length)
    apply (simp add: c_calloc_ok sent_keeps_mem share_of_reply_ok sent_keepsD same_session_share_add dsm_consts split: sum.split)
    done
qed

section \<open>The list of shares\<close>

definition round_even :: "u32 \<Rightarrow> u32" where
  "round_even n = (if n mod 2 \<noteq> 0 then n + 1 else n)"

lemma round_even_bytes: "unat (n * 2) < 2 ^ 20 \<Longrightarrow> unat (round_even n * 2) \<le> unat (n * 2) + 2"
proof -
  assume a: "unat (n * 2) < 2 ^ 20"
  have "unat ((n + 1) * 2) = unat (n * 2 + 2)" by (simp add: algebra_simps)
  also have "\<dots> = unat (n * 2) + 2" using a by (subst unat_word_add_nowrap) auto
  finally show ?thesis by (simp add: round_even_def)
qed

text \<open>A 32-bit number in the payload of a packet.\<close>

definition payload32 :: "byte list \<Rightarrow> nat \<Rightarrow> u32" where
  "payload32 pkt off = le_word (take 4 (drop (32 + off) pkt))"

text \<open>The names, in UTF-16, of at most \<open>n\<close> entries from \<open>data\<close> on: as many as lie in the packet.\<close>

fun enum_names :: "byte list \<Rightarrow> nat \<Rightarrow> nat \<Rightarrow> byte list list" where
  "enum_names pkt 0 data = []"
| "enum_names pkt (Suc n) data =
     (let name_len = payload32 pkt data; com = data + 12 + unat (round_even name_len * 2)
      in if length pkt < 32 + data + 4 \<or> length pkt < 32 + data + 12 + unat (name_len * 2) + 8 then []
         else take (unat (name_len * 2)) (drop (32 + data + 12) pkt) #
           enum_names pkt n (com + 12 + unat (round_even (payload32 pkt com) * 2)))"

lemma length_enum_names: "length (enum_names pkt n data) \<le> n"
  by (induction pkt n data rule: enum_names.induct) (auto simp: Let_def)

text \<open>The list after the strings of \<open>names\<close> are stored from position \<open>i\<close> on.\<close>

definition filled :: "world \<Rightarrow> nat \<Rightarrow> share_list \<Rightarrow> byte list list \<Rightarrow> share_list \<Rightarrow> bool" where
  "filled w i lst names lst' \<longleftrightarrow> (\<exists>strs. lst' = take i lst @ strs @ drop (i + length strs) lst \<and>
     i + length strs \<le> length lst \<and> list_all2 (\<lambda>nm str. holds_text (utf16_to w nm) str) names strs)"

lemma filled_Nil: "i \<le> length lst \<Longrightarrow> filled w i lst [] lst"
  unfolding filled_def by (rule exI [of _ "[]"]) simp

lemma filled_Cons:
  assumes "filled w (Suc i) (lst[i := str]) names lst'" and "i < length lst" and "holds_text (utf16_to w nm) str"
  shows "filled w i lst (nm # names) lst'"
proof -
  obtain strs where s: "lst' = take (Suc i) (lst[i := str]) @ strs @ drop (Suc i + length strs) (lst[i := str])"
    "Suc i + length strs \<le> length lst" "list_all2 (\<lambda>nm str. holds_text (utf16_to w nm) str) names strs"
    using assms(1) by (auto simp: filled_def)
  have "take (Suc i) (lst[i := str]) = take i lst @ [str]" using assms(2) by (simp add: take_Suc_conv_app_nth)
  then show ?thesis
    unfolding filled_def using s assms by (intro exI [of _ "str # strs"]) simp
qed

lemma rd32_payload:
  assumes "reply_is pkt m" and "packet m = Some q" and "32 + off + 4 \<le> length pkt"
  shows "rd32 q (32 + off) = Some (payload32 pkt off)"
proof -
  have "take (length pkt) q = pkt" using reply_isD(1) [OF assms(1)] assms(2) by auto
  from buf_read_prefix [OF this assms(3)] assms(3) show ?thesis by (simp add: rd_le_def payload32_def buf_read_def)
qed

lemma parse_enum_loop_ok:
  assumes m: "reply_is pkt m" and fits: "iconv_fits w0"
  shows "calm w0 w \<Longrightarrow> i + n = cnt \<Longrightarrow> cnt < length lst \<or> length pkt \<le> 32 + data \<Longrightarrow> i \<le> length lst \<Longrightarrow>
     wp (parse_enum_loop w m cnt i data lst) (\<lambda>(i', lst', w').
       i' = i + length (enum_names pkt n data) \<and> filled w0 i lst (enum_names pkt n data) lst' \<and> calm w0 w')"
proof (induction n arbitrary: w i data lst)
  case 0
  then show ?case by (simp add: parse_enum_loop.simps [of w m cnt] filled_Nil)
next
  case (Suc n)
  note l = reply_isD(2-4) [OF m]
  obtain q where q: "packet m = Some q" "take (length pkt) q = pkt" using reply_isD(1) [OF m] by blast
  let ?nl = "payload32 pkt data"
  let ?com = "data + 12 + unat (round_even ?nl * 2)"
  show ?case
  proof (cases "length pkt < 32 + data + 4 \<or> length pkt < 32 + data + 12 + unat (?nl * 2) + 8")
    case True
    then have "parse_enum_loop w m cnt i data lst = Some (i, lst, w)"
      using l q(1) rd32_payload [OF m q(1), of data]
      by (subst parse_enum_loop.simps) (auto simp: Let_def)
    then show ?thesis using True Suc.prems by (simp add: Let_def filled_Nil)
  next
    case False
    then have b: "32 + data + 4 \<le> length pkt" "32 + data + 12 + unat (?nl * 2) + 8 \<le> length pkt" by simp_all
    have small: "unat (?nl * 2) < 2 ^ 20" using b(2) l(3) by linarith
    have com: "32 + ?com + 4 \<le> length pkt" using round_even_bytes [OF small] b(2) by linarith
    have i: "i < length lst" using Suc.prems b by auto
    let ?nm = "take (unat (?nl * 2)) (drop (32 + data + 12) pkt)"
    have src: "buf_read q (32 + (data + 12)) (unat (?nl * 2)) = Some ?nm"
      using buf_read_prefix [OF q(2), of "32 + data + 12" "unat (?nl * 2)"] b(2) by (simp add: buf_read_def add.assoc)
    have cs: "conv_small ?nm" using small by (simp add: conv_small_def min_def)
    let ?d = "?com + 12 + unat (round_even (payload32 pkt ?com) * 2)"
    have eq: "parse_enum_loop w m cnt i data lst = do {
        (_, str, w) \<leftarrow> smb_from_utf16 w ?nm;
        parse_enum_loop w m cnt (Suc i) ?d (lst[i := str]) }"
    proof -
      have g: "(i < cnt \<and> data < unat (payload_size m)) = True" "(unat (payload_size m) < data + 4) = False"
        "(unat (payload_size m) < data + 12 + 4 + unat (?nl * 2) + 4) = False" "(i < length lst) = True"
        using b l(1) Suc.prems(2) i by auto
      have r: "rd32 q (sizeof smb_packet + data) = Some ?nl" "rd32 q (sizeof smb_packet + ?com) = Some (payload32 pkt ?com)"
        "buf_read q (sizeof smb_packet + (data + 12)) (unat (?nl * 2)) = Some ?nm"
        using rd32_payload [OF m q(1) b(1)] rd32_payload [OF m q(1) com] src by simp_all
      show ?thesis
        by (subst parse_enum_loop.simps)
          (simp only: Let_def g q(1) r round_even_def [symmetric] bind.bind_lunit simp_thms if_False if_True c_assert_simps Suc_eq_plus1)
    qed
    have en: "enum_names pkt (Suc n) data = ?nm # enum_names pkt n ?d" using False by (simp add: Let_def)
    show ?thesis
      unfolding eq en wp_bind
    proof (rule smb_from_utf16_ok [OF Suc.prems(1) fits cs], unfold prod.case)
      fix dst w' assume c: "calm w0 w'" and h: "holds_text (utf16_to w0 ?nm) dst"
      have "wp (parse_enum_loop w' m cnt (Suc i) ?d (lst[i := dst])) (\<lambda>(i', lst', w').
         i' = Suc i + length (enum_names pkt n ?d) \<and> filled w0 (Suc i) (lst[i := dst]) (enum_names pkt n ?d) lst' \<and> calm w0 w')"
        using Suc.prems i b by (intro Suc.IH [OF c]) auto
      then show "wp (parse_enum_loop w' m cnt (Suc i) ?d (lst[i := dst])) (\<lambda>(i', lst', w').
         i' = i + length (?nm # enum_names pkt n ?d) \<and> filled w0 i lst (?nm # enum_names pkt n ?d) lst' \<and> calm w0 w')"
        by (rule wp_mono) (use filled_Cons [OF _ i h] in \<open>auto\<close>)
    qed
  qed
qed

lemma unat_next: "(c :: u32) \<noteq> - 1 \<Longrightarrow> unat (c + 1) = Suc (unat c)"
  by (metis add.commute eq_neg_iff_add_eq_0 unatSuc)

lemma count_from_end: "\<exists>k \<le> length strs. smb_share_list_count_from (strs @ replicate (Suc n) None) = Some k"
  by (induction strs) auto

text \<open>The number of shares, where the code reads it: in the buffer, whether or not the reply reaches that far.\<close>

definition enum_count :: "byte list \<Rightarrow> u32" where
  "enum_count q = le_word (take 4 (drop (32 + 60) q))"

lemma enum_count_reply:
  assumes "take (length pkt) q = pkt" and "96 \<le> length pkt"
  shows "enum_count q = payload32 pkt 60"
proof -
  have "take 4 (drop 92 q) = take 4 (drop 92 (take (length pkt) q))" using assms(2) by (simp add: drop_take)
  then show ?thesis using assms(1) by (simp add: enum_count_def payload32_def)
qed

lemma enum_names_beyond: "length pkt < 32 + data + 4 \<Longrightarrow> enum_names pkt n data = []"
  by (cases n) (simp_all add: Let_def)

lemma parse_enum_ok:
  fixes q defines "cnt \<equiv> enum_count q"
  assumes m: "reply_is pkt m" and q: "packet m = Some q" and len: "96 \<le> length q" and w: "mem_ok w" "iconv_fits w"
  shows "wp (smb_share_parse_enum w (Some m)) (\<lambda>(r, lst, w').
     let names = enum_names pkt (unat cnt) (72 + unat (cnt * 12))
     in r = int (length names) \<and> (\<exists>strs. lst = Some (strs @ replicate (unat (cnt + 1) - length names) None) \<and>
          list_all2 (\<lambda>nm str. holds_text (utf16_to w nm) str) names strs))"
proof -
  let ?data = "72 + unat (cnt * 12)" and ?l = "replicate (unat (cnt + 1)) None :: share_list"
  let ?names = "enum_names pkt (unat cnt) ?data"
  have r: "rd32 q (32 + 60) = Some cnt" using len by (simp add: cnt_def enum_count_def rd_le_def buf_read_def)
  have al: "unat (ucast (cnt + 1) * 8 :: u64) < 2 ^ 63"
  proof -
    let ?c = "ucast (cnt + 1) :: u64"
    have "unat (cnt + 1) < 2 ^ LENGTH(32)" by (rule unsigned_less)
    moreover have "unat ?c \<le> unat (cnt + 1)" by (simp add: unsigned_ucast_eq take_bit_nat_less_eq_self)
    ultimately have "unat ?c < 2 ^ 32" by simp
    moreover have "unat (?c * 8) \<le> unat ?c * 8" by (simp add: unat_word_ariths)
    ultimately show ?thesis by simp
  qed
  have room: "unat cnt < length ?l \<or> length pkt \<le> 32 + ?data"
  proof (cases "cnt = - 1")
    case True
    then show ?thesis using reply_isD(4) [OF m] by simp
  next
    case False
    then show ?thesis by (simp add: unat_next)
  qed
  have c: "calm w (alloc_tick w)" using w(1) by (simp add: calm_def)
  from parse_enum_loop_ok [OF m w(2) c, of 0 "unat cnt" "unat cnt" ?l ?data] room
  have "wp (parse_enum_loop (alloc_tick w) m (unat cnt) 0 ?data ?l) (\<lambda>(i', lst', w').
     i' = length ?names \<and> filled w 0 ?l ?names lst' \<and> calm w w')" by simp
  then show ?thesis
    using q r c_calloc_ok [OF w(1) al]
    by (auto simp: smb_share_parse_enum_def Let_def filled_def list_all2_lengthD elim!: wp_mono)
qed

section \<open>Properties\<close>

text \<open>
  C13 (tree connect). Connecting to a share sends exactly one frame: the request with the path
  of the share in UTF-16 behind a one-byte password, and the service. On a reply with a known
  word count and a whole structure it returns the tree id of the reply's header and enters
  the share, which that id then finds, unless an older share with the same id hides it; every
  other outcome is an error that leaves the table of shares as it was.
\<close>

theorem tree_connect_share:
  assumes "session_ready s" and "peer_ok w" and "tree_path (srv_name (srv s)) name = Some path"
    and "iconv_fits w" "conv_small (path @ [0])" and "utf16_of w (path @ [0]) = u" "u \<noteq> []"
    and "session_sendable s (50 + length u)"
  shows "wp (smb_tree_connect w s name) (\<lambda>(r, tid, s', w').
     w_sent w' = w_sent w @ [smb_frame s ((new_header SMB_CMD_TREE_CONNECT (w_pid w))(''tid'' := 0xffff))
       (enc_struct smb_tree_connect_req (tree_connect_request (length u)) @ [0] @ u @ replicate 5 63 @ [0])] \<and>
     (case outcome_of (rx_stream (w_rx w)) of
        No_reply \<Rightarrow> r = DSM_ERROR_NETWORK \<and> tid = None \<and> same_session s s'
      | Nt_error st \<Rightarrow> r = DSM_ERROR_NT \<and> tid = None \<and> same_session (s\<lparr>nt_status := st\<rparr>) s'
      | Reply pkt \<Rightarrow>
          (case pkt_share pkt of
             Inl e \<Rightarrow> r = e \<and> tid = None \<and> same_session s s'
           | Inr sh \<Rightarrow> r = DSM_SUCCESS \<and> tid = Some (sh_tid sh) \<and> same_session (smb_session_share_add s sh) s' \<and>
               smb_session_share_get s' (sh_tid sh) =
                 (case smb_session_share_get s (sh_tid sh) of None \<Rightarrow> Some sh | Some old \<Rightarrow> Some old))))"
proof -
  have "smb_session_share_get s' t = (case smb_session_share_get s (sh_tid sh) of None \<Rightarrow> Some sh | Some old \<Rightarrow> Some old)"
    if "same_session (smb_session_share_add s sh) s'" "t = sh_tid sh" for s' sh t
    using share_table.get_add [of s sh "sh_tid sh"] that
    by (auto simp: smb_session_share_get_def same_session_simps split: option.splits)
  then show ?thesis
    by (intro wp_mono [OF smb_tree_connect_ok [OF assms]])
      (auto simp: tree_result_def tree_frame_def split: outcome.splits sum.splits)
qed

definition tree_answer :: "byte list" where
  "tree_answer = reply_packet smb_tree_connect_resp ((\<lambda>_. 0)(''wct'' := 3)) []"

lemma tree_answer_ok: "outcome_of (rx_stream (w_rx (answer_world tree_answer))) = Reply tree_answer"
    "\<exists>sh. pkt_share tree_answer = Inr sh"
proof -
  show "outcome_of (rx_stream (w_rx (answer_world tree_answer))) = Reply tree_answer"
    unfolding tree_answer_def by (rule answer_outcome) simp_all
  have "tree_answer ! 32 = 3" 
    by (simp add: tree_answer_def reply_packet_def nth_append) (simp add: enc_struct_def smb_tree_connect_resp_def)
  then show "\<exists>sh. pkt_share tree_answer = Inr sh" by (simp add: pkt_share_def Let_def) (simp add: tree_answer_def)
qed

theorem tree_connect_share_witness:
  "wp (smb_tree_connect (answer_world tree_answer) sample_smb [83])
     (\<lambda>(r, tid, s', w'). r = DSM_SUCCESS \<and> length (shares s') = 1 \<and> length (w_sent w') = 1)"
proof -
  let ?w = "answer_world tree_answer" and ?p = "[92, 92, 92, 83] :: byte list"
  have path: "tree_path (srv_name (srv sample_smb)) [83] = Some ?p"
    by (simp add: tree_path_def sample_smb_def zero_session_def numeral_eq_Suc)
  have u: "utf16_of ?w (?p @ [0]) = [92, 0, 92, 0, 92, 0, 83, 0, 0, 0]"
    by (simp add: conv_out_def answer_world_def sample_world_def sample_iconv_def)
  have c: "conv_small (?p @ [0])" by (simp add: conv_small_def)
  have sz: "session_sendable sample_smb (50 + length [92, 0, 92, 0, 92, 0, 83, 0, 0, 0 :: byte])"
    by (simp add: session_sendable_def sample_smb_ready)
  obtain sh where sh: "pkt_share tree_answer = Inr sh" using tree_answer_ok(2) by blast
  show ?thesis
    by (rule wp_mono [OF tree_connect_share [OF sample_smb_ready(1) answer_world_ok(1) path answer_world_ok(5) c u _ sz]])
      (auto simp: tree_answer_ok sh answer_world_ok(3) same_session_simps smb_session_share_add_def sample_smb_def zero_session_def)
qed

text \<open>
  C14 (share list). The number of shares is read 60 bytes into the payload of the reply, and
  nothing looks at the size of the reply first: in a buffer shorter than that the read goes
  past its end, and of a shorter reply it gives what an earlier message left there, although
  then no name is stored. Otherwise it is the number in the reply. With whatever number, from
  there on nothing outside the reply is read: the converted names of the entries that lie wholly in the
  reply are stored, in order, and their number is returned. The array has one element more
  than the number of shares, all null behind the names, so that counting its elements ends
  inside it; but 2^32 - 1 shares wrap to an array of no elements, over the end of which the
  count reads.
\<close>

theorem parse_enum_names:
  assumes "reply_is pkt m" and "packet m = Some q" and "mem_ok w" and "iconv_fits w" and "enum_count q = cnt"
    and "names = enum_names pkt (unat cnt) (72 + unat (cnt * 12))"
  shows "(if length q < 96 then smb_share_parse_enum w (Some m) = None
      else wp (smb_share_parse_enum w (Some m)) (\<lambda>(r, lst, w').
        r = int (length names) \<and>
        (\<exists>strs. lst = Some (strs @ replicate (unat (cnt + 1) - length names) None) \<and>
           list_all2 (\<lambda>nm str. holds_text (utf16_to w nm) str) names strs) \<and>
        (if cnt = - 1 then smb_share_list_count lst = None
         else wp (smb_share_list_count lst) (\<lambda>k. k \<le> length names)))) \<and>
     (if length pkt < 96 then names = [] else cnt = payload32 pkt 60)"
proof -
  have count: "if cnt = - 1 then smb_share_list_count lst = None else wp (smb_share_list_count lst) (\<lambda>k. k \<le> length names)"
    if s: "lst = Some (strs @ replicate (unat (cnt + 1) - length names) None)" "length strs = length names" for lst strs
  proof (cases "cnt = - 1")
    case True
    then have "names = []" using assms(6) reply_isD(4) [OF assms(1)] by (simp add: enum_names_beyond)
    then show ?thesis using True s by (simp add: smb_share_list_count_def)
  next
    case False
    obtain n where "unat (cnt + 1) - length names = Suc n"
      using unat_next [OF False] length_enum_names [of pkt "unat cnt" "72 + unat (cnt * 12)"] assms(6) by (metis Suc_diff_le)
    then show ?thesis
      using count_from_end [of strs n] False s by (auto simp: smb_share_list_count_def wp_iff)
  qed
  have "wp (smb_share_parse_enum w (Some m)) (\<lambda>(r, lst, w'). r = int (length names) \<and>
        (\<exists>strs. lst = Some (strs @ replicate (unat (cnt + 1) - length names) None) \<and>
           list_all2 (\<lambda>nm str. holds_text (utf16_to w nm) str) names strs) \<and>
        (if cnt = - 1 then smb_share_list_count lst = None
         else wp (smb_share_list_count lst) (\<lambda>k. k \<le> length names)))" if "96 \<le> length q"
    by (rule wp_mono [OF parse_enum_ok [OF assms(1,2) that assms(3,4)], unfolded assms(5)])
      (use count assms(6) in \<open>auto simp: Let_def list_all2_lengthD\<close>)
  moreover have "smb_share_parse_enum w (Some m) = None" if "length q < 96"
    using that assms(2) by (simp add: smb_share_parse_enum_def rd_le_def buf_read_def)
  moreover have "names = []" if "length pkt < 96" using that assms(6) by (simp add: enum_names_beyond)
  moreover have "cnt = payload32 pkt 60" if "96 \<le> length pkt"
    using enum_count_reply [OF _ that, of q] reply_isD(1) [OF assms(1)] assms(2,5) by auto
  ultimately show ?thesis by simp
qed

text \<open>A reply with one share, of two characters and without a comment.\<close>

definition sample_enum :: "byte list" where
  "sample_enum = replicate 92 0 @ [1, 0, 0, 0] @ replicate 20 0 @ [2, 0, 0, 0] @ replicate 8 0 @ [65, 0, 66, 0] @ replicate 12 0"

definition sample_reply :: smb_message where
  "sample_reply = \<lparr>payload_size = 112, cursor = 0, packet = Some sample_enum\<rparr>"

lemma sample_enum_names:
  "length sample_enum = 144" "enum_count sample_enum = 1" "enum_names sample_enum 1 84 = [[65, 0, 66, 0]]"
  by code_simp+

theorem parse_enum_names_witness:
  "wp (smb_share_parse_enum sample_world (Some sample_reply)) (\<lambda>(r, lst, w'). r = 1 \<and>
     (\<exists>b. lst = Some [Some b, None] \<and> take 2 b = [65, 66]) \<and> wp (smb_share_list_count lst) (\<lambda>k. k \<le> 1))"
proof -
  have m: "reply_is sample_enum sample_reply" "packet sample_reply = Some sample_enum"
    by (simp_all add: reply_is_def sample_reply_def sample_enum_names)
  have n: "[[65, 0, 66, 0]] = enum_names sample_enum (unat (1 :: u32)) (72 + unat (1 * 12 :: u32))"
    using sample_enum_names(3) by simp
  have t: "utf16_to sample_world [65, 0, 66, 0] = [65, 66]"
    by (simp add: conv_out_def sample_world_def sample_iconv_def upt_rec first_fit.simps)
  note p = parse_enum_names [OF m sample_world_mem sample_iconv_fits sample_enum_names(2) n]
  have "wp (smb_share_parse_enum sample_world (Some sample_reply)) (\<lambda>(r, lst, w'). r = 1 \<and>
     (\<exists>strs. lst = Some (strs @ [None]) \<and> list_all2 (\<lambda>nm str. holds_text (utf16_to sample_world nm) str) [[65, 0, 66, 0]] strs) \<and>
     wp (smb_share_list_count lst) (\<lambda>k. k \<le> 1))"
    using conjunct1 [OF p] by (simp add: sample_enum_names(1))
  then show ?thesis
    by (rule wp_mono) (auto simp: list_all2_Cons1 t holds_text_def eval_nat_numeral)
qed

end
