(* ===== verification/Trans2_Join.thy ===== *)
theory Trans2_Join
  imports Trans2 File_Spec
begin

text \<open>
  Transactions whose reply comes in several messages: what the loop that receives them joins,
  as a function of the byte stream of the server, and that it ends.
\<close>

section \<open>Joining the messages of a transaction\<close>

abbreviation tr2_total :: "byte list \<Rightarrow> nat" where "tr2_total \<equiv> pkt_field smb_trans2_resp ''total_data_count''"
abbreviation tr2_count :: "byte list \<Rightarrow> nat" where "tr2_count \<equiv> pkt_field smb_trans2_resp ''data_count''"
abbreviation tr2_disp :: "byte list \<Rightarrow> nat" where "tr2_disp \<equiv> pkt_field smb_trans2_resp ''data_displacement''"

text \<open>Whether more messages follow, and the data of a message that continues a transaction.\<close>

definition tr2_more :: "byte list \<Rightarrow> bool" where
  "tr2_more pkt \<longleftrightarrow> tr2_disp pkt + tr2_count pkt < tr2_total pkt"

definition tr2_data :: "byte list \<Rightarrow> byte list" where
  "tr2_data pkt = take (tr2_count pkt) (drop tr2_payload pkt)"

definition tr2_part :: "byte list \<Rightarrow> bool" where
  "tr2_part pkt \<longleftrightarrow> 0 < tr2_count pkt \<and> tr2_payload + tr2_count pkt \<le> length pkt"

lemma next_reply_shorter: "next_reply st = Some (pkt, rest) \<Longrightarrow> length rest < length st"
proof -
  have "next_message st = Some (f, rest) \<Longrightarrow> length rest < length st" for f
  proof (induction st rule: next_message.induct)
    case (1 st)
    obtain g r where g: "next_frame st = Some (g, r)"
      using 1(2) by (auto simp: next_message.simps [of st] split: option.splits)
    show ?case
      using 1(1) [OF g refl] 1(2) g next_frame_shorter [OF g]
      by (simp add: next_message.simps [of st] split: if_splits)
  qed
  then show "next_reply st = Some (pkt, rest) \<Longrightarrow> length rest < length st" by (auto simp: next_reply_def)
qed

text \<open>The messages that continue a transaction in a stream, and the stream behind the last one.\<close>

function tr2_split :: "byte list \<Rightarrow> byte list list \<times> byte list option" where
  "tr2_split st =
     (case next_reply st of
        None \<Rightarrow> ([], None)
      | Some (pkt, rest) \<Rightarrow>
          if length pkt \<le> 32 then ([], Some rest)
          else if tr2_more pkt then (let (ps, r) = tr2_split rest in (pkt # ps, r))
          else ([pkt], Some rest))"
  by pat_completeness auto
termination
  by (relation "measure length") (auto dest: next_reply_shorter)

declare tr2_split.simps [simp del]

text \<open>A message of \<open>sz\<close> bytes of payload that has been filled with \<open>bs\<close>, header included.\<close>

definition joined :: "byte list \<Rightarrow> nat \<Rightarrow> smb_message option \<Rightarrow> bool" where
  "joined bs sz msg \<longleftrightarrow> sz < 2 ^ 21 \<and> 32 \<le> length bs \<and> length bs \<le> 32 + sz \<and>
     (\<exists>m q. msg = Some m \<and> packet m = Some q \<and> payload_size m = word_of_nat sz \<and>
        cursor m = word_of_nat (length bs - 32) \<and> length q = 32 + sz \<and> take (length bs) q = bs)"

lemma joined_append:
  assumes "joined bs sz msg" and "0 < n" "length bs + n \<le> 32 + sz" "n \<le> length d"
  shows "\<exists>msg'. smb_message_append w msg (Some d) (word_of_nat n) = Some (1, msg', w) \<and> joined (bs @ take n d) sz msg'"
proof -
  obtain m q where m: "msg = Some m" "packet m = Some q" "payload_size m = word_of_nat sz"
      "cursor m = word_of_nat (length bs - 32)" "length q = 32 + sz" "take (length bs) q = bs" "sz < 2 ^ 21" "32 \<le> length bs"
    using assms(1) by (auto simp: joined_def)
  have n20: "n < 2 ^ 22" using assms(3) m(7) by simp
  have un: "unat (word_of_nat n :: u64) = n" by (rule unat_u64_of_nat) (use n20 in simp)
  have uc: "unat (cursor m) = length bs - 32" unfolding m(4) by (rule unat_u64_of_nat) (use assms(3) m(7) in simp)
  have us: "unat (payload_size m) = sz" unfolding m(3) by (rule unat_u64_of_nat) (use m(7) in simp)
  have le: "cursor m \<le> payload_size m" using uc us assms(3) by (simp add: word_le_nat_alt)
  have d: "unat (payload_size m - cursor m) = sz - (length bs - 32)" using le uc us by (simp add: unat_sub)
  have ex: "smb_message_expand_payload w m (cursor m) (word_of_nat n) = (1, m, w)"
  proof -
    have "(word_of_nat n :: u64) \<noteq> 0" using un assms(2) by (metis less_irrefl unat_0)
    moreover have "\<not> word_of_nat n > payload_size m - cursor m" using un d assms(3) m(8) by (simp add: word_less_nat_alt)
    ultimately show ?thesis by (simp add: smb_message_expand_payload_def)
  qed
  let ?q = "take (length bs) q @ take n d @ drop (length bs + n) q"
  have wr: "buf_write q (32 + (length bs - 32)) (take n d) = Some ?q"
    using assms(3,4) m(5,8) by (simp add: buf_write_def)
  have app: "smb_message_append w msg (Some d) (word_of_nat n) = Some (1, Some (m\<lparr>packet := Some ?q, cursor := cursor m + word_of_nat n\<rparr>), w)"
    using ex m(1,2) wr uc assms(4) un by (simp add: smb_message_append_def buf_read_def)
  have cur: "cursor m + word_of_nat n = word_of_nat (length bs + n - 32)"
    using m(4,8) by (simp flip: of_nat_add)
  have "joined (bs @ take n d) sz (Some (m\<lparr>packet := Some ?q, cursor := cursor m + word_of_nat n\<rparr>))"
    using m cur assms(2-4) by (simp add: joined_def)
  with app show ?thesis by blast
qed


lemma recv_keeps_trans: "recv_keeps s w s1 w1 \<Longrightarrow> recv_keeps s1 w1 s2 w2 \<Longrightarrow> recv_keeps s w s2 w2"
  by (auto simp: recv_keeps_def intro: same_session_trans)

lemma recv_keepsD: "recv_keeps s w s' w' \<Longrightarrow> session_ready s' \<and> peer_ok w' \<and> mem_ok w'"
  by (simp add: recv_keeps_def peer_ok_def)

lemma recv_keeps_ok:
  assumes "session_ready s" and "peer_ok w"
    and Q: "\<And>r mo s' w'. recv_keeps s w s' w' \<Longrightarrow>
      (case next_reply (rx_stream (w_rx w)) of
        None \<Rightarrow> r = 0 \<and> mo = None
      | Some (pkt, rest) \<Rightarrow> rx_stream (w_rx w') = rest \<and> r = length pkt - 32 \<and>
          (if length pkt < 32 then mo = None else \<exists>m. mo = Some m \<and> reply_is pkt m)) \<Longrightarrow> Q (r, mo, s', w')"
  shows "wp (smb_session_recv_msg w s) Q"
  by (rule smb_session_recv_msg_ok [OF assms(1,2)], rule Q) (simp_all add: recv_keeps_def)

lemma tr2_fields:
  "map_of smb_trans2_resp ''total_data_count'' = Some 2" "map_of smb_trans2_resp ''data_count'' = Some 2"
  "map_of smb_trans2_resp ''data_displacement'' = Some 2"
  by (simp_all add: smb_trans2_resp_def)

lemma tr2_payload_eq [simp]: "tr2_payload = 56"
  by (simp add: tr2_payload_def)

lemma tr2_field_ok:
  assumes "reply_is pkt m" and "56 \<le> length pkt"
  shows "tr2_field ''total_data_count'' (Some m) = Some (tr2_total pkt)" "tr2_field ''data_count'' (Some m) = Some (tr2_count pkt)"
    "tr2_remaining (Some m) = Some (int (tr2_total pkt) - (int (tr2_disp pkt) + int (tr2_count pkt)))"
    "tr2_total pkt < 65536" "tr2_count pkt < 65536"
  using reply_field_ok [OF assms(1) _ tr2_fields(1)] reply_field_ok [OF assms(1) _ tr2_fields(2)]
    reply_field_ok [OF assms(1) _ tr2_fields(3)] assms(2)
  by (simp_all add: tr2_remaining_def)

lemma tr2_join_ok:
  assumes "reply_is pkt m" and "tr2_part pkt" and "joined bs sz res" and "length bs + tr2_count pkt \<le> 32 + sz"
  shows "\<exists>res'. tr2_join w res (Some m) = Some (res', w) \<and> joined (bs @ tr2_data pkt) sz res'"
proof -
  have l: "56 \<le> length pkt" "0 < tr2_count pkt" "56 + tr2_count pkt \<le> length pkt" using assms(2) by (auto simp: tr2_part_def)
  obtain q where q: "packet m = Some q" "take (length pkt) q = pkt" "length pkt \<le> length q" using reply_isD(1) [OF assms(1)] by blast
  have "take (tr2_count pkt) (drop 56 q) = tr2_data pkt"
    using buf_read_prefix [OF q(2) l(3)] l(3) q(3) by (simp add: buf_read_def tr2_data_def)
  moreover have "tr2_count pkt \<le> length (drop 56 q)" using l(3) q(3) by simp
  ultimately show ?thesis
    using joined_append [OF assms(3) l(2) assms(4), of "drop 56 q" w] q(1) tr2_field_ok(2) [OF assms(1) l(1)]
    by (auto simp: tr2_join_def)
qed

lemma tr2_recv_loop_ok:
  "rx_stream (w_rx w) = st \<Longrightarrow> session_ready s \<Longrightarrow> peer_ok w \<Longrightarrow> joined bs sz res \<Longrightarrow> 0 < rem \<Longrightarrow>
   tr2_split st = (ps, r) \<Longrightarrow> list_all tr2_part ps \<Longrightarrow> length bs + sum_list (map tr2_count ps) \<le> 32 + sz \<Longrightarrow>
   wp (smb_tr2_recv_loop w s res rem) (\<lambda>(res', s', w'). joined (bs @ concat (map tr2_data ps)) sz res' \<and>
     recv_keeps s w s' w' \<and> (\<forall>rest. r = Some rest \<longrightarrow> rx_stream (w_rx w') = rest))"
proof (induction st arbitrary: w s bs res rem ps r rule: tr2_split.induct)
  case (1 st)
  have go: "smb_tr2_recv_loop w s res rem = smb_session_recv_msg w s \<bind> (\<lambda>(n, recv, s, w).
      if n = 0 then Some (res, s, w)
      else do { (res, w) \<leftarrow> tr2_join w res recv; rem \<leftarrow> tr2_remaining recv; smb_tr2_recv_loop w s res rem })"
    using 1(6) by (subst smb_tr2_recv_loop.simps) simp
  show ?case
    unfolding go wp_bind
  proof (rule recv_keeps_ok [OF 1(3,4)], unfold prod.case 1(2))
    fix n mo s1 w1
    assume k: "recv_keeps s w s1 w1" and rx: "case next_reply st of None \<Rightarrow> n = 0 \<and> mo = None
      | Some (pkt, rest) \<Rightarrow> rx_stream (w_rx w1) = rest \<and> n = length pkt - 32 \<and>
          (if length pkt < 32 then mo = None else \<exists>m. mo = Some m \<and> reply_is pkt m)"
    let ?Q = "\<lambda>(res', s', w'). joined (bs @ concat (map tr2_data ps)) sz res' \<and>
     recv_keeps s w s' w' \<and> (\<forall>rest. r = Some rest \<longrightarrow> rx_stream (w_rx w') = rest)"
    show "wp (if n = 0 then Some (res, s1, w1)
      else do { (res, w) \<leftarrow> tr2_join w1 res mo; rem \<leftarrow> tr2_remaining mo; smb_tr2_recv_loop w s1 res rem }) ?Q"
    proof (cases "next_reply st")
      case None
      then show ?thesis using rx k 1(5,7) by (simp add: tr2_split.simps [of st])
    next
      case (Some a)
      obtain pkt rest where a: "a = (pkt, rest)" by (cases a)
      show ?thesis
      proof (cases "length pkt \<le> 32")
        case True
        then show ?thesis using rx k 1(5,7) Some a by (auto simp: tr2_split.simps [of st])
      next
        case False
        then obtain m where m: "mo = Some m" "reply_is pkt m" "n \<noteq> 0" and w1: "rx_stream (w_rx w1) = rest"
          using rx Some a by auto
        obtain ps' where ps: "ps = pkt # ps'" "\<not> tr2_more pkt \<Longrightarrow> ps' = [] \<and> r = Some rest" "tr2_more pkt \<Longrightarrow> tr2_split rest = (ps', r)"
          using 1(7) Some a False by (auto simp: tr2_split.simps [of st] split: if_splits prod.splits)
        have p: "tr2_part pkt" "list_all tr2_part ps'" "length bs + tr2_count pkt + sum_list (map tr2_count ps') \<le> 32 + sz"
          using 1(8,9) ps(1) by simp_all
        obtain res1 where res1: "tr2_join w1 res mo = Some (res1, w1)" "joined (bs @ tr2_data pkt) sz res1"
          using tr2_join_ok [OF m(2) p(1) 1(5), of w1] p(3) m(1) by auto
        have l: "56 \<le> length pkt" "length (tr2_data pkt) = tr2_count pkt" using p(1) by (auto simp: tr2_part_def tr2_data_def)
        note rem = tr2_field_ok(3) [OF m(2) l(1)]
        show ?thesis
        proof (cases "tr2_more pkt")
          case True
          then have "wp (smb_tr2_recv_loop w1 s1 res1 (int (tr2_total pkt) - (int (tr2_disp pkt) + int (tr2_count pkt))))
            (\<lambda>(res', s', w'). joined ((bs @ tr2_data pkt) @ concat (map tr2_data ps')) sz res' \<and>
               recv_keeps s1 w1 s' w' \<and> (\<forall>rest. r = Some rest \<longrightarrow> rx_stream (w_rx w') = rest))"
            using p(3) l(2) recv_keepsD [OF k] by (intro 1(1) [OF Some a [symmetric] False True w1 _ _ res1(2) _ ps(3) p(2)]) (auto simp: tr2_more_def)
          then show ?thesis
            using m res1(1) rem ps(1) by simp (erule wp_mono, auto intro: recv_keeps_trans [OF k])
        next
          case nm: False
          then have "smb_tr2_recv_loop w1 s1 res1 (int (tr2_total pkt) - (int (tr2_disp pkt) + int (tr2_count pkt))) = Some (res1, s1, w1)"
            by (subst smb_tr2_recv_loop.simps) (simp add: tr2_more_def)
          then show ?thesis using m res1 rem ps nm w1 k by simp
        qed
      qed
    qed
  qed
qed


text \<open>
  The whole reply: the first message and the data of the others, and the stream behind it.
  It is defined for transactions whose messages lie in their packets and whose data fits
  the total the first message announces.
\<close>

definition tr2_reply :: "byte list \<Rightarrow> (byte list \<times> nat \<times> byte list option) option" where
  "tr2_reply st =
     (case next_reply st of
        None \<Rightarrow> None
      | Some (pkt, rest) \<Rightarrow>
          (let (ps, r) = (if tr2_more pkt then tr2_split rest else ([], Some rest))
           in if 56 \<le> length pkt \<and> tr2_count pkt \<le> tr2_total pkt \<and> list_all tr2_part ps \<and>
                tr2_count pkt + sum_list (map tr2_count ps) \<le> tr2_total pkt
              then Some (pkt @ concat (map tr2_data ps), length pkt - 32 + (tr2_total pkt - tr2_count pkt), r)
              else None))"

lemma message_grow_ok:
  assumes "reply_is pkt m" and "mem_ok w" and "n < 65536"
  shows "\<exists>r w'. smb_message_grow w (Some m) (word_of_nat n) = Some (Some r, w') \<and> mem_ok w' \<and> same_io w w' \<and>
     joined pkt (length pkt - 32 + n) (Some (r\<lparr>cursor := payload_size m\<rparr>))"
proof -
  note l = reply_isD(2-4) [OF assms(1)]
  obtain q where q: "packet m = Some q" "take (length pkt) q = pkt" "length pkt \<le> length q" using reply_isD(1) [OF assms(1)] by blast
  let ?sz = "length pkt - 32 + n"
  have ps: "payload_size m = word_of_nat (length pkt - 32)" using assms(1) by (simp add: reply_is_def)
  have new: "payload_size m + word_of_nat n = word_of_nat ?sz" by (simp add: ps)
  have a: "unat (word_of_nat 32 + word_of_nat ?sz :: u64) = 32 + ?sz"
    using l assms(3) unat_u64_of_nat [of "32 + ?sz"] by simp
  have b: "unat (payload_size m + word_of_nat 32) = length pkt"
    using l unat_u64_of_nat [of "length pkt"] by (simp add: ps flip: of_nat_add)
  obtain o1 w1 where w1: "c_malloc w 24 = (o1, w1)" by fastforce
  obtain o2 w2 where w2: "c_malloc w1 (word_of_nat 32 + word_of_nat ?sz) = (o2, w2)" by fastforce
  note p1 = c_malloc_props [OF w1] and p2 = c_malloc_props [OF w2]
  have "o1 \<noteq> None" using p1(4) assms(2) by simp
  moreover have "o2 \<noteq> None" using p2(4) [OF p1(3) [OF assms(2)]] a l(3) assms(3) by simp
  ultimately obtain x buf where o: "o1 = Some x" "o2 = Some buf" by blast
  have lb: "length buf = 32 + ?sz" using p2(2) [OF o(2)] a by simp
  have g: "smb_message_grow w (Some m) (word_of_nat n) =
      Some (Some \<lparr>payload_size = word_of_nat ?sz, cursor = cursor m, packet = Some (pkt @ drop (length pkt) buf)\<rparr>, w2)"
    using w1 w2 o q l lb b new by (simp add: smb_message_grow_def buf_read_def buf_write_def)
  have "joined pkt ?sz (Some \<lparr>payload_size = word_of_nat ?sz, cursor = payload_size m, packet = Some (pkt @ drop (length pkt) buf)\<rparr>)"
    using l lb ps assms(3) by (simp add: joined_def)
  then show ?thesis using g p1(1,3) p2(1,3) assms(2) same_io_trans by (auto intro!: exI)
qed


lemma smb_tr2_recv_ok:
  assumes ready: "session_ready s" and peer: "peer_ok w" and reply: "tr2_reply (rx_stream (w_rx w)) = Some (bs, sz, r)"
    and Q: "\<And>res s' w'. joined bs sz res \<Longrightarrow> recv_keeps s w s' w' \<Longrightarrow> (\<And>rest. r = Some rest \<Longrightarrow> rx_stream (w_rx w') = rest) \<Longrightarrow> Q (res, s', w')"
  shows "wp (smb_tr2_recv w s) Q"
proof -
  obtain pkt rest where nr: "next_reply (rx_stream (w_rx w)) = Some (pkt, rest)"
    using reply by (auto simp: tr2_reply_def split: option.splits)
  obtain ps r' where ps': "(if tr2_more pkt then tr2_split rest else ([], Some rest)) = (ps, r')" by fastforce
  have "r' = r" and l: "56 \<le> length pkt" and c: "tr2_count pkt \<le> tr2_total pkt" "list_all tr2_part ps"
      "tr2_count pkt + sum_list (map tr2_count ps) \<le> tr2_total pkt"
    and bs: "bs = pkt @ concat (map tr2_data ps)" "sz = length pkt - 32 + (tr2_total pkt - tr2_count pkt)"
    using reply unfolding tr2_reply_def nr option.case prod.case ps' Let_def by (auto split: if_splits)
  then have ps: "(if tr2_more pkt then tr2_split rest else ([], Some rest)) = (ps, r)" using ps' by simp
  show ?thesis
    unfolding smb_tr2_recv_def wp_bind
  proof (rule recv_keeps_ok [OF ready peer], unfold prod.case nr option.case)
    fix n mo s1 w1
    assume k: "recv_keeps s w s1 w1" and rx: "rx_stream (w_rx w1) = rest \<and> n = length pkt - 32 \<and>
          (if length pkt < 32 then mo = None else \<exists>m. mo = Some m \<and> reply_is pkt m)"
    obtain m where m: "mo = Some m" "reply_is pkt m" "n \<noteq> 0" using rx l by auto
    note f = tr2_field_ok [OF m(2) l]
    have gr: "word_of_int (int (tr2_total pkt) - int (tr2_count pkt)) = (word_of_nat (tr2_total pkt - tr2_count pkt) :: u64)"
      using c(1) by (simp flip: of_nat_diff)
    obtain g w2 where g: "smb_message_grow w1 (Some m) (word_of_nat (tr2_total pkt - tr2_count pkt)) = Some (Some g, w2)"
      "mem_ok w2" "same_io w1 w2" "joined pkt sz (Some (g\<lparr>cursor := payload_size m\<rparr>))"
      using message_grow_ok [OF m(2), of w1 "tr2_total pkt - tr2_count pkt"] recv_keepsD [OF k] less_imp_diff_less [OF f(4)]
      unfolding bs(2) by blast
    have k2: "recv_keeps s w s1 w2"
      using k g(2,3) same_io_steady [OF g(3)] same_io_fields [OF g(3)] by (auto simp: recv_keeps_def peer_ok_def)
    have rx2: "rx_stream (w_rx w2) = rest" using rx same_io_fields [OF g(3)] by simp
    let ?rem = "int (tr2_total pkt) - (int (tr2_disp pkt) + int (tr2_count pkt))"
    have loop: "wp (smb_tr2_recv_loop w2 s1 (Some (g\<lparr>cursor := payload_size m\<rparr>)) ?rem) Q"
    proof (cases "tr2_more pkt")
      case True
      then have "wp (smb_tr2_recv_loop w2 s1 (Some (g\<lparr>cursor := payload_size m\<rparr>)) ?rem) (\<lambda>(res', s', w').
          joined (pkt @ concat (map tr2_data ps)) sz res' \<and> recv_keeps s1 w2 s' w' \<and> (\<forall>rest. r = Some rest \<longrightarrow> rx_stream (w_rx w') = rest))"
        using recv_keepsD [OF k2] ps c l bs(2) by (intro tr2_recv_loop_ok [OF rx2 _ _ g(4)]) (auto simp: tr2_more_def)
      then show ?thesis by (rule wp_mono) (auto simp: bs(1) intro!: Q intro: recv_keeps_trans [OF k2])
    next
      case False
      then have "ps = []" "r = Some rest" using ps by simp_all
      moreover have "smb_tr2_recv_loop w2 s1 (Some (g\<lparr>cursor := payload_size m\<rparr>)) ?rem = Some (Some (g\<lparr>cursor := payload_size m\<rparr>), s1, w2)"
        using False by (subst smb_tr2_recv_loop.simps) (simp add: tr2_more_def)
      ultimately show ?thesis using g(4) k2 rx2 bs(1) by (auto intro!: Q)
    qed
    then show "wp (if n = 0 then Some (None, s1, w1)
       else do {
         total \<leftarrow> tr2_field ''total_data_count'' mo;
         cnt \<leftarrow> tr2_field ''data_count'' mo;
         (res, w) \<leftarrow> smb_message_grow w1 mo (word_of_int (int total - int cnt));
         case res of
           None \<Rightarrow> Some (None, s1, w)
         | Some r \<Rightarrow> do {
             m \<leftarrow> mo;
             remaining \<leftarrow> tr2_remaining mo;
             smb_tr2_recv_loop w s1 (Some (r\<lparr>cursor := payload_size m\<rparr>)) remaining
           }
       }) Q"
      using m(1,3) f(1-3) gr g(1) by simp
  qed
qed

section \<open>Properties\<close>

text \<open>
  C6 (transactions). Receiving a transaction returns, however many messages the server cuts
  it into: the result is a message that begins with the first packet, followed in order by
  the data of the others, with room for all the data announced; the stream is left behind
  the last message, and nothing is sent.
\<close>

theorem transaction_joined:
  assumes "session_ready s" and "peer_ok w" and "tr2_reply (rx_stream (w_rx w)) = Some (bs, n, r)"
  shows "\<exists>m q s' w'. smb_tr2_recv w s = Some (Some m, s', w') \<and> packet m = Some q \<and>
     payload_size m = word_of_nat n \<and> length q = 32 + n \<and> length bs \<le> length q \<and> take (length bs) q = bs \<and>
     same_session s s' \<and> w_sent w' = w_sent w \<and> (case r of None \<Rightarrow> True | Some rest \<Rightarrow> rx_stream (w_rx w') = rest)"
proof -
  have "wp (smb_tr2_recv w s) (\<lambda>(res, s', w'). joined bs n res \<and> recv_keeps s w s' w' \<and>
      (case r of None \<Rightarrow> True | Some rest \<Rightarrow> rx_stream (w_rx w') = rest))"
    by (rule smb_tr2_recv_ok [OF assms]) (simp split: option.split)
  then show ?thesis by (auto simp: wp_iff joined_def recv_keeps_def)
qed

text \<open>A server that answers with two packets.\<close>

definition two_answers :: "byte list \<Rightarrow> byte list \<Rightarrow> world" where
  "two_answers p1 p2 = sample_world\<lparr>w_rx := [Rx_data (nbt_frame 0 0 p1), Rx_data (nbt_frame 0 0 p2)]\<rparr>"

lemma two_answers_ok: "peer_ok (two_answers p1 p2)" "rx_stream (w_rx (two_answers p1 p2)) = nbt_frame 0 0 p1 @ nbt_frame 0 0 p2"
    "w_sent (two_answers p1 p2) = []" "iconv_fits (two_answers p1 p2)"
  by (auto simp: two_answers_def peer_ok_def mem_ok_def sample_world_def nbt_frame_def iconv_fits_def
      sample_iconv_def Let_def split: if_splits)

lemma next_reply_frame: "length pkt < 65536 \<Longrightarrow> next_reply (nbt_frame 0 0 pkt @ rest) = Some (pkt, rest)"
  using next_message_nbt(1) [of pkt 0 rest] by (simp add: next_reply_def)

definition part1 :: "byte list" where
  "part1 = reply_packet smb_trans2_resp ((\<lambda>_. 0)(''total_data_count'' := 4, ''data_count'' := 2)) [1, 2]"

definition part2 :: "byte list" where
  "part2 = reply_packet smb_trans2_resp ((\<lambda>_. 0)(''total_data_count'' := 4, ''data_count'' := 2, ''data_displacement'' := 2)) [3, 4]"

lemma parts_reply: "tr2_reply (nbt_frame 0 0 part1 @ nbt_frame 0 0 part2) = Some (part1 @ [3, 4], 28, Some [])"
proof -
  note f = reply_packet_field [where n = 2, of smb_trans2_resp]
  have p1: "length part1 = 58" "tr2_total part1 = 4" "tr2_count part1 = 2" "tr2_disp part1 = 0"
    by (simp_all add: part1_def f tr2_fields)
  have p2: "length part2 = 58" "tr2_total part2 = 4" "tr2_count part2 = 2" "tr2_disp part2 = 2"
    by (simp_all add: part2_def f tr2_fields)
  have d2: "tr2_data part2 = [3, 4]" by (simp add: tr2_data_def p2(3)) (simp add: part2_def reply_packet_def)
  have "tr2_split (nbt_frame 0 0 part2) = ([part2], Some [])"
    using next_reply_frame [of part2 "[]"] p2 by (simp add: tr2_split.simps [of "nbt_frame 0 0 part2"] tr2_more_def)
  then show ?thesis
    using next_reply_frame [of part1 "nbt_frame 0 0 part2"] p1 p2 d2
    by (simp add: tr2_reply_def tr2_more_def tr2_part_def)
qed

theorem transaction_joined_witness:
  "\<exists>m q s' w'. smb_tr2_recv (two_answers part1 part2) sample_smb = Some (Some m, s', w') \<and> packet m = Some q \<and>
     take 60 q = part1 @ [3, 4] \<and> rx_stream (w_rx w') = []"
proof -
  have "length (part1 @ [3, 4]) = 60" by (simp add: part1_def)
  then show ?thesis
    using transaction_joined [OF sample_smb_ready(1) two_answers_ok(1) [of part1 part2], unfolded two_answers_ok(2), OF parts_reply]
    by fastforce
qed

end
