(* ===== verification/Trans2_Spec.thy ===== *)
theory Trans2_Spec
  imports Trans2_Join
begin

text \<open>
  What the transactions promise: a search sends one request for each round and returns the
  entries of all of them, and a query of a file returns what the reply says about it.
\<close>

section \<open>The search request\<close>

declare find_padding.simps [simp del]

lemma find_padding_eq: "find_padding b p = (b + (3 - b mod 4), p + (3 - b mod 4))"
proof (induction b p rule: find_padding.induct)
  case (1 b p)
  show ?case
  proof (cases "b mod 4 = 3")
    case True
    then show ?thesis by (simp add: find_padding.simps [of b p])
  next
    case False
    then have m: "Suc b mod 4 = Suc (b mod 4)" "b mod 4 < 3" by (auto simp: mod_Suc)
    have "find_padding b p = find_padding (Suc b) (Suc p)" using False by (subst find_padding.simps) simp
    also have "\<dots> = (Suc b + (3 - Suc b mod 4), Suc p + (3 - Suc b mod 4))" using 1 [OF False] by simp
    finally show ?thesis using m(2) by (simp only: m(1) prod.inject) arith
  qed
qed

lemma put_padding_ok:
  assumes "msg_is h bs msg" and "calm w0 w" and "length bs + n < 2 ^ 61"
    and Q: "\<And>msg' w'. msg_is h (bs @ replicate n 0) msg' \<Longrightarrow> calm w0 w' \<Longrightarrow> Q (msg', w')"
  shows "wp (put_padding n w msg) Q"
  using assms
proof (induction n arbitrary: bs msg w)
  case 0
  then show ?case by simp
next
  case (Suc n)
  show ?case
    unfolding put_padding.simps wp_bind
    apply (rule smb_message_put8_ok [OF Suc.prems(1,2)])
    using Suc.prems(3) apply simp
    apply (simp only: prod.case)
    apply (rule Suc.IH, assumption, assumption)
    using Suc.prems(3) apply simp
    apply (rule Suc.prems(4); simp add: nat_bytes_numeral)
    done
qed

text \<open>The body of a search request: the transaction, the parameters, the pattern and the padding.\<close>

definition find_body :: "nat \<Rightarrow> layout \<Rightarrow> cstruct \<Rightarrow> byte list \<Rightarrow> byte list" where
  "find_body cmd L fnd u =
     (let params = sizeof L + length u; pad = 3 - (params + 3) mod 4
      in enc_struct smb_trans2_req (find_request cmd params (params + 3 + pad)) @ enc_struct L fnd @ u @ replicate pad 0)"

definition find_frame :: "smb_session \<Rightarrow> u32 \<Rightarrow> u16 \<Rightarrow> byte list \<Rightarrow> byte list" where
  "find_frame s pid tid body = smb_frame s ((new_header SMB_CMD_TRANS2 pid)(''tid'' := unat tid)) body"

text \<open>What a search keeps, and the frames it sends.\<close>

definition search_keeps :: "smb_session \<Rightarrow> world \<Rightarrow> byte list list \<Rightarrow> smb_session \<Rightarrow> world \<Rightarrow> bool" where
  "search_keeps s w frs s' w' \<longleftrightarrow> same_session s s' \<and> session_ready s' \<and> session_cap s \<le> session_cap s' \<and> peer_ok w' \<and>
     w_sent w' = w_sent w @ frs \<and> steady w' = steady w"


lemma search_keepsD:
  assumes "search_keeps s w frs s' w'"
  shows "session_ready s'" "peer_ok w'" "mem_ok w'" "steady w' = steady w" "w_sent w' = w_sent w @ frs" "session_cap s \<le> session_cap s'"
    "same_session s s'" "smb_frame s' = smb_frame s"
  using assms by (auto simp: search_keeps_def peer_ok_def same_session_def smb_frame_def smb_bytes_def fun_eq_iff)

lemma search_keeps_trans: "search_keeps s w a s1 w1 \<Longrightarrow> search_keeps s1 w1 b s2 w2 \<Longrightarrow> search_keeps s w (a @ b) s2 w2"
  by (auto simp: search_keeps_def intro: same_session_trans)

lemma length_find_body: "length (find_body cmd L fnd u) = sizeof smb_trans2_req + sizeof L + length u + (3 - (sizeof L + length u + 3) mod 4)"
  by (simp add: find_body_def Let_def)

lemma trans2_find_ok:
  assumes ready: "session_ready s" and peer: "peer_ok w" and conv: "iconv_fits w" "conv_small (pattern @ [0])"
    and u: "utf16_of w (pattern @ [0]) = u" "u \<noteq> []" and L: "sizeof L = 12"
    and sz: "87 + length u \<le> session_cap s" "length u < 2 ^ 29"
    and reply: "tr2_reply (rx_stream (w_rx w)) = Some (bs, n, r)"
    and Q: "\<And>res s' w'. joined bs n res \<Longrightarrow> search_keeps s w [find_frame s (w_pid w) tid (find_body cmd L fnd u)] s' w' \<Longrightarrow>
      (\<And>rest. r = Some rest \<Longrightarrow> rx_stream (w_rx w') = rest) \<Longrightarrow> Q (res, s', w')"
  shows "wp (trans2_find cmd L fnd w s tid pattern) Q"
proof -
  let ?h = "(new_header SMB_CMD_TRANS2 (w_pid w))(''tid'' := unat tid)" and ?b = "find_body cmd L fnd u"
  have fp: "find_padding (sizeof L + length u + 3) 0 =
      (sizeof L + length u + 3 + (3 - (sizeof L + length u + 3) mod 4), 3 - (sizeof L + length u + 3) mod 4)"
    by (simp add: find_padding_eq)
  have lb: "length ?b \<le> 51 + length u" by (simp add: length_find_body L)
  have send: "wp (smb_session_send_msg w1 s msg \<bind> (\<lambda>(res, s, msg, w). if res = 0 then Some (None, s, w) else smb_tr2_recv w s)) Q"
    if msg: "msg_is ?h ?b msg" "calm w w1" for msg w1
  proof -
    have sen: "session_sendable s (32 + length ?b)" using sz lb by (simp add: session_sendable_def)
    let ?R = "\<lambda>(r, s1, m1, w2). r = 1 \<and> same_session s s1 \<and> session_ready s1 \<and> session_cap s \<le> session_cap s1 \<and> peer_ok w2 \<and>
       w_sent w2 = w_sent w @ [smb_frame s ?h ?b] \<and> w_rx w2 = w_rx w"
    have "wp (smb_session_send_msg w1 s msg) ?R" by (rule smb_session_send_msg_ok [OF msg peer ready sen]) simp
    then obtain q s1 m1 w2 where eq: "smb_session_send_msg w1 s msg = Some (q, s1, m1, w2)" and R: "?R (q, s1, m1, w2)"
      by (auto simp: wp_iff)
    have env: "steady w2 = steady w"
      using exchange_env(2) [OF ready eq] same_io_steady [OF calm_fields(2) [OF msg(2)]] by simp
    have rep: "tr2_reply (rx_stream (w_rx w2)) = Some (bs, n, r)" using R reply by simp
    have "wp (smb_tr2_recv w2 s1) Q"
    proof (rule smb_tr2_recv_ok [OF _ _ rep])
      show "session_ready s1" "peer_ok w2" using R by simp_all
      fix res s' w' assume "joined bs n res" "recv_keeps s1 w2 s' w'" "\<And>rest. r = Some rest \<Longrightarrow> rx_stream (w_rx w') = rest"
      then show "Q (res, s', w')"
        using R env by (intro Q) (auto simp: search_keeps_def recv_keeps_def find_frame_def intro: same_session_trans)
    qed
    then show ?thesis using eq R by simp
  qed
  show ?thesis
    unfolding trans2_find_def wp_bind
    apply (rule smb_to_utf16_ok [OF calm_start [OF peer] conv])
    apply (simp only: prod.case u length_0_conv if_False Let_def fp)
    apply (simp only: wp_bind)
    apply (rule smb_message_new_ok, assumption)
    apply (simp only: prod.case msg_is_null if_False wp_bind)
    apply (rule smb_message_set_header_ok, assumption, rule smb_header_fields)
    apply (rule smb_msg_put_pkt_ok, assumption, assumption, simp)
    apply (simp only: prod.case wp_bind)
    apply (rule smb_msg_put_pkt_ok, assumption, assumption, simp add: L)
    apply (simp only: prod.case wp_bind)
    apply (rule smb_message_append_text_ok, assumption, assumption, assumption, rule u, use sz in \<open>simp add: L\<close>)
    apply (simp only: prod.case wp_bind)
    apply (rule put_padding_ok, assumption, assumption, use sz in \<open>simp add: L\<close>)
    apply (simp only: prod.case)
    apply (rule send)
     apply (simp add: find_body_def Let_def)
    apply assumption
    done
qed

section \<open>Parsing a search reply\<close>

lemma iconv_loop_size:
  "smb_iconv_loop muls w se de src = Some (n, Some b, w') \<Longrightarrow> list_all (\<lambda>m. 4 \<le> m \<and> m < 16) muls \<Longrightarrow> conv_small src \<Longrightarrow>
     4 * length src \<le> length b"
proof (induction muls arbitrary: w)
  case Nil
  then show ?case by simp
next
  case (Cons m ms)
  let ?n = "m * length src"
  have m: "4 \<le> m" "m < 16" using Cons.prems(2) by simp_all
  have "?n < 16 * 2 ^ 57" using m(2) Cons.prems(3) by (intro mult_strict_mono) (auto simp: conv_small_def)
  then have un: "unat (word_of_nat ?n :: u64) = ?n" by (intro unat_u64_of_nat) simp
  have "4 * length src \<le> ?n" using m(1) by (rule mult_right_mono) simp
  then show ?case
    using Cons.prems(1,2,3) un Cons.IH
    by (auto simp: Let_def buf_write_def split: prod.splits option.splits iconv_result.splits if_splits bind_splits dest!: c_malloc_props(2))
qed

lemma from_utf16_size: "smb_from_utf16 w src = Some (n, Some b, w') \<Longrightarrow> conv_small src \<Longrightarrow> 4 * length src \<le> length b"
  using iconv_loop_size [of "[4..<16]" w "''UCS-2LE''" "current_encoding w" src]
  by (auto simp: smb_from_utf16_def smb_iconv_def list_all_iff split: if_splits bind_splits simp del: upt_rec_numeral)

text \<open>The name of an entry: the converted text up to its first NUL.\<close>

definition shown_name :: "byte list \<Rightarrow> cstring" where
  "shown_name out = takeWhile (\<lambda>c. c \<noteq> 0) out"

text \<open>What the parser relies on: a name converts to some text, of less than four bytes for each byte of the name.\<close>

definition name_fits :: "world \<Rightarrow> byte list \<Rightarrow> bool" where
  "name_fits w nm \<longleftrightarrow> conv_small nm \<and> utf16_to w nm \<noteq> [] \<and> length (utf16_to w nm) < 4 * length nm"

lemma c_strlen_shown: "c_strlen (out @ 0 # t) = Some (length (shown_name out))"
  by (induction out) (simp_all add: shown_name_def)

lemma name_at_ok:
  assumes "holds_text out (Some b)" and "length out < length b"
  shows "name_at (Some b) (length out) = Some (shown_name out)"
proof -
  have b: "take (length out) b = out" using assms(1) by (simp add: holds_text_def)
  have "buf_write b (length out) [0] = Some (out @ 0 # drop (Suc (length out)) b)"
    using assms(2) b by (simp add: buf_write_def)
  moreover have "take (length (shown_name out)) (out @ t) = shown_name out" for t
  proof -
    have "out @ t = shown_name out @ dropWhile (\<lambda>c. c \<noteq> 0) out @ t" by (simp add: shown_name_def)
    then show ?thesis by (metis append_eq_conv_conj)
  qed
  ultimately show ?thesis by (simp add: name_at_def c_strlen_shown)
qed

lemma from_utf16_name_ok:
  assumes "calm w0 w" and "iconv_fits w0" and "name_fits w0 nm"
    and Q: "\<And>dst w'. calm w0 w' \<Longrightarrow> name_at dst (length (utf16_to w0 nm)) = Some (shown_name (utf16_to w0 nm)) \<Longrightarrow>
      Q (length (utf16_to w0 nm), dst, w')"
  shows "wp (smb_from_utf16 w nm) Q"
proof -
  let ?out = "utf16_to w0 nm"
  have nf: "conv_small nm" "?out \<noteq> []" "length ?out < 4 * length nm" using assms(3) by (auto simp: name_fits_def)
  let ?R = "\<lambda>(n, dst, w'). n = length ?out \<and> calm w0 w' \<and> holds_text ?out dst"
  have "wp (smb_from_utf16 w nm) ?R" by (rule smb_from_utf16_ok [OF assms(1,2) nf(1)]) simp
  then obtain n dst w' where eq: "smb_from_utf16 w nm = Some (n, dst, w')" and R: "?R (n, dst, w')" by (auto simp: wp_iff)
  obtain b where b: "dst = Some b" using R nf(2) by (cases dst) (auto simp: holds_text_def)
  have "length ?out < length b" using from_utf16_size [OF eq [unfolded b] nf(1)] nf(3) by simp
  then show ?thesis using eq R b name_at_ok [of ?out b] Q [of w' dst] by simp
qed

text \<open>The entries of a reply, each with its members, its name in UTF-16 and the bytes before the next one.\<close>

type_synonym find_entry = "cstruct \<times> byte list \<times> byte list"

fun entries_bytes :: "find_entry list \<Rightarrow> byte list" where
  "entries_bytes [] = []"
| "entries_bytes ((e, nm, gap) # es) =
     enc_struct smb_tr2_find2_entry (e(''name_len'' := length nm,
       ''next_entry'' := (if es = [] then e ''next_entry'' else 94 + length nm + length gap))) @
     nm @ gap @ entries_bytes es"

definition entry_file :: "world \<Rightarrow> find_entry \<Rightarrow> smb_file" where
  "entry_file w = (\<lambda>(e, nm, gap). new_file\<lparr>f_name := Some (shown_name (utf16_to w nm)),
     f_name_len := word_of_nat (length (utf16_to w nm)), f_created := word_of_nat (e ''created''),
     f_accessed := word_of_nat (e ''accessed''), f_written := word_of_nat (e ''written''),
     f_changed := word_of_nat (e ''changed''), f_size := word_of_nat (e ''size''),
     f_alloc_size := word_of_nat (e ''alloc_size''), f_attr := word_of_nat (e ''attr''),
     f_is_dir := uint ((word_of_nat (e ''attr'') :: u32) AND SMB_ATTR_DIR)\<rparr>)"

definition entry_ok :: "world \<Rightarrow> find_entry \<Rightarrow> bool" where
  "entry_ok w = (\<lambda>(e, nm, gap). name_fits w nm \<and> 94 + length nm + length gap < 2 ^ 32)"

lemma word_of_nat_mod: "LENGTH('a) \<le> 8 * n \<Longrightarrow> word_of_nat (v mod 256 ^ n) = (word_of_nat v :: 'a::len word)"
proof -
  assume a: "LENGTH('a) \<le> 8 * n"
  have "(256 :: nat) ^ n = 2 ^ (8 * n)" by (simp add: power_mult)
  then have "v mod 256 ^ n mod 2 ^ LENGTH('a) = v mod 2 ^ LENGTH('a)"
    using a by (simp add: mod_mod_cancel le_imp_power_dvd)
  then show ?thesis by (simp add: word_unat_eq_iff unat_of_nat take_bit_eq_mod)
qed

lemma entry_fields:
  fixes pre post nm e
  defines "p \<equiv> pre @ enc_struct smb_tr2_find2_entry e @ post" and "i \<equiv> length pre"
  shows "map_of smb_tr2_find2_entry f = Some n \<Longrightarrow> rd_field smb_tr2_find2_entry f p i = Some (e f mod 256 ^ n)"
    and "file_of_entry p i nm k = Some (new_file\<lparr>f_name := Some nm, f_name_len := word_of_nat k,
      f_created := word_of_nat (e ''created''), f_accessed := word_of_nat (e ''accessed''), f_written := word_of_nat (e ''written''),
      f_changed := word_of_nat (e ''changed''), f_size := word_of_nat (e ''size''), f_alloc_size := word_of_nat (e ''alloc_size''),
      f_attr := word_of_nat (e ''attr''), f_is_dir := uint ((word_of_nat (e ''attr'') :: u32) AND SMB_ATTR_DIR)\<rparr>)"
proof -
  show f: "rd_field smb_tr2_find2_entry f p i = Some (e f mod 256 ^ n)" if "map_of smb_tr2_find2_entry f = Some n" for f n
    unfolding p_def i_def by (rule rd_field_enc_struct [OF that])
  have m: "word_of_nat (v mod 256 ^ 8) = (word_of_nat v :: u64)" "word_of_nat (v mod 256 ^ 4) = (word_of_nat v :: u32)" for v
    by (rule word_of_nat_mod, simp)+
  have r: "rd_field smb_tr2_find2_entry f p i = Some (e f mod 256 ^ 8)"
    if "f \<in> {''created'', ''accessed'', ''written'', ''changed'', ''size'', ''alloc_size''}" for f
    by (rule f) (use that in \<open>auto simp: smb_tr2_find2_entry_def\<close>)
  have "rd_field smb_tr2_find2_entry ''attr'' p i = Some (e ''attr'' mod 256 ^ 4)"
    by (rule f) (simp add: smb_tr2_find2_entry_def)
  then show "file_of_entry p i nm k = Some (new_file\<lparr>f_name := Some nm, f_name_len := word_of_nat k,
      f_created := word_of_nat (e ''created''), f_accessed := word_of_nat (e ''accessed''), f_written := word_of_nat (e ''written''),
      f_changed := word_of_nat (e ''changed''), f_size := word_of_nat (e ''size''), f_alloc_size := word_of_nat (e ''alloc_size''),
      f_attr := word_of_nat (e ''attr''), f_is_dir := uint ((word_of_nat (e ''attr'') :: u32) AND SMB_ATTR_DIR)\<rparr>)"
    unfolding file_of_entry_def by (simp only: r insert_iff simp_thms bind.bind_lunit m)
qed

lemma parse_entries_ok:
  assumes fits: "iconv_fits w0"
  shows "calm w0 w \<Longrightarrow> list_all (entry_ok w0) es \<Longrightarrow> p = pre @ entries_bytes es @ post \<Longrightarrow> length p \<le> eod \<Longrightarrow>
     wp (smb_tr2_find2_parse_entries (length es) w files p (length pre) eod) (\<lambda>(fs, w').
       fs = rev (map (entry_file w0) es) @ files \<and> calm w0 w')"
proof (induction es arbitrary: w files pre)
  case Nil
  then show ?case by simp
next
  case (Cons x es)
  obtain e0 nm gap where x: "x = (e0, nm, gap)" by (cases x)
  let ?e = "e0(''name_len'' := length nm, ''next_entry'' := (if es = [] then e0 ''next_entry'' else 94 + length nm + length gap))"
  have ok: "name_fits w0 nm" "94 + length nm + length gap < 2 ^ 32" "list_all (entry_ok w0) es"
    using Cons.prems(2) x by (auto simp: entry_ok_def)
  have p: "p = pre @ enc_struct smb_tr2_find2_entry ?e @ (nm @ gap @ entries_bytes es @ post)" using Cons.prems(3) x by simp
  note f = entry_fields [where pre = pre and e = ?e and post = "nm @ gap @ entries_bytes es @ post", folded p]
  have nl: "rd_field smb_tr2_find2_entry ''name_len'' p (length pre) = Some (length nm)"
    using f(1) [of "''name_len''" 4] ok(2) by (simp add: smb_tr2_find2_entry_def)
  obtain nx where nx: "rd_field smb_tr2_find2_entry ''next_entry'' p (length pre) = Some nx"
      "es \<noteq> [] \<Longrightarrow> nx = 94 + length nm + length gap"
    using f(1) [of "''next_entry''" 4] ok(2) by (auto simp: smb_tr2_find2_entry_def)
  have src: "buf_read p (length pre + 94) (length nm) = Some nm" using p by (simp add: buf_read_def)
  have it: "length pre < eod" using p Cons.prems(4) by simp
  note cal = c_calloc_ok [OF calm_fields(1) [OF Cons.prems(1)], of 104]
  have c1: "calm w0 (alloc_tick w)" using Cons.prems(1) by (auto simp: calm_def intro: same_io_trans)
  have fl: "entry_file w0 x = (new_file\<lparr>f_name := Some (shown_name (utf16_to w0 nm)), f_name_len := word_of_nat (length (utf16_to w0 nm)),
      f_created := word_of_nat (?e ''created''), f_accessed := word_of_nat (?e ''accessed''), f_written := word_of_nat (?e ''written''),
      f_changed := word_of_nat (?e ''changed''), f_size := word_of_nat (?e ''size''), f_alloc_size := word_of_nat (?e ''alloc_size''),
      f_attr := word_of_nat (?e ''attr''), f_is_dir := uint ((word_of_nat (?e ''attr'') :: u32) AND SMB_ATTR_DIR)\<rparr>)"
    by (simp add: entry_file_def x)
  have rec: "wp (smb_tr2_find2_parse_entries (length es) w' (entry_file w0 x # files) p (length pre + nx) eod) (\<lambda>(fs, w').
       fs = rev (map (entry_file w0) (x # es)) @ files \<and> calm w0 w')" if c: "calm w0 w'" for w'
  proof (cases "es = []")
    case True
    then show ?thesis using c by simp
  next
    case False
    let ?pre = "pre @ enc_struct smb_tr2_find2_entry ?e @ nm @ gap"
    have l: "length ?pre = length pre + nx" using nx(2) [OF False] by simp
    from Cons.IH [OF c ok(3), of ?pre "entry_file w0 x # files"] p Cons.prems(4)
    show ?thesis unfolding l by simp
  qed
  have ne: "(length (utf16_to w0 nm) = 0) = False" using ok(1) by (simp add: name_fits_def)
  have go: "wp (smb_from_utf16 (alloc_tick w) nm) (\<lambda>a. wp (case a of (name_len, buf, w) \<Rightarrow>
      if name_len = 0 then Some (files, w)
      else do {
        name \<leftarrow> name_at buf name_len;
        file \<leftarrow> file_of_entry p (length pre) name name_len;
        next_entry \<leftarrow> rd_field smb_tr2_find2_entry ''next_entry'' p (length pre);
        smb_tr2_find2_parse_entries (length es) w (file # files) p (length pre + next_entry) eod
      }) (\<lambda>(fs, w'). fs = rev (map (entry_file w0) (x # es)) @ files \<and> calm w0 w'))"
    by (rule from_utf16_name_ok [OF c1 fits ok(1)])
      (simp only: prod.case ne if_False f(2) nx(1) bind.bind_lunit fl [symmetric] rec)
  show ?case
    using it cal nl src go by simp
qed

text \<open>A reply to a search: anything in the header and the transaction, then the parameters and the entries.\<close>

definition search_reply :: "layout \<Rightarrow> cstruct \<Rightarrow> find_entry list \<Rightarrow> byte list \<Rightarrow> bool" where
  "search_reply L ps es bs \<longleftrightarrow> ps ''count'' mod 65536 = length es \<and>
     (\<exists>hd tail. length hd = 56 \<and> bs = hd @ enc_struct L ps @ entries_bytes es @ tail)"

lemma search_reply_packet:
  assumes "joined bs sz msg" and "search_reply L ps es bs"
  obtains m hd tail where "msg = Some m" "packet m = Some (hd @ enc_struct L ps @ entries_bytes es @ tail)" "length hd = 56"
    "32 + unat (payload_size m) = length (hd @ enc_struct L ps @ entries_bytes es @ tail)" "ps ''count'' mod 256 ^ 2 = length es"
proof -
  obtain m q where m: "msg = Some m" "packet m = Some q" "payload_size m = word_of_nat sz" "length q = 32 + sz"
      "take (length bs) q = bs" "sz < 2 ^ 21"
    using assms(1) by (auto simp: joined_def)
  obtain hd tail where b: "length hd = 56" "bs = hd @ enc_struct L ps @ entries_bytes es @ tail" "ps ''count'' mod 65536 = length es"
    using assms(2) by (auto simp: search_reply_def)
  have "q = bs @ drop (length bs) q" using m(5) by (metis append_take_drop_id)
  then have q: "q = hd @ enc_struct L ps @ entries_bytes es @ (tail @ drop (length bs) q)" using b(2) by simp
  have "unat (payload_size m) = sz" unfolding m(3) by (rule unat_u64_of_nat) (use m(6) in simp)
  then have "32 + unat (payload_size m) = length q" using m(4) by simp
  then show thesis using that [OF m(1) _ b(1), of "tail @ drop (length bs) q"] m(2) b(3) by (simp add: q [symmetric])
qed

lemma find_parse_ok:
  assumes msg: "joined bs sz msg" "search_reply L ps es bs" and L: "map_of L ''count'' = Some 2" and c: "mem_ok w" "iconv_fits w"
    and es: "list_all (entry_ok w) es"
  shows "wp (smb_find_parse L w msg files) (\<lambda>(fs, w'). fs = rev (map (entry_file w) es) @ files \<and> calm w w')"
proof -
  obtain m hd tail where m: "msg = Some m" "packet m = Some (hd @ enc_struct L ps @ entries_bytes es @ tail)" "length hd = 56"
    "32 + unat (payload_size m) = length (hd @ enc_struct L ps @ entries_bytes es @ tail)" "ps ''count'' mod 256 ^ 2 = length es"
    by (rule search_reply_packet [OF msg])
  let ?p = "hd @ enc_struct L ps @ entries_bytes es @ tail"
  have cnt: "rd_field L ''count'' ?p 56 = Some (length es)"
    using rd_field_enc_struct [OF L, of hd ps "entries_bytes es @ tail"] m(3,5) by simp
  have "wp (smb_tr2_find2_parse_entries (length es) w files ?p (length (hd @ enc_struct L ps)) (length ?p))
      (\<lambda>(fs, w'). fs = rev (map (entry_file w) es) @ files \<and> calm w w')"
    by (rule parse_entries_ok [OF c(2) calm_refl [OF c(1)] es]) simp_all
  then show ?thesis using m(1-3) cnt m(4) by (simp add: smb_find_parse_def)
qed

text \<open>What the parameters of a reply say: whether the search ends, and the key to resume it.\<close>

definition last_round :: "cstruct \<Rightarrow> bool" where
  "last_round ps \<longleftrightarrow> ps ''eos'' mod 65536 \<noteq> 0 \<or> ps ''ea_error_offset'' mod 65536 \<noteq> 0"

definition resume_of :: "cstruct \<Rightarrow> nat" where
  "resume_of ps = ps ''last_name_offset'' mod 65536"

lemma find_params_fields:
  "map_of smb_tr2_findfirst2_params ''count'' = Some 2" "map_of smb_tr2_findfirst2_params ''eos'' = Some 2"
  "map_of smb_tr2_findfirst2_params ''ea_error_offset'' = Some 2" "map_of smb_tr2_findfirst2_params ''last_name_offset'' = Some 2"
  "map_of smb_tr2_findfirst2_params ''id'' = Some 2"
  "map_of smb_tr2_findnext2_params ''count'' = Some 2" "map_of smb_tr2_findnext2_params ''eos'' = Some 2"
  "map_of smb_tr2_findnext2_params ''ea_error_offset'' = Some 2" "map_of smb_tr2_findnext2_params ''last_name_offset'' = Some 2"
  by (simp_all add: smb_tr2_findfirst2_params_def smb_tr2_findnext2_params_def)

lemma search_state_ok:
  assumes "joined bs sz msg" "search_reply L ps es bs" and "map_of L ''eos'' = Some 2" "map_of L ''last_name_offset'' = Some 2"
    "map_of L ''ea_error_offset'' = Some 2"
  shows "search_state L msg = Some (ps ''eos'' mod 65536 \<noteq> 0, resume_of ps, ps ''ea_error_offset'' mod 65536)"
proof -
  obtain m hd tail where m: "msg = Some m" "packet m = Some (hd @ enc_struct L ps @ entries_bytes es @ tail)" "length hd = 56"
    by (rule search_reply_packet [OF assms(1,2)])
  have "rd_field L f (hd @ enc_struct L ps @ entries_bytes es @ tail) 56 = Some (ps f mod 65536)" if "map_of L f = Some 2" for f
    using rd_field_enc_struct [OF that, of hd ps "entries_bytes es @ tail"] m(3) by simp
  then show ?thesis using m(1,2) assms(3-) by (simp add: search_state_def resume_of_def)
qed

section \<open>Searching\<close>

text \<open>
  A stream in which the server answers a search in rounds, each with its parameters and
  entries; all rounds but the last ask to be resumed.
\<close>

type_synonym search_round = "cstruct \<times> find_entry list"

fun serves :: "world \<Rightarrow> layout \<Rightarrow> search_round list \<Rightarrow> byte list \<Rightarrow> bool" where
  "serves w L [] st = False"
| "serves w L ((ps, es) # rs) st \<longleftrightarrow> (\<exists>bs sz r. tr2_reply st = Some (bs, sz, r) \<and> search_reply L ps es bs \<and>
     list_all (entry_ok w) es \<and>
     (if rs = [] then last_round ps
      else \<not> last_round ps \<and> (\<exists>rest. r = Some rest \<and> serves w smb_tr2_findnext2_params rs rest)))"

text \<open>The requests that resume a search.\<close>

fun resume_frames :: "smb_session \<Rightarrow> u32 \<Rightarrow> u16 \<Rightarrow> byte list \<Rightarrow> nat \<Rightarrow> nat \<Rightarrow> search_round list \<Rightarrow> byte list list" where
  "resume_frames s pid tid u sid key [] = []"
| "resume_frames s pid tid u sid key ((ps, es) # rs) =
     find_frame s pid tid (find_body SMB_TR2_FIND_NEXT smb_tr2_findnext2 (findnext2_request key sid) u) #
     resume_frames s pid tid u sid (resume_of ps) rs"

lemma search_keeps_calm: "search_keeps s w frs s' w' \<Longrightarrow> calm w' w'' \<Longrightarrow> search_keeps s w frs s' w''"
  using same_io_fields [OF calm_fields(2), of w' w''] same_io_steady [OF calm_fields(2), of w' w'']
  by (auto simp: search_keeps_def intro: peer_ok_calm)

lemma search_keeps_refl: "session_ready s \<Longrightarrow> peer_ok w \<Longrightarrow> search_keeps s w [] s w"
  by (cases s; cases "transport s") (auto simp: search_keeps_def same_session_def with_ns_def session_ready_def split: option.splits)

lemma steady_entries:
  assumes "steady w' = steady w"
  shows "entry_file w' = entry_file w" "entry_ok w' = entry_ok w" "iconv_fits w' = iconv_fits w" "utf16_of w' = utf16_of w" "w_pid w' = w_pid w"
    "serves w' = serves w"
proof -
  note c = steady_cong [OF assms]
  show e: "entry_file w' = entry_file w" "entry_ok w' = entry_ok w" "iconv_fits w' = iconv_fits w" "utf16_of w' = utf16_of w" "w_pid w' = w_pid w"
    using c by (auto simp: entry_file_def entry_ok_def name_fits_def fun_eq_iff)
  have "serves w' L rs st = serves w L rs st" for L rs st
  proof (induction rs arbitrary: L st)
    case (Cons x rs)
    then show ?case by (cases x) (simp add: e cong: if_cong)
  qed simp
  then show "serves w' = serves w" by (simp add: fun_eq_iff)
qed


lemma find_frame_keeps:
  assumes "search_keeps s w frs s' w'"
  shows "find_frame s' = find_frame s" "resume_frames s' pid tid u sid key rs = resume_frames s pid tid u sid key rs"
proof -
  show f: "find_frame s' = find_frame s" using search_keepsD(8) [OF assms] by (simp add: find_frame_def fun_eq_iff)
  show "resume_frames s' pid tid u sid key rs = resume_frames s pid tid u sid key rs"
    by (induction rs arbitrary: key) (auto simp: f)
qed

text \<open>The first round a server answers.\<close>

lemma serves_head:
  assumes "serves w L ((ps, es) # rs) st"
  obtains bs n r where "tr2_reply st = Some (bs, n, r)" and "search_reply L ps es bs" and "list_all (entry_ok w) es"
    and "last_round ps \<longleftrightarrow> rs = []" and "rs \<noteq> [] \<longrightarrow> (\<exists>rest. r = Some rest \<and> serves w smb_tr2_findnext2_params rs rest)"
  using assms by (auto split: if_splits)

text \<open>
  The loop that takes the rounds \<open>rs\<close>, entered with the files found so far: what it is
  entered with, and what it gives.
\<close>

definition loop_entry :: "cstring \<Rightarrow> byte list \<Rightarrow> search_round list \<Rightarrow> world \<Rightarrow> smb_session \<Rightarrow> bool" where
  "loop_entry pattern u rs w s \<longleftrightarrow> session_ready s \<and> peer_ok w \<and> iconv_fits w \<and> utf16_of w (pattern @ [0]) = u \<and>
     87 + length u \<le> session_cap s \<and> (rs \<noteq> [] \<longrightarrow> serves w smb_tr2_findnext2_params rs (rx_stream (w_rx w)))"

definition loop_takes :: "u16 \<Rightarrow> cstring \<Rightarrow> byte list \<Rightarrow> nat \<Rightarrow> search_round list \<Rightarrow> bool" where
  "loop_takes tid pattern u sid rs \<longleftrightarrow> (\<forall>w s files eos key err. loop_entry pattern u rs w s \<and> files \<noteq> [] \<and> (eos \<or> err \<noteq> 0 \<longleftrightarrow> rs = []) \<longrightarrow>
     wp (smb_find_loop w s tid pattern sid files eos key err) (\<lambda>(fs, s', w').
       fs = rev (map (entry_file w) (concat (map snd rs))) @ files \<and>
       search_keeps s w (resume_frames s (w_pid w) tid u sid key rs) s' w'))"

text \<open>After a round, with its entries read, the loop takes the others.\<close>

lemma rounds_follow:
  assumes loop: "loop_takes tid pattern u sid rs" and k: "search_keeps s w [fr] s1 w1" and c: "calm w1 w2"
    and w: "iconv_fits w" "utf16_of w (pattern @ [0]) = u" "87 + length u \<le> session_cap s"
    and rest: "rs \<noteq> [] \<Longrightarrow> serves w smb_tr2_findnext2_params rs (rx_stream (w_rx w1))" and lr: "last_round ps \<longleftrightarrow> rs = []" and ne: "files \<noteq> []"
  shows "wp (smb_find_loop w2 s1 tid pattern sid files (ps ''eos'' mod 65536 \<noteq> 0) (resume_of ps) (ps ''ea_error_offset'' mod 65536))
     (\<lambda>(fs, s', w'). fs = rev (map (entry_file w) (concat (map snd rs))) @ files \<and>
        search_keeps s w (fr # resume_frames s (w_pid w) tid u sid (resume_of ps) rs) s' w')"
proof -
  have k2: "search_keeps s w [fr] s1 w2" by (rule search_keeps_calm [OF k c])
  note kd = search_keepsD [OF k2] and st = steady_entries [OF search_keepsD(4) [OF k2]]
  have "rx_stream (w_rx w2) = rx_stream (w_rx w1)" using same_io_fields [OF calm_fields(2) [OF c]] by simp
  then have "loop_entry pattern u rs w2 s1" using w rest kd st by (auto simp: loop_entry_def)
  then have "wp (smb_find_loop w2 s1 tid pattern sid files (ps ''eos'' mod 65536 \<noteq> 0) (resume_of ps) (ps ''ea_error_offset'' mod 65536))
     (\<lambda>(fs, s', w'). fs = rev (map (entry_file w2) (concat (map snd rs))) @ files \<and>
        search_keeps s1 w2 (resume_frames s1 (w_pid w2) tid u sid (resume_of ps) rs) s' w')"
    using loop lr ne unfolding loop_takes_def by (auto simp: last_round_def)
  then show ?thesis by (rule wp_mono) (auto simp: st find_frame_keeps [OF k2] dest: search_keeps_trans [OF k2])
qed

lemma find_loop_ok:
  assumes conv: "conv_small (pattern @ [0])" "u \<noteq> []" "length u < 2 ^ 29"
  shows "loop_takes tid pattern u sid rs"
proof (induction rs)
  case Nil
  have "smb_find_loop w s tid pattern sid files eos key err = Some (files, s, w)" if "eos \<or> err \<noteq> 0" for w s files eos key err
    using that by (subst smb_find_loop.simps) simp
  then show ?case by (auto simp: loop_takes_def loop_entry_def search_keeps_refl)
next
  case (Cons x rs)
  obtain ps es where x: "x = (ps, es)" by (cases x)
  show ?case
    unfolding loop_takes_def
  proof (intro allI impI, elim conjE)
    fix w s eos key and err :: nat and files :: "smb_file list"
    assume entry: "loop_entry pattern u (x # rs) w s" and ne: "files \<noteq> []" and more: "(eos \<or> err \<noteq> 0) = (x # rs = [])"
    then have e: "session_ready s" "peer_ok w" "iconv_fits w" "utf16_of w (pattern @ [0]) = u" "87 + length u \<le> session_cap s"
      "serves w smb_tr2_findnext2_params ((ps, es) # rs) (rx_stream (w_rx w))" by (simp_all add: loop_entry_def x)
    obtain bs n r where reply: "tr2_reply (rx_stream (w_rx w)) = Some (bs, n, r)" and sr: "search_reply smb_tr2_findnext2_params ps es bs"
      and es: "list_all (entry_ok w) es" and lr: "last_round ps \<longleftrightarrow> rs = []"
      and rest: "rs \<noteq> [] \<longrightarrow> (\<exists>rest. r = Some rest \<and> serves w smb_tr2_findnext2_params rs rest)" by (rule serves_head [OF e(6)])
    let ?fr = "find_frame s (w_pid w) tid (find_body SMB_TR2_FIND_NEXT smb_tr2_findnext2 (findnext2_request key sid) u)"
    let ?Q = "\<lambda>(fs, s', w'). fs = rev (map (entry_file w) (concat (map snd (x # rs)))) @ files \<and>
         search_keeps s w (resume_frames s (w_pid w) tid u sid key (x # rs)) s' w'"
    have go: "smb_find_loop w s tid pattern sid files eos key err =
        trans2_find SMB_TR2_FIND_NEXT smb_tr2_findnext2 (findnext2_request key sid) w s tid pattern \<bind> (\<lambda>(msg, s, w).
          if msg = None then Some ([], s, w)
          else do {
            (end_of_search, resume_key, error_offset) \<leftarrow> search_state smb_tr2_findnext2_params msg;
            (files, w) \<leftarrow> smb_find_parse smb_tr2_findnext2_params w msg files;
            smb_find_loop w s tid pattern sid files (end_of_search \<or> files = []) resume_key error_offset
          })"
      using more by (subst smb_find_loop.simps, unfold smb_trans2_find_next_def smb_find_next_parse_def) simp
    show "wp (smb_find_loop w s tid pattern sid files eos key err) ?Q"
      unfolding go wp_bind
    proof (rule trans2_find_ok [OF e(1-3) conv(1) e(4) conv(2) _ e(5) conv(3) reply], simp, unfold prod.case)
      fix res s1 w1
      assume j: "joined bs n res" and k: "search_keeps s w [?fr] s1 w1" and rx: "\<And>rest. r = Some rest \<Longrightarrow> rx_stream (w_rx w1) = rest"
      note kd = search_keepsD [OF k] and st = steady_entries [OF search_keepsD(4) [OF k]]
      have nn: "(res = None) = False" using j by (auto simp: joined_def)
      note state = search_state_ok [OF j sr find_params_fields(7,9,8)]
      have parse: "wp (smb_find_parse smb_tr2_findnext2_params w1 res files) (\<lambda>(fs, w'). fs = rev (map (entry_file w) es) @ files \<and> calm w1 w')"
        using find_parse_ok [OF j sr find_params_fields(6) kd(3), of files] e(3) es st by simp
      have "serves w smb_tr2_findnext2_params rs (rx_stream (w_rx w1))" if "rs \<noteq> []" using rest that rx by auto
      note next_round = rounds_follow [OF Cons.IH k _ e(3-5) this lr, of _ "rev (map (entry_file w) es) @ files"]
      show "wp (if res = None then Some ([], s1, w1)
          else do {
            (end_of_search, resume_key, error_offset) \<leftarrow> search_state smb_tr2_findnext2_params res;
            (files, w) \<leftarrow> smb_find_parse smb_tr2_findnext2_params w1 res files;
            smb_find_loop w s1 tid pattern sid files (end_of_search \<or> files = []) resume_key error_offset
          }) ?Q"
        unfolding nn if_False state bind.bind_lunit prod.case wp_bind
        by (rule wp_mono [OF parse]) (use next_round ne in \<open>auto simp: x\<close>)
    qed
  qed
qed

lemma smb_find_ok:
  assumes conv: "iconv_fits w" "conv_small (pattern @ [0])" and u: "utf16_of w (pattern @ [0]) = u" "u \<noteq> []"
    and sz: "87 + length u \<le> session_cap s" "length u < 2 ^ 29" and s: "session_ready s" "peer_ok w"
    and server: "serves w smb_tr2_findfirst2_params ((ps, es) # rs) (rx_stream (w_rx w))" and es: "es \<noteq> []"
  shows "wp (smb_find w s tid pattern) (\<lambda>(fs, s', w').
       fs = rev (map (entry_file w) (es @ concat (map snd rs))) \<and>
       search_keeps s w (find_frame s (w_pid w) tid (find_body SMB_TR2_FIND_FIRST smb_tr2_findfirst2 findfirst2_request u) #
         resume_frames s (w_pid w) tid u (ps ''id'' mod 65536) (resume_of ps) rs) s' w')"
proof -
  obtain bs n r where reply: "tr2_reply (rx_stream (w_rx w)) = Some (bs, n, r)" and sr: "search_reply smb_tr2_findfirst2_params ps es bs"
    and ok: "list_all (entry_ok w) es" and lr: "last_round ps \<longleftrightarrow> rs = []"
    and rest: "rs \<noteq> [] \<longrightarrow> (\<exists>rest. r = Some rest \<and> serves w smb_tr2_findnext2_params rs rest)" by (rule serves_head [OF server])
  let ?fr = "find_frame s (w_pid w) tid (find_body SMB_TR2_FIND_FIRST smb_tr2_findfirst2 findfirst2_request u)"
  let ?Q = "\<lambda>(fs, s', w'). fs = rev (map (entry_file w) (es @ concat (map snd rs))) \<and>
       search_keeps s w (?fr # resume_frames s (w_pid w) tid u (ps ''id'' mod 65536) (resume_of ps) rs) s' w'"
  show ?thesis
    unfolding smb_find_def smb_trans2_find_first_def wp_bind
  proof (rule trans2_find_ok [OF s conv u _ sz reply], simp, unfold prod.case)
    fix res s1 w1
    assume j: "joined bs n res" and k: "search_keeps s w [?fr] s1 w1" and rx: "\<And>rest. r = Some rest \<Longrightarrow> rx_stream (w_rx w1) = rest"
    note kd = search_keepsD [OF k] and st = steady_entries [OF search_keepsD(4) [OF k]]
    have nn: "(res = None) = False" using j by (auto simp: joined_def)
    note state = search_state_ok [OF j sr find_params_fields(2,4,3)]
    obtain m hd tail where m: "res = Some m" "packet m = Some (hd @ enc_struct smb_tr2_findfirst2_params ps @ entries_bytes es @ tail)" "length hd = 56"
      by (rule search_reply_packet [OF j sr])
    have sid: "rd_field smb_tr2_findfirst2_params ''id'' (hd @ enc_struct smb_tr2_findfirst2_params ps @ entries_bytes es @ tail) tr2_payload
        = Some (ps ''id'' mod 65536)"
      using rd_field_enc_struct [OF find_params_fields(5), of hd ps "entries_bytes es @ tail"] m(3) by simp
    have parse: "wp (smb_find_parse smb_tr2_findfirst2_params w1 res []) (\<lambda>(fs, w'). fs = rev (map (entry_file w) es) \<and> calm w1 w')"
      using find_parse_ok [OF j sr find_params_fields(1) kd(3), of "[]"] ok conv(1) st by simp
    have "serves w smb_tr2_findnext2_params rs (rx_stream (w_rx w1))" if "rs \<noteq> []" using rest that rx by auto
    note rounds = rounds_follow [OF find_loop_ok [OF conv(2) u(2) sz(2)] k _ conv(1) u(1) sz(1) this lr, of _ "rev (map (entry_file w) es)"]
    show "wp (if res = None then Some ([], s1, w1)
       else do {
         (files, w) \<leftarrow> smb_find_first_parse w1 res [];
         if files = [] then Some ([], s1, w)
         else do {
           m \<leftarrow> res; p \<leftarrow> packet m;
           sid \<leftarrow> rd_field smb_tr2_findfirst2_params ''id'' p tr2_payload;
           (end_of_search, resume_key, error_offset) \<leftarrow> search_state smb_tr2_findfirst2_params res;
           smb_find_loop w s1 tid pattern sid files end_of_search resume_key error_offset
         }
       }) ?Q"
      unfolding nn if_False smb_find_first_parse_def wp_bind
    proof (rule wp_mono [OF parse])
      fix y assume "(\<lambda>(fs, w'). fs = rev (map (entry_file w) es) \<and> calm w1 w') y"
      then obtain w2 where "y = (rev (map (entry_file w) es), w2)" and c: "calm w1 w2" by (cases y) simp
      moreover have "rev (map (entry_file w) es) \<noteq> []" using es by simp
      ultimately show "wp ((\<lambda>(files, w). if files = [] then Some ([], s1, w)
         else do {
           m \<leftarrow> res; p \<leftarrow> packet m;
           sid \<leftarrow> rd_field smb_tr2_findfirst2_params ''id'' p tr2_payload;
           (end_of_search, resume_key, error_offset) \<leftarrow> search_state smb_tr2_findfirst2_params res;
           smb_find_loop w s1 tid pattern sid files end_of_search resume_key error_offset
         }) y) ?Q"
        using rounds [OF c, of tid "ps ''id'' mod 65536"] unfolding state by (simp add: m(1,2) sid [simplified])
    qed
  qed
qed

section \<open>Querying a file\<close>

text \<open>The name a reply to a query carries, in UTF-16, and the file it describes.\<close>

abbreviation stat_field :: "string \<Rightarrow> byte list \<Rightarrow> nat" where
  "stat_field f pkt \<equiv> the (rd_field smb_tr2_path_info f pkt 60)"

definition stat_name :: "byte list \<Rightarrow> byte list" where
  "stat_name pkt = take (stat_field ''name_len'' pkt) (drop 132 pkt)"

definition pkt_stat :: "world \<Rightarrow> byte list \<Rightarrow> smb_file" where
  "pkt_stat w pkt =
     (let v = (\<lambda>f. stat_field f pkt); out = utf16_to w (stat_name pkt)
      in new_file\<lparr>f_name := Some (shown_name (take (v ''name_len'' div 2) out)),
           f_name_len := word_of_nat (length out), f_created := word_of_nat (v ''created''),
           f_accessed := word_of_nat (v ''accessed''), f_written := word_of_nat (v ''written''),
           f_changed := word_of_nat (v ''changed''), f_alloc_size := word_of_nat (v ''alloc_size''),
           f_size := word_of_nat (v ''size''), f_attr := word_of_nat (v ''attr''), f_is_dir := int (v ''is_dir'')\<rparr>)"

text \<open>What the query relies on about the converter: every UTF-16 unit gives at least one byte.\<close>

definition name_covers :: "world \<Rightarrow> byte list \<Rightarrow> bool" where
  "name_covers w nm \<longleftrightarrow> utf16_to w nm = [] \<or> length nm div 2 \<le> length (utf16_to w nm)"

lemma stat_fields_ok:
  assumes "take (length pkt) q = pkt" and "132 \<le> length pkt"
  shows "\<forall>f \<in> {''created'', ''accessed'', ''written'', ''changed'', ''alloc_size'', ''size'', ''attr'', ''is_dir'', ''name_len''}.
     rd_field smb_tr2_path_info f q 60 = Some (stat_field f pkt)"
proof
  fix f assume f: "f \<in> {''created'', ''accessed'', ''written'', ''changed'', ''alloc_size'', ''size'', ''attr'', ''is_dir'', ''name_len''}"
  then obtain n where n: "map_of smb_tr2_path_info f = Some n" by (auto simp: smb_tr2_path_info_def)
  have l: "60 + sizeof smb_tr2_path_info \<le> length pkt" using assms(2) by simp
  show "rd_field smb_tr2_path_info f q 60 = Some (stat_field f pkt)"
    using rd_field_prefix [OF assms(1) n l] rd_field_total [OF n l] by auto
qed

lemma stat_name_at:
  assumes "holds_text out (Some b)" and "k \<le> length out" "k < length b"
  shows "name_at (Some b) k = Some (shown_name (take k out))"
proof -
  have b: "take (length out) b = out" using assms(1) by (simp add: holds_text_def)
  have "take k b = take k out" using assms(2) by (subst b [symmetric]) simp
  then have "holds_text (take k out) (Some b) \<or> k = 0" using assms by (auto simp: holds_text_def min_def)
  moreover have "name_at (Some b) 0 = Some []" if "k = 0"
    using assms(3) that by (cases b) (auto simp: name_at_def buf_write_def)
  moreover have "length (take k out) = k" using assms(2) by simp
  ultimately show ?thesis using name_at_ok [of "take k out" b] assms(3) by (auto simp: shown_name_def)
qed

lemma stat_of_reply_gen:
  assumes m: "reply_is pkt m" and len: "132 \<le> length pkt" and w: "mem_ok w" "iconv_fits w" and cov: "name_covers w (stat_name pkt)"
    and short: "length pkt < 132 + stat_field ''name_len'' pkt \<Longrightarrow> P (Some (None, w))"
    and bad: "132 + stat_field ''name_len'' pkt \<le> length pkt \<Longrightarrow> utf16_to w (stat_name pkt) = [] \<Longrightarrow> P None"
    and ok: "\<And>w'. w_sent w' = w_sent w \<Longrightarrow> 132 + stat_field ''name_len'' pkt \<le> length pkt \<Longrightarrow> utf16_to w (stat_name pkt) \<noteq> [] \<Longrightarrow> P (Some (Some (pkt_stat w pkt), w'))"
  shows "P (stat_of_reply w (Some m))"
proof -
  obtain q where q: "packet m = Some q" "take (length pkt) q = pkt" "length pkt \<le> length q" using reply_isD(1) [OF m] by blast
  note l = reply_isD(2-4) [OF m]
  let ?nl = "stat_field ''name_len'' pkt" and ?out = "utf16_to w (stat_name pkt)"
  have f: "rd_field smb_tr2_path_info f q 60 = Some (stat_field f pkt)"
    if "f \<in> {''created'', ''accessed'', ''written'', ''changed'', ''alloc_size'', ''size'', ''attr'', ''is_dir'', ''name_len''}" for f
    by (rule bspec [OF stat_fields_ok [OF q(2) len] that])
  show ?thesis
  proof (cases "length pkt < 132 + ?nl")
    case True
    then have "length pkt - 32 < 100 + ?nl" using len by simp
    then show ?thesis using short [OF True] q(1) f l by (simp add: stat_of_reply_def)
  next
    case False
    have ln: "length (stat_name pkt) = ?nl" using False by (simp add: stat_name_def)
    have small: "conv_small (stat_name pkt)" using ln False l(3) by (simp add: conv_small_def)
    have src: "buf_read q 132 ?nl = Some (stat_name pkt)"
      using buf_read_prefix [OF q(2), of 132 ?nl] False by (simp add: buf_read_def stat_name_def)
    let ?R = "\<lambda>(n, dst, w'). n = length ?out \<and> holds_text ?out dst \<and> w_sent w' = w_sent w"
    have "wp (smb_from_utf16 (alloc_tick w) (stat_name pkt)) ?R"
      by (rule smb_from_utf16_ok [OF _ w(2) small]) (use w(1) in \<open>simp_all add: calm_def same_io_fields\<close>)
    then obtain dst w' where cv: "smb_from_utf16 (alloc_tick w) (stat_name pkt) = Some (length ?out, dst, w')" "holds_text ?out dst"
      "w_sent w' = w_sent w"
      by (auto simp: wp_iff)
    have nshort: "\<not> length pkt - 32 < 100 + ?nl" using False by simp
    have step: "stat_of_reply w (Some m) = do {
        name \<leftarrow> name_at dst (?nl div 2);
        Some (Some ((pkt_stat w pkt)\<lparr>f_name := Some name\<rparr>), w') }"
      using q(1) f l nshort src cv(1) c_calloc_ok [OF w(1), of 104]
      by (simp add: stat_of_reply_def pkt_stat_def Let_def new_file_def)
    show ?thesis
    proof (cases "?out = []")
      case True
      then have "dst = None" using cv(2) by (simp add: holds_text_def)
      then show ?thesis using bad True False step by (simp add: name_at_def)
    next
      case ne: False
      then obtain b where b: "dst = Some b" using cv(2) by (cases dst) (auto simp: holds_text_def)
      have "stat_name pkt \<noteq> []" using ne by (auto simp: conv_out_def)
      then have "0 < ?nl" unfolding ln [symmetric] by simp
      moreover have "4 * ?nl \<le> length b" using from_utf16_size [OF cv(1) [unfolded b] small] ln by simp
      ultimately have "?nl div 2 < length b" by linarith
      moreover have "?nl div 2 \<le> length ?out" using cov ne ln by (simp add: name_covers_def)
      ultimately have "name_at dst (?nl div 2) = Some (shown_name (take (?nl div 2) ?out))"
        using stat_name_at [of ?out b] cv(2) b by simp
      moreover have "(pkt_stat w pkt)\<lparr>f_name := Some (shown_name (take (?nl div 2) ?out))\<rparr> = pkt_stat w pkt"
        by (simp add: pkt_stat_def Let_def new_file_def)
      ultimately show ?thesis using ok [OF cv(3) _ ne] False step by simp
    qed
  qed
qed

definition stat_frame :: "smb_session \<Rightarrow> u32 \<Rightarrow> u16 \<Rightarrow> byte list \<Rightarrow> byte list" where
  "stat_frame s pid tid u =
     (let pad = (if (42 + length u) mod 4 \<noteq> 0 then 4 - (42 + length u) mod 4 else 0)
      in smb_frame s ((new_header SMB_CMD_TRANS2 pid)(''tid'' := unat tid))
           (enc_struct smb_trans2_req (query_request (length u) pad) @
            enc_struct smb_tr2_query (smb_msg_init_pkt(''interest'' := SMB_FIND2_QUERY_FILE_ALL_INFO)) @ u @ replicate pad 0))"

text \<open>A reply to a query: too short, with a name that does not convert, or a file.\<close>

lemma stat_answer_gen:
  assumes m: "reply_is pkt m" and len: "length pkt < 104 \<or> 132 \<le> length pkt" and w: "mem_ok w'" "steady w' = steady w" "iconv_fits w"
    and cov: "name_covers w (stat_name pkt)"
    and short: "\<And>w2. length pkt < 104 \<or> length pkt < 132 + stat_field ''name_len'' pkt \<Longrightarrow> w_sent w2 = w_sent w' \<Longrightarrow> P (Some (None, s', w2))"
    and bad: "132 + stat_field ''name_len'' pkt \<le> length pkt \<Longrightarrow> utf16_to w (stat_name pkt) = [] \<Longrightarrow> P None"
    and ok: "\<And>w2. 132 + stat_field ''name_len'' pkt \<le> length pkt \<Longrightarrow> utf16_to w (stat_name pkt) \<noteq> [] \<Longrightarrow> w_sent w2 = w_sent w' \<Longrightarrow>
      P (Some (Some (pkt_stat w pkt), s', w2))"
  shows "P (do { short \<leftarrow> reply_short smb_tr2_path_info (Some m);
       if short then Some (None, s', w') else do { (file, w) \<leftarrow> stat_of_reply w' (Some m); Some (file, s', w) } })"
proof (cases "length pkt < 104")
  case True
  then show ?thesis using short [OF _ refl] reply_short_ok [OF m, of smb_tr2_path_info] by simp
next
  case False
  have l: "132 \<le> length pkt" using len False by simp
  note c = steady_cong [OF w(2)]
  have "P (stat_of_reply w' (Some m) \<bind> (\<lambda>(file, w). Some (file, s', w)))"
  proof (rule stat_of_reply_gen [where P = "\<lambda>c. P (c \<bind> (\<lambda>(file, w). Some (file, s', w)))", OF m l w(1)])
    show "iconv_fits w'" "name_covers w' (stat_name pkt)" using c w(3) cov by (simp_all add: name_covers_def)
    have "pkt_stat w' = pkt_stat w" using c by (simp add: pkt_stat_def fun_eq_iff Let_def)
    then show "P (Some (Some (pkt_stat w' pkt), w2) \<bind> (\<lambda>(file, w). Some (file, s', w)))"
      if "w_sent w2 = w_sent w'" "132 + stat_field ''name_len'' pkt \<le> length pkt" "utf16_to w' (stat_name pkt) \<noteq> []" for w2
      using ok [OF that(2) _ that(1)] that(3) c by simp
  qed (use short [OF _ refl] bad c in simp_all)
  then show ?thesis using False reply_short_ok [OF m, of smb_tr2_path_info] by simp
qed

lemma smb_fstat_gen:
  assumes ready: "session_ready s" and peer: "peer_ok w" and conv: "iconv_fits w" "conv_small (path @ [0])"
    and u: "utf16_of w (path @ [0]) = u" "u \<noteq> []"
    and sz: "\<And>pad. pad \<le> 3 \<Longrightarrow> session_sendable s (74 + length u + pad)"
    and reply: "\<And>pkt. outcome_of (rx_stream (w_rx w)) = Reply pkt \<Longrightarrow>
      (length pkt < 104 \<or> 132 \<le> length pkt) \<and> name_covers w (stat_name pkt)"
    and no: "\<And>s' w'. sent_keeps s w (stat_frame s (w_pid w) tid u) s' w' \<Longrightarrow> outcome_of (rx_stream (w_rx w)) = No_reply \<Longrightarrow>
      P (Some (None, s', w'))"
    and nt: "\<And>s' w' st. sent_keeps s w (stat_frame s (w_pid w) tid u) s' w' \<Longrightarrow> outcome_of (rx_stream (w_rx w)) = Nt_error st \<Longrightarrow>
      P (Some (None, s'\<lparr>nt_status := st\<rparr>, w'))"
    and short: "\<And>pkt s' w' w2. sent_keeps s w (stat_frame s (w_pid w) tid u) s' w' \<Longrightarrow> outcome_of (rx_stream (w_rx w)) = Reply pkt \<Longrightarrow>
      length pkt < 104 \<or> length pkt < 132 + stat_field ''name_len'' pkt \<Longrightarrow> w_sent w2 = w_sent w' \<Longrightarrow> P (Some (None, s', w2))"
    and bad: "\<And>pkt. outcome_of (rx_stream (w_rx w)) = Reply pkt \<Longrightarrow>
      132 + stat_field ''name_len'' pkt \<le> length pkt \<Longrightarrow> utf16_to w (stat_name pkt) = [] \<Longrightarrow> P None"
    and ok: "\<And>pkt s' w' w2. sent_keeps s w (stat_frame s (w_pid w) tid u) s' w' \<Longrightarrow> outcome_of (rx_stream (w_rx w)) = Reply pkt \<Longrightarrow>
      132 + stat_field ''name_len'' pkt \<le> length pkt \<Longrightarrow> utf16_to w (stat_name pkt) \<noteq> [] \<Longrightarrow> w_sent w2 = w_sent w' \<Longrightarrow>
      P (Some (Some (pkt_stat w pkt), s', w2))"
  shows "P (smb_fstat w s tid path)"
proof -
  let ?pad = "if (42 + length u) mod 4 \<noteq> 0 then 4 - (42 + length u) mod 4 else 0"
  have pad: "?pad \<le> 3" by (simp, linarith)
  have l: "length u < 2 ^ 30" using sz [of 0] by (simp add: session_sendable_def)
  have room: "36 + 6 + length u + k < 2 ^ 61" if "k \<le> 3" for k using l that by simp
  have ml: "sizeof smb_trans2_req + sizeof smb_tr2_query + length u = 42 + length u" by simp
  have answer: "P (do { short \<leftarrow> reply_short smb_tr2_path_info (Some m);
       if short then Some (None, s', w') else do { (file, w) \<leftarrow> stat_of_reply w' (Some m); Some (file, s', w) } })"
    if k: "sent_keeps s w (stat_frame s (w_pid w) tid u) s' w'" and oc: "outcome_of (rx_stream (w_rx w)) = Reply pkt" and m: "reply_is pkt m"
    for s' w' pkt m
  proof (rule stat_answer_gen [OF m])
    show "mem_ok w'" "steady w' = steady w" using sent_keeps_mem [OF k] k by (simp_all add: sent_keeps_def)
  qed (use conv(1) reply [OF oc] short [OF k oc] bad [OF oc] ok [OF k oc] in simp_all)
  show ?thesis
    unfolding smb_fstat_def
    apply (rule bind_out, rule smb_to_utf16_ok [OF calm_start [OF peer] conv])
    apply (simp only: prod.case u length_0_conv if_False Let_def ml)
    apply (rule bind_out, rule smb_message_new_ok, assumption)
    apply (simp only: prod.case msg_is_null if_False)
    apply (rule bind_out, rule smb_message_set_header_ok, assumption, rule smb_header_fields)
    apply (rule bind_out, rule smb_msg_put_pkt_ok, assumption, assumption, simp)
    apply (simp only: prod.case)
    apply (rule bind_out, rule smb_msg_put_pkt_ok, assumption, assumption, simp)
    apply (simp only: prod.case)
    apply (rule bind_out, rule smb_message_append_text_ok, assumption, assumption, assumption, rule u, use l in simp)
    apply (simp only: prod.case)
    apply (rule bind_out, rule put_padding_ok, assumption, assumption)
    subgoal using room [OF pad] by (simp only: append_Nil length_append length_enc_struct sizeof_structs)
    apply (simp only: prod.case)
    apply (rule round_trip_gen [where P = P, OF _ _ peer ready], assumption, assumption)
    subgoal using sz [OF pad] by (simp add: algebra_simps)
    subgoal by (rule no) (simp_all add: stat_frame_def Let_def)
    subgoal by (rule nt) (simp_all add: stat_frame_def Let_def)
    subgoal by (rule answer) (simp_all add: stat_frame_def Let_def)
    done
qed

section \<open>Properties\<close>

text \<open>
  C7 (search). Searching a directory returns, after as many rounds as the server takes: it
  sends one request for the pattern and one to resume each round but the last, with the
  search id of the first reply and the resume key of the previous one, and its result lists
  the entries of all rounds, the last found first, each with the members and the converted
  name of its entry. The session keeps everything but the state of its connection.
\<close>

theorem find_lists_all:
  assumes "session_ready s" and "peer_ok w" and "iconv_fits w" "conv_small (pattern @ [0])"
    and "utf16_of w (pattern @ [0]) = u" "u \<noteq> []" and "87 + length u \<le> session_cap s" "length u < 2 ^ 29"
    and "serves w smb_tr2_findfirst2_params ((ps, es) # rs) (rx_stream (w_rx w))" and "es \<noteq> []"
  shows "\<exists>s' w'. smb_find w s tid pattern = Some (rev (map (entry_file w) (es @ concat (map snd rs))), s', w') \<and>
     same_session s s' \<and>
     w_sent w' = w_sent w @ find_frame s (w_pid w) tid (find_body SMB_TR2_FIND_FIRST smb_tr2_findfirst2 findfirst2_request u) #
       resume_frames s (w_pid w) tid u (ps ''id'' mod 65536) (resume_of ps) rs"
  using smb_find_ok [OF assms(3-8,1,2,9,10), of tid] by (auto simp: wp_iff search_keeps_def)

definition sample_entry :: find_entry where
  "sample_entry = ((\<lambda>_. 0)(''size'' := 5), [65, 0, 66, 0], [])"

definition round1 :: "byte list" where
  "round1 = reply_packet smb_trans2_resp (\<lambda>_. 0)
     (enc_struct smb_tr2_findfirst2_params ((\<lambda>_. 0)(''count'' := 1)) @ entries_bytes [sample_entry])"

definition round2 :: "byte list" where
  "round2 = reply_packet smb_trans2_resp (\<lambda>_. 0)
     (enc_struct smb_tr2_findnext2_params ((\<lambda>_. 0)(''count'' := 1, ''eos'' := 1)) @ entries_bytes [sample_entry])"

lemma rounds_served:
  "serves (two_answers round1 round2) smb_tr2_findfirst2_params
     [((\<lambda>_. 0)(''count'' := 1), [sample_entry]), ((\<lambda>_. 0)(''count'' := 1, ''eos'' := 1), [sample_entry])]
     (nbt_frame 0 0 round1 @ nbt_frame 0 0 round2)"
proof -
  let ?w = "two_answers round1 round2"
  note f = reply_packet_field [where n = 2, of smb_trans2_resp]
  have z: "tr2_total (reply_packet smb_trans2_resp (\<lambda>_. 0) d) = 0" "tr2_count (reply_packet smb_trans2_resp (\<lambda>_. 0) d) = 0"
    "tr2_disp (reply_packet smb_trans2_resp (\<lambda>_. 0) d) = 0" for d
    by (simp_all add: f tr2_fields)
  have rep: "tr2_reply (nbt_frame 0 0 (reply_packet smb_trans2_resp (\<lambda>_. 0) d) @ rest) =
      Some (reply_packet smb_trans2_resp (\<lambda>_. 0) d, 24 + length d, Some rest)" if "length d < 60000" for d rest
    using next_reply_frame [of "reply_packet smb_trans2_resp (\<lambda>_. 0) d" rest] that by (simp add: tr2_reply_def tr2_more_def z)
  have sr: "search_reply L ps es (reply_packet smb_trans2_resp (\<lambda>_. 0) (enc_struct L ps @ entries_bytes es))"
    if "ps ''count'' mod 65536 = length es" for L ps es
    unfolding search_reply_def reply_packet_def using that
    by (intro conjI exI [of _ "enc_struct smb_header (\<lambda>_. 0) @ enc_struct smb_trans2_resp (\<lambda>_. 0)"] exI [of _ "[]"]) simp_all
  have len: "length (entries_bytes [sample_entry]) = 98" by (simp add: sample_entry_def)
  have "utf16_to ?w [65, 0, 66, 0] = [65, 66]"
    by (simp add: conv_out_def two_answers_def sample_world_def sample_iconv_def)
  then have ok: "list_all (entry_ok ?w) [sample_entry]"
    by (simp add: entry_ok_def sample_entry_def name_fits_def conv_small_def)
  have 1: "tr2_reply (nbt_frame 0 0 round1 @ nbt_frame 0 0 round2) = Some (round1, 24 + 110, Some (nbt_frame 0 0 round2))"
    unfolding round1_def using len by (subst rep) simp_all
  have 2: "tr2_reply (nbt_frame 0 0 round2) = Some (round2, 24 + 106, Some [])"
    unfolding round2_def using len rep [of "enc_struct smb_tr2_findnext2_params ((\<lambda>_. 0)(''count'' := 1, ''eos'' := 1)) @ entries_bytes [sample_entry]" "[]"]
    by simp
  have s1: "search_reply smb_tr2_findfirst2_params ((\<lambda>_. 0)(''count'' := 1)) [sample_entry] round1"
    unfolding round1_def by (rule sr) simp
  have s2: "search_reply smb_tr2_findnext2_params ((\<lambda>_. 0)(''count'' := 1, ''eos'' := 1)) [sample_entry] round2"
    unfolding round2_def by (rule sr) simp
  show ?thesis using 1 2 s1 s2 ok by (simp add: last_round_def)
qed

theorem find_lists_all_witness:
  "\<exists>f g s' w'. smb_find (two_answers round1 round2) sample_smb 7 [42] = Some ([f, g], s', w') \<and> f_name f = Some [65, 66] \<and>
     f_size g = 5 \<and> length (w_sent w') = 2"
proof -
  let ?w = "two_answers round1 round2"
  have u: "utf16_of ?w ([42] @ [0]) = [42, 0, 0, 0]" and nm: "utf16_to ?w [65, 0, 66, 0] = [65, 66]"
    by (simp_all add: conv_out_def two_answers_def sample_world_def sample_iconv_def)
  have f: "f_name (entry_file ?w sample_entry) = Some [65, 66]" "f_size (entry_file ?w sample_entry) = 5"
    using nm by (simp_all add: entry_file_def sample_entry_def shown_name_def)
  have c: "conv_small ([42] @ [0])" by (simp add: conv_small_def)
  have "87 + length [42, 0, 0, 0 :: byte] \<le> session_cap sample_smb" by (simp add: sample_smb_ready)
  from find_lists_all [OF sample_smb_ready(1) two_answers_ok(1,4) c u _ this _ rounds_served [folded two_answers_ok(2)], of 7] f
  show ?thesis by (auto simp: two_answers_ok)
qed

text \<open>
  C8 (file query). Querying a path sends exactly one frame. No reply, an error status and a
  reply that is too short give no file. A reply that holds the information gives its members
  and its name, cut at half the length of the UTF-16 name even when the converted name is
  longer; and when the name does not convert, an empty name included, the client writes
  through a null pointer. (A reply of 104 to 131 bytes, which passes the check of the size
  and does not hold the structure, is left out: it is read past its end.)
\<close>

theorem fstat_exact:
  assumes "session_ready s" and "peer_ok w" and "iconv_fits w" "conv_small (path @ [0])"
    and "utf16_of w (path @ [0]) = u" "u \<noteq> []" and "81 + length u \<le> session_cap s" "length u < 2 ^ 29"
    and "\<And>pkt. outcome_of (rx_stream (w_rx w)) = Reply pkt \<Longrightarrow>
      (length pkt < 104 \<or> 132 \<le> length pkt) \<and> name_covers w (stat_name pkt)"
  shows "case outcome_of (rx_stream (w_rx w)) of
       No_reply \<Rightarrow> wp (smb_fstat w s tid path) (\<lambda>(f, s', w'). f = None \<and> same_session s s' \<and>
         w_sent w' = w_sent w @ [stat_frame s (w_pid w) tid u])
     | Nt_error st \<Rightarrow> wp (smb_fstat w s tid path) (\<lambda>(f, s', w'). f = None \<and> same_session (s\<lparr>nt_status := st\<rparr>) s' \<and>
         w_sent w' = w_sent w @ [stat_frame s (w_pid w) tid u])
     | Reply pkt \<Rightarrow>
         if length pkt < 104 \<or> length pkt < 132 + stat_field ''name_len'' pkt
         then wp (smb_fstat w s tid path) (\<lambda>(f, s', w'). f = None \<and> same_session s s' \<and>
           w_sent w' = w_sent w @ [stat_frame s (w_pid w) tid u])
         else if utf16_to w (stat_name pkt) = [] then smb_fstat w s tid path = None
         else wp (smb_fstat w s tid path) (\<lambda>(f, s', w'). f = Some (pkt_stat w pkt) \<and> same_session s s' \<and>
           w_sent w' = w_sent w @ [stat_frame s (w_pid w) tid u])"
proof -
  have "session_sendable s (74 + length u + pad)" if "pad \<le> 3" for pad
    using that assms(7,8) by (simp add: session_sendable_def)
  note gen = smb_fstat_gen [where tid = tid, OF assms(1-6) this assms(9)]
  show ?thesis
    by (rule gen) (auto simp: sent_keepsD)
qed

definition stat_answer :: "byte list" where
  "stat_answer = reply_packet smb_trans2_resp (\<lambda>_. 0)
     (replicate 4 0 @ enc_struct smb_tr2_path_info ((\<lambda>_. 0)(''size'' := 9, ''name_len'' := 4)) @ [65, 0, 66, 0])"

lemma stat_answer_ok:
  "outcome_of (rx_stream (w_rx (answer_world stat_answer))) = Reply stat_answer" "length stat_answer = 136"
  "stat_field ''name_len'' stat_answer = 4" "stat_field ''size'' stat_answer = 9" "stat_name stat_answer = [65, 0, 66, 0]"
proof -
  let ?pre = "enc_struct smb_header (\<lambda>_. 0) @ enc_struct smb_trans2_resp (\<lambda>_. 0) @ replicate 4 0"
    and ?c = "(\<lambda>_. 0)(''size'' := 9, ''name_len'' := 4) :: cstruct"
  have p: "stat_answer = ?pre @ enc_struct smb_tr2_path_info ?c @ [65, 0, 66, 0]" by (simp add: stat_answer_def reply_packet_def)
  show "outcome_of (rx_stream (w_rx (answer_world stat_answer))) = Reply stat_answer"
    unfolding stat_answer_def by (rule answer_outcome) simp_all
  have l: "length ?pre = 60" by simp
  have f: "stat_field f stat_answer = ?c f mod 256 ^ n" if "map_of smb_tr2_path_info f = Some n" for f n
    using rd_field_enc_struct [OF that, of ?pre ?c "[65, 0, 66, 0]"] unfolding l p by simp
  show "length stat_answer = 136" by (simp add: stat_answer_def)
  show nl: "stat_field ''name_len'' stat_answer = 4" using f [of "''name_len''" 4] by (simp add: smb_tr2_path_info_def)
  show "stat_field ''size'' stat_answer = 9" using f [of "''size''" 8] by (simp add: smb_tr2_path_info_def)
  show "stat_name stat_answer = [65, 0, 66, 0]" unfolding stat_name_def nl by (simp add: p)
qed

theorem fstat_exact_witness:
  "wp (smb_fstat (answer_world stat_answer) sample_smb 7 [65]) (\<lambda>(f, s', w'). f \<noteq> None \<and> f_size (the f) = 9 \<and>
     f_name (the f) = Some [65, 66] \<and> length (w_sent w') = 1)"
proof -
  let ?w = "answer_world stat_answer"
  have u: "utf16_of ?w ([65] @ [0]) = [65, 0, 0, 0]" and nm: "utf16_to ?w [65, 0, 66, 0] = [65, 66]"
    by (simp_all add: conv_out_def answer_world_def sample_world_def sample_iconv_def)
  have c: "conv_small ([65] @ [0])" by (simp add: conv_small_def)
  have sz: "81 + length [65, 0, 0, 0 :: byte] \<le> session_cap sample_smb" by (simp add: sample_smb_ready)
  have reply: "(length pkt < 104 \<or> 132 \<le> length pkt) \<and> name_covers ?w (stat_name pkt)"
    if "outcome_of (rx_stream (w_rx ?w)) = Reply pkt" for pkt
    using that nm by (auto simp: stat_answer_ok name_covers_def)
  have "wp (smb_fstat ?w sample_smb 7 [65]) (\<lambda>(f, s', w'). f = Some (pkt_stat ?w stat_answer) \<and> same_session sample_smb s' \<and>
     w_sent w' = w_sent ?w @ [stat_frame sample_smb (w_pid ?w) 7 [65, 0, 0, 0]])"
    using fstat_exact [OF sample_smb_ready(1) answer_world_ok(1,5) c u _ sz _ reply, of 7] nm
    by (simp add: stat_answer_ok)
  then show ?thesis
    by (rule wp_mono) (auto simp: pkt_stat_def Let_def stat_answer_ok nm shown_name_def answer_world_ok)
qed

end
