(* ===== verification/Netbios_NS.thy ===== *)
theory Netbios_NS
  imports Netbios_Query
begin

text \<open>
  \<^verbatim>\<open>src/netbios_ns.c\<close>: the name service. Datagrams come from the world's script; a
  pointer into the receive buffer is an offset, a pointer to an entry of the queue is its
  position. The user's callbacks are recorded as events. The discovery thread is a step
  relation: its two loops, and the other thread's request to stop.

  Shifting a negative \<^verbatim>\<open>char\<close> is taken as the arithmetic shift compilers implement.
\<close>

section \<open>Data\<close>

datatype name_query_type = NAME_QUERY_TYPE_INVALID | NAME_QUERY_TYPE_NB | NAME_QUERY_TYPE_NBSTAT

definition NS_ENTRY_FLAG_VALID_IP :: u32 where [dsm_consts]: "NS_ENTRY_FLAG_VALID_IP = 1"
definition NS_ENTRY_FLAG_VALID_NAME :: u32 where [dsm_consts]: "NS_ENTRY_FLAG_VALID_NAME = 2"
definition RECV_BUFFER_SIZE :: nat where [dsm_consts]: "RECV_BUFFER_SIZE = 1500"
definition NETBIOS_NAME_FLAG_GROUP :: u16 where [dsm_consts]: "NETBIOS_NAME_FLAG_GROUP = 0x8000"
definition NETBIOS_FILESERVER :: byte where [dsm_consts]: "NETBIOS_FILESERVER = 0x20"

text \<open>\<^verbatim>\<open>NETBIOS_WILDCARD\<close>: the encoded name of one star and fifteen zeros, 34 bytes with the NUL.\<close>

definition name_query_broadcast :: cstring where
  "name_query_broadcast = [32, 67, 75] @ replicate 30 65"

record netbios_ns_entry =
  e_address :: u32
  e_name :: "byte list" \<comment> \<open>the 16 bytes of the array\<close>
  e_group :: "byte list"
  e_type :: byte
  e_flag :: u32
  e_last_time_seen :: int

record netbios_ns =
  n_socket :: int
  n_last_trn_id :: u16
  n_entries :: "netbios_ns_entry list"
  n_buffer :: "byte list"
  n_abort :: netbios_abort_ctx
  n_broadcast_timeout :: u32
  n_discover_started :: bool

text \<open>A query's answer: nothing, an address, or the offsets of a name and of a group.\<close>

datatype netbios_ns_name_query =
    Query_invalid
  | Query_nb u32
  | Query_nbstat nat "nat option" byte

section \<open>Sockets\<close>

text \<open>The number 3 stands for the descriptor of the socket.\<close>

definition ns_open_socket :: "world \<Rightarrow> netbios_ns \<Rightarrow> int \<times> netbios_ns \<times> world" where
  "ns_open_socket w ns =
     (let (ok, w) = sys_ok w
      in if \<not> ok then (0, ns\<lparr>n_socket := - 1\<rparr>, w)
         else
           (let ns = ns\<lparr>n_socket := 3\<rparr>; (ok, w) = sys_ok w
            in if \<not> ok then (0, ns, w)
               else (let (ok, w) = sys_ok w
                     in if \<not> ok then (0, ns, w)
                        else (let (ok, w) = sys_ok w in if \<not> ok then (0, ns, w) else (1, ns, w)))))"

text \<open>The wait and the send: whether the datagram leaves (\<^term>\<open>None\<close>: the wait fails).\<close>

fun utx_wait :: "utx_event list \<Rightarrow> bool option \<times> bool \<times> utx_event list" where
  "utx_wait [] = (Some True, False, [])"
| "utx_wait (Utx_ok # es) = (Some True, False, es)"
| "utx_wait (Utx_error # es) = (Some False, False, es)"
| "utx_wait (Utx_select_error # es) = (None, False, es)"
| "utx_wait (Utx_abort # es) = (None, True, es)"
| "utx_wait (Utx_idle # es) = utx_wait es"

definition ns_note_abort :: "bool \<Rightarrow> netbios_ns \<Rightarrow> netbios_ns" where
  "ns_note_abort ab ns = (if ab then ns\<lparr>n_abort := netbios_abort_ctx_abort (n_abort ns)\<rparr> else ns)"

definition netbios_ns_send_packet ::
  "world \<Rightarrow> netbios_ns \<Rightarrow> netbios_query option \<Rightarrow> u32 \<Rightarrow> (int \<times> netbios_ns \<times> world) option" where
  "netbios_ns_send_packet w ns q ip = do {
     ab \<leftarrow> netbios_abort_ctx_is_aborted (n_abort ns);
     if ab then Some (- 1, ns, w)
     else do {
       let (sent, ab, es) = utx_wait (w_udp_tx w);
       let ns = ns_note_abort ab ns;
       let w = w\<lparr>w_udp_tx := es\<rparr>;
       if sent = None then Some (- 1, ns, w)
       else do {
         q \<leftarrow> q;
         p \<leftarrow> q_packet q;
         bytes \<leftarrow> buf_read p 0 (sizeof netbios_query_packet + unat (q_cursor q));
         if sent = Some True then Some (int (length bytes), ns, w\<lparr>w_udp_sent := w_udp_sent w @ [(ip, bytes)]\<rparr>)
         else Some (- 1, ns, w)
       }
     }
   }"

text \<open>
  One packet for each interface that is up, broadcasts, and has an IPv4 broadcast address;
  failures to send are ignored. The address of an interface may be a null pointer, whose
  family is read all the same.
\<close>

definition IFF_UP :: u32 where "IFF_UP = 0x1"
definition IFF_BROADCAST :: u32 where "IFF_BROADCAST = 0x2"
definition PF_INET :: int where "PF_INET = 2"

fun netbios_ns_broadcast_loop ::
  "world \<Rightarrow> netbios_ns \<Rightarrow> netbios_query option \<Rightarrow> ifaddrs list \<Rightarrow> (netbios_ns \<times> world) option" where
  "netbios_ns_broadcast_loop w ns q [] = Some (ns, w)"
| "netbios_ns_broadcast_loop w ns q (a # as) =
     (if ifa_flags a AND IFF_BROADCAST = 0 \<or> ifa_flags a AND IFF_UP = 0 then netbios_ns_broadcast_loop w ns q as
      else do {
        family \<leftarrow> ifa_family a;
        if family \<noteq> PF_INET then netbios_ns_broadcast_loop w ns q as
        else (case ifa_broadaddr a of
                None \<Rightarrow> netbios_ns_broadcast_loop w ns q as
              | Some ip \<Rightarrow> do {
                  (_, ns, w) \<leftarrow> netbios_ns_send_packet w ns q ip;
                  netbios_ns_broadcast_loop w ns q as
                })
      })"

definition netbios_ns_broadcast_packet ::
  "world \<Rightarrow> netbios_ns \<Rightarrow> netbios_query option \<Rightarrow> (netbios_ns \<times> world) option" where
  "netbios_ns_broadcast_packet w ns q =
     (case w_ifaddrs w of None \<Rightarrow> Some (ns, w) | Some addrs \<Rightarrow> netbios_ns_broadcast_loop w ns q addrs)"

definition query_type_nb :: u16 where "query_type_nb = 0x2000"
definition query_type_nbstat :: u16 where "query_type_nbstat = 0x2100"
definition query_class_in :: u16 where "query_class_in = 0x0100"

text \<open>The query packet, before it is sent.\<close>

definition make_name_query ::
  "world \<Rightarrow> netbios_ns \<Rightarrow> u16 \<Rightarrow> cstring \<Rightarrow> u16 \<Rightarrow> (netbios_query option \<times> world) option" where
  "make_name_query w ns query_type name query_flag = do {
     (q, w) \<leftarrow> netbios_query_new w (34 + 4) True NETBIOS_OP_NAME_QUERY;
     q \<leftarrow> (if query_flag \<noteq> 0 then netbios_query_set_flag q query_flag True else Some q);
     (_, q) \<leftarrow> netbios_query_append q (name @ [0]) (word_of_nat (length name + 1));
     (_, q) \<leftarrow> netbios_query_append q (le_bytes 2 query_type) 2;
     (_, q) \<leftarrow> netbios_query_append q (le_bytes 2 query_class_in) 2;
     r \<leftarrow> q;
     r \<leftarrow> query_set_field ''queries'' (unat (htons 1)) r;
     r \<leftarrow> query_set_field ''trn_id'' (unat (htons (n_last_trn_id ns + 1))) r;
     Some (Some r, w)
   }"

definition netbios_ns_send_name_query ::
  "world \<Rightarrow> netbios_ns \<Rightarrow> u32 \<Rightarrow> name_query_type \<Rightarrow> cstring \<Rightarrow> u16 \<Rightarrow> (int \<times> netbios_ns \<times> world) option" where
  "netbios_ns_send_name_query w ns ip type name query_flag =
     (if type = NAME_QUERY_TYPE_INVALID then Some (- 1, ns, w)
      else do {
        (q, w) \<leftarrow> make_name_query w ns (if type = NAME_QUERY_TYPE_NB then query_type_nb else query_type_nbstat)
                    name query_flag;
        if ip \<noteq> 0 then do {
          (sent, ns, w) \<leftarrow> netbios_ns_send_packet w ns q ip;
          if sent < 0 then Some (- 1, ns, w)
          else Some (0, ns\<lparr>n_last_trn_id := n_last_trn_id ns + 1\<rparr>, w)
        }
        else do {
          (ns, w) \<leftarrow> netbios_ns_broadcast_packet w ns q;
          Some (0, ns\<lparr>n_last_trn_id := n_last_trn_id ns + 1\<rparr>, w)
        }
      })"

section \<open>Answers\<close>

text \<open>The flags of a name, from two signed characters.\<close>

definition name_flags :: "byte \<Rightarrow> byte \<Rightarrow> u16" where
  "name_flags c16 c17 = word_of_int (push_bit 8 (sint c16) OR sint c17)"

text \<open>The loops over the names of a status answer, \<open>n\<close> names from offset \<open>pos\<close>.\<close>

primrec find_group :: "byte list \<Rightarrow> nat \<Rightarrow> nat \<Rightarrow> nat option option" where
  "find_group buf pos 0 = Some None"
| "find_group buf pos (Suc n) = do {
     c16 \<leftarrow> rd8 buf (pos + 16);
     c17 \<leftarrow> rd8 buf (pos + 17);
     if name_flags c16 c17 AND NETBIOS_NAME_FLAG_GROUP \<noteq> 0 then Some (Some pos) else find_group buf (pos + 18) n
   }"

primrec find_server :: "byte list \<Rightarrow> nat \<Rightarrow> nat \<Rightarrow> nat option option" where
  "find_server buf pos 0 = Some None"
| "find_server buf pos (Suc n) = do {
     c15 \<leftarrow> rd8 buf (pos + 15);
     c16 \<leftarrow> rd8 buf (pos + 16);
     c17 \<leftarrow> rd8 buf (pos + 17);
     if name_flags c16 c17 AND NETBIOS_NAME_FLAG_GROUP \<noteq> 0 then find_server buf (pos + 18) n
     else if c15 = NETBIOS_FILESERVER then Some (Some pos)
     else find_server buf (pos + 18) n
   }"

text \<open>The value returned and the caller's query.\<close>

definition netbios_ns_handle_query ::
  "netbios_ns \<Rightarrow> nat \<Rightarrow> bool \<Rightarrow> u32 \<Rightarrow> netbios_ns_name_query option \<Rightarrow> (int \<times> netbios_ns_name_query option) option" where
  "netbios_ns_handle_query ns sz check_trn_id recv_ip out =
     (let hdr = sizeof netbios_query_packet; buf = n_buffer ns
      in if sz < hdr then Some (- 1, out)
         else do {
           trn_id \<leftarrow> rd_field netbios_query_packet ''trn_id'' buf 0;
           if check_trn_id \<and> ntohs (word_of_nat trn_id) \<noteq> n_last_trn_id ns then Some (- 1, out)
           else if out = None then Some (0, out)
           else if sz < hdr + 1 then Some (- 1, out)
           else do {
             name_size \<leftarrow> rd8 buf hdr;
             if name_size \<noteq> 0x20 then Some (- 1, out)
             else if sz < hdr + unat name_size + 11 then Some (- 1, out)
             else do {
               type \<leftarrow> rd16 buf (hdr + unat name_size + 2);
               len \<leftarrow> rd16 buf (hdr + unat name_size + 10);
               let data_length = unat (ntohs len);
               let p_data = hdr + unat name_size + 12;
               if sz < p_data + data_length then Some (- 1, out)
               else if type = query_type_nb then Some (0, Some (Query_nb recv_ip))
               else if type = query_type_nbstat then
                 (if data_length < 1 then Some (- 1, out)
                  else do {
                    name_count \<leftarrow> rd8 buf p_data;
                    if data_length < unat name_count * 18 then Some (- 1, out)
                    else do {
                      grp \<leftarrow> find_group buf (p_data + 1) (unat name_count);
                      name \<leftarrow> find_server buf (p_data + 1) (unat name_count);
                      case name of
                        None \<Rightarrow> Some (0, out)
                      | Some name \<Rightarrow> Some (0, Some (Query_nbstat name grp NETBIOS_FILESERVER))
                    }
                  })
               else Some (0, out)
             }
           }
         })"

text \<open>
  The receive loop over the events to come: the value returned, the sender, the caller's
  query, the name service and the events left. A wait with a timeout ends with the script; a
  wait without one is then ended by an abort.
\<close>

fun netbios_ns_recv_loop ::
  "udp_event list \<Rightarrow> netbios_ns \<Rightarrow> bool \<Rightarrow> bool \<Rightarrow> u32 \<Rightarrow> netbios_ns_name_query option
   \<Rightarrow> (int \<times> u32 option \<times> netbios_ns_name_query option \<times> netbios_ns \<times> udp_event list) option" where
  "netbios_ns_recv_loop [] ns timed check_trn_id wait_ip out =
     (if timed then Some (0, None, out, ns, []) else Some (- 1, None, out, ns_note_abort True ns, []))"
| "netbios_ns_recv_loop (e # es) ns timed check_trn_id wait_ip out =
     (case e of
        Udp_select_error \<Rightarrow> Some (- 1, None, out, ns, es)
      | Udp_error \<Rightarrow> Some (- 1, None, out, ns, es)
      | Udp_abort \<Rightarrow> Some (- 1, None, out, ns_note_abort True ns, es)
      | Udp_timeout \<Rightarrow>
          (if timed then Some (0, None, out, ns, es) else netbios_ns_recv_loop es ns timed check_trn_id wait_ip out)
      | Udp_data ip bs \<Rightarrow> do {
          let d = take RECV_BUFFER_SIZE bs;
          buf \<leftarrow> buf_write (n_buffer ns) 0 d;
          let ns = ns\<lparr>n_buffer := buf\<rparr>;
          if wait_ip \<noteq> 0 \<and> wait_ip \<noteq> ip then netbios_ns_recv_loop es ns timed check_trn_id wait_ip out
          else do {
            (r, out) \<leftarrow> netbios_ns_handle_query ns (length d) check_trn_id ip out;
            if r = - 1 then netbios_ns_recv_loop es ns timed check_trn_id wait_ip out
            else Some (int (length d), Some ip, out, ns, es)
          }
        })"

definition netbios_ns_recv ::
  "world \<Rightarrow> netbios_ns \<Rightarrow> bool \<Rightarrow> bool \<Rightarrow> u32 \<Rightarrow> bool
   \<Rightarrow> (int \<times> u32 option \<times> netbios_ns_name_query option \<times> netbios_ns \<times> world) option" where
  "netbios_ns_recv w ns timed check_trn_id wait_ip want = do {
     let out = (if want then Some Query_invalid else None);
     ab \<leftarrow> netbios_abort_ctx_is_aborted (n_abort ns);
     if ab then Some (- 1, None, out, ns, w)
     else do {
       (r, ip, out, ns, es) \<leftarrow> netbios_ns_recv_loop (w_udp_rx w) ns timed check_trn_id wait_ip out;
       Some (r, ip, out, ns, w\<lparr>w_udp_rx := es\<rparr>)
     }
   }"

section \<open>Entries\<close>

text \<open>The loop that cuts trailing blanks, from position \<open>k\<close> down to 1.\<close>

primrec trim_name :: "nat \<Rightarrow> byte list \<Rightarrow> byte list" where
  "trim_name 0 dest = dest"
| "trim_name (Suc k) dest = (if dest ! Suc k = 32 then trim_name k (dest[Suc k := 0]) else dest)"

definition netbios_ns_copy_name :: "byte list \<Rightarrow> byte list \<Rightarrow> nat \<Rightarrow> byte list option" where
  "netbios_ns_copy_name dest buf src = do {
     bs \<leftarrow> buf_read buf src NETBIOS_NAME_LENGTH;
     dest \<leftarrow> buf_write dest 0 (bs @ [0]);
     Some (trim_name (NETBIOS_NAME_LENGTH - 1) dest)
   }"

definition netbios_ns_entry_set_name ::
  "byte list \<Rightarrow> netbios_ns_entry \<Rightarrow> nat option \<Rightarrow> nat option \<Rightarrow> byte \<Rightarrow> netbios_ns_entry option" where
  "netbios_ns_entry_set_name buf entry name grp type = do {
     nm \<leftarrow> (case name of None \<Rightarrow> Some (e_name entry) | Some p \<Rightarrow> netbios_ns_copy_name (e_name entry) buf p);
     gr \<leftarrow> (case grp of None \<Rightarrow> Some (e_group entry) | Some p \<Rightarrow> netbios_ns_copy_name (e_group entry) buf p);
     Some (entry\<lparr>e_name := nm, e_group := gr, e_type := type, e_flag := e_flag entry OR NS_ENTRY_FLAG_VALID_NAME\<rparr>)
   }"

definition new_entry :: "u32 \<Rightarrow> netbios_ns_entry" where
  "new_entry ip = \<lparr>e_address = ip, e_name = replicate 16 0, e_group = replicate 16 0, e_type = 0,
     e_flag = NS_ENTRY_FLAG_VALID_IP, e_last_time_seen = 0\<rparr>"

text \<open>Whether an entry was added, at the head of the queue.\<close>

definition netbios_ns_entry_add :: "world \<Rightarrow> netbios_ns \<Rightarrow> u32 \<Rightarrow> bool \<times> netbios_ns \<times> world" where
  "netbios_ns_entry_add w ns ip =
     (let (obj, w) = c_calloc w 72
      in if obj = None then (False, ns, w)
         else (True, ns\<lparr>n_entries := new_entry ip # n_entries ns\<rparr>, w))"

text \<open>\<open>!strncmp(a, b, n)\<close>.\<close>

fun strncmp_eq :: "nat \<Rightarrow> byte list \<Rightarrow> byte list \<Rightarrow> bool option" where
  "strncmp_eq 0 a b = Some True"
| "strncmp_eq (Suc n) (x # a) (y # b) = (if x \<noteq> y then Some False else if x = 0 then Some True else strncmp_eq n a b)"
| "strncmp_eq (Suc n) _ _ = None"

definition entry_matches :: "cstring option \<Rightarrow> u32 \<Rightarrow> netbios_ns_entry \<Rightarrow> bool option" where
  "entry_matches by_name ip iter =
     (case by_name of
        Some nm \<Rightarrow>
          (if e_flag iter AND NS_ENTRY_FLAG_VALID_NAME = 0 then Some False
           else strncmp_eq NETBIOS_NAME_LENGTH (nm @ [0]) (e_name iter))
      | None \<Rightarrow> Some (e_flag iter AND NS_ENTRY_FLAG_VALID_IP \<noteq> 0 \<and> e_address iter = ip))"

text \<open>The position of the entry found.\<close>

fun entry_find_loop :: "cstring option \<Rightarrow> u32 \<Rightarrow> netbios_ns_entry list \<Rightarrow> nat option option" where
  "entry_find_loop by_name ip [] = Some None"
| "entry_find_loop by_name ip (iter # es) = do {
     b \<leftarrow> entry_matches by_name ip iter;
     if b then Some (Some 0) else do { r \<leftarrow> entry_find_loop by_name ip es; Some (map_option Suc r) }
   }"

definition netbios_ns_entry_find :: "netbios_ns \<Rightarrow> cstring option \<Rightarrow> u32 \<Rightarrow> nat option option" where
  "netbios_ns_entry_find ns by_name ip = entry_find_loop by_name ip (n_entries ns)"

definition netbios_ns_entry_clear :: "netbios_ns \<Rightarrow> netbios_ns" where
  "netbios_ns_entry_clear ns = ns\<lparr>n_entries := []\<rparr>"

section \<open>Life of the name service\<close>

text \<open>What is given back to the system, in order.\<close>

datatype ns_release = Free_entry netbios_ns_entry | Close_socket int | Close_pipe | Free_service

definition netbios_ns_destroy :: "netbios_ns option \<Rightarrow> ns_release list" where
  "netbios_ns_destroy ns =
     (case ns of
        None \<Rightarrow> []
      | Some ns \<Rightarrow>
          map Free_entry (n_entries ns) @ (if n_socket ns \<noteq> - 1 then [Close_socket (n_socket ns)] else []) @
          (if n_abort ns \<noteq> Pipe_closed then [Close_pipe] else []) @ [Free_service])"

definition netbios_ns_abort :: "netbios_ns \<Rightarrow> netbios_ns" where
  "netbios_ns_abort ns = ns\<lparr>n_abort := netbios_abort_ctx_abort (n_abort ns)\<rparr>"

definition c_rand :: "world \<Rightarrow> u16 \<times> world" where
  "c_rand w = (case w_rand w of [] \<Rightarrow> (0, w) | r # rs \<Rightarrow> (ucast r, w\<lparr>w_rand := rs\<rparr>))"

definition netbios_ns_new :: "world \<Rightarrow> netbios_ns option \<times> world" where
  "netbios_ns_new w =
     (let (obj, w) = c_calloc w 1592
      in if obj = None then (None, w)
         else
           (let (r, ctx, w) = netbios_abort_ctx_init w
            in if r = - 1 then (None, w)
               else
                 (let ns = \<lparr>n_socket = 0, n_last_trn_id = 0, n_entries = [], n_buffer = replicate RECV_BUFFER_SIZE 0,
                            n_abort = ctx, n_broadcast_timeout = 0, n_discover_started = False\<rparr>;
                      (ok, ns, w) = ns_open_socket w ns
                  in if ok = 0 then (let _ = netbios_ns_destroy (Some ns) in (None, w))
                     else (let (id, w) = c_rand w in (Some (ns\<lparr>n_last_trn_id := id\<rparr>), w)))))"

section \<open>Resolution\<close>

text \<open>The value returned and the address stored, if any.\<close>

definition netbios_ns_resolve ::
  "world \<Rightarrow> netbios_ns \<Rightarrow> cstring \<Rightarrow> byte \<Rightarrow> (int \<times> u32 option \<times> netbios_ns \<times> world) option" where
  "netbios_ns_resolve w ns name type = do {
     c_assert (\<not> n_discover_started ns);
     cached \<leftarrow> netbios_ns_entry_find ns (Some name) 0;
     case cached of
       Some i \<Rightarrow> Some (0, Some (e_address (n_entries ns ! i)), ns, w)
     | None \<Rightarrow> do {
         (encoded_name, w) \<leftarrow> netbios_name_encode w (Some name) (scast type);
         case encoded_name of
           None \<Rightarrow> Some (- 1, None, ns, w)
         | Some enc \<Rightarrow> do {
             n \<leftarrow> c_strlen enc;
             (r, ns, w) \<leftarrow> netbios_ns_send_name_query w ns 0 NAME_QUERY_TYPE_NB (take n enc)
                             (NETBIOS_FLAG_RECURSIVE OR NETBIOS_FLAG_BROADCAST);
             if r = - 1 then Some (- 1, None, ns, w)
             else do {
               (recv, _, name_query, ns, w) \<leftarrow> netbios_ns_recv w ns True True 0 True;
               if recv < 0 then Some (- 1, None, ns, w)
               else (case name_query of
                       Some (Query_nb ip) \<Rightarrow> Some (0, Some ip, ns, w)
                     | _ \<Rightarrow> Some (- 1, None, ns, w))
             }
           }
       }
   }"

text \<open>The position of the entry, or null.\<close>

definition netbios_ns_inverse_internal ::
  "world \<Rightarrow> netbios_ns \<Rightarrow> u32 \<Rightarrow> (nat option \<times> netbios_ns \<times> world) option" where
  "netbios_ns_inverse_internal w ns ip = do {
     cached \<leftarrow> netbios_ns_entry_find ns None ip;
     if cached \<noteq> None then Some (cached, ns, w)
     else do {
       (r, ns, w) \<leftarrow> netbios_ns_send_name_query w ns ip NAME_QUERY_TYPE_NBSTAT name_query_broadcast 0;
       if r = - 1 then Some (None, ns, w)
       else do {
         (recv, _, name_query, ns, w) \<leftarrow> netbios_ns_recv w ns True True ip True;
         if recv \<le> 0 then Some (None, ns, w)
         else (case name_query of
                 Some (Query_nbstat name grp type) \<Rightarrow> do {
                   let (added, ns, w) = netbios_ns_entry_add w ns ip;
                   if \<not> added then Some (None, ns, w)
                   else do {
                     entry \<leftarrow> netbios_ns_entry_set_name (n_buffer ns) (hd (n_entries ns)) (Some name) grp type;
                     Some (Some 0, ns\<lparr>n_entries := entry # tl (n_entries ns)\<rparr>, w)
                   }
                 }
               | _ \<Rightarrow> Some (None, ns, w))
       }
     }
   }"

definition netbios_ns_inverse ::
  "world \<Rightarrow> netbios_ns \<Rightarrow> u32 \<Rightarrow> (byte list option \<times> netbios_ns \<times> world) option" where
  "netbios_ns_inverse w ns ip = do {
     c_assert (ip \<noteq> 0 \<and> \<not> n_discover_started ns);
     (entry, ns, w) \<leftarrow> netbios_ns_inverse_internal w ns ip;
     Some (map_option (\<lambda>i. e_name (n_entries ns ! i)) entry, ns, w)
   }"

definition netbios_ns_entry_name :: "netbios_ns_entry option \<Rightarrow> byte list option" where
  "netbios_ns_entry_name entry = map_option e_name entry"

definition netbios_ns_entry_group :: "netbios_ns_entry option \<Rightarrow> byte list option" where
  "netbios_ns_entry_group entry = map_option e_group entry"

definition netbios_ns_entry_ip :: "netbios_ns_entry option \<Rightarrow> u32" where
  "netbios_ns_entry_ip entry = (case entry of None \<Rightarrow> 0 | Some e \<Rightarrow> e_address e)"

definition netbios_ns_entry_type :: "netbios_ns_entry option \<Rightarrow> byte" where
  "netbios_ns_entry_type entry = (case entry of None \<Rightarrow> - 1 | Some e \<Rightarrow> e_type e)"

section \<open>Discovery\<close>

datatype ns_event = Entry_added netbios_ns_entry | Entry_removed netbios_ns_entry

definition c_time :: "world \<Rightarrow> int \<times> world" where
  "c_time w = (case w_time w of [] \<Rightarrow> (0, w) | t # ts \<Rightarrow> (t, w\<lparr>w_time := ts\<rparr>))"

definition entry_named :: "netbios_ns_entry \<Rightarrow> bool" where
  "entry_named e \<longleftrightarrow> e_flag e AND NS_ENTRY_FLAG_VALID_NAME \<noteq> 0"

text \<open>The loop that drops the entries not seen for a while: those left, and the callbacks.\<close>

fun expire_entries :: "int \<Rightarrow> int \<Rightarrow> netbios_ns_entry list \<Rightarrow> netbios_ns_entry list \<times> ns_event list" where
  "expire_entries now limit [] = ([], [])"
| "expire_entries now limit (e # es) =
     (let (kept, evs) = expire_entries now limit es
      in if limit < now - e_last_time_seen e then (kept, (if entry_named e then [Entry_removed e] else []) @ evs)
         else (e # kept, evs))"

datatype phase = Outer | Inner | Finished | Faulted

text \<open>The head of the outer loop: the abort check, the expiry and the broadcast.\<close>

definition discover_outer :: "world \<Rightarrow> netbios_ns \<Rightarrow> (phase \<times> ns_event list \<times> netbios_ns \<times> world) option" where
  "discover_outer w ns = do {
     let remove_timeout = sint (5 * n_broadcast_timeout ns);
     ab \<leftarrow> netbios_abort_ctx_is_aborted (n_abort ns);
     if ab then Some (Finished, [], ns, w)
     else do {
       let (now, w) = c_time w;
       let (kept, evs) = expire_entries now remove_timeout (n_entries ns);
       let ns = ns\<lparr>n_entries := kept\<rparr>;
       (r, ns, w) \<leftarrow> netbios_ns_send_name_query w ns 0 NAME_QUERY_TYPE_NB name_query_broadcast 0;
       Some (if r = - 1 then Finished else Inner, evs, ns, w)
     }
   }"

text \<open>What is done with an answer to the name query, and with a status answer.\<close>

definition discover_nb :: "world \<Rightarrow> netbios_ns \<Rightarrow> u32 \<Rightarrow> int \<Rightarrow> (phase \<times> ns_event list \<times> netbios_ns \<times> world) option" where
  "discover_nb w ns ip now = do {
     found \<leftarrow> netbios_ns_entry_find ns None ip;
     let (ok, i, ns, w) = (case found of
        Some i \<Rightarrow> (True, i, ns, w)
      | None \<Rightarrow> (let (ok, ns, w) = netbios_ns_entry_add w ns ip in (ok, 0, ns, w)));
     if \<not> ok then Some (Finished, [], ns, w)
     else do {
       let entry = (n_entries ns ! i)\<lparr>e_last_time_seen := now\<rparr>;
       let ns = ns\<lparr>n_entries := (n_entries ns)[i := entry]\<rparr>;
       if entry_named entry then Some (Inner, [], ns, w)
       else do {
         (r, ns, w) \<leftarrow> netbios_ns_send_name_query w ns ip NAME_QUERY_TYPE_NBSTAT name_query_broadcast 0;
         Some (if r = - 1 then Finished else Inner, [], ns, w)
       }
     }
   }"

definition discover_nbstat ::
  "world \<Rightarrow> netbios_ns \<Rightarrow> u32 \<Rightarrow> nat \<Rightarrow> nat option \<Rightarrow> byte \<Rightarrow> int \<Rightarrow> (phase \<times> ns_event list \<times> netbios_ns \<times> world) option" where
  "discover_nbstat w ns recv_ip name grp type now = do {
     found \<leftarrow> netbios_ns_entry_find ns None recv_ip;
     case found of
       None \<Rightarrow> Some (Inner, [], ns, w)
     | Some i \<Rightarrow> do {
         let entry = (n_entries ns ! i)\<lparr>e_last_time_seen := now\<rparr>;
         let send_callback = (\<not> entry_named entry);
         entry \<leftarrow> netbios_ns_entry_set_name (n_buffer ns) entry (Some name) grp type;
         let ns = ns\<lparr>n_entries := (n_entries ns)[i := entry]\<rparr>;
         Some (Inner, if send_callback then [Entry_added entry] else [], ns, w)
       }
   }"

text \<open>One turn of the inner loop.\<close>

definition discover_inner :: "world \<Rightarrow> netbios_ns \<Rightarrow> (phase \<times> ns_event list \<times> netbios_ns \<times> world) option" where
  "discover_inner w ns = do {
     (res, ip, name_query, ns, w) \<leftarrow> netbios_ns_recv w ns (n_broadcast_timeout ns \<noteq> 0) False 0 True;
     if res = - 1 then Some (Finished, [], ns, w)
     else if res = 0 then Some (if n_broadcast_timeout ns = 0 then Finished else Outer, [], ns, w)
     else do {
       let (now, w) = c_time w;
       case name_query of
         Some (Query_nb ip) \<Rightarrow> discover_nb w ns ip now
       | Some (Query_nbstat name grp type) \<Rightarrow> do { ip \<leftarrow> ip; discover_nbstat w ns ip name grp type now }
       | _ \<Rightarrow> Some (Inner, [], ns, w)
     }
   }"

text \<open>
  The thread: its phase, the name service it shares, and the callbacks made so far. A step is
  taken in the world \<open>w\<close>: what memory, clock, interfaces and network are like at that moment.
  A turn of a loop that faults ends the run of the program, in the phase \<^term>\<open>Faulted\<close>. The
  other thread may ask this one to stop at any moment.
\<close>

type_synonym discovery = "phase \<times> netbios_ns \<times> ns_event list"

inductive netbios_ns_discover_thread :: "world \<Rightarrow> discovery \<Rightarrow> discovery \<Rightarrow> bool" for w where
  outer: "discover_outer w ns = Some (ph, evs, ns', w') \<Longrightarrow>
    netbios_ns_discover_thread w (Outer, ns, log) (ph, ns', log @ evs)"
| outer_fault: "discover_outer w ns = None \<Longrightarrow> netbios_ns_discover_thread w (Outer, ns, log) (Faulted, ns, log)"
| inner: "discover_inner w ns = Some (ph, evs, ns', w') \<Longrightarrow>
    netbios_ns_discover_thread w (Inner, ns, log) (ph, ns', log @ evs)"
| inner_fault: "discover_inner w ns = None \<Longrightarrow> netbios_ns_discover_thread w (Inner, ns, log) (Faulted, ns, log)"
| stop: "netbios_ns_discover_thread w (ph, ns, log) (ph, netbios_ns_abort ns, log)"

inductive_cases discover_stepE: "netbios_ns_discover_thread w (ph, ns, log) c'"

text \<open>A run of the thread that meets only worlds of \<open>env\<close>.\<close>

definition discovery_run :: "(world \<Rightarrow> bool) \<Rightarrow> discovery \<Rightarrow> discovery \<Rightarrow> bool" where
  "discovery_run env = (\<lambda>c c'. \<exists>w. env w \<and> netbios_ns_discover_thread w c c')\<^sup>*\<^sup>*"

definition netbios_ns_discover_start :: "world \<Rightarrow> netbios_ns \<Rightarrow> u32 \<Rightarrow> bool \<Rightarrow> int \<times> netbios_ns \<times> world" where
  "netbios_ns_discover_start w ns broadcast_timeout callbacks =
     (if n_discover_started ns \<or> \<not> callbacks then (- 1, ns, w)
      else
        (let ns = ns\<lparr>n_broadcast_timeout := broadcast_timeout\<rparr>; (ok, w) = sys_ok w
         in if \<not> ok then (- 1, ns, w) else (0, ns\<lparr>n_discover_started := True\<rparr>, w)))"

text \<open>The join waits for the thread to finish; what the thread did meanwhile is its own steps.\<close>

definition netbios_ns_discover_stop :: "netbios_ns \<Rightarrow> int \<times> netbios_ns" where
  "netbios_ns_discover_stop ns =
     (if n_discover_started ns then (0, (netbios_ns_abort ns)\<lparr>n_discover_started := False\<rparr>) else (- 1, ns))"

end
