(* ===== verification/Netbios_NS_Spec.thy ===== *)
theory Netbios_NS_Spec
  imports Netbios_NS
begin

text \<open>
  What the name service guarantees: every datagram is handled without leaving the receive
  buffer; an answer is accepted only from the right host and with the right transaction id;
  and the callbacks of the discovery thread follow the protocol of the interface.
\<close>

section \<open>Reading a status answer\<close>

definition group_at :: "byte list \<Rightarrow> nat \<Rightarrow> bool" where
  "group_at buf p \<longleftrightarrow> name_flags (buf ! (p + 16)) (buf ! (p + 17)) AND NETBIOS_NAME_FLAG_GROUP \<noteq> 0"

definition server_at :: "byte list \<Rightarrow> nat \<Rightarrow> bool" where
  "server_at buf p \<longleftrightarrow> buf ! (p + 15) = NETBIOS_FILESERVER \<and> \<not> group_at buf p"

lemma find_group_ok:
  "pos + 18 * n \<le> length buf \<Longrightarrow>
     wp (find_group buf pos n) (\<lambda>r. case r of None \<Rightarrow> \<forall>k < n. \<not> group_at buf (pos + 18 * k)
       | Some p \<Rightarrow> group_at buf p \<and> pos \<le> p \<and> p + 18 \<le> pos + 18 * n)"
proof (induction n arbitrary: pos)
  case 0
  then show ?case by simp
next
  case (Suc n)
  have rd: "rd8 buf (pos + 16) = Some (buf ! (pos + 16))" "rd8 buf (pos + 17) = Some (buf ! (pos + 17))"
    using Suc.prems by (simp_all add: rd8_eq)
  show ?case
  proof (cases "group_at buf pos")
    case True
    then show ?thesis by (simp add: rd group_at_def [symmetric])
  next
    case False
    have "wp (find_group buf (pos + 18) n) (\<lambda>r. case r of None \<Rightarrow> \<forall>k < n. \<not> group_at buf (pos + 18 + 18 * k)
       | Some p \<Rightarrow> group_at buf p \<and> pos + 18 \<le> p \<and> p + 18 \<le> pos + 18 + 18 * n)"
      using Suc.prems by (intro Suc.IH) simp
    moreover have "\<not> group_at buf (pos + 18 * k)" if "\<forall>k < n. \<not> group_at buf (pos + 18 + 18 * k)" "k < Suc n" for k
      using that False by (cases k) (auto simp: algebra_simps)
    ultimately show ?thesis
      using False unfolding group_at_def [of buf pos]
      by (simp add: rd) (erule wp_mono, auto split: option.splits)
  qed
qed

lemma find_server_ok:
  "pos + 18 * n \<le> length buf \<Longrightarrow>
     wp (find_server buf pos n) (\<lambda>r. case r of None \<Rightarrow> \<forall>k < n. \<not> server_at buf (pos + 18 * k)
       | Some p \<Rightarrow> server_at buf p \<and> pos \<le> p \<and> p + 18 \<le> pos + 18 * n)"
proof (induction n arbitrary: pos)
  case 0
  then show ?case by simp
next
  case (Suc n)
  have rd: "rd8 buf (pos + 15) = Some (buf ! (pos + 15))" "rd8 buf (pos + 16) = Some (buf ! (pos + 16))"
    "rd8 buf (pos + 17) = Some (buf ! (pos + 17))"
    using Suc.prems by (simp_all add: rd8_eq)
  have eq: "find_server buf pos (Suc n) = (if server_at buf pos then Some (Some pos) else find_server buf (pos + 18) n)"
    by (simp add: rd server_at_def group_at_def)
  show ?case
  proof (cases "server_at buf pos")
    case True
    then show ?thesis by (simp add: eq del: find_server.simps)
  next
    case False
    have "wp (find_server buf (pos + 18) n) (\<lambda>r. case r of None \<Rightarrow> \<forall>k < n. \<not> server_at buf (pos + 18 + 18 * k)
       | Some p \<Rightarrow> server_at buf p \<and> pos + 18 \<le> p \<and> p + 18 \<le> pos + 18 + 18 * n)"
      using Suc.prems by (intro Suc.IH) simp
    moreover have "\<not> server_at buf (pos + 18 * k)" if "\<forall>k < n. \<not> server_at buf (pos + 18 + 18 * k)" "k < Suc n" for k
      using that False by (cases k) (auto simp: algebra_simps)
    ultimately show ?thesis
      using False by (simp add: eq del: find_server.simps) (erule wp_mono, auto split: option.splits)
  qed
qed

section \<open>Handling a datagram\<close>

text \<open>The transaction id of the datagram in the buffer.\<close>

definition trn_of :: "byte list \<Rightarrow> u16" where
  "trn_of bs = ntohs (word_of_nat (the (rd_field netbios_query_packet ''trn_id'' bs 0)))"

text \<open>
  What a handled datagram yields: it is refused and changes nothing, or it has at least a
  header and, when asked for, the expected transaction id; a status answer names a file
  server, inside the buffer.
\<close>

definition handled ::
  "netbios_ns \<Rightarrow> nat \<Rightarrow> bool \<Rightarrow> u32 \<Rightarrow> netbios_ns_name_query option \<Rightarrow> int \<Rightarrow> netbios_ns_name_query option \<Rightarrow> bool" where
  "handled ns sz check ip out r out' \<longleftrightarrow>
     (r = - 1 \<and> out' = out \<or>
      r = 0 \<and> 12 \<le> sz \<and> (check \<longrightarrow> trn_of (n_buffer ns) = n_last_trn_id ns) \<and>
      (out' = out \<or> out' = Some (Query_nb ip) \<or>
       (\<exists>nm grp. out' = Some (Query_nbstat nm grp NETBIOS_FILESERVER) \<and> server_at (n_buffer ns) nm \<and> 57 \<le> nm \<and> nm + 18 \<le> 1500 \<and>
          (\<forall>g. grp = Some g \<longrightarrow> group_at (n_buffer ns) g \<and> 57 \<le> g \<and> g + 18 \<le> 1500))))"

lemma handled_simps [simp]:
  "handled ns sz check ip out (- 1) out"
  "12 \<le> sz \<Longrightarrow> (check \<longrightarrow> trn_of (n_buffer ns) = n_last_trn_id ns) \<Longrightarrow> handled ns sz check ip out 0 out"
  "12 \<le> sz \<Longrightarrow> (check \<longrightarrow> trn_of (n_buffer ns) = n_last_trn_id ns) \<Longrightarrow>
     handled ns sz check ip out 0 (Some (Query_nb ip))"
  by (simp_all add: handled_def)

lemma handle_query_ok:
  assumes len: "length (n_buffer ns) = 1500" and sz: "sz \<le> 1500"
  shows "wp (netbios_ns_handle_query ns sz check ip out) (\<lambda>(r, out'). handled ns sz check ip out r out')"
proof -
  let ?b = "n_buffer ns"
  have m: "map_of netbios_query_packet ''trn_id'' = Some 2" by (simp add: netbios_query_packet_def)
  obtain v where v: "rd_field netbios_query_packet ''trn_id'' ?b 0 = Some v"
    using rd_field_total [OF m, of 0 ?b] len by auto
  have trn: "trn_of ?b = ntohs (word_of_nat v)" by (simp add: trn_of_def v)
  have n: "rd8 ?b 12 = Some (?b ! 12)" "rd8 ?b 56 = Some (?b ! 56)" using len by (simp_all add: rd8_eq)
  obtain t dl where t: "rd16 ?b 46 = Some t" "rd16 ?b 54 = Some dl" using len by (simp add: rd_le_eq)
  have stat: "wp (find_group ?b 57 k) (\<lambda>grp. wp (find_server ?b 57 k) (\<lambda>name. wp
       (case name of None \<Rightarrow> Some (0, out) | Some nm \<Rightarrow> Some (0, Some (Query_nbstat nm grp NETBIOS_FILESERVER)))
       (\<lambda>(r, out'). handled ns sz check ip out r out')))"
    if k: "18 * k \<le> 1444" and ok: "12 \<le> sz" "check \<longrightarrow> trn_of ?b = n_last_trn_id ns" for k
  proof -
    have b: "57 + 18 * k \<le> 1500" using k by presburger
    then have "57 + 18 * k \<le> length ?b" using len by simp
    note g = find_group_ok [OF this] and s = find_server_ok [OF this]
    show ?thesis
      by (rule wp_mono [OF g], rule wp_mono [OF s])
        (use b ok in \<open>auto simp: handled_def split: option.splits\<close>)
  qed
  show ?thesis
  proof (cases "?b ! 12 = 0x20")
    case False
    then show ?thesis
      by (simp add: netbios_ns_handle_query_def Let_def v n) (auto simp: trn)
  next
    case True
    then have u: "unat (?b ! 12) = 32" by simp
    show ?thesis
      using stat [of "unat (?b ! 56)"] sz
      by (simp add: netbios_ns_handle_query_def Let_def v n t True u) (auto simp: trn mult.commute)
  qed
qed

section \<open>Receiving\<close>

text \<open>What a receive may change: the buffer's contents, and the abort noticed.\<close>

definition ns_ok :: "netbios_ns \<Rightarrow> bool" where
  "ns_ok ns \<longleftrightarrow> length (n_buffer ns) = 1500 \<and> n_abort ns \<noteq> Pipe_closed"

definition ns_keeps :: "netbios_ns \<Rightarrow> netbios_ns \<Rightarrow> bool" where
  "ns_keeps ns ns' \<longleftrightarrow> (\<exists>b a. ns' = ns\<lparr>n_buffer := b, n_abort := a\<rparr>) \<and> (ns_ok ns \<longrightarrow> ns_ok ns')"

lemma ns_keeps_refl [simp]: "ns_keeps ns ns"
  unfolding ns_keeps_def by (intro conjI exI [of _ "n_buffer ns"] exI [of _ "n_abort ns"]) simp_all

lemma ns_keeps_fields:
  assumes "ns_keeps ns ns'"
  shows "n_entries ns' = n_entries ns" "n_last_trn_id ns' = n_last_trn_id ns"
    "n_broadcast_timeout ns' = n_broadcast_timeout ns" "n_discover_started ns' = n_discover_started ns"
    "ns_ok ns \<Longrightarrow> ns_ok ns'"
  using assms by (auto simp: ns_keeps_def)

lemma ns_keeps_trans: "ns_keeps ns ns' \<Longrightarrow> ns_keeps ns' ns'' \<Longrightarrow> ns_keeps ns ns''"
  by (cases ns; cases ns''; auto simp: ns_keeps_def)

lemma ns_note_abort_keeps [simp]: "ns_keeps ns (ns_note_abort ab ns)"
proof -
  have "ns_note_abort ab ns = ns\<lparr>n_buffer := n_buffer ns, n_abort := n_abort (ns_note_abort ab ns)\<rparr>"
    by (simp add: ns_note_abort_def)
  moreover have "ns_ok ns \<longrightarrow> ns_ok (ns_note_abort ab ns)"
    by (auto simp: ns_ok_def ns_note_abort_def netbios_abort_ctx_abort_def split: netbios_abort_ctx.splits)
  ultimately show ?thesis unfolding ns_keeps_def by blast
qed

text \<open>
  The outcome of a receive: an error or a timeout that leaves the caller's query as it was, or
  an accepted datagram of the script.
\<close>

definition received ::
  "udp_event list \<Rightarrow> netbios_ns \<Rightarrow> bool \<Rightarrow> u32 \<Rightarrow> netbios_ns_name_query option
   \<Rightarrow> int \<Rightarrow> u32 option \<Rightarrow> netbios_ns_name_query option \<Rightarrow> bool" where
  "received es ns check wait_ip out r ipo out' \<longleftrightarrow>
     (r = - 1 \<or> r = 0) \<and> out' = out \<or>
     (\<exists>ip bs. Udp_data ip bs \<in> set es \<and> ipo = Some ip \<and> r = int (length (take 1500 bs)) \<and>
        (wait_ip \<noteq> 0 \<longrightarrow> ip = wait_ip) \<and> take (length (take 1500 bs)) (n_buffer ns) = take 1500 bs \<and>
        handled ns (length (take 1500 bs)) check ip out 0 out')"

lemma received_fail [simp]: "received es ns check wip out (- 1) ipo out" "received es ns check wip out 0 ipo out"
  by (simp_all add: received_def)

lemma received_more: "received es ns check wip out r ipo out' \<Longrightarrow> received (e # es) ns check wip out r ipo out'"
  by (auto simp: received_def)

text \<open>A datagram that arrives: it is in the buffer, and is handled unless it comes from elsewhere.\<close>

definition ns_filled :: "netbios_ns \<Rightarrow> byte list \<Rightarrow> netbios_ns" where
  "ns_filled ns bs = ns\<lparr>n_buffer := take 1500 bs @ drop (length (take 1500 bs)) (n_buffer ns)\<rparr>"

lemma ns_filled_keeps:
  assumes "ns_ok ns"
  shows "ns_keeps ns (ns_filled ns bs)" "length (n_buffer (ns_filled ns bs)) = 1500"
    "take (length (take 1500 bs)) (n_buffer (ns_filled ns bs)) = take 1500 bs"
proof -
  have "ns_filled ns bs = ns\<lparr>n_buffer := n_buffer (ns_filled ns bs), n_abort := n_abort ns\<rparr>" by (simp add: ns_filled_def)
  moreover have "ns_ok (ns_filled ns bs)" using assms by (simp add: ns_ok_def ns_filled_def)
  ultimately show "ns_keeps ns (ns_filled ns bs)" "length (n_buffer (ns_filled ns bs)) = 1500"
    unfolding ns_keeps_def by (blast, simp add: ns_ok_def)
  show "take (length (take 1500 bs)) (n_buffer (ns_filled ns bs)) = take 1500 bs" by (simp add: ns_filled_def min_def)
qed

lemma recv_loop_data:
  assumes "ns_ok ns"
  shows "netbios_ns_recv_loop (Udp_data ip bs # es) ns timed check wip out =
     (if wip \<noteq> 0 \<and> wip \<noteq> ip then netbios_ns_recv_loop es (ns_filled ns bs) timed check wip out
      else Option.bind (netbios_ns_handle_query (ns_filled ns bs) (length (take 1500 bs)) check ip out) (\<lambda>(r, out').
        if r = - 1 then netbios_ns_recv_loop es (ns_filled ns bs) timed check wip out'
        else Some (int (length (take 1500 bs)), Some ip, out', ns_filled ns bs, es)))"
proof -
  have w: "buf_write (n_buffer ns) 0 (take 1500 bs) = Some (take 1500 bs @ drop (length (take 1500 bs)) (n_buffer ns))"
    using assms by (simp add: buf_write_def ns_ok_def)
  show ?thesis
    by (simp only: netbios_ns_recv_loop.simps udp_event.case RECV_BUFFER_SIZE_def Let_def w bind.bind_lunit ns_filled_def)
qed

lemma recv_loop_ok:
  assumes "ns_ok ns"
  shows "wp (netbios_ns_recv_loop es ns timed check wip out)
     (\<lambda>(r, ipo, out', ns', es'). ns_keeps ns ns' \<and> received es ns' check wip out r ipo out' \<and> (timed \<or> r \<noteq> 0))"
  using assms
proof (induction es arbitrary: ns)
  case Nil
  then show ?case by simp
next
  case (Cons e es)
  let ?Q = "\<lambda>(r, ipo, out', ns', es'). ns_keeps ns ns' \<and> received (e # es) ns' check wip out r ipo out' \<and> (timed \<or> r \<noteq> 0)"
  have more: "wp (netbios_ns_recv_loop es ns1 timed check wip out) ?Q" if "ns_keeps ns ns1" for ns1
    by (rule wp_mono [OF Cons.IH]) (use that Cons.prems in \<open>auto simp: ns_keeps_fields intro: ns_keeps_trans received_more\<close>)
  show ?case
  proof (cases e)
    case (Udp_data ip bs)
    let ?ns = "ns_filled ns bs" and ?n = "length (take 1500 bs)"
    note f = ns_filled_keeps [OF Cons.prems, of bs]
    have run: "wp (if r = - 1 then netbios_ns_recv_loop es ?ns timed check wip out' else Some (int ?n, Some ip, out', ?ns, es)) ?Q"
      if "\<not> (wip \<noteq> 0 \<and> wip \<noteq> ip)" and hd: "handled ?ns ?n check ip out r out'" for r out'
    proof (cases "r = - 1")
      case True
      then show ?thesis using hd more [OF f(1)] by (simp add: handled_def)
    next
      case False
      then have r: "r = 0" "12 \<le> ?n" using hd by (simp_all add: handled_def)
      have "received (e # es) ?ns check wip out (int ?n) (Some ip) out'"
        unfolding received_def using Udp_data that r f(3) by (intro disjI2 exI [of _ ip] exI [of _ bs]) auto
      then show ?thesis using False r(2) f(1) by auto
    qed
    have "wp (netbios_ns_handle_query ?ns ?n check ip out) (\<lambda>(r, out').
        wp (if r = - 1 then netbios_ns_recv_loop es ?ns timed check wip out' else Some (int ?n, Some ip, out', ?ns, es)) ?Q)"
      if "\<not> (wip \<noteq> 0 \<and> wip \<noteq> ip)"
      by (rule wp_mono [OF handle_query_ok [OF f(2)]], simp, clarify, rule run [OF that])
    then show ?thesis
      unfolding Udp_data recv_loop_data [OF Cons.prems]
      using more [OF f(1)] by (simp add: Udp_data split_def)
  next
    case Udp_timeout
    then show ?thesis using more [OF ns_keeps_refl] by (cases timed) simp_all
  qed simp_all
qed

lemma netbios_ns_recv_ok:
  assumes "ns_ok ns"
    and Q: "\<And>r ipo out' ns' w'. ns_keeps ns ns' \<Longrightarrow> received (w_udp_rx w) ns' check wip (Some Query_invalid) r ipo out' \<Longrightarrow>
      timed \<or> r \<noteq> 0 \<Longrightarrow> (\<exists>es. w' = w\<lparr>w_udp_rx := es\<rparr>) \<Longrightarrow> P (Some (r, ipo, out', ns', w'))"
  shows "P (netbios_ns_recv w ns timed check wip True)"
proof -
  obtain ab where ab: "netbios_abort_ctx_is_aborted (n_abort ns) = Some ab"
    using assms(1) by (cases "n_abort ns") (auto simp: ns_ok_def netbios_abort_ctx_is_aborted_def)
  have self: "\<exists>es. w = w\<lparr>w_udp_rx := es\<rparr>" by (rule exI [of _ "w_udp_rx w"]) simp
  obtain r ipo out' ns' es where l: "netbios_ns_recv_loop (w_udp_rx w) ns timed check wip (Some Query_invalid) = Some (r, ipo, out', ns', es)"
    "ns_keeps ns ns'" "received (w_udp_rx w) ns' check wip (Some Query_invalid) r ipo out'" "timed \<or> r \<noteq> 0"
    using recv_loop_ok [OF assms(1), of "w_udp_rx w" timed check wip "Some Query_invalid"] by (auto simp: wp_iff)
  show ?thesis
  proof (cases ab)
    case True
    have "P (Some (- 1, None, Some Query_invalid, ns, w))"
      by (rule Q [OF ns_keeps_refl _ _ self]) (simp_all add: received_def)
    then show ?thesis using ab True by (simp add: netbios_ns_recv_def)
  next
    case False
    then show ?thesis using ab l Q [OF l(2,3,4)] by (auto simp: netbios_ns_recv_def)
  qed
qed

section \<open>Sending\<close>

text \<open>What a send may change: the abort noticed, and the transaction id.\<close>

definition ns_sent :: "netbios_ns \<Rightarrow> netbios_ns \<Rightarrow> bool" where
  "ns_sent ns ns' \<longleftrightarrow> n_entries ns' = n_entries ns \<and> n_buffer ns' = n_buffer ns \<and>
     n_broadcast_timeout ns' = n_broadcast_timeout ns \<and> n_discover_started ns' = n_discover_started ns \<and>
     (n_abort ns \<noteq> Pipe_closed \<longrightarrow> n_abort ns' \<noteq> Pipe_closed)"

lemma ns_sent_refl [simp]: "ns_sent ns ns"
  by (simp add: ns_sent_def)

lemma ns_sent_trans: "ns_sent ns ns' \<Longrightarrow> ns_sent ns' ns'' \<Longrightarrow> ns_sent ns ns''"
  by (auto simp: ns_sent_def)

lemma ns_sent_note [simp]: "ns_sent ns (ns_note_abort ab ns)"
  by (auto simp: ns_sent_def ns_note_abort_def netbios_abort_ctx_abort_def split: netbios_abort_ctx.splits)

lemma send_packet_keeps: "netbios_ns_send_packet w ns q ip = Some (r, ns', w') \<Longrightarrow> ns_sent ns ns'"
  by (auto simp: netbios_ns_send_packet_def Let_def split: bind_splits if_splits prod.splits)

lemma broadcast_loop_keeps: "netbios_ns_broadcast_loop w ns q as = Some (ns', w') \<Longrightarrow> ns_sent ns ns'"
proof (induction as arbitrary: w ns)
  case (Cons a as)
  then show ?case
    by (auto split: bind_splits if_splits option.splits dest!: send_packet_keeps Cons.IH intro: ns_sent_trans)
qed simp

text \<open>
  The addresses a broadcast goes to, and interfaces that have an address, as the code takes
  for granted.
\<close>

definition broadcasts :: "ifaddrs \<Rightarrow> bool" where
  "broadcasts a \<longleftrightarrow> ifa_flags a AND IFF_BROADCAST \<noteq> 0 \<and> ifa_flags a AND IFF_UP \<noteq> 0"

definition broadcast_addrs :: "ifaddrs list \<Rightarrow> u32 list" where
  "broadcast_addrs as =
     map (the \<circ> ifa_broadaddr) (filter (\<lambda>a. broadcasts a \<and> ifa_family a = Some PF_INET \<and> ifa_broadaddr a \<noteq> None) as)"

definition w_broadcast :: "world \<Rightarrow> u32 list" where
  "w_broadcast w = (case w_ifaddrs w of None \<Rightarrow> [] | Some as \<Rightarrow> broadcast_addrs as)"

definition addrs_ok :: "ifaddrs list \<Rightarrow> bool" where
  "addrs_ok as \<longleftrightarrow> list_all (\<lambda>a. broadcasts a \<longrightarrow> ifa_family a \<noteq> None) as"

definition ifaddrs_ok :: "world \<Rightarrow> bool" where
  "ifaddrs_ok w \<longleftrightarrow> (\<forall>as. w_ifaddrs w = Some as \<longrightarrow> addrs_ok as)"

lemma broadcast_cong:
  "w_ifaddrs w' = w_ifaddrs w \<Longrightarrow> w_broadcast w' = w_broadcast w"
  "w_ifaddrs w' = w_ifaddrs w \<Longrightarrow> ifaddrs_ok w' = ifaddrs_ok w"
  by (simp_all add: w_broadcast_def ifaddrs_ok_def)

text \<open>The loop is a loop of sends over the addresses; an interface without an address is a fault.\<close>

fun send_all :: "world \<Rightarrow> netbios_ns \<Rightarrow> netbios_query option \<Rightarrow> u32 list \<Rightarrow> (netbios_ns \<times> world) option" where
  "send_all w ns q [] = Some (ns, w)"
| "send_all w ns q (ip # ips) = do { (_, ns, w) \<leftarrow> netbios_ns_send_packet w ns q ip; send_all w ns q ips }"

lemma broadcast_loop_eq: "addrs_ok as \<Longrightarrow> netbios_ns_broadcast_loop w ns q as = send_all w ns q (broadcast_addrs as)"
proof (induction as arbitrary: w ns)
  case (Cons a as)
  have "addrs_ok as" and fam: "broadcasts a \<Longrightarrow> ifa_family a \<noteq> None" using Cons.prems by (simp_all add: addrs_ok_def)
  note ih = Cons.IH [OF this(1)]
  show ?case
  proof (cases "broadcasts a")
    case True
    then obtain f where "ifa_family a = Some f" using fam by blast
    then show ?thesis using True ih by (cases "ifa_broadaddr a") (simp_all add: broadcasts_def broadcast_addrs_def)
  qed (use ih in \<open>auto simp: broadcasts_def broadcast_addrs_def\<close>)
qed (simp add: broadcast_addrs_def)

lemma broadcast_packet_eq: "ifaddrs_ok w \<Longrightarrow> netbios_ns_broadcast_packet w ns q = send_all w ns q (w_broadcast w)"
  by (simp add: netbios_ns_broadcast_packet_def w_broadcast_def ifaddrs_ok_def broadcast_loop_eq split: option.split)

lemma ifaddrs_alloc_tick [simp]: "ifaddrs_ok (alloc_tick w) = ifaddrs_ok w" "w_broadcast (alloc_tick w) = w_broadcast w"
  by (rule broadcast_cong, simp add: alloc_tick_def)+

lemma broadcast_packet_calm:
  assumes "calm w0 w" and "ifaddrs_ok w0"
  shows "netbios_ns_broadcast_packet w ns q = send_all w ns q (w_broadcast w0)"
proof -
  have "w_ifaddrs w = w_ifaddrs w0" using same_io_fields(15) [OF calm_fields(2) [OF assms(1)]] .
  then show ?thesis using assms(2) broadcast_packet_eq [of w] by (simp add: broadcast_cong [of w w0])
qed

lemma broadcast_null_address:
  "broadcasts a \<Longrightarrow> ifa_family a = None \<Longrightarrow> netbios_ns_broadcast_loop w ns q (a # as) = None"
  by (simp add: broadcasts_def)

lemma send_name_query_keeps:
  "netbios_ns_send_name_query w ns ip type name fl = Some (r, ns', w') \<Longrightarrow> ns_sent ns ns'"
  by (auto simp: netbios_ns_send_name_query_def netbios_ns_broadcast_packet_def ns_sent_def
      split: bind_splits if_splits option.splits dest!: send_packet_keeps broadcast_loop_keeps)

section \<open>The cache of entries\<close>

definition entry_ok :: "netbios_ns_entry \<Rightarrow> bool" where
  "entry_ok e \<longleftrightarrow> e_flag e AND NS_ENTRY_FLAG_VALID_IP \<noteq> 0 \<and> length (e_name e) = 16 \<and> e_name e ! 15 = 0 \<and>
     length (e_group e) = 16 \<and> e_group e ! 15 = 0"

definition cache_ok :: "netbios_ns_entry list \<Rightarrow> bool" where
  "cache_ok es \<longleftrightarrow> distinct (map e_address es) \<and> list_all entry_ok es"

definition named_addresses :: "netbios_ns_entry list \<Rightarrow> u32 set" where
  "named_addresses es = e_address ` {e \<in> set es. entry_named e}"

text \<open>
  The callbacks as a protocol: the addresses announced, or a violation. Every entry handed to
  the application has its address, a name, and terminated names.
\<close>

fun callbacks :: "u32 set \<Rightarrow> ns_event list \<Rightarrow> u32 set option" where
  "callbacks S [] = Some S"
| "callbacks S (Entry_added e # evs) =
     (if e_address e \<notin> S \<and> entry_ok e \<and> entry_named e then callbacks (insert (e_address e) S) evs else None)"
| "callbacks S (Entry_removed e # evs) =
     (if e_address e \<in> S \<and> entry_ok e \<and> entry_named e then callbacks (S - {e_address e}) evs else None)"

lemma callbacks_append: "callbacks S (xs @ ys) = Option.bind (callbacks S xs) (\<lambda>T. callbacks T ys)"
  by (induction S xs rule: callbacks.induct) auto

lemma find_by_ip:
  assumes "list_all entry_ok es"
  shows "\<exists>r. entry_find_loop None ip es = Some r \<and>
     (case r of None \<Rightarrow> ip \<notin> e_address ` set es | Some i \<Rightarrow> i < length es \<and> e_address (es ! i) = ip)"
  using assms
proof (induction es)
  case (Cons e es)
  then obtain r where "entry_find_loop None ip es = Some r"
    "case r of None \<Rightarrow> ip \<notin> e_address ` set es | Some i \<Rightarrow> i < length es \<and> e_address (es ! i) = ip" by auto
  then show ?case using Cons.prems by (auto simp: entry_matches_def entry_ok_def split: option.splits)
qed simp

lemma expire_ok:
  assumes "cache_ok es" and "S \<inter> e_address ` set es = {}" and "expire_entries now lim es = (kept, evs)"
  shows "cache_ok kept \<and> set kept \<subseteq> set es \<and> callbacks (named_addresses es \<union> S) evs = Some (named_addresses kept \<union> S)"
  using assms
proof (induction es arbitrary: S kept evs)
  case Nil
  then show ?case by (simp add: named_addresses_def)
next
  case (Cons e es)
  obtain kept1 evs1 where r: "expire_entries now lim es = (kept1, evs1)" by fastforce
  have c: "cache_ok es" "e_address e \<notin> e_address ` set es" "entry_ok e" using Cons.prems(1) by (auto simp: cache_ok_def)
  have nm: "named_addresses (e # xs) = (if entry_named e then {e_address e} else {}) \<union> named_addresses xs" for xs
    by (auto simp: named_addresses_def)
  show ?case
  proof (cases "lim < now - e_last_time_seen e")
    case True
    have ih: "cache_ok kept1 \<and> set kept1 \<subseteq> set es \<and> callbacks (named_addresses es \<union> S) evs1 = Some (named_addresses kept1 \<union> S)"
      using Cons.prems(2) by (intro Cons.IH [OF c(1) _ r]) auto
    have "e_address e \<notin> named_addresses es \<union> S" using c(2) Cons.prems(2) by (auto simp: named_addresses_def)
    then show ?thesis using ih True r Cons.prems(3) c(3) by (auto simp: nm)
  next
    case False
    let ?S = "(if entry_named e then {e_address e} else {}) \<union> S"
    have ih: "cache_ok kept1 \<and> set kept1 \<subseteq> set es \<and> callbacks (named_addresses es \<union> ?S) evs1 = Some (named_addresses kept1 \<union> ?S)"
      using Cons.prems(2) c(2) by (intro Cons.IH [OF c(1) _ r]) auto
    have "kept = e # kept1" "evs = evs1" using False r Cons.prems(3) by simp_all
    moreover have "cache_ok (e # kept1)" using ih c by (auto simp: cache_ok_def)
    ultimately show ?thesis using ih by (auto simp: nm Un_ac)
  qed
qed

lemma length_trim [simp]: "length (trim_name k d) = length d"
  by (induction k arbitrary: d) simp_all

lemma trim_name_last: "k < i \<Longrightarrow> trim_name k d ! i = d ! i"
  by (induction k arbitrary: d) simp_all

lemma copy_name_ok:
  assumes "netbios_ns_copy_name dest buf p = Some d" and "length dest = 16"
  shows "length d = 16" "d ! 15 = 0"
  using assms by (auto simp: netbios_ns_copy_name_def buf_read_def buf_write_def NETBIOS_NAME_LENGTH_def
      trim_name_last nth_append split: bind_splits if_splits)

lemma flag_bits: "(x OR NS_ENTRY_FLAG_VALID_NAME) AND NS_ENTRY_FLAG_VALID_IP = x AND NS_ENTRY_FLAG_VALID_IP"
  "(x OR NS_ENTRY_FLAG_VALID_NAME) AND NS_ENTRY_FLAG_VALID_NAME \<noteq> 0"
proof -
  have "(x OR 2) AND 2 = (2 :: u32)" by (metis and.commute or.commute word_oa_dist word_bw_same(1) word_ao_absorbs(1))
  then show "(x OR NS_ENTRY_FLAG_VALID_NAME) AND NS_ENTRY_FLAG_VALID_NAME \<noteq> 0" by (simp add: dsm_consts)
qed (simp add: dsm_consts bit.conj_disj_distrib2)

lemma set_name_ok:
  assumes "netbios_ns_entry_set_name buf e name grp t = Some e'" and "entry_ok e"
  shows "entry_ok e'" "entry_named e'" "e_address e' = e_address e"
  using assms copy_name_ok flag_bits
  by (auto simp: netbios_ns_entry_set_name_def entry_ok_def entry_named_def split: bind_splits option.splits)

lemma update_entry:
  assumes es: "cache_ok es" and i: "i < length es" and e: "entry_ok e" "e_address e = e_address (es ! i)"
  shows "cache_ok (es[i := e])"
    "entry_named e \<Longrightarrow> named_addresses (es[i := e]) = insert (e_address e) (named_addresses es)"
    "entry_named e = entry_named (es ! i) \<Longrightarrow> named_addresses (es[i := e]) = named_addresses es"
    "\<not> entry_named (es ! i) \<Longrightarrow> e_address (es ! i) \<notin> named_addresses es"
proof -
  have d: "distinct (map e_address es)" and ok: "list_all entry_ok es" using es by (simp_all add: cache_ok_def)
  have m: "map e_address (es[i := e]) = map e_address es"
    using i e(2) by (simp add: map_update list_update_same_conv)
  show "cache_ok (es[i := e])"
    using m d ok e(1) set_update_subset_insert [of es i e] by (auto simp: cache_ok_def list_all_iff)
  have u: "set (es[i := e]) = insert e (set es - {es ! i})"
    using d i by (intro set_update_distinct) (auto simp: distinct_map)
  have other: "x = es ! i" if "x \<in> set es" "e_address x = e_address (es ! i)" for x
    using that d i by (auto simp: distinct_map dest: inj_onD)
  show "entry_named e \<Longrightarrow> named_addresses (es[i := e]) = insert (e_address e) (named_addresses es)"
    using u e(2) by (auto simp: named_addresses_def image_iff) metis+
  show "entry_named e = entry_named (es ! i) \<Longrightarrow> named_addresses (es[i := e]) = named_addresses es"
    using u e(2) nth_mem [OF i] by (auto simp: named_addresses_def image_iff) metis
  show "\<not> entry_named (es ! i) \<Longrightarrow> e_address (es ! i) \<notin> named_addresses es"
    using other by (auto simp: named_addresses_def)
qed

section \<open>Discovery\<close>

text \<open>The addresses of \<open>S\<close> had a name before the thread started.\<close>

definition discovery_inv :: "u32 set \<Rightarrow> netbios_ns \<Rightarrow> ns_event list \<Rightarrow> bool" where
  "discovery_inv S ns log \<longleftrightarrow> ns_ok ns \<and> cache_ok (n_entries ns) \<and>
     callbacks S log = Some (named_addresses (n_entries ns))"

lemma discovery_inv_sent: "ns_sent ns ns' \<Longrightarrow> discovery_inv S ns log \<Longrightarrow> discovery_inv S ns' log"
  by (auto simp: discovery_inv_def ns_sent_def ns_ok_def)

lemma discovery_inv_keeps: "ns_keeps ns ns' \<Longrightarrow> discovery_inv S ns log \<Longrightarrow> discovery_inv S ns' log"
  using ns_keeps_fields [of ns ns'] by (auto simp: discovery_inv_def)

lemma discover_outer_inv:
  assumes inv: "discovery_inv S ns log" and step: "discover_outer w ns = Some (ph, evs, ns', w')"
  shows "discovery_inv S ns' (log @ evs)"
proof -
  have ok: "ns_ok ns" "cache_ok (n_entries ns)" "callbacks S log = Some (named_addresses (n_entries ns))"
    using inv by (simp_all add: discovery_inv_def)
  obtain ab where ab: "netbios_abort_ctx_is_aborted (n_abort ns) = Some ab" using step by (auto simp: discover_outer_def split: bind_splits)
  obtain now w1 where t: "c_time w = (now, w1)" by fastforce
  obtain kept evs1 where x: "expire_entries now (sint (5 * n_broadcast_timeout ns)) (n_entries ns) = (kept, evs1)" by fastforce
  have e: "cache_ok kept" "callbacks (named_addresses (n_entries ns)) evs1 = Some (named_addresses kept)"
    using expire_ok [OF ok(2) _ x, of "{}"] by auto
  have inv1: "discovery_inv S (ns\<lparr>n_entries := kept\<rparr>) (log @ evs1)"
    using ok e by (simp add: discovery_inv_def ns_ok_def callbacks_append)
  show ?thesis
  proof (cases ab)
    case True
    then show ?thesis using step ab inv by (simp add: discover_outer_def)
  next
    case False
    then have "evs = evs1" "ns_sent (ns\<lparr>n_entries := kept\<rparr>) ns'"
      using step ab t x by (auto simp: discover_outer_def Let_def split: bind_splits dest!: send_name_query_keeps)
    then show ?thesis using discovery_inv_sent inv1 by blast
  qed
qed

lemma new_entry_ok: "entry_ok (new_entry ip)" "\<not> entry_named (new_entry ip)" "e_address (new_entry ip) = ip"
  by (simp_all add: entry_ok_def new_entry_def entry_named_def dsm_consts)

text \<open>Finding or making the entry of an address, and changing it.\<close>

lemma find_entry_ok:
  assumes "cache_ok (n_entries ns)"
  shows "\<exists>r. netbios_ns_entry_find ns None ip = Some r \<and>
     (case r of None \<Rightarrow> ip \<notin> e_address ` set (n_entries ns)
      | Some i \<Rightarrow> i < length (n_entries ns) \<and> e_address (n_entries ns ! i) = ip \<and> entry_ok (n_entries ns ! i))"
proof -
  have "list_all entry_ok (n_entries ns)" using assms by (simp add: cache_ok_def)
  from find_by_ip [OF this, of ip] show ?thesis using assms
    by (auto simp: netbios_ns_entry_find_def cache_ok_def list_all_length split: option.splits)
qed

lemma add_entry_inv:
  assumes "discovery_inv S ns log" and "ip \<notin> e_address ` set (n_entries ns)"
    and "netbios_ns_entry_add w ns ip = (ok, ns', w')"
  shows "discovery_inv S ns' log" "ok \<Longrightarrow> n_entries ns' = new_entry ip # n_entries ns"
proof -
  have "named_addresses (new_entry ip # n_entries ns) = named_addresses (n_entries ns)"
    using new_entry_ok(2) by (auto simp: named_addresses_def)
  then show "discovery_inv S ns' log"
    using assms new_entry_ok [of ip]
    by (auto simp: netbios_ns_entry_add_def discovery_inv_def ns_ok_def cache_ok_def split: prod.splits if_splits)
  show "ok \<Longrightarrow> n_entries ns' = new_entry ip # n_entries ns"
    using assms(3) by (auto simp: netbios_ns_entry_add_def split: prod.splits if_splits)
qed

lemma seen_entry_inv:
  assumes inv: "discovery_inv S ns log" and i: "i < length (n_entries ns)"
  shows "discovery_inv S (ns\<lparr>n_entries := (n_entries ns)[i := (n_entries ns ! i)\<lparr>e_last_time_seen := now\<rparr>]\<rparr>) log"
proof -
  let ?e = "(n_entries ns ! i)\<lparr>e_last_time_seen := now\<rparr>"
  have c: "cache_ok (n_entries ns)" using inv by (simp add: discovery_inv_def)
  then have "entry_ok (n_entries ns ! i)" using i by (simp add: cache_ok_def list_all_length)
  then have "entry_ok ?e" "e_address ?e = e_address (n_entries ns ! i)" "entry_named ?e = entry_named (n_entries ns ! i)"
    by (simp_all add: entry_ok_def entry_named_def)
  then show ?thesis using update_entry [OF c i, of ?e] inv by (simp add: discovery_inv_def ns_ok_def)
qed

lemma discover_nb_inv:
  assumes inv: "discovery_inv S ns log" and step: "discover_nb w ns ip now = Some (ph, evs, ns', w')"
  shows "discovery_inv S ns' (log @ evs)"
proof -
  have c: "cache_ok (n_entries ns)" using inv by (simp add: discovery_inv_def)
  obtain r where r: "netbios_ns_entry_find ns None ip = Some r"
    "case r of None \<Rightarrow> ip \<notin> e_address ` set (n_entries ns)
      | Some i \<Rightarrow> i < length (n_entries ns) \<and> e_address (n_entries ns ! i) = ip \<and> entry_ok (n_entries ns ! i)"
    using find_entry_ok [OF c] by blast
  have tail: "discovery_inv S ns' (log @ evs)"
    if 1: "discovery_inv S ns1 log" "i < length (n_entries ns1)"
      and s: "(let entry = (n_entries ns1 ! i)\<lparr>e_last_time_seen := now\<rparr>;
              ns = ns1\<lparr>n_entries := (n_entries ns1)[i := entry]\<rparr>
          in if entry_named entry then Some (Inner, [], ns, w1)
             else do { (r, ns, w) \<leftarrow> netbios_ns_send_name_query w1 ns ip NAME_QUERY_TYPE_NBSTAT name_query_broadcast 0;
               Some (if r = - 1 then Finished else Inner, [], ns, w) }) = Some (ph, evs, ns', w')" for ns1 i w1
    using s seen_entry_inv [OF 1, of now]
    by (auto simp: Let_def split: if_splits bind_splits dest!: send_name_query_keeps intro: discovery_inv_sent)
  show ?thesis
  proof (cases r)
    case (Some i)
    then show ?thesis using tail [OF inv, of i w] r step by (simp add: discover_nb_def)
  next
    case None
    obtain ok ns1 w1 where a: "netbios_ns_entry_add w ns ip = (ok, ns1, w1)" by (metis prod_cases3)
    have n: "ip \<notin> e_address ` set (n_entries ns)" using r None by simp
    note b = add_entry_inv [OF inv n a]
    show ?thesis
    proof (cases ok)
      case True
      then show ?thesis using tail [OF b(1), of 0 w1] b(2) a None r(1) step by (simp add: discover_nb_def)
    next
      case False
      then show ?thesis using b(1) a None r(1) step by (simp add: discover_nb_def)
    qed
  qed
qed

lemma discover_nbstat_inv:
  assumes inv: "discovery_inv S ns log" and step: "discover_nbstat w ns ip name grp t now = Some (ph, evs, ns', w')"
  shows "discovery_inv S ns' (log @ evs)"
proof -
  have c: "cache_ok (n_entries ns)" using inv by (simp add: discovery_inv_def)
  obtain r where r: "netbios_ns_entry_find ns None ip = Some r"
    "case r of None \<Rightarrow> ip \<notin> e_address ` set (n_entries ns)
      | Some i \<Rightarrow> i < length (n_entries ns) \<and> e_address (n_entries ns ! i) = ip \<and> entry_ok (n_entries ns ! i)"
    using find_entry_ok [OF c] by blast
  show ?thesis
  proof (cases r)
    case None
    then show ?thesis using inv r step by (simp add: discover_nbstat_def)
  next
    case (Some i)
    let ?e = "(n_entries ns ! i)\<lparr>e_last_time_seen := now\<rparr>"
    have e: "entry_ok ?e" "i < length (n_entries ns)" "entry_named ?e = entry_named (n_entries ns ! i)"
      using r Some by (simp_all add: entry_ok_def entry_named_def)
    obtain e' where s: "netbios_ns_entry_set_name (n_buffer ns) ?e (Some name) grp t = Some e'"
      and st: "evs = (if \<not> entry_named ?e then [Entry_added e'] else [])" "ns' = ns\<lparr>n_entries := (n_entries ns)[i := e']\<rparr>"
      using step r Some by (auto simp: discover_nbstat_def Let_def split: bind_splits)
    note f = set_name_ok [OF s e(1)]
    have a: "e_address e' = e_address (n_entries ns ! i)" using f(3) by simp
    note u = update_entry [OF c e(2) f(1) a]
    show ?thesis
      using inv st u(1) u(2) [OF f(2)] u(4) a e(3) f(1,2)
      by (auto simp: discovery_inv_def ns_ok_def callbacks_append insert_absorb named_addresses_def image_iff nth_mem [OF e(2)])
  qed
qed

lemma discover_inner_inv:
  assumes inv: "discovery_inv S ns log" and step: "discover_inner w ns = Some (ph, evs, ns', w')"
  shows "discovery_inv S ns' (log @ evs)"
proof -
  have ok: "ns_ok ns" using inv by (simp add: discovery_inv_def)
  obtain r ipo out ns1 w1 where rc: "netbios_ns_recv w ns (n_broadcast_timeout ns \<noteq> 0) False 0 True = Some (r, ipo, out, ns1, w1)"
    and k: "ns_keeps ns ns1"
    using netbios_ns_recv_ok [OF ok, where P = "\<lambda>x. \<exists>r ipo out ns1 w1. x = Some (r, ipo, out, ns1, w1) \<and> ns_keeps ns ns1"]
    by blast
  have i1: "discovery_inv S ns1 log" using discovery_inv_keeps [OF k inv] .
  show ?thesis
    using step i1 discover_nb_inv [OF i1] discover_nbstat_inv [OF i1]
    by (auto simp: discover_inner_def rc Let_def split: if_splits prod.splits option.splits netbios_ns_name_query.splits bind_splits)
qed

text \<open>
  C32 (name-service answers). Whatever a datagram of at most 1500 bytes contains, handling it
  reads nothing outside the receive buffer. It is refused, changing nothing, or it has a
  whole header and, when the transaction id is checked, the id of the last query; a status
  answer then names a host that is a file server and no group, with the name inside the buffer.
\<close>

theorem ns_handle_query_safe:
  assumes "length (n_buffer ns) = 1500" and "sz \<le> 1500"
  shows "wp (netbios_ns_handle_query ns sz check ip (Some Query_invalid)) (\<lambda>(r, out').
     r = - 1 \<and> out' = Some Query_invalid \<or>
     r = 0 \<and> 12 \<le> sz \<and> (check \<longrightarrow> trn_of (n_buffer ns) = n_last_trn_id ns) \<and>
     (case out' of
        None \<Rightarrow> False
      | Some Query_invalid \<Rightarrow> True
      | Some (Query_nb a) \<Rightarrow> a = ip
      | Some (Query_nbstat nm grp t) \<Rightarrow> t = NETBIOS_FILESERVER \<and> n_buffer ns ! (nm + 15) = NETBIOS_FILESERVER \<and>
          57 \<le> nm \<and> nm + 18 \<le> 1500 \<and> \<not> group_at (n_buffer ns) nm \<and>
          (\<forall>g. grp = Some g \<longrightarrow> group_at (n_buffer ns) g \<and> 57 \<le> g \<and> g + 18 \<le> 1500)))"
  by (rule wp_mono [OF handle_query_ok [OF assms]]) (auto simp: handled_def server_at_def)

definition sample_ns :: netbios_ns where
  "sample_ns = \<lparr>n_socket = 3, n_last_trn_id = 7, n_entries = [], n_buffer = replicate 1500 0,
     n_abort = Pipe_open False, n_broadcast_timeout = 5, n_discover_started = False\<rparr>"

theorem ns_handle_query_safe_witness:
  "wp (netbios_ns_handle_query sample_ns 1500 True 9 (Some Query_invalid)) (\<lambda>(r, out'). r = - 1 \<or> r = 0)"
proof -
  have "length (n_buffer sample_ns) = 1500" by (simp add: sample_ns_def)
  then show ?thesis by (rule wp_mono [OF ns_handle_query_safe]) auto
qed

lemma discovery_inv_step:
  assumes "netbios_ns_discover_thread w (ph, ns, log) (ph', ns', log')" and "discovery_inv S ns log"
  shows "discovery_inv S ns' log'"
  using assms(1)
proof (rule discover_stepE)
  assume "(ph', ns', log') = (ph, netbios_ns_abort ns, log)"
  then show ?thesis
    using assms(2) by (auto simp: netbios_ns_abort_def discovery_inv_def ns_ok_def netbios_abort_ctx_abort_def split: netbios_abort_ctx.splits)
qed (use assms(2) in \<open>auto simp: discover_outer_inv discover_inner_inv\<close>)

lemma discovery_run_induct [consumes 1, case_names start step]:
  assumes "discovery_run env (ph0, ns0, log0) (ph, ns, log)" and "P ph0 ns0 log0"
    and "\<And>w ph ns log ph' ns' log'. discovery_run env (ph0, ns0, log0) (ph, ns, log) \<Longrightarrow> env w \<Longrightarrow>
      netbios_ns_discover_thread w (ph, ns, log) (ph', ns', log') \<Longrightarrow> P ph ns log \<Longrightarrow> P ph' ns' log'"
  shows "P ph ns log"
  using assms(1) unfolding discovery_run_def
proof (induction c \<equiv> "(ph, ns, log)" arbitrary: ph ns log rule: rtranclp_induct)
  case (step c1)
  obtain ph1 ns1 log1 where c1: "c1 = (ph1, ns1, log1)" by (cases c1)
  then show ?case using step assms(3) [of ph1 ns1 log1] by (auto simp: discovery_run_def)
qed (use assms(2) in simp)

lemma discovery_run_refl [simp]: "discovery_run env c c"
  by (simp add: discovery_run_def)

lemma discovery_run_step:
  "netbios_ns_discover_thread w c c' \<Longrightarrow> env w \<Longrightarrow> discovery_run env c' c'' \<Longrightarrow> discovery_run env c c''"
  unfolding discovery_run_def by (rule converse_rtranclp_into_rtranclp) blast+

lemma discovery_inv_reachable:
  "discovery_run env (ph0, ns0, log0) (ph, ns, log) \<Longrightarrow> discovery_inv S ns0 log0 \<Longrightarrow> discovery_inv S ns log"
  by (induction rule: discovery_run_induct) (auto intro: discovery_inv_step)

lemma discovery_inv_start:
  "cache_ok (n_entries ns) \<Longrightarrow> length (n_buffer ns) = 1500 \<Longrightarrow> n_abort ns \<noteq> Pipe_closed \<Longrightarrow>
     discovery_inv (named_addresses (n_entries ns)) ns []"
  by (simp add: discovery_inv_def ns_ok_def)

text \<open>The name service before discovery: newly made, and after lookups by name and by address.\<close>

definition service_ok :: "netbios_ns \<Rightarrow> bool" where
  "service_ok ns \<longleftrightarrow> ns_ok ns \<and> cache_ok (n_entries ns)"

inductive ns_call :: "netbios_ns \<Rightarrow> netbios_ns \<Rightarrow> bool" where
  resolve: "netbios_ns_resolve w ns name type = Some (r, addr, ns', w') \<Longrightarrow> ns_call ns ns'"
| inverse: "netbios_ns_inverse w ns ip = Some (name, ns', w') \<Longrightarrow> ns_call ns ns'"

lemma service_ok_sent: "ns_sent ns ns' \<Longrightarrow> service_ok ns \<Longrightarrow> service_ok ns'"
  by (auto simp: service_ok_def ns_sent_def ns_ok_def)

lemma send_keeps_service:
  "netbios_ns_send_name_query w ns ip type name fl = Some (r, ns', w') \<Longrightarrow> service_ok ns \<Longrightarrow>
     service_ok ns' \<and> n_entries ns' = n_entries ns"
  using service_ok_sent send_name_query_keeps by (metis ns_sent_def)

lemma service_ok_recv:
  assumes "netbios_ns_recv w ns timed check ip True = Some (r, ipo, out, ns', w')" and "service_ok ns"
  shows "service_ok ns' \<and> n_entries ns' = n_entries ns"
proof -
  have "ns_ok ns" using assms(2) by (simp add: service_ok_def)
  then have "\<exists>r ipo out ns1 w1. netbios_ns_recv w ns timed check ip True = Some (r, ipo, out, ns1, w1) \<and> ns_keeps ns ns1"
    by (rule netbios_ns_recv_ok) blast
  then show ?thesis using assms ns_keeps_fields [of ns ns'] by (auto simp: service_ok_def)
qed

lemma resolve_keeps_service:
  assumes "netbios_ns_resolve w ns name type = Some (r, addr, ns', w')" and "service_ok ns"
  shows "service_ok ns'"
  using assms
  by (auto simp: netbios_ns_resolve_def split: bind_splits option.splits if_splits netbios_ns_name_query.splits)
    (blast dest: send_keeps_service service_ok_recv)+

lemma named_entry_ok:
  assumes "service_ok ns" and "ip \<notin> e_address ` set (n_entries ns)"
    and "netbios_ns_entry_set_name buf (new_entry ip) name grp t = Some e"
  shows "service_ok (ns\<lparr>n_entries := e # n_entries ns\<rparr>)"
  using assms set_name_ok [OF assms(3) new_entry_ok(1)] new_entry_ok(3)
  by (simp add: service_ok_def ns_ok_def cache_ok_def)

text \<open>A lookup by address leaves the cache as it was, or enters the address, with a name and without a time.\<close>

definition after_inverse :: "netbios_ns \<Rightarrow> u32 \<Rightarrow> netbios_ns \<Rightarrow> bool" where
  "after_inverse ns ip ns' \<longleftrightarrow> service_ok ns' \<and> (n_entries ns' = n_entries ns \<or>
     (\<exists>e. n_entries ns' = e # n_entries ns \<and> entry_named e \<and> e_address e = ip \<and> e_last_time_seen e = 0))"

lemma inverse_stores:
  assumes "service_ok ns2" "n_entries ns2 = n_entries ns" "ip \<notin> e_address ` set (n_entries ns)"
    and "netbios_ns_entry_add w2 ns2 ip = (True, ns3, w3)"
    and "netbios_ns_entry_set_name (n_buffer ns3) (hd (n_entries ns3)) (Some nm) grp t = Some e"
  shows "after_inverse ns ip (ns3\<lparr>n_entries := e # tl (n_entries ns3)\<rparr>)"
proof -
  have n3: "ns3 = ns2\<lparr>n_entries := new_entry ip # n_entries ns2\<rparr>"
    using assms(4) by (auto simp: netbios_ns_entry_add_def split: prod.splits if_splits)
  then have e: "netbios_ns_entry_set_name (n_buffer ns3) (new_entry ip) (Some nm) grp t = Some e" using assms(5) by simp
  then have "e_last_time_seen e = 0"
    by (auto simp: netbios_ns_entry_set_name_def new_entry_def split: bind_splits option.splits)
  then show ?thesis
    using named_entry_ok [OF assms(1) _ e] set_name_ok [OF e new_entry_ok(1)] assms(2,3) n3 new_entry_ok(3)
    by (simp add: after_inverse_def)
qed

lemma inverse_entries:
  assumes "netbios_ns_inverse w ns ip = Some (name, ns', w')" and ok: "service_ok ns"
  shows "after_inverse ns ip ns'"
proof -
  obtain r where r: "netbios_ns_entry_find ns None ip = Some r"
    "case r of None \<Rightarrow> ip \<notin> e_address ` set (n_entries ns) | Some i \<Rightarrow> i < length (n_entries ns) \<and>
       e_address (n_entries ns ! i) = ip \<and> entry_ok (n_entries ns ! i)"
    using find_entry_ok ok by (meson service_ok_def)
  have sent: "after_inverse ns ip ns1" if "netbios_ns_send_name_query w ns ip t nm fl = Some (a, ns1, w1)" for a ns1 w1 t nm fl
    using send_keeps_service [OF that ok] by (simp add: after_inverse_def)
  have got: "after_inverse ns ip ns2 \<and> service_ok ns2 \<and> n_entries ns2 = n_entries ns"
    if "netbios_ns_send_name_query w ns ip t nm fl = Some (a, ns1, w1)" "netbios_ns_recv w1 ns1 b c ip True = Some (q, o', out, ns2, w2)"
    for a ns1 w1 q o' out ns2 w2 t nm fl b c
    using send_keeps_service [OF that(1) ok] service_ok_recv [OF that(2)] by (simp add: after_inverse_def)
  have full: "after_inverse ns ip ns3"
    if "after_inverse ns ip ns2" "netbios_ns_entry_add w2 ns2 ip = (False, ns3, w3)" for ns2 ns3 w2 w3
    using that by (auto simp: netbios_ns_entry_add_def split: prod.splits if_splits)
  show ?thesis
  proof (cases r)
    case (Some i)
    then show ?thesis
      using assms r(1) by (auto simp: netbios_ns_inverse_def netbios_ns_inverse_internal_def after_inverse_def split: bind_splits)
  next
    case None
    then have ip: "ip \<notin> e_address ` set (n_entries ns)" using r(2) by simp
    note stores = inverse_stores [OF _ _ ip]
    show ?thesis
      using assms(1) r(1) None
      by (auto simp: netbios_ns_inverse_def netbios_ns_inverse_internal_def
          split: bind_splits if_splits option.splits netbios_ns_name_query.splits prod.splits)
        (blast dest: sent got full stores)+
  qed
qed

lemma inverse_keeps_service: "netbios_ns_inverse w ns ip = Some (name, ns', w') \<Longrightarrow> service_ok ns \<Longrightarrow> service_ok ns'"
  using inverse_entries by (simp add: after_inverse_def)

lemma ns_call_keeps: "ns_call ns ns' \<Longrightarrow> service_ok ns \<Longrightarrow> service_ok ns'"
  by (auto elim!: ns_call.cases intro: resolve_keeps_service inverse_keeps_service)

lemma ns_calls_keep: "ns_call\<^sup>*\<^sup>* ns ns' \<Longrightarrow> service_ok ns \<Longrightarrow> service_ok ns'"
  by (induction rule: rtranclp_induct) (auto intro: ns_call_keeps)

lemma ns_new_shape:
  assumes "netbios_ns_new w = (Some ns, w')"
  shows "n_entries ns = []" "service_ok ns"
  using assms
  by (auto simp: netbios_ns_new_def netbios_abort_ctx_init_def ns_open_socket_def netbios_ns_destroy_def RECV_BUFFER_SIZE_def Let_def
      service_ok_def ns_ok_def cache_ok_def split: if_splits prod.splits)

lemma discover_start_shape:
  assumes "netbios_ns_discover_start w ns t c = (0, ns', w')"
  shows "n_entries ns' = n_entries ns" "service_ok ns' = service_ok ns" "n_abort ns' = n_abort ns" "n_discover_started ns'"
  using assms by (auto simp: netbios_ns_discover_start_def service_ok_def ns_ok_def Let_def split: if_splits prod.splits)

lemma discovery_start_inv:
  assumes "netbios_ns_discover_start w ns t c = (0, ns1, w')" and "service_ok ns"
  shows "discovery_inv (named_addresses (n_entries ns)) ns1 []"
  using assms(2) discover_start_shape [OF assms(1)] by (simp add: discovery_inv_def service_ok_def)

text \<open>
  The first turn of the thread withdraws every entry with a name that is older than the
  timeout; an entry stored by a lookup has no time at all.
\<close>

lemma known_entry_withdrawn:
  assumes "e \<in> set (n_entries ns)" and "entry_named e" and "e_last_time_seen e = 0" and "n_abort ns = Pipe_open False"
    and "sint (5 * n_broadcast_timeout ns) < fst (c_time w)" and "discover_outer w ns = Some (ph, evs, ns', w')"
  shows "Entry_removed e \<in> set evs"
proof -
  have x: "Entry_removed e \<in> set (snd (expire_entries now lim es))" if "e \<in> set es" "lim < now" for es now lim
    using that assms(2,3) by (induction es) (auto split: prod.splits)
  show ?thesis
    using x [OF assms(1,5)] assms(4,6)
    by (auto simp: discover_outer_def netbios_abort_ctx_is_aborted_def Let_def split: bind_splits prod.splits)
qed



text \<open>An answer to the first query of a program whose random numbers start with 0.\<close>

definition sample_nb_answer :: "byte list" where
  "sample_nb_answer = [0, 1] @ replicate 10 0 @ [32] @ replicate 33 65 @ [0, 32, 0, 1, 0, 0, 0, 0, 0, 2, 0, 0]"

text \<open>A status answer with one name, of a file server.\<close>

definition sample_nbstat_answer :: "byte list" where
  "sample_nbstat_answer = [0, 1] @ replicate 10 0 @ [32] @ replicate 33 65 @ [0, 33, 0, 1, 0, 0, 0, 0, 0, 19, 1] @
     [65, 66] @ replicate 13 32 @ [0x20, 4, 0]"

section \<open>The query sent\<close>

text \<open>A query with room for \<open>n\<close> bytes: its header holds \<open>s\<close>, its payload starts with \<open>c\<close>.\<close>

definition query_holds :: "nat \<Rightarrow> cstruct \<Rightarrow> byte list \<Rightarrow> netbios_query \<Rightarrow> bool" where
  "query_holds n s c q \<longleftrightarrow> n < 2 ^ 32 \<and> q_payload_size q = word_of_nat n \<and> q_cursor q = word_of_nat (length c) \<and>
     (\<exists>rest. q_packet q = Some (enc_struct netbios_query_packet s @ c @ rest) \<and> length c + length rest = n)"

lemma query_distinct: "distinct (map fst netbios_query_packet)"
  by (simp add: netbios_query_packet_def)

lemma query_set_holds:
  assumes "query_holds n s c q" and "map_of netbios_query_packet f = Some k"
  shows "wp (query_set_field f v q) (query_holds n (s(f := v)) c)"
  using assms wr_field_enc_struct [OF query_distinct assms(2)]
  by (auto simp: query_holds_def query_set_field_def)

lemma query_append_holds:
  assumes h: "query_holds n s c q" and fit: "length c + length d \<le> n"
  shows "wp (netbios_query_append (Some q) d (word_of_nat (length d))) (\<lambda>(r, q'). r = 0 \<and> (\<exists>q1. q' = Some q1 \<and> query_holds n s (c @ d) q1))"
proof -
  obtain rest where p: "q_packet q = Some (enc_struct netbios_query_packet s @ c @ rest)" "length c + length rest = n" "n < 2 ^ 32"
    using h by (auto simp: query_holds_def)
  have u: "unat (q_payload_size q) = n" "unat (q_cursor q) = length c" "unat (word_of_nat (length d) :: u64) = length d"
    using h p fit by (auto simp: query_holds_def)
  have "\<not> q_payload_size q - q_cursor q < word_of_nat (length d)"
    using u fit p by (simp add: word_less_nat_alt unat_sub word_le_nat_alt)
  moreover have "query_holds n s (c @ d) (q\<lparr>q_packet := Some (enc_struct netbios_query_packet s @ c @ d @ drop (length d) rest),
      q_cursor := q_cursor q + word_of_nat (length d)\<rparr>)"
    using h p fit by (auto simp: query_holds_def)
  ultimately show ?thesis
    using p u fit by (simp add: netbios_query_append_def buf_read_def buf_write_def add.commute)
qed

lemma query_flag_holds:
  assumes h: "query_holds n s c q"
  shows "wp (netbios_query_set_flag (Some q) flag v) (\<lambda>q'. \<exists>q1. q' = Some q1 \<and> query_holds n (s(''flags'' :=
     (let old = ntohs (word_of_nat (s ''flags'' mod 65536)) in unat (htons (if v then old OR flag else old AND NOT flag))))) c q1)"
proof -
  have m: "map_of netbios_query_packet ''flags'' = Some 2" by (simp add: netbios_query_packet_def)
  obtain rest where p: "q_packet q = Some (enc_struct netbios_query_packet s @ c @ rest)"
    using h by (auto simp: query_holds_def)
  have "query_field ''flags'' q = Some (s ''flags'' mod 65536)"
    using rd_field_enc_struct [OF m, of "[]" s "c @ rest"] p by (simp add: query_field_def)
  then show ?thesis
    using p query_set_holds [OF h m] by (auto simp: netbios_query_set_flag_def Let_def intro: wp_mono)
qed

lemma query_new_holds:
  assumes "mem_ok w" and "n < 2 ^ 32"
  shows "wp (netbios_query_new w (word_of_nat n) True NETBIOS_OP_NAME_QUERY) (\<lambda>(q, w'). \<exists>q1. q = Some q1 \<and>
     query_holds n (\<lambda>_. 0) [] q1 \<and> calm w w')"
proof -
  let ?p = "replicate (12 + n) 0 :: byte list"
  let ?q = "\<lparr>q_payload_size = word_of_nat n, q_cursor = 0, q_packet = Some ?p\<rparr> :: netbios_query"
  have u: "unat (12 + word_of_nat n :: u64) = 12 + n" using assms(2) by (subst unat_word_add_nowrap) auto
  have z: "enc_struct netbios_query_packet (\<lambda>_. 0) = replicate 12 0" by (simp add: enc_struct_zero)
  have h: "query_holds n (\<lambda>_. 0) [] ?q"
    using assms(2) z by (auto simp: query_holds_def replicate_add)
  have m: "map_of netbios_query_packet ''flags'' = Some 2" by (simp add: netbios_query_packet_def)
  have e: "(\<lambda>_. 0 :: nat)(f := 0) = (\<lambda>_. 0)" for f :: string by auto
  have c: "calm w (alloc_tick (alloc_tick w))"
    using assms(1) by (auto simp: calm_def intro: same_io_trans [OF same_io_tick])
  have a: "wp (query_set_field ''flags'' 0 ?q) (\<lambda>q. wp (netbios_query_set_flag (Some q) NETBIOS_FLAG_QUERY False)
     (\<lambda>q'. \<exists>q1. q' = Some q1 \<and> query_holds n (\<lambda>_. 0) [] q1))"
    by (rule wp_mono [OF query_set_holds [OF h m]], rule wp_mono [OF query_flag_holds])
     (auto simp: e htons_def ntohs_def)
  have 0: "htons (word_of_int (push_bit 11 NETBIOS_OP_NAME_QUERY)) = 0" by (simp add: dsm_consts htons_def)
  have "c_calloc w 24 = (Some (replicate 24 0), alloc_tick w)"
    "c_calloc (alloc_tick w) (12 + word_of_nat n) = (Some ?p, alloc_tick (alloc_tick w))"
    using assms u by (simp_all add: c_calloc_ok)
  then show ?thesis using a c by (auto simp: netbios_query_new_def 0 Let_def intro: wp_mono)
qed

text \<open>The datagram of a name query.\<close>

definition query_head :: "u16 \<Rightarrow> u16 \<Rightarrow> cstruct" where
  "query_head trn fl = (\<lambda>_. 0)(''flags'' := unat (htons fl), ''queries'' := unat (htons 1), ''trn_id'' := unat (htons trn))"

definition query_body :: "cstring \<Rightarrow> u16 \<Rightarrow> byte list" where
  "query_body name qt = name @ [0] @ le_bytes 2 qt @ le_bytes 2 query_class_in"

definition query_datagram :: "u16 \<Rightarrow> u16 \<Rightarrow> cstring \<Rightarrow> u16 \<Rightarrow> byte list" where
  "query_datagram trn fl name qt = enc_struct netbios_query_packet (query_head trn fl) @ query_body name qt"

lemma make_name_query_ok:
  assumes "mem_ok w" and len: "length name = 33"
  shows "wp (make_name_query w ns qt name fl) (\<lambda>(q, w'). \<exists>q1. q = Some q1 \<and>
     query_holds 38 (query_head (n_last_trn_id ns + 1) fl) (query_body name qt) q1 \<and> calm w w')"
proof -
  have m: "map_of netbios_query_packet ''queries'' = Some 2" "map_of netbios_query_packet ''trn_id'' = Some 2"
    by (simp_all add: netbios_query_packet_def)
  have fl0: "(\<lambda>_. 0)(''flags'' := unat (htons 0)) = ((\<lambda>_. 0) :: cstruct)" by (auto simp: htons_def)
  have flag: "wp (if fl \<noteq> 0 then netbios_query_set_flag (Some q) fl True else Some (Some q))
     (\<lambda>q'. \<exists>q1. q' = Some q1 \<and> query_holds 38 ((\<lambda>_. 0)(''flags'' := unat (htons fl))) [] q1)"
    if "query_holds 38 (\<lambda>_. 0) [] q" for q
    using query_flag_holds [OF that, of fl True] that
    by (auto simp: ntohs_def fl0 Let_def)
  have app: "wp (netbios_query_append (Some q) d k) (\<lambda>(r, q'). \<exists>q1. q' = Some q1 \<and> query_holds 38 s (c @ d) q1)"
    if "query_holds 38 s c q" "length c + length d \<le> 38" "k = word_of_nat (length d)" for q s c d k
    using query_append_holds [OF that(1,2)] that(3) by (auto elim: wp_mono)
  have new: "wp (netbios_query_new w (34 + 4) True NETBIOS_OP_NAME_QUERY)
     (\<lambda>(q, w'). \<exists>q1. q = Some q1 \<and> query_holds 38 (\<lambda>_. 0) [] q1 \<and> calm w w')"
    using query_new_holds [OF assms(1), of 38] by simp
  show ?thesis
    unfolding make_name_query_def
    apply (simp only: wp_bind)
    apply (rule wp_mono [OF new])
    apply (clarsimp simp only: prod.case wp_bind)
    apply (rule wp_mono [OF flag], assumption)
    apply (clarsimp simp only: wp_bind)
    apply (rule wp_mono [OF app], assumption, simp add: len, simp add: len)
    apply (clarsimp simp only: wp_bind prod.case)
    apply (rule wp_mono [OF app], assumption, simp add: len, simp)
    apply (clarsimp simp only: wp_bind prod.case)
    apply (rule wp_mono [OF app], assumption, simp add: len, simp)
    apply (clarsimp simp only: wp_bind wp_Some prod.case)
    apply (rule wp_mono [OF query_set_holds], assumption, rule m)
    apply (rule wp_mono [OF query_set_holds], assumption, rule m)
    apply (simp add: query_head_def query_body_def)
    done
qed

lemma query_holds_wire:
  assumes "query_holds n s c q"
  shows "\<exists>p. q_packet q = Some p \<and> buf_read p 0 (12 + unat (q_cursor q)) = Some (enc_struct netbios_query_packet s @ c)"
  using assms by (auto simp: query_holds_def buf_read_def)

lemma send_packet_safe:
  assumes "query_holds n s c q" and "n_abort ns \<noteq> Pipe_closed"
  shows "wp (netbios_ns_send_packet w ns (Some q) ip) (\<lambda>(r, ns', w'). ns_sent ns ns' \<and> mem_ok w' = mem_ok w)"
proof -
  obtain ab where ab: "netbios_abort_ctx_is_aborted (n_abort ns) = Some ab"
    using assms(2) by (cases "n_abort ns") (auto simp: netbios_abort_ctx_is_aborted_def)
  obtain p where p: "q_packet q = Some p" "buf_read p 0 (12 + unat (q_cursor q)) = Some (enc_struct netbios_query_packet s @ c)"
    using query_holds_wire [OF assms(1)] by blast
  obtain st b es where t: "utx_wait (w_udp_tx w) = (st, b, es)" by (metis prod_cases3)
  show ?thesis
    using ab p by (auto simp: netbios_ns_send_packet_def t Let_def mem_ok_def)
qed

lemma broadcast_safe:
  assumes "query_holds n s c q"
  shows "n_abort ns \<noteq> Pipe_closed \<Longrightarrow>
    wp (send_all w ns (Some q) ips) (\<lambda>(ns', w'). ns_sent ns ns' \<and> mem_ok w' = mem_ok w)"
proof (induction ips arbitrary: w ns)
  case (Cons ip ips)
  show ?case
    by (simp, rule wp_mono [OF send_packet_safe [OF assms Cons.prems]], clarsimp,
        rule wp_mono [OF Cons.IH]) (use Cons.prems in \<open>auto simp: ns_sent_def\<close>)
qed simp

lemma send_name_query_safe:
  assumes "mem_ok w" and "length name = 33" and "n_abort ns \<noteq> Pipe_closed" and ok: "ip = 0 \<Longrightarrow> ifaddrs_ok w"
  shows "wp (netbios_ns_send_name_query w ns ip type name fl) (\<lambda>(r, ns', w'). ns_sent ns ns' \<and> mem_ok w')"
  unfolding netbios_ns_send_name_query_def
  apply (simp only: wp_if wp_bind)
  apply (intro if_bool_eq_conj [THEN iffD2] conjI impI)
   apply (simp add: assms)
  apply (rule wp_mono [OF make_name_query_ok [OF assms(1,2)]])
  apply (clarsimp simp only: prod.case wp_if wp_bind)
  apply (intro if_bool_eq_conj [THEN iffD2] conjI impI)
   apply (rule wp_mono [OF send_packet_safe [OF _ assms(3)]], assumption)
   apply (auto simp: calm_def ns_sent_def split: if_splits)[1]
  apply (subst broadcast_packet_calm, assumption, rule ok, simp)
  apply (rule wp_mono [OF broadcast_safe [OF _ assms(3)]], assumption)
  apply (auto simp: calm_def ns_sent_def split: if_splits)[1]
  done

text \<open>With nothing in the way the datagrams leave.\<close>

lemma broadcast_sends:
  assumes "query_holds n s c q" and "n_abort ns = Pipe_open False"
  shows "w_udp_tx w = [] \<Longrightarrow> send_all w ns (Some q) ips = Some (ns,
     w\<lparr>w_udp_sent := w_udp_sent w @ map (\<lambda>ip. (ip, enc_struct netbios_query_packet s @ c)) ips\<rparr>)"
proof (induction ips arbitrary: w)
  case (Cons ip ips)
  obtain p where "q_packet q = Some p" "buf_read p 0 (12 + unat (q_cursor q)) = Some (enc_struct netbios_query_packet s @ c)"
    using query_holds_wire [OF assms(1)] by blast
  then have "netbios_ns_send_packet w ns (Some q) ip = Some (int (length (enc_struct netbios_query_packet s @ c)), ns,
      w\<lparr>w_udp_sent := w_udp_sent w @ [(ip, enc_struct netbios_query_packet s @ c)]\<rparr>)"
    using Cons.prems assms(2) by (simp add: netbios_ns_send_packet_def netbios_abort_ctx_is_aborted_def ns_note_abort_def)
  then show ?case using Cons.IH Cons.prems by simp
qed simp

lemma send_name_query_sends:
  assumes "mem_ok w" and "length name = 33" and "n_abort ns = Pipe_open False" and "w_udp_tx w = []" and "ifaddrs_ok w"
  shows "wp (netbios_ns_send_name_query w ns 0 NAME_QUERY_TYPE_NB name fl) (\<lambda>(r, ns', w'). r = 0 \<and>
     ns' = ns\<lparr>n_last_trn_id := n_last_trn_id ns + 1\<rparr> \<and> w_udp_rx w' = w_udp_rx w \<and>
     w_udp_sent w' = w_udp_sent w @ map (\<lambda>ip. (ip, query_datagram (n_last_trn_id ns + 1) fl name query_type_nb)) (w_broadcast w) \<and>
     mem_ok w' \<and> w_conn w' = w_conn w)"
proof -
  have "wp (make_name_query w ns query_type_nb name fl) (\<lambda>(q, w'). \<exists>q1. q = Some q1 \<and>
     query_holds 38 (query_head (n_last_trn_id ns + 1) fl) (query_body name query_type_nb) q1 \<and> calm w w')"
    by (rule make_name_query_ok [OF assms(1,2)])
  then obtain q w' where q: "make_name_query w ns query_type_nb name fl = Some (Some q, w')"
    "query_holds 38 (query_head (n_last_trn_id ns + 1) fl) (query_body name query_type_nb) q" "calm w w'"
    by (auto simp: wp_iff)
  note io = same_io_fields [OF calm_fields(2) [OF q(3)]]
  have "w_udp_tx w' = []" using io(12) assms(4) by simp
  note bs = broadcast_sends [OF q(2) assms(3) this, of "w_broadcast w"]
  have "list_all (\<lambda>b. b) (w_alloc w')" using calm_fields(1) [OF q(3)] by (simp add: mem_ok_def)
  then show ?thesis
    unfolding netbios_ns_send_name_query_def
    by (simp add: q(1) broadcast_packet_calm [OF q(3) assms(5)] bs io query_datagram_def mem_ok_def)
qed

section \<open>The discovery thread\<close>

text \<open>An aborted thread: both loops leave at the next check.\<close>

lemma discover_aborted:
  assumes "n_abort ns = Pipe_open True"
  shows "discover_outer w ns = Some (Finished, [], ns, w)" "discover_inner w ns = Some (Finished, [], ns, w)"
  using assms by (simp_all add: discover_outer_def discover_inner_def netbios_ns_recv_def netbios_abort_ctx_is_aborted_def)

lemma length_broadcast_name [simp]: "length name_query_broadcast = 33"
  by (simp add: name_query_broadcast_def)

lemma c_time_keeps:
  assumes "c_time w = (now, w')"
  shows "mem_ok w' = mem_ok w" "ifaddrs_ok w' = ifaddrs_ok w"
  using assms by (auto simp: c_time_def mem_ok_def ifaddrs_ok_def split: list.splits)

lemma discover_outer_safe:
  assumes inv: "discovery_inv S ns log" and m: "mem_ok w" and ifs: "ifaddrs_ok w"
  shows "wp (discover_outer w ns) (\<lambda>_. True)"
proof -
  from inv obtain ab where ab: "netbios_abort_ctx_is_aborted (n_abort ns) = Some ab"
    by (cases "n_abort ns") (auto simp: discovery_inv_def ns_ok_def netbios_abort_ctx_is_aborted_def)
  obtain now w1 where t: "c_time w = (now, w1)" by fastforce
  have m1: "mem_ok w1" and ifs1: "ifaddrs_ok w1" using m ifs c_time_keeps [OF t] by simp_all
  obtain kept evs1 where x: "expire_entries now (sint (5 * n_broadcast_timeout ns)) (n_entries ns) = (kept, evs1)" by fastforce
  have "n_abort (ns\<lparr>n_entries := kept\<rparr>) \<noteq> Pipe_closed" using inv by (simp add: discovery_inv_def ns_ok_def)
  from wp_mono [OF send_name_query_safe [OF m1 length_broadcast_name this ifs1], of "\<lambda>_. True"]
  have "wp (netbios_ns_send_name_query w1 (ns\<lparr>n_entries := kept\<rparr>) 0 NAME_QUERY_TYPE_NB name_query_broadcast 0) (\<lambda>_. True)" by simp
  then show ?thesis using ab t x by (auto simp: discover_outer_def Let_def elim!: wp_mono)
qed

lemma copy_name_safe:
  "length dest = 16 \<Longrightarrow> p + 15 \<le> length buf \<Longrightarrow> wp (netbios_ns_copy_name dest buf p) (\<lambda>_. True)"
  by (simp add: netbios_ns_copy_name_def buf_read_def buf_write_def NETBIOS_NAME_LENGTH_def)

lemma set_name_safe:
  assumes "entry_ok e" "nm + 18 \<le> length buf" "\<forall>g. grp = Some g \<longrightarrow> g + 18 \<le> length buf"
  shows "wp (netbios_ns_entry_set_name buf e (Some nm) grp t) (\<lambda>_. True)"
proof -
  have "wp (netbios_ns_copy_name (e_name e) buf nm) (\<lambda>_. True)"
    "\<forall>g. grp = Some g \<longrightarrow> wp (netbios_ns_copy_name (e_group e) buf g) (\<lambda>_. True)"
    using assms by (auto simp: entry_ok_def intro!: copy_name_safe)
  then show ?thesis by (cases grp) (auto simp: netbios_ns_entry_set_name_def elim!: wp_mono)
qed

lemma discover_nbstat_safe:
  assumes inv: "discovery_inv S ns log" and "nm + 18 \<le> 1500" "\<forall>g. grp = Some g \<longrightarrow> g + 18 \<le> 1500"
  shows "wp (discover_nbstat w ns ip nm grp t now) (\<lambda>_. True)"
proof -
  have c: "cache_ok (n_entries ns)" and b: "length (n_buffer ns) = 1500" using inv by (simp_all add: discovery_inv_def ns_ok_def)
  obtain r where r: "netbios_ns_entry_find ns None ip = Some r"
    "case r of None \<Rightarrow> ip \<notin> e_address ` set (n_entries ns)
      | Some i \<Rightarrow> i < length (n_entries ns) \<and> e_address (n_entries ns ! i) = ip \<and> entry_ok (n_entries ns ! i)"
    using find_entry_ok [OF c] by blast
  show ?thesis
  proof (cases r)
    case (Some i)
    then have "entry_ok ((n_entries ns ! i)\<lparr>e_last_time_seen := now\<rparr>)" using r by (simp add: entry_ok_def)
    from set_name_safe [OF this] show ?thesis
      using Some r assms(2,3) b by (auto simp: discover_nbstat_def Let_def elim!: wp_mono)
  qed (simp add: discover_nbstat_def r)
qed

lemma discover_nb_safe:
  assumes inv: "discovery_inv S ns log" and m: "mem_ok w" and ifs: "ifaddrs_ok w"
  shows "wp (discover_nb w ns ip now) (\<lambda>_. True)"
proof -
  have c: "cache_ok (n_entries ns)" using inv by (simp_all add: discovery_inv_def)
  obtain r where r: "netbios_ns_entry_find ns None ip = Some r" using find_entry_ok [OF c] by blast
  have ab: "n_abort ns \<noteq> Pipe_closed" using inv by (simp add: discovery_inv_def ns_ok_def)
  have add: "n_abort ns1 = n_abort ns \<and> mem_ok w1 \<and> ifaddrs_ok w1" if "netbios_ns_entry_add w ns ip = (ok, ns1, w1)" for ok ns1 w1
    using that m ifs by (auto simp: netbios_ns_entry_add_def c_calloc_def Let_def split: if_splits)
  have tail: "wp (let entry = (n_entries ns1 ! i)\<lparr>e_last_time_seen := now\<rparr>;
              ns = ns1\<lparr>n_entries := (n_entries ns1)[i := entry]\<rparr>
          in if entry_named entry then Some (Inner, [], ns, w1)
             else do { (r, ns, w) \<leftarrow> netbios_ns_send_name_query w1 ns ip NAME_QUERY_TYPE_NBSTAT name_query_broadcast 0;
               Some (if r = - 1 then Finished else Inner, [], ns, w) }) (\<lambda>_. True)"
    if "n_abort ns1 = n_abort ns" "mem_ok w1" "ifaddrs_ok w1" for ns1 i w1
    using that(1) ab
    by (auto simp: Let_def intro!: wp_mono [OF send_name_query_safe [OF that(2) length_broadcast_name _ that(3)]])
  obtain ok ns1 w1 where a: "netbios_ns_entry_add w ns ip = (ok, ns1, w1)" by (metis prod_cases3)
  show ?thesis
    using tail [OF refl m ifs, of "the r"] tail [of ns1 w1 0] add [OF a] by (cases r; cases ok) (simp_all add: discover_nb_def r a)
qed

lemma discover_inner_safe:
  assumes inv: "discovery_inv S ns log" and m: "mem_ok w" and ifs: "ifaddrs_ok w"
  shows "wp (discover_inner w ns) (\<lambda>_. True)"
proof -
  have ok: "ns_ok ns" using inv by (simp add: discovery_inv_def)
  obtain r ipo out ns1 w1 where rc: "netbios_ns_recv w ns (n_broadcast_timeout ns \<noteq> 0) False 0 True = Some (r, ipo, out, ns1, w1)"
    and k: "ns_keeps ns ns1" "received (w_udp_rx w) ns1 False 0 (Some Query_invalid) r ipo out" "mem_ok w1" "ifaddrs_ok w1"
    using netbios_ns_recv_ok [OF ok, where w = w and check = False and wip = 0 and timed = "n_broadcast_timeout ns \<noteq> 0" and P = "\<lambda>x. \<exists>r ipo out ns1 w1. x = Some (r, ipo, out, ns1, w1) \<and> ns_keeps ns ns1 \<and>
      received (w_udp_rx w) ns1 False 0 (Some Query_invalid) r ipo out \<and> mem_ok w1 \<and> ifaddrs_ok w1"] m ifs by (fastforce simp: mem_ok_def ifaddrs_ok_def)
  have i1: "discovery_inv S ns1 log" using discovery_inv_keeps [OF k(1) inv] .
  obtain now w2 where t: "c_time w1 = (now, w2)" by fastforce
  have m2: "mem_ok w2" "ifaddrs_ok w2" using k(3,4) c_time_keeps [OF t] by simp_all
  have "wp (discover_nbstat w2 ns1 ip nm grp ty now) (\<lambda>_. True) \<and> (\<exists>y. ipo = Some y)" if "out = Some (Query_nbstat nm grp ty)" for ip nm grp ty
    using k(2) that by (intro conjI discover_nbstat_safe [OF i1]) (auto simp: received_def handled_def)
  then show ?thesis
    using discover_nb_safe [OF i1 m2] t
    by (cases out; cases "the out"; cases ipo) (auto simp: discover_inner_def rc)
qed

text \<open>A world in which memory lasts and every interface that broadcasts has an address.\<close>

definition fair_env :: "(world \<Rightarrow> bool) \<Rightarrow> bool" where
  "fair_env env \<longleftrightarrow> (\<forall>w. env w \<longrightarrow> mem_ok w \<and> ifaddrs_ok w)"

lemma discover_nb_phase: "discover_nb w ns ip now = Some (ph, evs, ns', w') \<Longrightarrow> ph \<noteq> Faulted"
  by (auto simp: discover_nb_def Let_def split: bind_splits option.splits prod.splits if_splits)

lemma discover_phases:
  "discover_outer w ns = Some (ph, evs, ns', w') \<Longrightarrow> ph \<noteq> Faulted"
  "discover_inner w ns = Some (ph, evs, ns', w') \<Longrightarrow> ph \<noteq> Faulted"
  by (auto simp: discover_outer_def discover_inner_def discover_nbstat_def Let_def dest!: discover_nb_phase
      split: bind_splits option.splits prod.splits if_splits netbios_ns_name_query.splits)

lemma discover_step_safe:
  assumes "netbios_ns_discover_thread w (ph, ns, log) (Faulted, ns', log')" and "discovery_inv S ns log"
    and "mem_ok w" and "ifaddrs_ok w" and "ph \<noteq> Faulted"
  shows False
  using assms(1)
  by (rule discover_stepE)
    (use assms discover_outer_safe [OF assms(2-4)] discover_inner_safe [OF assms(2-4)] in \<open>auto dest: discover_phases\<close>)

lemma discovery_never_faults:
  assumes "discovery_run env (Outer, ns, []) (ph, ns', log)" and "discovery_inv S ns []" and "fair_env env"
  shows "ph \<noteq> Faulted"
proof -
  have "ph \<noteq> Faulted \<and> discovery_inv S ns' log"
    using assms(1)
  proof (induction rule: discovery_run_induct)
    case (step w ph ns log ph' ns' log')
    then show ?case
      using discover_step_safe [of w ph ns log ns' log' S] discovery_inv_step [OF step.hyps(3)] assms(3)
      by (auto simp: fair_env_def)
  qed (use assms(2) in simp)
  then show ?thesis by simp
qed

text \<open>
  C28 (discovery stops). The discovery thread is never stuck: while it runs, as long as memory
  lasts and every interface that broadcasts has an address, each step of it can be taken
  without a fault, whatever the network does, and a run that only meets such worlds never faults. Once the
  application has asked it to stop, the next step of the thread is its last, in whatever world,
  and it makes no further callback.
\<close>

theorem discovery_stops:
  assumes "discovery_run env (Outer, ns, []) (ph, ns', log)"
    and "cache_ok (n_entries ns)" and "length (n_buffer ns) = 1500" and "n_abort ns \<noteq> Pipe_closed" and "ph \<noteq> Finished"
  shows "(fair_env env \<longrightarrow> ph \<noteq> Faulted) \<and>
     (ph \<noteq> Faulted \<longrightarrow>
       (\<forall>w. mem_ok w \<and> ifaddrs_ok w \<longrightarrow> wp (if ph = Outer then discover_outer w ns' else discover_inner w ns') (\<lambda>_. True)) \<and>
       (\<forall>w. netbios_ns_discover_thread w (ph, netbios_ns_abort ns', log) (Finished, netbios_ns_abort ns', log)) \<and>
       (\<forall>w c. netbios_ns_discover_thread w (ph, netbios_ns_abort ns', log) c \<longrightarrow>
          c = (Finished, netbios_ns_abort ns', log) \<or> c = (ph, netbios_ns_abort ns', log)))"
proof (intro conjI allI impI)
  have inv0: "discovery_inv (named_addresses (n_entries ns)) ns []" using discovery_inv_start [OF assms(2-4)] .
  have inv: "discovery_inv (named_addresses (n_entries ns)) ns' log" using discovery_inv_reachable [OF assms(1) inv0] .
  show "ph \<noteq> Faulted" if "fair_env env" using discovery_never_faults [OF assms(1) inv0 that] .
  have "n_abort ns' \<noteq> Pipe_closed" using inv by (simp add: discovery_inv_def ns_ok_def)
  then have a: "n_abort (netbios_ns_abort ns') = Pipe_open True"
    by (auto simp: netbios_ns_abort_def netbios_abort_ctx_abort_def split: netbios_abort_ctx.splits)
  have idem: "netbios_ns_abort (netbios_ns_abort ns') = netbios_ns_abort ns'"
    using a by (simp add: netbios_ns_abort_def netbios_abort_ctx_abort_def)
  note d = discover_aborted [OF a]
  show "wp (if ph = Outer then discover_outer w ns' else discover_inner w ns') (\<lambda>_. True)" if "mem_ok w \<and> ifaddrs_ok w" for w
    using discover_outer_safe [OF inv] discover_inner_safe [OF inv] that by simp
  show "netbios_ns_discover_thread w (ph, netbios_ns_abort ns', log) (Finished, netbios_ns_abort ns', log)" if "ph \<noteq> Faulted" for w
    using netbios_ns_discover_thread.outer [OF d(1)] netbios_ns_discover_thread.inner [OF d(2)] assms(5) that
    by (cases ph) simp_all
  show "c = (Finished, netbios_ns_abort ns', log) \<or> c = (ph, netbios_ns_abort ns', log)"
    if "netbios_ns_discover_thread w (ph, netbios_ns_abort ns', log) c" for w c
    using that by (rule discover_stepE) (auto simp: d idem)
qed

theorem discovery_stops_witness:
  "netbios_ns_discover_thread sample_world (Outer, netbios_ns_abort sample_ns, []) (Finished, netbios_ns_abort sample_ns, [])"
proof -
  have "cache_ok (n_entries sample_ns)" "length (n_buffer sample_ns) = 1500" "n_abort sample_ns \<noteq> Pipe_closed"
    by (simp_all add: sample_ns_def cache_ok_def)
  from discovery_stops [OF discovery_run_refl this] show ?thesis by simp
qed

end
