(* ===== verification/Tailq.thy ===== *)
theory Tailq
  imports Prelude
begin

text \<open>
  \<^verbatim>\<open>compat/queue.h\<close>: tail queues, doubly linked through members of their elements. Each
  element knows the address of the link that points to it, a link of the element before it
  or of the head. The macros work on a heap with one map for each member, and an access to
  a head or an element that is not allocated is a fault. Every macro refines an operation
  on the list of the elements.
\<close>

section \<open>The heap\<close>

text \<open>The address of a link: \<open>&(head)->tqh_first\<close> or \<open>&(elm)->field.tqe_next\<close>.\<close>

datatype link = First nat | Next nat

record tailq_heap =
  tq_link :: "link \<rightharpoonup> nat option" \<comment> \<open>\<open>tqh_first\<close> and \<open>tqe_next\<close>\<close>
  tqh_last :: "nat \<rightharpoonup> link"
  tqe_prev :: "nat \<rightharpoonup> link"

definition set_link :: "tailq_heap \<Rightarrow> link \<Rightarrow> nat option \<Rightarrow> tailq_heap option" where
  "set_link h l v = (if tq_link h l = None then None else Some (h\<lparr>tq_link := (tq_link h)(l \<mapsto> v)\<rparr>))"

definition set_last :: "tailq_heap \<Rightarrow> nat \<Rightarrow> link \<Rightarrow> tailq_heap option" where
  "set_last h q l = (if tqh_last h q = None then None else Some (h\<lparr>tqh_last := (tqh_last h)(q \<mapsto> l)\<rparr>))"

definition set_prev :: "tailq_heap \<Rightarrow> nat \<Rightarrow> link \<Rightarrow> tailq_heap option" where
  "set_prev h e l = (if tqe_prev h e = None then None else Some (h\<lparr>tqe_prev := (tqe_prev h)(e \<mapsto> l)\<rparr>))"

text \<open>
  \<open>((struct headname *)l)->tqh_last\<close>: a head and the entry of an element have the same
  layout, so that behind the link of an element this is its \<open>tqe_prev\<close>.
\<close>

fun link_last :: "tailq_heap \<Rightarrow> link \<Rightarrow> link option" where
  "link_last h (First q) = tqh_last h q"
| "link_last h (Next e) = tqe_prev h e"

text \<open>A new element, whose members hold anything until they are set, and the end of one.\<close>

definition tq_alloc :: "tailq_heap \<Rightarrow> nat \<Rightarrow> tailq_heap" where
  "tq_alloc h e = h\<lparr>tq_link := (tq_link h)(Next e \<mapsto> None), tqe_prev := (tqe_prev h)(e \<mapsto> First 0)\<rparr>"

definition tq_free :: "tailq_heap \<Rightarrow> nat \<Rightarrow> tailq_heap" where
  "tq_free h e = h\<lparr>tq_link := (tq_link h)(Next e := None), tqe_prev := (tqe_prev h)(e := None)\<rparr>"

section \<open>Access\<close>

definition TAILQ_FIRST :: "tailq_heap \<Rightarrow> nat \<Rightarrow> nat option option" where
  "TAILQ_FIRST h q = tq_link h (First q)"

definition TAILQ_NEXT :: "tailq_heap \<Rightarrow> nat \<Rightarrow> nat option option" where
  "TAILQ_NEXT h e = tq_link h (Next e)"

definition TAILQ_LAST :: "tailq_heap \<Rightarrow> nat \<Rightarrow> nat option option" where
  "TAILQ_LAST h q = do { l \<leftarrow> tqh_last h q; l \<leftarrow> link_last h l; tq_link h l }"

definition TAILQ_PREV :: "tailq_heap \<Rightarrow> nat \<Rightarrow> nat option option" where
  "TAILQ_PREV h e = do { l \<leftarrow> tqe_prev h e; l \<leftarrow> link_last h l; tq_link h l }"

definition TAILQ_EMPTY :: "tailq_heap \<Rightarrow> nat \<Rightarrow> bool option" where
  "TAILQ_EMPTY h q = do { f \<leftarrow> TAILQ_FIRST h q; Some (f = None) }"

text \<open>
  The loops, with the body as a function that changes a state and may ask to leave. In the
  safe variants the body may change the heap, and the next element is read before it runs.
\<close>

partial_function (option) foreach_loop ::
  "('h \<Rightarrow> nat \<Rightarrow> nat option option) \<Rightarrow> (nat \<Rightarrow> 's \<Rightarrow> (bool \<times> 's) option) \<Rightarrow> 'h \<Rightarrow> nat option \<Rightarrow> 's
   \<Rightarrow> (nat option \<times> 's) option" where
  "foreach_loop step body h var st =
     (case var of
        None \<Rightarrow> Some (None, st)
      | Some e \<Rightarrow> do {
          (leave, st) \<leftarrow> body e st;
          if leave then Some (Some e, st)
          else do { var \<leftarrow> step h e; foreach_loop step body h var st }
        })"

definition TAILQ_FOREACH ::
  "tailq_heap \<Rightarrow> nat \<Rightarrow> (nat \<Rightarrow> 's \<Rightarrow> (bool \<times> 's) option) \<Rightarrow> 's \<Rightarrow> (nat option \<times> 's) option" where
  "TAILQ_FOREACH h q body st = do { var \<leftarrow> TAILQ_FIRST h q; foreach_loop TAILQ_NEXT body h var st }"

definition TAILQ_FOREACH_REVERSE ::
  "tailq_heap \<Rightarrow> nat \<Rightarrow> (nat \<Rightarrow> 's \<Rightarrow> (bool \<times> 's) option) \<Rightarrow> 's \<Rightarrow> (nat option \<times> 's) option" where
  "TAILQ_FOREACH_REVERSE h q body st = do { var \<leftarrow> TAILQ_LAST h q; foreach_loop TAILQ_PREV body h var st }"

partial_function (option) foreach_safe_loop ::
  "('h \<Rightarrow> nat \<Rightarrow> nat option option) \<Rightarrow> (nat \<Rightarrow> 'h \<times> 's \<Rightarrow> ('h \<times> 's) option) \<Rightarrow> nat option
   \<Rightarrow> 'h \<times> 's \<Rightarrow> ('h \<times> 's) option" where
  "foreach_safe_loop step body var hs =
     (case var of
        None \<Rightarrow> Some hs
      | Some e \<Rightarrow> do {
          var \<leftarrow> step (fst hs) e;
          hs \<leftarrow> body e hs;
          foreach_safe_loop step body var hs
        })"

definition TAILQ_FOREACH_SAFE ::
  "nat \<Rightarrow> (nat \<Rightarrow> tailq_heap \<times> 's \<Rightarrow> (tailq_heap \<times> 's) option) \<Rightarrow> tailq_heap \<times> 's \<Rightarrow> (tailq_heap \<times> 's) option" where
  "TAILQ_FOREACH_SAFE q body hs = do { var \<leftarrow> TAILQ_FIRST (fst hs) q; foreach_safe_loop TAILQ_NEXT body var hs }"

definition TAILQ_FOREACH_REVERSE_SAFE ::
  "nat \<Rightarrow> (nat \<Rightarrow> tailq_heap \<times> 's \<Rightarrow> (tailq_heap \<times> 's) option) \<Rightarrow> tailq_heap \<times> 's \<Rightarrow> (tailq_heap \<times> 's) option" where
  "TAILQ_FOREACH_REVERSE_SAFE q body hs = do { var \<leftarrow> TAILQ_LAST (fst hs) q; foreach_safe_loop TAILQ_PREV body var hs }"

section \<open>Changes\<close>

definition TAILQ_INIT :: "tailq_heap \<Rightarrow> nat \<Rightarrow> tailq_heap option" where
  "TAILQ_INIT h q = do { h \<leftarrow> set_link h (First q) None; set_last h q (First q) }"

definition TAILQ_INSERT_HEAD :: "tailq_heap \<Rightarrow> nat \<Rightarrow> nat \<Rightarrow> tailq_heap option" where
  "TAILQ_INSERT_HEAD h q elm = do {
     f \<leftarrow> TAILQ_FIRST h q;
     h \<leftarrow> set_link h (Next elm) f;
     h \<leftarrow> (case f of Some x \<Rightarrow> set_prev h x (Next elm) | None \<Rightarrow> set_last h q (Next elm));
     h \<leftarrow> set_link h (First q) (Some elm);
     set_prev h elm (First q)
   }"

definition TAILQ_INSERT_TAIL :: "tailq_heap \<Rightarrow> nat \<Rightarrow> nat \<Rightarrow> tailq_heap option" where
  "TAILQ_INSERT_TAIL h q elm = do {
     h \<leftarrow> set_link h (Next elm) None;
     l \<leftarrow> tqh_last h q;
     h \<leftarrow> set_prev h elm l;
     h \<leftarrow> set_link h l (Some elm);
     set_last h q (Next elm)
   }"

definition TAILQ_INSERT_AFTER :: "tailq_heap \<Rightarrow> nat \<Rightarrow> nat \<Rightarrow> nat \<Rightarrow> tailq_heap option" where
  "TAILQ_INSERT_AFTER h q listelm elm = do {
     f \<leftarrow> TAILQ_NEXT h listelm;
     h \<leftarrow> set_link h (Next elm) f;
     h \<leftarrow> (case f of Some x \<Rightarrow> set_prev h x (Next elm) | None \<Rightarrow> set_last h q (Next elm));
     h \<leftarrow> set_link h (Next listelm) (Some elm);
     set_prev h elm (Next listelm)
   }"

definition TAILQ_INSERT_BEFORE :: "tailq_heap \<Rightarrow> nat \<Rightarrow> nat \<Rightarrow> tailq_heap option" where
  "TAILQ_INSERT_BEFORE h listelm elm = do {
     l \<leftarrow> tqe_prev h listelm;
     h \<leftarrow> set_prev h elm l;
     h \<leftarrow> set_link h (Next elm) (Some listelm);
     h \<leftarrow> set_link h l (Some elm);
     set_prev h listelm (Next elm)
   }"

definition TAILQ_REMOVE :: "tailq_heap \<Rightarrow> nat \<Rightarrow> nat \<Rightarrow> tailq_heap option" where
  "TAILQ_REMOVE h q elm = do {
     f \<leftarrow> TAILQ_NEXT h elm;
     l \<leftarrow> tqe_prev h elm;
     h \<leftarrow> (case f of Some x \<Rightarrow> set_prev h x l | None \<Rightarrow> set_last h q l);
     set_link h l f
   }"

definition TAILQ_REPLACE :: "tailq_heap \<Rightarrow> nat \<Rightarrow> nat \<Rightarrow> nat \<Rightarrow> tailq_heap option" where
  "TAILQ_REPLACE h q elm elm2 = do {
     f \<leftarrow> TAILQ_NEXT h elm;
     h \<leftarrow> set_link h (Next elm2) f;
     h \<leftarrow> (case f of Some x \<Rightarrow> set_prev h x (Next elm2) | None \<Rightarrow> set_last h q (Next elm2));
     l \<leftarrow> tqe_prev h elm;
     h \<leftarrow> set_prev h elm2 l;
     set_link h l (Some elm2)
   }"

definition TAILQ_CONCAT :: "tailq_heap \<Rightarrow> nat \<Rightarrow> nat \<Rightarrow> tailq_heap option" where
  "TAILQ_CONCAT h head1 head2 = do {
     f \<leftarrow> TAILQ_FIRST h head2;
     case f of
       None \<Rightarrow> Some h
     | Some x \<Rightarrow> do {
         l1 \<leftarrow> tqh_last h head1;
         h \<leftarrow> set_link h l1 (Some x);
         h \<leftarrow> set_prev h x l1;
         l2 \<leftarrow> tqh_last h head2;
         h \<leftarrow> set_last h head1 l2;
         TAILQ_INIT h head2
       }
   }"

section \<open>Queues in the heap\<close>

text \<open>
  The elements \<open>xs\<close> reached from the link \<open>l\<close>, each pointing back to the link that points to
  it; the link behind the last one; and the links that point to the elements.
\<close>

primrec seg :: "tailq_heap \<Rightarrow> link \<Rightarrow> nat list \<Rightarrow> bool" where
  "seg h l [] = True"
| "seg h l (x # xs) = (tq_link h l = Some (Some x) \<and> tqe_prev h x = Some l \<and> seg h (Next x) xs)"

primrec end_link :: "link \<Rightarrow> nat list \<Rightarrow> link" where
  "end_link l [] = l"
| "end_link l (x # xs) = end_link (Next x) xs"

primrec links :: "link \<Rightarrow> nat list \<Rightarrow> link list" where
  "links l [] = []"
| "links l (x # xs) = l # links (Next x) xs"

definition is_queue :: "tailq_heap \<Rightarrow> nat \<Rightarrow> nat list \<Rightarrow> bool" where
  "is_queue h q xs \<longleftrightarrow> distinct xs \<and> seg h (First q) xs \<and> tqh_last h q = Some (end_link (First q) xs) \<and>
     tq_link h (end_link (First q) xs) = Some None"

text \<open>An element that may be entered, and a head.\<close>

definition is_elm :: "tailq_heap \<Rightarrow> nat \<Rightarrow> bool" where
  "is_elm h e \<longleftrightarrow> tq_link h (Next e) \<noteq> None \<and> tqe_prev h e \<noteq> None"

definition is_head :: "tailq_heap \<Rightarrow> nat \<Rightarrow> bool" where
  "is_head h q \<longleftrightarrow> tq_link h (First q) \<noteq> None \<and> tqh_last h q \<noteq> None"

text \<open>A change that touches only the heads in \<open>Q\<close> and the elements in \<open>A\<close>.\<close>

definition only :: "nat set \<Rightarrow> nat set \<Rightarrow> tailq_heap \<Rightarrow> tailq_heap \<Rightarrow> bool" where
  "only Q A h h' \<longleftrightarrow> (\<forall>q. q \<notin> Q \<longrightarrow> tq_link h' (First q) = tq_link h (First q) \<and> tqh_last h' q = tqh_last h q) \<and>
     (\<forall>e. e \<notin> A \<longrightarrow> tq_link h' (Next e) = tq_link h (Next e) \<and> tqe_prev h' e = tqe_prev h e)"

lemma seg_append: "seg h l (xs @ ys) \<longleftrightarrow> seg h l xs \<and> seg h (end_link l xs) ys"
  by (induction xs arbitrary: l) auto

lemma end_link_append [simp]: "end_link l (xs @ ys) = end_link (end_link l xs) ys"
  by (induction xs arbitrary: l) auto

lemma end_link_cases: "end_link l xs = (if xs = [] then l else Next (last xs))"
  by (induction xs arbitrary: l) auto

lemma links_sub: "set (links l xs) \<subseteq> insert l (Next ` set (butlast xs))"
  by (induction xs arbitrary: l) fastforce+

lemma end_link_in: "end_link l xs \<in> insert l (Next ` set xs)"
  by (induction xs arbitrary: l) auto

lemma end_link_fresh: "distinct xs \<Longrightarrow> l \<notin> Next ` set xs \<Longrightarrow> end_link l xs \<notin> set (links l xs)"
proof (induction xs arbitrary: l)
  case (Cons x xs)
  then show ?case using end_link_in [of "Next x" xs] by fastforce
qed simp

lemma seg_upd:
  "l' \<notin> set (links l xs) \<Longrightarrow> seg (h\<lparr>tq_link := (tq_link h)(l' := v)\<rparr>) l xs = seg h l xs"
  "e \<notin> set xs \<Longrightarrow> seg (h\<lparr>tqe_prev := (tqe_prev h)(e := p)\<rparr>) l xs = seg h l xs"
  "seg (h\<lparr>tqh_last := f\<rparr>) l xs = seg h l xs"
  by (induction xs arbitrary: l) auto

lemma seg_prev: "seg h l xs \<Longrightarrow> x \<in> set xs \<Longrightarrow> \<exists>p. tqe_prev h x = Some p"
  by (induction xs arbitrary: l) auto

lemma seg_link: "seg h l xs \<Longrightarrow> tq_link h (end_link l xs) \<noteq> None \<Longrightarrow> x \<in> set xs \<Longrightarrow> tq_link h (Next x) \<noteq> None"
proof (induction xs arbitrary: l)
  case (Cons y ys)
  then show ?case by (cases ys) auto
qed simp

lemma is_queue_elm: "is_queue h q xs \<Longrightarrow> x \<in> set xs \<Longrightarrow> is_elm h x"
  using seg_prev [of h "First q" xs x] seg_link [of h "First q" xs x] by (auto simp: is_queue_def is_elm_def)

lemma seg_only: "only Q A h h' \<Longrightarrow> set xs \<inter> A = {} \<Longrightarrow> (case l of First q \<Rightarrow> q \<notin> Q | Next e \<Rightarrow> e \<notin> A) \<Longrightarrow> seg h' l xs = seg h l xs"
proof (induction xs arbitrary: l)
  case (Cons x xs)
  have "tq_link h' l = tq_link h l" using Cons.prems by (cases l) (auto simp: only_def)
  then show ?case using Cons by (auto simp: only_def)
qed simp

text \<open>A queue with another head and other elements stays as it was.\<close>

lemma is_queue_only:
  assumes "only Q A h h'" and "q \<notin> Q" "set xs \<inter> A = {}"
  shows "is_queue h' q xs = is_queue h q xs"
proof -
  have "xs \<noteq> [] \<Longrightarrow> last xs \<notin> A" using assms(3) last_in_set by blast
  then have "tq_link h' (end_link (First q) xs) = tq_link h (end_link (First q) xs)"
    using assms(1,2) by (auto simp: end_link_cases only_def)
  then show ?thesis using seg_only [OF assms(1,3), of "First q"] assms(1,2) by (simp add: is_queue_def only_def)
qed

lemma only_trans: "only Q A h h1 \<Longrightarrow> only Q A h1 h2 \<Longrightarrow> only Q A h h2"
  by (simp add: only_def)

lemmas tq_defs = TAILQ_FIRST_def TAILQ_NEXT_def set_link_def set_last_def set_prev_def

section \<open>The macros refine list operations\<close>

lemma TAILQ_INIT_ok: "is_head h q \<Longrightarrow> wp (TAILQ_INIT h q) (\<lambda>h'. is_queue h' q [] \<and> only {q} {} h h')"
  by (auto simp: TAILQ_INIT_def is_head_def is_queue_def only_def tq_defs)

lemma TAILQ_FIRST_ok: "is_queue h q xs \<Longrightarrow> TAILQ_FIRST h q = Some (case xs of [] \<Rightarrow> None | x # _ \<Rightarrow> Some x)"
  by (cases xs) (auto simp: is_queue_def TAILQ_FIRST_def)

lemma TAILQ_NEXT_ok: "is_queue h q (xs @ e # ys) \<Longrightarrow> TAILQ_NEXT h e = Some (case ys of [] \<Rightarrow> None | y # _ \<Rightarrow> Some y)"
  by (cases ys) (auto simp: is_queue_def TAILQ_NEXT_def seg_append)

lemma TAILQ_EMPTY_ok: "is_queue h q xs \<Longrightarrow> TAILQ_EMPTY h q = Some (xs = [])"
  by (simp add: TAILQ_EMPTY_def TAILQ_FIRST_ok split: list.split)

lemma TAILQ_LAST_ok: "is_queue h q xs \<Longrightarrow> TAILQ_LAST h q = Some (if xs = [] then None else Some (last xs))"
  by (cases xs rule: rev_cases) (auto simp: is_queue_def TAILQ_LAST_def seg_append)

lemma TAILQ_PREV_ok: "is_queue h q (xs @ e # ys) \<Longrightarrow> TAILQ_PREV h e = Some (if xs = [] then None else Some (last xs))"
  by (cases xs rule: rev_cases) (auto simp: is_queue_def TAILQ_PREV_def seg_append)

text \<open>
  The two links next to a position in a queue: the facts the macros that change the queue
  there rely on.
\<close>

lemma queue_split:
  assumes "is_queue h q (xs @ ys)"
  shows "distinct xs" "distinct ys" "set xs \<inter> set ys = {}" "seg h (First q) xs" "seg h (end_link (First q) xs) ys"
    "end_link (First q) xs \<notin> set (links (First q) xs)" "\<forall>y \<in> set ys. Next y \<noteq> end_link (First q) xs"
    "tq_link h (end_link (First q) xs) \<noteq> None" "tqh_last h q = Some (end_link (First q) (xs @ ys))"
    "tq_link h (end_link (First q) (xs @ ys)) = Some None"
proof -
  show d: "distinct xs" "distinct ys" "set xs \<inter> set ys = {}" "seg h (First q) xs" "seg h (end_link (First q) xs) ys"
    "tqh_last h q = Some (end_link (First q) (xs @ ys))" "tq_link h (end_link (First q) (xs @ ys)) = Some None"
    using assms by (auto simp: is_queue_def seg_append)
  show "end_link (First q) xs \<notin> set (links (First q) xs)" by (rule end_link_fresh [OF d(1)]) auto
  show "\<forall>y \<in> set ys. Next y \<noteq> end_link (First q) xs" using end_link_in [of "First q" xs] d(3) by auto
  show "tq_link h (end_link (First q) xs) \<noteq> None" using d(5,7) by (cases ys) auto
qed

text \<open>
  The common step of the macros that change a queue: the elements \<open>ms\<close> in its middle give way
  to \<open>ms'\<close>, and only the links around them change.
\<close>

lemma seg_cong:
  "(\<And>k. k \<in> set (links l xs) \<Longrightarrow> tq_link h' k = tq_link h k) \<Longrightarrow> (\<And>x. x \<in> set xs \<Longrightarrow> tqe_prev h' x = tqe_prev h x) \<Longrightarrow>
     seg h' l xs = seg h l xs"
  by (induction xs arbitrary: l) auto

lemma links_elm: "k \<in> set (links (Next y) ys) \<Longrightarrow> \<exists>z \<in> insert y (set ys). k = Next z"
  using links_sub [of "Next y" ys] by (auto dest: in_set_butlastD)

lemma queue_relink:
  assumes q: "is_queue h q (xs @ ms @ ys)" and d: "distinct (xs @ ms' @ ys)"
    and ms': "seg h' (end_link (First q) xs) ms'"
    and front: "\<And>k. k \<in> set (links (First q) xs) \<Longrightarrow> tq_link h' k = tq_link h k" "\<And>x. x \<in> set xs \<Longrightarrow> tqe_prev h' x = tqe_prev h x"
    and rear: "\<And>y. y \<in> set ys \<Longrightarrow> tq_link h' (Next y) = tq_link h (Next y)" "\<And>y. y \<in> set (tl ys) \<Longrightarrow> tqe_prev h' y = tqe_prev h y"
    and tail: "case ys of
        [] \<Rightarrow> tqh_last h' q = Some (end_link (First q) (xs @ ms')) \<and> tq_link h' (end_link (First q) (xs @ ms')) = Some None
      | y # _ \<Rightarrow> tq_link h' (end_link (First q) (xs @ ms')) = Some (Some y) \<and> tqe_prev h' y = Some (end_link (First q) (xs @ ms')) \<and>
          tqh_last h' q = tqh_last h q"
  shows "is_queue h' q (xs @ ms' @ ys)"
proof -
  have x: "seg h' (First q) xs" using q seg_cong [of "First q" xs h' h] front by (auto simp: is_queue_def seg_append)
  show ?thesis
  proof (cases ys)
    case Nil
    then show ?thesis using d x ms' tail by (simp add: is_queue_def seg_append)
  next
    case (Cons y zs)
    have z: "seg h (Next y) zs" and l: "tqh_last h q = Some (end_link (Next y) zs)" "tq_link h (end_link (Next y) zs) = Some None"
      using q Cons by (auto simp: is_queue_def seg_append)
    have "seg h' (Next y) zs"
    proof (subst seg_cong [of "Next y" zs h' h])
      show "tq_link h' k = tq_link h k" if "k \<in> set (links (Next y) zs)" for k
        using that links_sub [of "Next y" zs] rear(1) Cons by (auto dest: in_set_butlastD)
      show "tqe_prev h' z = tqe_prev h z" if "z \<in> set zs" for z using that rear(2) Cons by simp
    qed (fact z)
    moreover have "tq_link h' (end_link (Next y) zs) = Some None"
      using end_link_in [of "Next y" zs] rear(1) Cons l(2) by auto
    ultimately show ?thesis using d x ms' tail Cons l by (simp add: is_queue_def seg_append)
  qed
qed

text \<open>The link before a position is not the one of an element behind it or of a new one.\<close>

lemma end_link_new: "e \<notin> set xs \<Longrightarrow> end_link (First q) xs \<noteq> Next e" "e \<notin> set xs \<Longrightarrow> Next e \<noteq> end_link (First q) xs"
  using end_link_in [of "First q" xs] by auto

lemma front_new: "e \<notin> set xs \<Longrightarrow> Next e \<notin> set (links (First q) xs)"
  using links_sub [of "First q" xs] by (auto dest: in_set_butlastD)

lemma queue_insert:
  assumes q: "is_queue h q (xs @ ys)" and e: "e \<notin> set xs" "e \<notin> set ys"
    and link: "tq_link h' = (tq_link h)(Next e \<mapsto> (case ys of [] \<Rightarrow> None | y # _ \<Rightarrow> Some y), end_link (First q) xs \<mapsto> Some e)"
    and prev: "tqe_prev h' = (case ys of [] \<Rightarrow> tqe_prev h | y # _ \<Rightarrow> (tqe_prev h)(y \<mapsto> Next e))(e \<mapsto> end_link (First q) xs)"
    and last: "tqh_last h' = (if ys = [] then (tqh_last h)(q \<mapsto> Next e) else tqh_last h)"
  shows "is_queue h' q (xs @ e # ys) \<and> only {q} (insert e (set (xs @ ys))) h h'"
proof
  note s = queue_split [OF q] and n = end_link_new [OF e(1), of q] and f = front_new [OF e(1), of q]
  have q': "is_queue h q (xs @ [] @ ys)" using q by simp
  have "is_queue h' q (xs @ [e] @ ys)"
  proof (rule queue_relink [OF q'])
    show "distinct (xs @ [e] @ ys)" using s(1-3) e by auto
    show "seg h' (end_link (First q) xs) [e]" by (simp add: link prev)
    show "tq_link h' k = tq_link h k" if "k \<in> set (links (First q) xs)" for k using that s(6) f by (auto simp: link)
    show "tqe_prev h' x = tqe_prev h x" if "x \<in> set xs" for x using that s(3) e by (auto simp: prev split: list.split)
    show "tq_link h' (Next y) = tq_link h (Next y)" if "y \<in> set ys" for y using that s(7) e by (auto simp: link)
    show "tqe_prev h' y = tqe_prev h y" if "y \<in> set (tl ys)" for y using that s(2) e by (cases ys) (auto simp: prev)
  qed (use n e in \<open>auto simp: link prev last split: list.split\<close>)
  then show "is_queue h' q (xs @ e # ys)" by simp
  show "only {q} (insert e (set (xs @ ys))) h h'"
    using end_link_in [of "First q" xs] by (auto simp: only_def link prev last split: list.split)
qed

lemma TAILQ_INSERT_HEAD_ok:
  assumes q: "is_queue h q xs" and e: "is_elm h e" "e \<notin> set xs"
  shows "wp (TAILQ_INSERT_HEAD h q e) (\<lambda>h'. is_queue h' q (e # xs) \<and> only {q} (insert e (set xs)) h h')"
proof -
  have q': "is_queue h q ([] @ xs)" using q by simp
  note s = queue_split [OF q']
  show ?thesis
  proof (cases xs)
    case Nil
    then show ?thesis using e s queue_insert [OF q', of e] by (auto simp: TAILQ_INSERT_HEAD_def tq_defs is_elm_def)
  next
    case (Cons x ys)
    then show ?thesis using e s queue_insert [OF q', of e] by (auto simp: TAILQ_INSERT_HEAD_def tq_defs is_elm_def)
  qed
qed

lemma TAILQ_INSERT_TAIL_ok:
  assumes q: "is_queue h q xs" and e: "is_elm h e" "e \<notin> set xs"
  shows "wp (TAILQ_INSERT_TAIL h q e) (\<lambda>h'. is_queue h' q (xs @ [e]) \<and> only {q} (insert e (set xs)) h h')"
proof -
  have q': "is_queue h q (xs @ [])" using q by simp
  note s = queue_split [OF q'] and n = end_link_new [OF e(2), of q]
  show ?thesis using e s n queue_insert [OF q', of e] by (auto simp: TAILQ_INSERT_TAIL_def tq_defs is_elm_def fun_upd_twist)
qed

lemma TAILQ_INSERT_AFTER_ok:
  assumes q: "is_queue h q (xs @ y # ys)" and e: "is_elm h e" "e \<notin> set (xs @ y # ys)"
  shows "wp (TAILQ_INSERT_AFTER h q y e) (\<lambda>h'. is_queue h' q (xs @ y # e # ys) \<and> only {q} (insert e (set (xs @ y # ys))) h h')"
proof -
  have q': "is_queue h q ((xs @ [y]) @ ys)" using q by simp
  note s = queue_split [OF q'] and n = TAILQ_NEXT_ok [OF q] and r = queue_insert [OF q', of e]
  show ?thesis
  proof (cases ys)
    case Nil
    then show ?thesis using e s n r by (auto simp: TAILQ_INSERT_AFTER_def tq_defs is_elm_def)
  next
    case (Cons z zs)
    then show ?thesis using e s n r is_queue_elm [OF q, of z] by (auto simp: TAILQ_INSERT_AFTER_def tq_defs is_elm_def)
  qed
qed

lemma TAILQ_INSERT_BEFORE_ok:
  assumes q: "is_queue h q (xs @ y # ys)" and e: "is_elm h e" "e \<notin> set (xs @ y # ys)"
  shows "wp (TAILQ_INSERT_BEFORE h y e) (\<lambda>h'. is_queue h' q (xs @ e # y # ys) \<and> only {q} (insert e (set (xs @ y # ys))) h h')"
proof -
  note s = queue_split [OF q] and r = queue_insert [OF q, of e]
  have n: "Next e \<noteq> end_link (First q) xs" using e(2) by (intro end_link_new) simp
  show ?thesis using e s n r by (auto simp: TAILQ_INSERT_BEFORE_def tq_defs is_elm_def fun_upd_twist)
qed

text \<open>Taking an element out, and putting another in its place.\<close>

lemma TAILQ_REMOVE_ok:
  assumes q: "is_queue h q (xs @ e # ys)"
  shows "wp (TAILQ_REMOVE h q e) (\<lambda>h'. is_queue h' q (xs @ ys) \<and> only {q} (set (xs @ e # ys)) h h')"
proof -
  note s = queue_split [OF q] and n = TAILQ_NEXT_ok [OF q]
  have q': "is_queue h q (xs @ [e] @ ys)" using q by simp
  let ?l = "end_link (First q) xs"
  define h' where "h' = h\<lparr>tq_link := (tq_link h)(?l \<mapsto> (case ys of [] \<Rightarrow> None | y # _ \<Rightarrow> Some y)),
    tqe_prev := (case ys of [] \<Rightarrow> tqe_prev h | y # _ \<Rightarrow> (tqe_prev h)(y \<mapsto> ?l)),
    tqh_last := (if ys = [] then (tqh_last h)(q \<mapsto> ?l) else tqh_last h)\<rparr>"
  then have link: "tq_link h' = (tq_link h)(?l \<mapsto> (case ys of [] \<Rightarrow> None | y # _ \<Rightarrow> Some y))"
    and prev: "tqe_prev h' = (case ys of [] \<Rightarrow> tqe_prev h | y # _ \<Rightarrow> (tqe_prev h)(y \<mapsto> ?l))"
    and last: "tqh_last h' = (if ys = [] then (tqh_last h)(q \<mapsto> ?l) else tqh_last h)" by simp_all
  have h': "TAILQ_REMOVE h q e = Some h'"
    using s n by (cases ys; cases h) (auto simp: TAILQ_REMOVE_def tq_defs h'_def)
  have "is_queue h' q (xs @ [] @ ys)"
  proof (rule queue_relink [OF q'])
    show "distinct (xs @ [] @ ys)" using s(1-3) by auto
    show "tq_link h' k = tq_link h k" if "k \<in> set (links (First q) xs)" for k using that s(6) by (auto simp: link)
    show "tqe_prev h' x = tqe_prev h x" if "x \<in> set xs" for x using that s(3) by (auto simp: prev split: list.split)
    show "tq_link h' (Next y) = tq_link h (Next y)" if "y \<in> set ys" for y using that s(7) by (auto simp: link)
    show "tqe_prev h' y = tqe_prev h y" if "y \<in> set (tl ys)" for y using that s(2) by (cases ys) (auto simp: prev)
  qed (auto simp: link prev last split: list.split)
  moreover have "only {q} (set (xs @ e # ys)) h h'"
    using end_link_in [of "First q" xs] by (auto simp: only_def link prev last split: list.split)
  ultimately show ?thesis using h' by simp
qed

lemma TAILQ_REPLACE_ok:
  assumes q: "is_queue h q (xs @ e # ys)" and e2: "is_elm h e2" "e2 \<notin> set (xs @ e # ys)"
  shows "wp (TAILQ_REPLACE h q e e2) (\<lambda>h'. is_queue h' q (xs @ e2 # ys) \<and> only {q} (insert e2 (set (xs @ e # ys))) h h')"
proof -
  note s = queue_split [OF q] and n = TAILQ_NEXT_ok [OF q]
  have q': "is_queue h q (xs @ [e] @ ys)" using q by simp
  let ?l = "end_link (First q) xs"
  have new: "Next e2 \<noteq> ?l" "Next e2 \<notin> set (links (First q) xs)" using e2(2) end_link_new(2) [of e2 xs q] front_new [of e2 xs q] by auto
  obtain h' where h': "TAILQ_REPLACE h q e e2 = Some h'"
    and link: "tq_link h' = (tq_link h)(Next e2 \<mapsto> (case ys of [] \<Rightarrow> None | y # _ \<Rightarrow> Some y), ?l \<mapsto> Some e2)"
    and prev: "tqe_prev h' = (case ys of [] \<Rightarrow> tqe_prev h | y # _ \<Rightarrow> (tqe_prev h)(y \<mapsto> Next e2))(e2 \<mapsto> ?l)"
    and last: "tqh_last h' = (if ys = [] then (tqh_last h)(q \<mapsto> Next e2) else tqh_last h)"
    using s n e2 new by (cases ys) (auto simp: TAILQ_REPLACE_def tq_defs is_elm_def)
  have "is_queue h' q (xs @ [e2] @ ys)"
  proof (rule queue_relink [OF q'])
    show "distinct (xs @ [e2] @ ys)" using s(1-3) e2 by auto
    show "seg h' ?l [e2]" by (simp add: link prev)
    show "tq_link h' k = tq_link h k" if "k \<in> set (links (First q) xs)" for k using that s(6) new by (auto simp: link)
    show "tqe_prev h' x = tqe_prev h x" if "x \<in> set xs" for x using that s(3) e2 by (auto simp: prev split: list.split)
    show "tq_link h' (Next y) = tq_link h (Next y)" if "y \<in> set ys" for y using that s(7) e2 by (auto simp: link)
    show "tqe_prev h' y = tqe_prev h y" if "y \<in> set (tl ys)" for y using that s(2) e2 by (cases ys) (auto simp: prev)
  qed (use new e2 in \<open>auto simp: link prev last split: list.split\<close>)
  moreover have "only {q} (insert e2 (set (xs @ e # ys))) h h'"
    using end_link_in [of "First q" xs] by (auto simp: only_def link prev last split: list.split)
  ultimately show ?thesis using h' by simp
qed

text \<open>Appending one queue to another.\<close>

lemma TAILQ_CONCAT_ok:
  assumes q: "is_queue h p xs" "is_queue h q ys" and d: "p \<noteq> q" "set xs \<inter> set ys = {}"
  shows "wp (TAILQ_CONCAT h p q) (\<lambda>h'. is_queue h' p (xs @ ys) \<and> is_queue h' q [] \<and> only {p, q} (set xs \<union> set ys) h h')"
proof (cases ys)
  case Nil
  then show ?thesis using q TAILQ_FIRST_ok [OF q(2)] by (simp add: TAILQ_CONCAT_def only_def)
next
  case (Cons y zs)
  have q': "is_queue h p (xs @ [] @ [])" using q(1) by simp
  have p': "is_queue h p (xs @ [])" using q(1) by simp
  note s = queue_split [OF p']
  let ?l = "end_link (First p) xs"
  have t: "tqe_prev h y \<noteq> None" "tqh_last h q = Some (end_link (Next y) zs)" "tq_link h (end_link (Next y) zs) = Some None"
    "tq_link h (First q) = Some (Some y)" "seg h (Next y) zs" "distinct (y # zs)"
    using q(2) Cons by (auto simp: is_queue_def)
  have n: "First q \<noteq> ?l" "\<And>z. z \<in> set ys \<Longrightarrow> Next z \<noteq> ?l" "First q \<notin> set (links (First p) xs)"
    using end_link_in [of "First p" xs] links_sub [of "First p" xs] d by auto
  define h' where "h' = h\<lparr>tq_link := (tq_link h)(?l \<mapsto> Some y, First q \<mapsto> None), tqe_prev := (tqe_prev h)(y \<mapsto> ?l),
    tqh_last := (tqh_last h)(p \<mapsto> end_link (Next y) zs, q \<mapsto> First q)\<rparr>"
  then have link: "tq_link h' = (tq_link h)(?l \<mapsto> Some y, First q \<mapsto> None)"
    and prev: "tqe_prev h' = (tqe_prev h)(y \<mapsto> ?l)"
    and last: "tqh_last h' = (tqh_last h)(p \<mapsto> end_link (Next y) zs, q \<mapsto> First q)" by simp_all
  have h': "TAILQ_CONCAT h p q = Some h'"
    using s t d n(1) by (cases h) (auto simp: TAILQ_CONCAT_def TAILQ_INIT_def tq_defs h'_def)
  have z: "seg h' (Next y) zs"
  proof (subst seg_cong [of "Next y" zs h' h])
    show "tq_link h' k = tq_link h k" if "k \<in> set (links (Next y) zs)" for k
      using links_elm [OF that] n(2) Cons by (auto simp: link)
    show "tqe_prev h' x = tqe_prev h x" if "x \<in> set zs" for x using that t(6) by (auto simp: prev)
  qed (fact t(5))
  have e: "end_link (Next y) zs \<noteq> ?l" "end_link (Next y) zs \<noteq> First q" using end_link_in [of "Next y" zs] n(2) Cons by auto
  have "is_queue h' p (xs @ ys @ [])"
  proof (rule queue_relink [OF q'])
    show "distinct (xs @ ys @ [])" using s(1) t(6) d Cons by simp
    show "seg h' ?l ys" using z n(1) Cons by (simp add: link prev)
    show "tq_link h' k = tq_link h k" if "k \<in> set (links (First p) xs)" for k using that s(6) n(3) by (auto simp: link)
    show "tqe_prev h' x = tqe_prev h x" if "x \<in> set xs" for x using that d(2) Cons by (auto simp: prev)
  qed (use Cons e t d in \<open>simp_all add: link last\<close>)
  moreover have "is_queue h' q []" using d by (simp add: is_queue_def link last)
  moreover have "only {p, q} (set xs \<union> set ys) h h'"
    using end_link_in [of "First p" xs] Cons by (auto simp: only_def link prev last)
  ultimately show ?thesis using h' by simp
qed

section \<open>The loops visit the elements in order\<close>

fun foreach_list :: "(nat \<Rightarrow> 's \<Rightarrow> (bool \<times> 's) option) \<Rightarrow> nat list \<Rightarrow> 's \<Rightarrow> (nat option \<times> 's) option" where
  "foreach_list body [] st = Some (None, st)"
| "foreach_list body (e # es) st = do {
     (leave, st) \<leftarrow> body e st;
     if leave then Some (Some e, st) else foreach_list body es st
   }"

lemma foreach_loop_list:
  assumes "\<And>pre e post. xs = pre @ e # post \<Longrightarrow> step h e = Some (case post of [] \<Rightarrow> None | y # _ \<Rightarrow> Some y)"
  shows "xs = pre @ ys \<Longrightarrow> foreach_loop step body h (case ys of [] \<Rightarrow> None | y # _ \<Rightarrow> Some y) st = foreach_list body ys st"
proof (induction ys arbitrary: pre st)
  case Nil
  then show ?case by (simp add: foreach_loop.simps)
next
  case (Cons e ys)
  show ?case
    using assms [OF Cons.prems] Cons.IH [of "pre @ [e]"] Cons.prems
    by (subst foreach_loop.simps) (auto intro!: Option.bind_cong)
qed

lemma TAILQ_FOREACH_ok:
  assumes "is_queue h q xs"
  shows "TAILQ_FOREACH h q body st = foreach_list body xs st"
proof -
  have "TAILQ_NEXT h e = Some (case post of [] \<Rightarrow> None | y # _ \<Rightarrow> Some y)" if "xs = pre @ e # post" for pre e post
    using assms that by (intro TAILQ_NEXT_ok) simp
  from foreach_loop_list [of xs TAILQ_NEXT h "[]" xs body st, OF this]
  show ?thesis using TAILQ_FIRST_ok [OF assms] by (simp add: TAILQ_FOREACH_def)
qed

lemma TAILQ_FOREACH_REVERSE_ok:
  assumes q: "is_queue h q xs"
  shows "TAILQ_FOREACH_REVERSE h q body st = foreach_list body (rev xs) st"
proof -
  have "TAILQ_PREV h e = Some (case post of [] \<Rightarrow> None | y # _ \<Rightarrow> Some y)" if "rev xs = pre @ e # post" for pre e post
  proof -
    have "xs = rev post @ e # rev pre" using that by (metis append.assoc append_Cons append_Nil rev.simps(2) rev_append rev_rev_ident)
    then show ?thesis using TAILQ_PREV_ok [of h q "rev post" e "rev pre"] q by (cases post) auto
  qed
  from foreach_loop_list [of "rev xs" TAILQ_PREV h "[]" "rev xs" body st, OF this]
  show ?thesis using TAILQ_LAST_ok [OF q] by (cases xs rule: rev_cases) (simp_all add: TAILQ_FOREACH_REVERSE_def)
qed

text \<open>The rule for the safe loops: an invariant on the elements still to come.\<close>

lemma foreach_safe_ok:
  assumes step: "\<And>e ys hs. I (e # ys) hs \<Longrightarrow> step (fst hs) e = Some (case ys of [] \<Rightarrow> None | y # _ \<Rightarrow> Some y) \<and> wp (body e hs) (I ys)"
  shows "I xs hs \<Longrightarrow> wp (foreach_safe_loop step body (case xs of [] \<Rightarrow> None | y # _ \<Rightarrow> Some y) hs) (I [])"
proof (induction xs arbitrary: hs)
  case Nil
  then show ?case by (simp add: foreach_safe_loop.simps)
next
  case (Cons e ys)
  note s = step [OF Cons.prems]
  have "wp (body e hs) (\<lambda>hs. wp (foreach_safe_loop step body (case ys of [] \<Rightarrow> None | y # _ \<Rightarrow> Some y) hs) (I []))"
    using s by (auto elim: wp_mono intro: Cons.IH)
  then show ?case using s by (subst foreach_safe_loop.simps) simp
qed

section \<open>An interface: queues of items\<close>

text \<open>
  What the users of a queue rely on: an element leads to its item, a new one is pushed at
  the head, and a visited one may be dropped, taken out of the queue and freed. The two
  loops of the users are a search and a sweep that drops the items a condition selects and
  notes each of them.
\<close>

definition search_body :: "('h \<Rightarrow> nat \<Rightarrow> 'd option) \<Rightarrow> 'h \<Rightarrow> ('d \<Rightarrow> bool option) \<Rightarrow> nat \<Rightarrow> unit \<Rightarrow> (bool \<times> unit) option" where
  "search_body item h matches e st = do { d \<leftarrow> item h e; b \<leftarrow> matches d; Some (b, ()) }"

definition sweep_body ::
  "('h \<Rightarrow> nat \<Rightarrow> 'd option) \<Rightarrow> ('h \<Rightarrow> nat \<Rightarrow> 'h option) \<Rightarrow> ('d \<Rightarrow> bool) \<Rightarrow> ('d \<Rightarrow> 's \<Rightarrow> 's) \<Rightarrow> nat \<Rightarrow> 'h \<times> 's \<Rightarrow> ('h \<times> 's) option" where
  "sweep_body item drop_elm stale note_item e hs = (case hs of (h, s) \<Rightarrow> do {
     d \<leftarrow> item h e;
     if stale d then do { h \<leftarrow> drop_elm h e; Some (h, note_item d s) } else Some (h, s)
   })"

text \<open>The position of the first item that matches.\<close>

fun search_list :: "('d \<Rightarrow> bool option) \<Rightarrow> 'd list \<Rightarrow> nat option option" where
  "search_list matches [] = Some None"
| "search_list matches (d # ds) = do {
     b \<leftarrow> matches d;
     if b then Some (Some 0) else do { r \<leftarrow> search_list matches ds; Some (map_option Suc r) }
   }"

locale item_queue =
  fixes queue :: "'h \<Rightarrow> nat list \<Rightarrow> bool"
    and first :: "'h \<Rightarrow> nat option option"
    and nxt :: "'h \<Rightarrow> nat \<Rightarrow> nat option option"
    and item :: "'h \<Rightarrow> nat \<Rightarrow> 'd option"
    and fresh :: "'h \<Rightarrow> nat \<Rightarrow> bool"
    and push :: "'h \<Rightarrow> nat \<Rightarrow> 'd \<Rightarrow> 'h option"
    and drop_elm :: "'h \<Rightarrow> nat \<Rightarrow> 'h option"
  assumes first_ok: "queue h xs \<Longrightarrow> first h = Some (case xs of [] \<Rightarrow> None | x # _ \<Rightarrow> Some x)"
    and nxt_ok: "queue h (pre @ e # ys) \<Longrightarrow> nxt h e = Some (case ys of [] \<Rightarrow> None | y # _ \<Rightarrow> Some y)"
    and item_ok: "queue h xs \<Longrightarrow> e \<in> set xs \<Longrightarrow> item h e \<noteq> None"
    and push_ok: "queue h xs \<Longrightarrow> fresh h e \<Longrightarrow> wp (push h e d) (\<lambda>h'. queue h' (e # xs) \<and> item h' e = Some d \<and>
       (\<forall>x \<in> set xs. item h' x = item h x))"
    and drop_ok: "queue h (pre @ e # ys) \<Longrightarrow> wp (drop_elm h e) (\<lambda>h'. queue h' (pre @ ys) \<and>
       (\<forall>x \<in> set (pre @ ys). item h' x = item h x))"
begin

text \<open>The queue holds the items \<open>ds\<close>.\<close>

definition holds :: "'h \<Rightarrow> 'd list \<Rightarrow> bool" where
  "holds h ds \<longleftrightarrow> (\<exists>xs. queue h xs \<and> map (item h) xs = map Some ds)"

lemma push_holds: "holds h ds \<Longrightarrow> fresh h e \<Longrightarrow> wp (push h e d) (\<lambda>h'. holds h' (d # ds) \<and> item h' e = Some d)"
proof -
  assume "holds h ds" and f: "fresh h e"
  then obtain xs where q: "queue h xs" "map (item h) xs = map Some ds" by (auto simp: holds_def)
  from push_ok [OF q(1) f, of d] show ?thesis
  proof (rule wp_mono, elim conjE)
    fix h' assume h': "queue h' (e # xs)" "item h' e = Some d" "\<forall>x \<in> set xs. item h' x = item h x"
    then have "map (item h') (e # xs) = map Some (d # ds)" using q(2) by (simp flip: q(2))
    then show "holds h' (d # ds) \<and> item h' e = Some d" using h' unfolding holds_def by blast
  qed
qed

lemma search_holds:
  assumes "holds h ds"
  shows "do { v \<leftarrow> first h; foreach_loop nxt (search_body item h matches) h v () } = None \<and> search_list matches ds = None \<or>
     (\<exists>p r. do { v \<leftarrow> first h; foreach_loop nxt (search_body item h matches) h v () } = Some (p, ()) \<and>
        search_list matches ds = Some r \<and>
        (case r of None \<Rightarrow> p = None | Some i \<Rightarrow> i < length ds \<and> (\<exists>e. p = Some e \<and> item h e = Some (ds ! i))))"
proof -
  obtain xs where q: "queue h xs" "map (item h) xs = map Some ds" using assms by (auto simp: holds_def)
  have "nxt h e = Some (case post of [] \<Rightarrow> None | y # _ \<Rightarrow> Some y)" if "xs = pre @ e # post" for pre e post
    using q(1) that by (intro nxt_ok) simp
  from foreach_loop_list [of xs nxt h "[]" xs "search_body item h matches" "()", OF this] first_ok [OF q(1)]
  have eq: "do { v \<leftarrow> first h; foreach_loop nxt (search_body item h matches) h v () } = foreach_list (search_body item h matches) xs ()"
    by simp
  have "foreach_list (search_body item h matches) xs () = None \<and> search_list matches ds = None \<or>
     (\<exists>p r. foreach_list (search_body item h matches) xs () = Some (p, ()) \<and> search_list matches ds = Some r \<and>
        (case r of None \<Rightarrow> p = None | Some i \<Rightarrow> i < length ds \<and> (\<exists>e. p = Some e \<and> item h e = Some (ds ! i))))"
    using q(2)
  proof (induction xs arbitrary: ds)
    case Nil
    then show ?case by simp
  next
    case (Cons x xs)
    then obtain d ds' where d: "ds = d # ds'" "item h x = Some d" "map (item h) xs = map Some ds'" by (cases ds) auto
    show ?case
    proof (cases "matches d")
      case None
      then show ?thesis using d by (simp add: search_body_def)
    next
      case (Some b)
      then show ?thesis using d Cons.IH [OF d(3)] by (cases b) (auto simp: search_body_def split: option.splits)
    qed
  qed
  then show ?thesis unfolding eq .
qed

lemma sweep_holds:
  assumes "holds h ds"
  shows "wp (do { v \<leftarrow> first h; foreach_safe_loop nxt (sweep_body item drop_elm stale note_item) v (h, s) })
     (\<lambda>(h', s'). holds h' (filter (\<lambda>d. \<not> stale d) ds) \<and> s' = fold note_item (filter stale ds) s)"
proof -
  obtain xs where q: "queue h xs" "map (item h) xs = map Some ds" using assms by (auto simp: holds_def)
  define I where "I = (\<lambda>ys (h', s'). \<exists>pre ds1 ds2. queue h' (pre @ ys) \<and> ds = ds1 @ ds2 \<and>
     map (item h') pre = map Some (filter (\<lambda>d. \<not> stale d) ds1) \<and> map (item h') ys = map Some ds2 \<and> s' = fold note_item (filter stale ds1) s)"
  have step: "nxt (fst hs) e = Some (case ys of [] \<Rightarrow> None | y # _ \<Rightarrow> Some y) \<and> wp (sweep_body item drop_elm stale note_item e hs) (I ys)"
    if inv: "I (e # ys) hs" for e ys hs
  proof -
    obtain h' s' where hs: "hs = (h', s')" by (cases hs)
    obtain pre ds1 d ds2 where i: "queue h' (pre @ e # ys)" "ds = ds1 @ d # ds2" "map (item h') pre = map Some (filter (\<lambda>d. \<not> stale d) ds1)"
      "item h' e = Some d" "map (item h') ys = map Some ds2" "s' = fold note_item (filter stale ds1) s"
      using inv unfolding I_def hs by (auto simp: map_eq_Cons_conv)
    have "wp (sweep_body item drop_elm stale note_item e hs) (I ys)"
    proof (cases "stale d")
      case True
      from drop_ok [OF i(1)] have "wp (drop_elm h' e) (\<lambda>h2. I ys (h2, note_item d s'))"
      proof (rule wp_mono, elim conjE)
        fix h2 assume h2: "queue h2 (pre @ ys)" "\<forall>x \<in> set (pre @ ys). item h2 x = item h' x"
        then have "map (item h2) pre = map (item h') pre" "map (item h2) ys = map (item h') ys" by auto
        then show "I ys (h2, note_item d s')"
          unfolding I_def prod.case using h2(1) i True by (intro exI [of _ pre] exI [of _ "ds1 @ [d]"] exI [of _ ds2]) simp
      qed
      then show ?thesis using True i(4) by (simp add: sweep_body_def hs)
    next
      case False
      then have "I ys (h', s')"
        unfolding I_def prod.case using i by (intro exI [of _ "pre @ [e]"] exI [of _ "ds1 @ [d]"] exI [of _ ds2]) simp
      then show ?thesis using False i(4) by (simp add: sweep_body_def hs)
    qed
    then show ?thesis using nxt_ok [OF i(1)] hs by simp
  qed
  have "I xs (h, s)" unfolding I_def prod.case using q by (intro exI [of _ "[]"] exI [of _ ds]) simp
  from foreach_safe_ok [of I nxt "sweep_body item drop_elm stale note_item", OF step this] first_ok [OF q(1)]
  have "wp (do { v \<leftarrow> first h; foreach_safe_loop nxt (sweep_body item drop_elm stale note_item) v (h, s) }) (I [])" by simp
  then show ?thesis by (rule wp_mono) (auto simp: I_def holds_def)
qed

end

section \<open>Properties\<close>

lemma tailq_ops_refine:
  assumes "is_queue h q (xs @ e # ys)" and "is_elm h f" "f \<notin> set (xs @ e # ys)"
    and "is_queue h p zs" "p \<noteq> q" "set zs \<inter> insert f (set (xs @ e # ys)) = {}"
  shows "wp (TAILQ_INSERT_HEAD h q f) (\<lambda>h'. is_queue h' q (f # xs @ e # ys) \<and> is_queue h' p zs)"
    "wp (TAILQ_INSERT_TAIL h q f) (\<lambda>h'. is_queue h' q (xs @ e # ys @ [f]) \<and> is_queue h' p zs)"
    "wp (TAILQ_INSERT_AFTER h q e f) (\<lambda>h'. is_queue h' q (xs @ e # f # ys) \<and> is_queue h' p zs)"
    "wp (TAILQ_INSERT_BEFORE h e f) (\<lambda>h'. is_queue h' q (xs @ f # e # ys) \<and> is_queue h' p zs)"
    "wp (TAILQ_REMOVE h q e) (\<lambda>h'. is_queue h' q (xs @ ys) \<and> is_queue h' p zs)"
    "wp (TAILQ_REPLACE h q e f) (\<lambda>h'. is_queue h' q (xs @ f # ys) \<and> is_queue h' p zs)"
    "wp (TAILQ_CONCAT h q p) (\<lambda>h'. is_queue h' q (xs @ e # ys @ zs) \<and> is_queue h' p [])"
    "TAILQ_NEXT h e = Some (case ys of [] \<Rightarrow> None | y # _ \<Rightarrow> Some y)"
    "TAILQ_PREV h e = Some (if xs = [] then None else Some (last xs))"
    "TAILQ_FOREACH h q body st = foreach_list body (xs @ e # ys) st"
    "TAILQ_FOREACH_REVERSE h q body st = foreach_list body (rev (xs @ e # ys)) st"
proof -
  let ?all = "insert f (set (xs @ e # ys))"
  have keep: "is_queue h' p zs" if "only {q} A h h'" "A \<subseteq> ?all" for A h'
    using is_queue_only [OF that(1), of p zs] assms(4-6) that(2) by auto
  show "wp (TAILQ_INSERT_HEAD h q f) (\<lambda>h'. is_queue h' q (f # xs @ e # ys) \<and> is_queue h' p zs)"
    by (rule wp_mono [OF TAILQ_INSERT_HEAD_ok [OF assms(1-3)]]) (auto intro: keep)
  show "wp (TAILQ_INSERT_TAIL h q f) (\<lambda>h'. is_queue h' q (xs @ e # ys @ [f]) \<and> is_queue h' p zs)"
    by (rule wp_mono [OF TAILQ_INSERT_TAIL_ok [OF assms(1-3)]]) (auto intro: keep)
  show "wp (TAILQ_INSERT_AFTER h q e f) (\<lambda>h'. is_queue h' q (xs @ e # f # ys) \<and> is_queue h' p zs)"
    by (rule wp_mono [OF TAILQ_INSERT_AFTER_ok [OF assms(1-3)]]) (auto intro: keep)
  show "wp (TAILQ_INSERT_BEFORE h e f) (\<lambda>h'. is_queue h' q (xs @ f # e # ys) \<and> is_queue h' p zs)"
    by (rule wp_mono [OF TAILQ_INSERT_BEFORE_ok [OF assms(1-3)]]) (auto intro: keep)
  show "wp (TAILQ_REMOVE h q e) (\<lambda>h'. is_queue h' q (xs @ ys) \<and> is_queue h' p zs)"
    by (rule wp_mono [OF TAILQ_REMOVE_ok [OF assms(1)]]) (auto intro: keep)
  show "wp (TAILQ_REPLACE h q e f) (\<lambda>h'. is_queue h' q (xs @ f # ys) \<and> is_queue h' p zs)"
    by (rule wp_mono [OF TAILQ_REPLACE_ok [OF assms(1-3)]]) (auto intro: keep)
  have "set (xs @ e # ys) \<inter> set zs = {}" using assms(6) by auto
  then show "wp (TAILQ_CONCAT h q p) (\<lambda>h'. is_queue h' q (xs @ e # ys @ zs) \<and> is_queue h' p [])"
    by (intro wp_mono [OF TAILQ_CONCAT_ok [OF assms(1,4) assms(5) [symmetric]]]) auto
qed (fact TAILQ_NEXT_ok [OF assms(1)] TAILQ_PREV_ok [OF assms(1)] TAILQ_FOREACH_ok [OF assms(1)] TAILQ_FOREACH_REVERSE_ok [OF assms(1)])+

text \<open>
  C18 (tail queues). On a queue in the heap that is not empty the macros do what they say on the
  list of its elements: the insertions at both ends and around an element, the removal and the
  replacement of one, the concatenation, the neighbours of an element; the two loops visit the elements from
  front to back and from back to front and so end; and no macro touches another queue.
\<close>

theorem tailq_refines_list:
  assumes "is_queue h q (xs @ e # ys)" and "is_elm h f" "f \<notin> set (xs @ e # ys)"
    and "is_queue h p zs" "p \<noteq> q" "set zs \<inter> insert f (set (xs @ e # ys)) = {}"
  shows "wp (TAILQ_INSERT_HEAD h q f) (\<lambda>h'. is_queue h' q (f # xs @ e # ys) \<and> is_queue h' p zs) \<and>
     wp (TAILQ_INSERT_TAIL h q f) (\<lambda>h'. is_queue h' q (xs @ e # ys @ [f]) \<and> is_queue h' p zs) \<and>
     wp (TAILQ_INSERT_AFTER h q e f) (\<lambda>h'. is_queue h' q (xs @ e # f # ys) \<and> is_queue h' p zs) \<and>
     wp (TAILQ_INSERT_BEFORE h e f) (\<lambda>h'. is_queue h' q (xs @ f # e # ys) \<and> is_queue h' p zs) \<and>
     wp (TAILQ_REMOVE h q e) (\<lambda>h'. is_queue h' q (xs @ ys) \<and> is_queue h' p zs) \<and>
     wp (TAILQ_REPLACE h q e f) (\<lambda>h'. is_queue h' q (xs @ f # ys) \<and> is_queue h' p zs) \<and>
     wp (TAILQ_CONCAT h q p) (\<lambda>h'. is_queue h' q (xs @ e # ys @ zs) \<and> is_queue h' p []) \<and>
     TAILQ_NEXT h e = Some (case ys of [] \<Rightarrow> None | y # _ \<Rightarrow> Some y) \<and>
     TAILQ_PREV h e = Some (if xs = [] then None else Some (last xs)) \<and>
     TAILQ_FOREACH h q body st = foreach_list body (xs @ e # ys) st \<and>
     TAILQ_FOREACH_REVERSE h q body st = foreach_list body (rev (xs @ e # ys)) st"
  by (intro conjI; fact tailq_ops_refine [OF assms])

definition sample_heap :: tailq_heap where
  "sample_heap = \<lparr>tq_link = [First 0 \<mapsto> Some 1, Next 1 \<mapsto> Some 2, Next 2 \<mapsto> None, Next 3 \<mapsto> None, First 7 \<mapsto> None],
     tqh_last = [0 \<mapsto> Next 2, 7 \<mapsto> First 7], tqe_prev = [1 \<mapsto> First 0, 2 \<mapsto> Next 1, 3 \<mapsto> First 0]\<rparr>"

theorem tailq_refines_list_witness:
  "wp (TAILQ_REMOVE sample_heap 0 2) (\<lambda>h'. is_queue h' 0 [1]) \<and> wp (TAILQ_INSERT_BEFORE sample_heap 2 3) (\<lambda>h'. is_queue h' 0 [1, 3, 2])"
proof -
  have q: "is_queue sample_heap 0 ([1] @ 2 # [])" "is_elm sample_heap 3" "3 \<notin> set ([1] @ 2 # [] :: nat list)"
    "is_queue sample_heap 7 []" "(7 :: nat) \<noteq> 0" "set [] \<inter> insert 3 (set ([1] @ 2 # [] :: nat list)) = {}"
    by (simp_all add: sample_heap_def is_queue_def is_elm_def)
  from tailq_refines_list [OF q, of "\<lambda>_ _. None" "()"]
  have "wp (TAILQ_INSERT_BEFORE sample_heap 2 3) (\<lambda>h'. is_queue h' 0 ([1] @ 3 # 2 # []) \<and> is_queue h' 7 [])"
    and "wp (TAILQ_REMOVE sample_heap 0 2) (\<lambda>h'. is_queue h' 0 ([1] @ []) \<and> is_queue h' 7 [])" by blast+
  then show ?thesis by (auto elim!: wp_mono)
qed

end
