(* ===== verification/Ns_Cache.thy ===== *)
theory Ns_Cache
  imports Tailq Netbios_NS
begin

text \<open>
  The entry cache of \<^verbatim>\<open>src/netbios_ns.c\<close> as the code keeps it: entries allocated one by
  one, linked into the tail queue of the name service, and freed. It refines the list of
  entries on which the model of the name service works.
\<close>

section \<open>The cache in memory\<close>

text \<open>The links of the entries and their other members; the head of the queue has the number 0.\<close>

record entry_cache =
  c_links :: tailq_heap
  c_entry :: "nat \<rightharpoonup> netbios_ns_entry"

text \<open>The entries added to a cache are new: their address is not in use.\<close>

definition cache_fresh :: "entry_cache \<Rightarrow> nat \<Rightarrow> bool" where
  "cache_fresh c e \<longleftrightarrow> c_entry c e = None"

definition cache_push :: "entry_cache \<Rightarrow> nat \<Rightarrow> netbios_ns_entry \<Rightarrow> entry_cache option" where
  "cache_push c e d = do {
     h \<leftarrow> TAILQ_INSERT_HEAD (tq_alloc (c_links c) e) 0 e;
     Some \<lparr>c_links = h, c_entry = (c_entry c)(e \<mapsto> d)\<rparr>
   }"

definition cache_drop :: "entry_cache \<Rightarrow> nat \<Rightarrow> entry_cache option" where
  "cache_drop c e = do {
     h \<leftarrow> TAILQ_REMOVE (c_links c) 0 e;
     Some \<lparr>c_links = tq_free h e, c_entry = (c_entry c)(e := None)\<rparr>
   }"

abbreviation cache_first :: "entry_cache \<Rightarrow> nat option option" where "cache_first c \<equiv> TAILQ_FIRST (c_links c) 0"
abbreviation cache_next :: "entry_cache \<Rightarrow> nat \<Rightarrow> nat option option" where "cache_next c \<equiv> TAILQ_NEXT (c_links c)"

section \<open>The operations on the cache\<close>

text \<open>\<open>addr\<close> is what \<^verbatim>\<open>calloc\<close> returns, null when memory is out.\<close>

definition ns_entry_add :: "entry_cache \<Rightarrow> nat option \<Rightarrow> u32 \<Rightarrow> (nat option \<times> entry_cache) option" where
  "ns_entry_add c addr ip =
     (case addr of
        None \<Rightarrow> Some (None, c)
      | Some e \<Rightarrow> do { c \<leftarrow> cache_push c e (new_entry ip); Some (Some e, c) })"

definition ns_entry_find :: "entry_cache \<Rightarrow> cstring option \<Rightarrow> u32 \<Rightarrow> nat option option" where
  "ns_entry_find c by_name ip = do {
     v \<leftarrow> cache_first c;
     (p, _) \<leftarrow> foreach_loop cache_next (search_body c_entry c (entry_matches by_name ip)) c v ();
     Some p
   }"

definition ns_entry_clear :: "entry_cache \<Rightarrow> entry_cache option" where
  "ns_entry_clear c = do {
     v \<leftarrow> cache_first c;
     (c, _) \<leftarrow> foreach_safe_loop cache_next (sweep_body c_entry cache_drop (\<lambda>_. True) (\<lambda>_ u. u)) v (c, ());
     Some c
   }"

text \<open>The loop of the discovery thread over the entries not seen for a while, with its callbacks.\<close>

definition note_removed :: "netbios_ns_entry \<Rightarrow> ns_event list \<Rightarrow> ns_event list" where
  "note_removed d evs = evs @ (if entry_named d then [Entry_removed d] else [])"

definition ns_expire :: "int \<Rightarrow> int \<Rightarrow> entry_cache \<Rightarrow> (entry_cache \<times> ns_event list) option" where
  "ns_expire now remove_timeout c = do {
     v \<leftarrow> cache_first c;
     foreach_safe_loop cache_next
       (sweep_body c_entry cache_drop (\<lambda>d. remove_timeout < now - e_last_time_seen d) note_removed) v (c, [])
   }"

section \<open>Refinement\<close>

text \<open>Exactly the allocated entries are in the queue.\<close>

definition cache_queue :: "entry_cache \<Rightarrow> nat list \<Rightarrow> bool" where
  "cache_queue c xs \<longleftrightarrow> is_queue (c_links c) 0 xs \<and> dom (c_entry c) = set xs"

definition cache_is :: "entry_cache \<Rightarrow> netbios_ns_entry list \<Rightarrow> bool" where
  "cache_is c es \<longleftrightarrow> (\<exists>xs. cache_queue c xs \<and> map (c_entry c) xs = map Some es)"

lemma alloc_queue: "is_queue h q xs \<Longrightarrow> e \<notin> set xs \<Longrightarrow> is_queue (tq_alloc h e) q xs \<and> is_elm (tq_alloc h e) e"
  using is_queue_only [of "{}" "{e}" h "tq_alloc h e" q xs] by (auto simp: only_def tq_alloc_def is_elm_def)

lemma free_queue: "is_queue h q xs \<Longrightarrow> e \<notin> set xs \<Longrightarrow> is_queue (tq_free h e) q xs"
  using is_queue_only [of "{}" "{e}" h "tq_free h e" q xs] by (auto simp: only_def tq_free_def)

interpretation cache: item_queue cache_queue cache_first cache_next c_entry cache_fresh cache_push cache_drop
proof (unfold_locales, goal_cases)
  case (1 c xs)
  then show ?case by (simp add: cache_queue_def TAILQ_FIRST_ok)
next
  case (2 c pre e ys)
  then show ?case by (auto simp: cache_queue_def intro: TAILQ_NEXT_ok)
next
  case (3 c xs e)
  then show ?case by (auto simp: cache_queue_def)
next
  case (4 c xs e d)
  then have q: "is_queue (c_links c) 0 xs" "dom (c_entry c) = set xs" "e \<notin> set xs"
    by (auto simp: cache_queue_def cache_fresh_def domIff)
  from TAILQ_INSERT_HEAD_ok [of "tq_alloc (c_links c) e" 0 xs e] alloc_queue [OF q(1,3)] q(3)
  have "wp (TAILQ_INSERT_HEAD (tq_alloc (c_links c) e) 0 e) (\<lambda>h. is_queue h 0 (e # xs))" by (auto elim: wp_mono)
  then show ?case using q by (auto simp: cache_push_def cache_queue_def elim!: wp_mono)
next
  case (5 c pre e ys)
  then have q: "is_queue (c_links c) 0 (pre @ e # ys)" "dom (c_entry c) = set (pre @ e # ys)" by (auto simp: cache_queue_def)
  have e: "e \<notin> set (pre @ ys)" using q(1) by (auto simp: is_queue_def)
  have "wp (TAILQ_REMOVE (c_links c) 0 e) (\<lambda>h. is_queue (tq_free h e) 0 (pre @ ys))"
    using TAILQ_REMOVE_ok [OF q(1)] free_queue e by (auto elim: wp_mono)
  then show ?case using q(2) e by (auto simp: cache_drop_def cache_queue_def elim!: wp_mono)
qed

lemma cache_is_holds: "cache_is c es = cache.holds c es"
  by (simp add: cache_is_def cache.holds_def)

lemma entry_find_search: "entry_find_loop by_name ip es = search_list (entry_matches by_name ip) es"
  by (induction es) (simp_all cong: if_cong)

lemma expire_filter:
  "expire_entries now limit es = (filter (\<lambda>d. \<not> limit < now - e_last_time_seen d) es,
     concat (map (\<lambda>d. if entry_named d then [Entry_removed d] else []) (filter (\<lambda>d. limit < now - e_last_time_seen d) es)))"
  by (induction es) (simp_all add: Let_def split: prod.splits)

lemma fold_note_removed: "fold note_removed ds evs = evs @ concat (map (\<lambda>d. if entry_named d then [Entry_removed d] else []) ds)"
  by (induction ds arbitrary: evs) (simp_all add: note_removed_def)

section \<open>Properties\<close>

lemma cache_ops_refine:
  assumes "cache_is c (n_entries ns)"
  shows "c_entry c e = None \<Longrightarrow> wp (ns_entry_add c (Some e) ip) (\<lambda>(p, c'). p = Some e \<and> cache_is c' (new_entry ip # n_entries ns) \<and>
       c_entry c' e = Some (new_entry ip))"
    "case netbios_ns_entry_find ns by_name ip of
       None \<Rightarrow> ns_entry_find c by_name ip = None
     | Some None \<Rightarrow> ns_entry_find c by_name ip = Some None
     | Some (Some i) \<Rightarrow> i < length (n_entries ns) \<and>
         (\<exists>x. ns_entry_find c by_name ip = Some (Some x) \<and> c_entry c x = Some (n_entries ns ! i))"
    "wp (ns_entry_clear c) (\<lambda>c'. cache_is c' (n_entries (netbios_ns_entry_clear ns)) \<and> dom (c_entry c') = {})"
    "wp (ns_expire now limit c) (\<lambda>(c', evs). cache_is c' (fst (expire_entries now limit (n_entries ns))) \<and>
       evs = snd (expire_entries now limit (n_entries ns)))"
proof -
  note h = assms [unfolded cache_is_holds]
  show "c_entry c e = None \<Longrightarrow> wp (ns_entry_add c (Some e) ip) (\<lambda>(p, c'). p = Some e \<and> cache_is c' (new_entry ip # n_entries ns) \<and>
       c_entry c' e = Some (new_entry ip))"
    using cache.push_holds [OF h, of e "new_entry ip"] by (simp add: ns_entry_add_def cache_fresh_def cache_is_holds)
  show "case netbios_ns_entry_find ns by_name ip of
       None \<Rightarrow> ns_entry_find c by_name ip = None
     | Some None \<Rightarrow> ns_entry_find c by_name ip = Some None
     | Some (Some i) \<Rightarrow> i < length (n_entries ns) \<and>
         (\<exists>x. ns_entry_find c by_name ip = Some (Some x) \<and> c_entry c x = Some (n_entries ns ! i))"
  proof -
    let ?c = "cache_first c \<bind> (\<lambda>v. foreach_loop cache_next (search_body c_entry c (entry_matches by_name ip)) c v ())"
    have f: "ns_entry_find c by_name ip = ?c \<bind> (\<lambda>(p, _). Some p)" by (simp add: ns_entry_find_def)
    show ?thesis
      using cache.search_holds [OF h, of "entry_matches by_name ip"]
      unfolding f netbios_ns_entry_find_def entry_find_search by (elim disjE exE conjE) (simp_all split: option.splits)
  qed
  have "cache_is c' [] \<Longrightarrow> dom (c_entry c') = {}" for c' by (auto simp: cache_is_def cache_queue_def)
  then show "wp (ns_entry_clear c) (\<lambda>c'. cache_is c' (n_entries (netbios_ns_entry_clear ns)) \<and> dom (c_entry c') = {})"
    using cache.sweep_holds [OF h, of "\<lambda>_. True" "\<lambda>_ u. u" "()"]
    by (auto simp: ns_entry_clear_def netbios_ns_entry_clear_def cache_is_holds elim!: wp_mono)
  show "wp (ns_expire now limit c) (\<lambda>(c', evs). cache_is c' (fst (expire_entries now limit (n_entries ns))) \<and>
       evs = snd (expire_entries now limit (n_entries ns)))"
    using cache.sweep_holds [OF h, of "\<lambda>d. limit < now - e_last_time_seen d" note_removed "[]"]
    by (simp only: ns_expire_def expire_filter fold_note_removed cache_is_holds fst_conv snd_conv append_Nil)
qed

text \<open>
  C17 (entry cache). The linked entries in memory refine the list of the name service: adding
  an entry puts it at the front; a search finds the entry at the position the list search
  gives, or faults with it; clearing frees every entry and leaves the queue empty; and the
  expiry of the discovery thread, which unlinks and frees entries while it walks over them,
  keeps the entries and makes the callbacks of its list version, without touching a freed one.
\<close>

theorem cache_refines:
  assumes "cache_is c (n_entries ns)"
  shows "(c_entry c e = None \<longrightarrow> wp (ns_entry_add c (Some e) ip) (\<lambda>(p, c'). p = Some e \<and> cache_is c' (new_entry ip # n_entries ns) \<and>
       c_entry c' e = Some (new_entry ip))) \<and>
     (case netbios_ns_entry_find ns by_name ip of
       None \<Rightarrow> ns_entry_find c by_name ip = None
     | Some None \<Rightarrow> ns_entry_find c by_name ip = Some None
     | Some (Some i) \<Rightarrow> i < length (n_entries ns) \<and>
         (\<exists>x. ns_entry_find c by_name ip = Some (Some x) \<and> c_entry c x = Some (n_entries ns ! i))) \<and>
     wp (ns_entry_clear c) (\<lambda>c'. cache_is c' (n_entries (netbios_ns_entry_clear ns)) \<and> dom (c_entry c') = {}) \<and>
     wp (ns_expire now limit c) (\<lambda>(c', evs). cache_is c' (fst (expire_entries now limit (n_entries ns))) \<and>
       evs = snd (expire_entries now limit (n_entries ns)))"
  by (intro conjI impI cache_ops_refine [OF assms])

definition sample_cache :: entry_cache where
  "sample_cache = \<lparr>c_links = sample_heap, c_entry = [1 \<mapsto> new_entry 10, 2 \<mapsto> new_entry 20]\<rparr>"

definition sample_service :: netbios_ns where
  "sample_service = \<lparr>n_socket = 3, n_last_trn_id = 0, n_entries = [new_entry 10, new_entry 20], n_buffer = replicate 1500 0,
     n_abort = Pipe_open False, n_broadcast_timeout = 4, n_discover_started = False\<rparr>"

theorem cache_refines_witness:
  "wp (ns_expire 100 20 sample_cache) (\<lambda>(c', evs). cache_is c' [] \<and> evs = []) \<and>
   wp (ns_entry_add sample_cache (Some 5) 30) (\<lambda>(p, c'). cache_is c' [new_entry 30, new_entry 10, new_entry 20])"
proof -
  have "is_queue sample_heap 0 [1, 2]" by (simp add: sample_heap_def is_queue_def)
  then have "cache_queue sample_cache [1, 2]" by (auto simp: cache_queue_def sample_cache_def)
  moreover have "map (c_entry sample_cache) [1, 2] = map Some (n_entries sample_service)" by (simp add: sample_cache_def sample_service_def)
  ultimately have c: "cache_is sample_cache (n_entries sample_service)" unfolding cache_is_def by blast
  have s: "n_entries sample_service = [new_entry 10, new_entry 20]" by (simp add: sample_service_def)
  have "expire_entries 100 20 (n_entries sample_service) = ([], [])"
    by (simp add: s new_entry_def entry_named_def dsm_consts)
  moreover have "c_entry sample_cache 5 = None" by (simp add: sample_cache_def)
  ultimately show ?thesis
    using cache_refines [OF c, of 5 30 None 100 20] by (auto simp: s elim!: wp_mono)
qed

end
