(* ===== verification/Ns_Lookup.thy ===== *)
theory Ns_Lookup
  imports Netbios_NS_Spec
begin

text \<open>
  The lookups of the name service that wait for an answer: a name to an address, by a
  broadcast, and an address to a name, by a status query. For both: what is sent, that they
  return, where the result comes from, and that a well-formed answer is taken.
\<close>

section \<open>From a name to an address\<close>

lemma no_name_found:
  assumes "list_all (\<lambda>e. \<not> entry_named e) es"
  shows "entry_find_loop (Some name) ip es = Some None"
  using assms by (induction es) (auto simp: entry_matches_def entry_named_def)

text \<open>The query that looking up a name sends, before the answer is awaited.\<close>

definition resolve_query :: "u16 \<Rightarrow> cstring \<Rightarrow> byte \<Rightarrow> byte list" where
  "resolve_query trn name type = query_datagram trn (NETBIOS_FLAG_RECURSIVE OR NETBIOS_FLAG_BROADCAST)
     (32 # butlast (netbios_name_level1_encode name (scast type))) query_type_nb"

lemma ns_resolve_query:
  assumes "\<not> n_discover_started ns" and "list_all (\<lambda>e. \<not> entry_named e) (n_entries ns)"
    and "n_abort ns = Pipe_open False" and "w_udp_tx w = []" and "mem_ok w" and "ifaddrs_ok w"
  obtains w1 where "netbios_ns_resolve w ns name type = do {
       (recv, _, out, ns', w') \<leftarrow> netbios_ns_recv w1 (ns\<lparr>n_last_trn_id := n_last_trn_id ns + 1\<rparr>) True True 0 True;
       if recv < 0 then Some (- 1, None, ns', w')
       else (case out of Some (Query_nb ip) \<Rightarrow> Some (0, Some ip, ns', w') | _ \<Rightarrow> Some (- 1, None, ns', w')) }"
    and "w_udp_rx w1 = w_udp_rx w"
    and "w_udp_sent w1 = w_udp_sent w @ map (\<lambda>ip. (ip, resolve_query (n_last_trn_id ns + 1) name type)) (w_broadcast w)"
    and "mem_ok w1" and "w_conn w1 = w_conn w"
proof -
  obtain s where s: "netbios_name_level1_encode name (scast type) = s @ [0]" "0 \<notin> set s" "length s = 32"
    using level1_encode_string by blast
  have enc: "netbios_name_encode w (Some name) (scast type) = Some (Some (32 # s @ [0]), alloc_tick w)"
    using assms(5) s by (simp add: netbios_name_encode_result mem_ok_alloc)
  have len: "c_strlen (32 # s @ [0]) = Some 33" using c_strlen_append [of "32 # s" "[]"] s by simp
  have t: "take 33 (32 # s @ [0]) = 32 # s" using s by simp
  have io: "w_udp_tx (alloc_tick w) = []" "w_udp_sent (alloc_tick w) = w_udp_sent w"
    "w_udp_rx (alloc_tick w) = w_udp_rx w" "mem_ok (alloc_tick w)" "ifaddrs_ok (alloc_tick w)" "w_conn (alloc_tick w) = w_conn w"
    using assms(4-6) by (simp_all add: same_io_fields [OF same_io_tick])
  have l33: "length (32 # s) = 33" using s by simp
  obtain w1 where snd: "netbios_ns_send_name_query (alloc_tick w) ns 0 NAME_QUERY_TYPE_NB (32 # s)
       (NETBIOS_FLAG_RECURSIVE OR NETBIOS_FLAG_BROADCAST) = Some (0, ns\<lparr>n_last_trn_id := n_last_trn_id ns + 1\<rparr>, w1)"
    and w1: "w_udp_rx w1 = w_udp_rx w"
      "w_udp_sent w1 = w_udp_sent w @ map (\<lambda>ip. (ip, query_datagram (n_last_trn_id ns + 1)
        (NETBIOS_FLAG_RECURSIVE OR NETBIOS_FLAG_BROADCAST) (32 # s) query_type_nb)) (w_broadcast w)" "mem_ok w1" "w_conn w1 = w_conn w"
    using send_name_query_sends [OF io(4) l33 assms(3) io(1,5), of "NETBIOS_FLAG_RECURSIVE OR NETBIOS_FLAG_BROADCAST"] io
    by (auto simp: wp_iff)
  have cached: "netbios_ns_entry_find ns (Some name) 0 = Some None"
    using no_name_found [OF assms(2)] by (simp add: netbios_ns_entry_find_def)
  show thesis
  proof (rule that [OF _ w1(1) _ w1(3,4)])
    show "w_udp_sent w1 = w_udp_sent w @ map (\<lambda>ip. (ip, resolve_query (n_last_trn_id ns + 1) name type)) (w_broadcast w)"
      using w1(2) s(1) by (simp add: resolve_query_def)
  qed (use assms(1) in \<open>simp add: netbios_ns_resolve_def cached enc len t snd s(3) del: take_Suc_Cons c_strlen.simps\<close>)
qed

text \<open>
  Looking up a name that is not cached broadcasts one name query to every broadcast address,
  with a fresh transaction id and the encoded name, and always returns; it reports an address
  only when a datagram with a whole header came from that very address.
\<close>

lemma ns_resolve_answer:
  assumes "\<not> n_discover_started ns" and "list_all (\<lambda>e. \<not> entry_named e) (n_entries ns)"
    and "length (n_buffer ns) = 1500" and "n_abort ns = Pipe_open False" and "w_udp_tx w = []" and "mem_ok w"
    and "ifaddrs_ok w"
  shows "wp (netbios_ns_resolve w ns name type) (\<lambda>(r, ipo, ns', w').
     w_udp_sent w' = w_udp_sent w @ map (\<lambda>ip. (ip, resolve_query (n_last_trn_id ns + 1) name type)) (w_broadcast w) \<and>
     n_last_trn_id ns' = n_last_trn_id ns + 1 \<and> n_entries ns' = n_entries ns \<and>
     (r = - 1 \<and> ipo = None \<or>
      r = 0 \<and> (\<exists>ip bs. ipo = Some ip \<and> Udp_data ip bs \<in> set (w_udp_rx w) \<and> 12 \<le> length bs)))"
proof -
  let ?ns = "ns\<lparr>n_last_trn_id := n_last_trn_id ns + 1\<rparr>"
  obtain w1 where q: "netbios_ns_resolve w ns name type = do {
       (recv, _, out, ns', w') \<leftarrow> netbios_ns_recv w1 ?ns True True 0 True;
       if recv < 0 then Some (- 1, None, ns', w')
       else (case out of Some (Query_nb ip) \<Rightarrow> Some (0, Some ip, ns', w') | _ \<Rightarrow> Some (- 1, None, ns', w')) }"
    "w_udp_rx w1 = w_udp_rx w"
    "w_udp_sent w1 = w_udp_sent w @ map (\<lambda>ip. (ip, resolve_query (n_last_trn_id ns + 1) name type)) (w_broadcast w)"
    using ns_resolve_query [OF assms(1,2,4-7)] by blast
  have ok: "ns_ok ?ns" using assms(3,4) by (simp add: ns_ok_def)
  obtain r ipo out ns' w' where rcv: "netbios_ns_recv w1 ?ns True True 0 True = Some (r, ipo, out, ns', w')"
    "ns_keeps ?ns ns'" "received (w_udp_rx w) ns' True 0 (Some Query_invalid) r ipo out" "w_udp_sent w' = w_udp_sent w1"
    using netbios_ns_recv_ok [OF ok, where w = w1 and check = True and wip = 0 and timed = True and P = "\<lambda>x. \<exists>r ipo out ns' w'.
      x = Some (r, ipo, out, ns', w') \<and> ns_keeps ?ns ns' \<and>
      received (w_udp_rx w) ns' True 0 (Some Query_invalid) r ipo out \<and> w_udp_sent w' = w_udp_sent w1"] q(2) by fastforce
  note k = ns_keeps_fields [OF rcv(2)]
  have "12 \<le> length bs" if "handled ns' (length (take 1500 bs)) True ip (Some Query_invalid) 0 out" for bs ip
    using that by (simp add: handled_def)
  then show ?thesis
    using rcv(3,4) q k
    by (auto simp: rcv(1) received_def handled_def split: option.splits netbios_ns_name_query.splits)
qed

text \<open>An answer to a name query, as the datagram itself says.\<close>

definition nb_answer :: "u16 \<Rightarrow> byte list \<Rightarrow> bool" where
  "nb_answer trn bs \<longleftrightarrow> 56 \<le> length bs \<and> length bs \<le> 1500 \<and> trn_of bs = trn \<and> bs ! 12 = 0x20 \<and>
     rd16 bs 46 = Some query_type_nb \<and> wp (rd16 bs 54) (\<lambda>n. 56 + unat (ntohs n) \<le> length bs)"

text \<open>A datagram is at the start of the receive buffer: what lies in it is read from there.\<close>

lemma rd8_prefix: "rd8 bs i = Some c \<Longrightarrow> rd8 (bs @ r) i = Some c"
  by (auto simp: rd8_def nth_append split: if_splits)

lemma rd16_prefix: "i + 2 \<le> length bs \<Longrightarrow> rd16 (bs @ r) i = rd16 bs i"
  by (simp add: rd_le_def buf_read_def)

lemma trn_prefix:
  assumes "12 \<le> length bs"
  obtains v where "rd_field netbios_query_packet ''trn_id'' (bs @ r) 0 = Some v"
    and "trn_of bs = ntohs (word_of_nat v)"
proof -
  have m: "map_of netbios_query_packet ''trn_id'' = Some 2" "offsetof netbios_query_packet ''trn_id'' = 0"
    by (simp_all add: netbios_query_packet_def)
  obtain v where v: "rd_field netbios_query_packet ''trn_id'' bs 0 = Some v"
    using rd_field_total [OF m(1), of 0 bs] assms m(2) by auto
  moreover have "rd_field netbios_query_packet ''trn_id'' (bs @ r) 0 = rd_field netbios_query_packet ''trn_id'' bs 0"
    using assms by (simp add: rd_field_def m buf_read_def)
  ultimately show thesis using that by (simp add: trn_of_def)
qed

lemma handle_nb_answer:
  assumes "nb_answer trn bs" and "check \<longrightarrow> trn = n_last_trn_id ns" and "n_buffer ns = bs @ r"
  shows "netbios_ns_handle_query ns (length bs) check ip (Some Query_invalid) = Some (0, Some (Query_nb ip))"
proof -
  have l: "56 \<le> length bs" using assms(1) by (simp add: nb_answer_def)
  obtain v where v: "rd_field netbios_query_packet ''trn_id'' (bs @ r) 0 = Some v" "trn_of bs = ntohs (word_of_nat v)"
    using l trn_prefix [of bs r] by auto
  show ?thesis
    using assms l v by (auto simp: netbios_ns_handle_query_def Let_def rd16_prefix rd8_eq nth_append nb_answer_def wp_iff)
qed

text \<open>A datagram at the head of the events that is taken.\<close>

lemma recv_takes:
  assumes "length (n_buffer ns) = 1500" and "n_abort ns = Pipe_open False" and "w_udp_rx w = Udp_data ip bs # es"
    and "length bs \<le> 1500" and "wip = 0 \<or> wip = ip"
    and "netbios_ns_handle_query (ns\<lparr>n_buffer := bs @ drop (length bs) (n_buffer ns)\<rparr>) (length bs) check ip (Some Query_invalid) =
      Some (0, out)"
  shows "netbios_ns_recv w ns timed check wip True =
     Some (int (length bs), Some ip, out, ns\<lparr>n_buffer := bs @ drop (length bs) (n_buffer ns)\<rparr>, w\<lparr>w_udp_rx := es\<rparr>)"
proof -
  have "buf_write (n_buffer ns) 0 bs = Some (bs @ drop (length bs) (n_buffer ns))"
    using assms(1,4) by (simp add: buf_write_def)
  then show ?thesis
    using assms by (auto simp: netbios_ns_recv_def netbios_abort_ctx_is_aborted_def RECV_BUFFER_SIZE_def)
qed

text \<open>If the first datagram is an answer, its sender is the address found.\<close>

lemma ns_resolve_first:
  assumes "\<not> n_discover_started ns" and "list_all (\<lambda>e. \<not> entry_named e) (n_entries ns)"
    and "length (n_buffer ns) = 1500" and "n_abort ns = Pipe_open False" and "w_udp_tx w = []" and "mem_ok w"
    and "ifaddrs_ok w" and rx: "w_udp_rx w = Udp_data ip bs # es" and a: "nb_answer (n_last_trn_id ns + 1) bs"
  shows "\<exists>ns' w'. netbios_ns_resolve w ns name type = Some (0, Some ip, ns', w') \<and> mem_ok w' \<and> w_conn w' = w_conn w"
proof -
  let ?ns = "ns\<lparr>n_last_trn_id := n_last_trn_id ns + 1\<rparr>"
  obtain w1 where q: "netbios_ns_resolve w ns name type = do {
       (recv, _, out, ns', w') \<leftarrow> netbios_ns_recv w1 ?ns True True 0 True;
       if recv < 0 then Some (- 1, None, ns', w')
       else (case out of Some (Query_nb ip) \<Rightarrow> Some (0, Some ip, ns', w') | _ \<Rightarrow> Some (- 1, None, ns', w')) }"
    "w_udp_rx w1 = w_udp_rx w" "mem_ok w1" "w_conn w1 = w_conn w"
    using ns_resolve_query [OF assms(1,2,4-7)] by blast
  have l: "length bs \<le> 1500" using a by (simp add: nb_answer_def)
  have "netbios_ns_handle_query (?ns\<lparr>n_buffer := bs @ drop (length bs) (n_buffer ?ns)\<rparr>) (length bs) True ip (Some Query_invalid) =
      Some (0, Some (Query_nb ip))"
    by (rule handle_nb_answer [OF a]) simp_all
  then show ?thesis
    using recv_takes [of ?ns w1 ip bs es 0 True] assms(3,4) rx q(2-4) l by (simp add: q(1) mem_ok_def)
qed

section \<open>From an address to a name\<close>

definition status_query :: "u16 \<Rightarrow> byte list" where
  "status_query trn = query_datagram trn 0 name_query_broadcast query_type_nbstat"

lemma send_status_query:
  assumes "mem_ok w" and "n_abort ns = Pipe_open False" and "w_udp_tx w = []" and "ip \<noteq> 0"
  shows "wp (netbios_ns_send_name_query w ns ip NAME_QUERY_TYPE_NBSTAT name_query_broadcast 0) (\<lambda>(r, ns', w'). r = 0 \<and>
     ns' = ns\<lparr>n_last_trn_id := n_last_trn_id ns + 1\<rparr> \<and> w_udp_rx w' = w_udp_rx w \<and> mem_ok w' \<and>
     w_udp_sent w' = w_udp_sent w @ [(ip, status_query (n_last_trn_id ns + 1))])"
proof -
  have snd: "netbios_ns_send_packet w1 ns (Some q) ip = Some (int (length (enc_struct netbios_query_packet s @ c)), ns,
      w1\<lparr>w_udp_sent := w_udp_sent w1 @ [(ip, enc_struct netbios_query_packet s @ c)]\<rparr>)"
    if "query_holds n s c q" "w_udp_tx w1 = []" for n s c q w1
    using query_holds_wire [OF that(1)] that(2) assms(2)
    by (auto simp: netbios_ns_send_packet_def netbios_abort_ctx_is_aborted_def ns_note_abort_def)
  show ?thesis
    unfolding netbios_ns_send_name_query_def
    apply (simp only: name_query_type.distinct if_False simp_thms wp_bind)
    apply (rule wp_mono [OF make_name_query_ok [OF assms(1)]])
     apply simp
    apply (use assms in \<open>auto simp: snd calm_def same_io_fields query_datagram_def status_query_def mem_ok_def\<close>)
    done
qed

text \<open>What is done with the outcome of the wait.\<close>

definition inverse_outcome ::
  "u32 \<Rightarrow> int \<times> u32 option \<times> netbios_ns_name_query option \<times> netbios_ns \<times> world \<Rightarrow> (byte list option \<times> netbios_ns \<times> world) option" where
  "inverse_outcome ip = (\<lambda>(recv, _, out, ns, w).
     case out of
       Some (Query_nbstat name grp type) \<Rightarrow>
         (if recv \<le> 0 then Some (None, ns, w)
          else do {
            entry \<leftarrow> netbios_ns_entry_set_name (n_buffer ns) (new_entry ip) (Some name) grp type;
            Some (Some (e_name entry), ns\<lparr>n_entries := [entry]\<rparr>, alloc_tick w)
          })
     | _ \<Rightarrow> Some (None, ns, w))"

lemma ns_inverse_query:
  assumes "\<not> n_discover_started ns" and "n_entries ns = []" and "length (n_buffer ns) = 1500"
    and "n_abort ns = Pipe_open False" and "w_udp_tx w = []" and "mem_ok w" and "ip \<noteq> 0"
  obtains w1 where "netbios_ns_inverse w ns ip =
      Option.bind (netbios_ns_recv w1 (ns\<lparr>n_last_trn_id := n_last_trn_id ns + 1\<rparr>) True True ip True) (inverse_outcome ip)"
    and "w_udp_rx w1 = w_udp_rx w" and "mem_ok w1"
    and "w_udp_sent w1 = w_udp_sent w @ [(ip, status_query (n_last_trn_id ns + 1))]"
proof -
  let ?ns = "ns\<lparr>n_last_trn_id := n_last_trn_id ns + 1\<rparr>"
  obtain w1 where snd: "netbios_ns_send_name_query w ns ip NAME_QUERY_TYPE_NBSTAT name_query_broadcast 0 = Some (0, ?ns, w1)"
    and w1: "w_udp_rx w1 = w_udp_rx w" "mem_ok w1" "w_udp_sent w1 = w_udp_sent w @ [(ip, status_query (n_last_trn_id ns + 1))]"
    using send_status_query [OF assms(6,4,5,7)] by (auto simp: wp_iff)
  have ok: "ns_ok ?ns" using assms(3,4) by (simp add: ns_ok_def)
  have "\<exists>r ipo out ns' es. netbios_ns_recv w1 ?ns True True ip True = Some (r, ipo, out, ns', w1\<lparr>w_udp_rx := es\<rparr>) \<and> ns_keeps ?ns ns'"
    by (rule netbios_ns_recv_ok [OF ok]) blast
  then obtain r ipo out ns' es where rcv:
    "netbios_ns_recv w1 ?ns True True ip True = Some (r, ipo, out, ns', w1\<lparr>w_udp_rx := es\<rparr>)" "ns_keeps ?ns ns'" by blast
  have e: "n_entries ns' = []" using ns_keeps_fields(1) [OF rcv(2)] assms(2) by simp
  have m: "mem_ok (w1\<lparr>w_udp_rx := es\<rparr>)" using w1(2) by (simp add: mem_ok_def)
  have add: "netbios_ns_entry_add (w1\<lparr>w_udp_rx := es\<rparr>) ns' ip = (True, ns'\<lparr>n_entries := [new_entry ip]\<rparr>, alloc_tick (w1\<lparr>w_udp_rx := es\<rparr>))"
    using m e by (simp add: netbios_ns_entry_add_def c_calloc_ok mem_ok_alloc)
  have "netbios_ns_entry_find ns None ip = Some None" using assms(2) by (simp add: netbios_ns_entry_find_def)
  then have "netbios_ns_inverse w ns ip = inverse_outcome ip (r, ipo, out, ns', w1\<lparr>w_udp_rx := es\<rparr>)"
    using assms(1,7) e
    by (auto simp: netbios_ns_inverse_def netbios_ns_inverse_internal_def snd rcv(1) inverse_outcome_def add
        split: option.splits netbios_ns_name_query.splits)
  then show thesis using rcv(1) by (intro that [OF _ w1]) simp
qed

lemma ns_inverse_answer:
  assumes "\<not> n_discover_started ns" and "n_entries ns = []" and "length (n_buffer ns) = 1500"
    and "n_abort ns = Pipe_open False" and "w_udp_tx w = []" and "mem_ok w" and "ip \<noteq> 0"
  shows "wp (netbios_ns_inverse w ns ip) (\<lambda>(nm, ns', w').
     w_udp_sent w' = w_udp_sent w @ [(ip, status_query (n_last_trn_id ns + 1))] \<and>
     (\<forall>a. nm = Some a \<longrightarrow> length a = 16 \<and> a ! 15 = 0 \<and>
        (\<exists>bs. Udp_data ip bs \<in> set (w_udp_rx w) \<and> 12 \<le> length bs)))"
proof -
  let ?ns = "ns\<lparr>n_last_trn_id := n_last_trn_id ns + 1\<rparr>"
  obtain w1 where q: "netbios_ns_inverse w ns ip = Option.bind (netbios_ns_recv w1 ?ns True True ip True) (inverse_outcome ip)"
    "w_udp_rx w1 = w_udp_rx w" "w_udp_sent w1 = w_udp_sent w @ [(ip, status_query (n_last_trn_id ns + 1))]"
    using ns_inverse_query [OF assms] by blast
  have ok: "ns_ok ?ns" using assms(3,4) by (simp add: ns_ok_def)
  have "\<exists>r ipo out ns' es. netbios_ns_recv w1 ?ns True True ip True = Some (r, ipo, out, ns', w1\<lparr>w_udp_rx := es\<rparr>) \<and> ns_keeps ?ns ns' \<and>
     received (w_udp_rx w) ns' True ip (Some Query_invalid) r ipo out"
    by (rule netbios_ns_recv_ok [OF ok]) (use q(2) in \<open>auto 4 4\<close>)
  then obtain r ipo out ns' es where rcv: "netbios_ns_recv w1 ?ns True True ip True = Some (r, ipo, out, ns', w1\<lparr>w_udp_rx := es\<rparr>)"
    "ns_keeps ?ns ns'" "received (w_udp_rx w) ns' True ip (Some Query_invalid) r ipo out" by blast
  have b: "length (n_buffer ns') = 1500" using ns_keeps_fields(5) [OF rcv(2) ok] by (simp add: ns_ok_def)
  have "wp (inverse_outcome ip (r, ipo, out, ns', w1\<lparr>w_udp_rx := es\<rparr>)) (\<lambda>(nm, ns', w'). w_udp_sent w' = w_udp_sent w1 \<and>
     (\<forall>a. nm = Some a \<longrightarrow> length a = 16 \<and> a ! 15 = 0 \<and> (\<exists>bs. Udp_data ip bs \<in> set (w_udp_rx w) \<and> 12 \<le> length bs)))"
  proof (cases "r > 0 \<and> (\<exists>p g t. out = Some (Query_nbstat p g t))")
    case True
    then obtain p g t where out: "out = Some (Query_nbstat p g t)" and r: "\<not> r \<le> 0" by auto
    obtain bs where d: "Udp_data ip bs \<in> set (w_udp_rx w)" "12 \<le> length (take 1500 bs)" "p + 18 \<le> 1500" "\<forall>x. g = Some x \<longrightarrow> x + 18 \<le> 1500"
      using rcv(3) out r assms(7) by (auto simp: received_def handled_def)
    have "wp (netbios_ns_entry_set_name (n_buffer ns') (new_entry ip) (Some p) g t) (\<lambda>_. True)"
      using d b by (intro set_name_safe new_entry_ok) simp_all
    then obtain e where e: "netbios_ns_entry_set_name (n_buffer ns') (new_entry ip) (Some p) g t = Some e" by (auto simp: wp_iff)
    have "entry_ok e" using set_name_ok(1) [OF e new_entry_ok(1)] .
    then show ?thesis using d r by (auto simp: inverse_outcome_def out e entry_ok_def alloc_tick_def)
  next
    case False
    then show ?thesis by (auto simp: inverse_outcome_def split: option.splits netbios_ns_name_query.splits)
  qed
  then show ?thesis using q by (auto simp: rcv(1))
qed

text \<open>
  A status answer, as the datagram itself says: the position of the first name of a file
  server, and that of the first group.
\<close>

definition nbstat_answer :: "u16 \<Rightarrow> byte list \<Rightarrow> nat \<Rightarrow> nat option \<Rightarrow> bool" where
  "nbstat_answer trn bs p g \<longleftrightarrow> 57 \<le> length bs \<and> length bs < 1500 \<and> trn_of bs = trn \<and> bs ! 12 = 0x20 \<and>
     rd16 bs 46 = Some query_type_nbstat \<and>
     wp (rd16 bs 54) (\<lambda>n. 1 \<le> unat (ntohs n) \<and> unat (bs ! 56) * 18 \<le> unat (ntohs n) \<and> 56 + unat (ntohs n) \<le> length bs) \<and>
     find_group bs 57 (unat (bs ! 56)) = Some g \<and> find_server bs 57 (unat (bs ! 56)) = Some (Some p)"

lemma find_prefix:
  "find_group bs pos n = Some x \<Longrightarrow> find_group (bs @ r) pos n = Some x"
  "find_server bs pos n = Some x \<Longrightarrow> find_server (bs @ r) pos n = Some x"
  by (induction n arbitrary: pos) (auto split: bind_splits if_splits simp: rd8_prefix)

lemma handle_nbstat_answer:
  assumes "nbstat_answer trn bs p g" and "check \<longrightarrow> trn = n_last_trn_id ns" and "n_buffer ns = bs @ r"
  shows "netbios_ns_handle_query ns (length bs) check ip (Some Query_invalid) = Some (0, Some (Query_nbstat p g NETBIOS_FILESERVER))"
proof -
  have l: "57 \<le> length bs" using assms(1) by (simp add: nbstat_answer_def)
  obtain v where v: "rd_field netbios_query_packet ''trn_id'' (bs @ r) 0 = Some v" "trn_of bs = ntohs (word_of_nat v)"
    using l trn_prefix [of bs r] by auto
  have nt: "query_type_nbstat \<noteq> query_type_nb" by (simp add: query_type_nbstat_def query_type_nb_def)
  show ?thesis
    using assms l nt v
    by (auto simp: netbios_ns_handle_query_def Let_def rd16_prefix rd8_eq nth_append nbstat_answer_def wp_iff find_prefix)
qed

text \<open>The name at a position of the answer, as it is stored: 15 characters, trailing blanks cut.\<close>

definition stored_name :: "byte list \<Rightarrow> nat \<Rightarrow> byte list" where
  "stored_name bs p = trim_name 14 (take 15 (drop p bs) @ [0])"

lemma copy_name_prefix:
  assumes "length dest = 16" and "p + 15 \<le> length bs"
  shows "netbios_ns_copy_name dest (bs @ r) p = Some (stored_name bs p)"
  using assms by (simp add: netbios_ns_copy_name_def buf_read_def buf_write_def NETBIOS_NAME_LENGTH_def stored_name_def)

text \<open>
  What a wait for an answer of one address passes over: datagrams from elsewhere, and from there
  those without a whole header or with another transaction id.
\<close>

definition passed_over :: "u16 \<Rightarrow> u32 \<Rightarrow> udp_event \<Rightarrow> bool" where
  "passed_over trn ip e = (case e of Udp_data a bs \<Rightarrow> a \<noteq> ip \<or> length bs < 12 \<or> trn_of bs \<noteq> trn | _ \<Rightarrow> False)"

lemma handle_refuses:
  assumes "length bs < 12 \<or> trn_of bs \<noteq> n_last_trn_id ns" and "n_buffer ns = take 1500 bs @ r"
  shows "netbios_ns_handle_query ns (length (take 1500 bs)) True ip out = Some (- 1, out)"
proof (cases "length bs < 12")
  case False
  then have l: "12 \<le> length (take 1500 bs)" by simp
  obtain v where v: "rd_field netbios_query_packet ''trn_id'' (take 1500 bs @ r) 0 = Some v" "trn_of (take 1500 bs) = ntohs (word_of_nat v)"
    using trn_prefix [OF l] by blast
  obtain v' where "rd_field netbios_query_packet ''trn_id'' (take 1500 bs @ drop 1500 bs) 0 = Some v'" "trn_of (take 1500 bs) = ntohs (word_of_nat v')"
    using trn_prefix [OF l] by blast
  then have "trn_of bs = trn_of (take 1500 bs)" unfolding append_take_drop_id by (simp add: trn_of_def)
  then have "ntohs (word_of_nat v) \<noteq> n_last_trn_id ns" using assms(1) False v(2) by simp
  moreover have "\<not> length (take 1500 bs) < sizeof netbios_query_packet" using l by simp
  ultimately show ?thesis
    unfolding netbios_ns_handle_query_def Let_def assms(2) v(1) bind.bind_lunit by (simp only: if_False simp_thms if_True)
qed (simp add: netbios_ns_handle_query_def)

lemma recv_passes_over:
  assumes "ip \<noteq> 0"
  shows "list_all (passed_over (n_last_trn_id ns) ip) pre \<Longrightarrow> ns_ok ns \<Longrightarrow>
    \<exists>buf. length buf = 1500 \<and>
      netbios_ns_recv_loop (pre @ es) ns timed True ip out = netbios_ns_recv_loop es (ns\<lparr>n_buffer := buf\<rparr>) timed True ip out"
proof (induction pre arbitrary: ns)
  case Nil
  then show ?case by (intro exI [of _ "n_buffer ns"]) (simp add: ns_ok_def)
next
  case (Cons e pre)
  obtain a bs where e: "e = Udp_data a bs" "a \<noteq> ip \<or> length bs < 12 \<or> trn_of bs \<noteq> n_last_trn_id ns"
    using Cons.prems(1) by (cases e) (auto simp: passed_over_def)
  let ?ns = "ns_filled ns bs"
  have b: "ns_ok ?ns" using ns_keeps_fields(5) [OF ns_filled_keeps(1)] Cons.prems(2) by blast
  have "netbios_ns_handle_query ?ns (length (take 1500 bs)) True a out = Some (- 1, out)" if "a = ip"
    using e(2) that by (intro handle_refuses) (auto simp: ns_filled_def)
  then have "netbios_ns_recv_loop (Udp_data a bs # pre @ es) ns timed True ip out = netbios_ns_recv_loop (pre @ es) ?ns timed True ip out"
    unfolding recv_loop_data [OF Cons.prems(2)] using assms by auto
  moreover have "list_all (passed_over (n_last_trn_id ?ns) ip) pre" using Cons.prems(1) by (simp add: ns_filled_def)
  then obtain buf where "length buf = 1500"
    "netbios_ns_recv_loop (pre @ es) ?ns timed True ip out = netbios_ns_recv_loop es (?ns\<lparr>n_buffer := buf\<rparr>) timed True ip out"
    using Cons.IH [OF _ b] by blast
  moreover have "?ns\<lparr>n_buffer := buf\<rparr> = ns\<lparr>n_buffer := buf\<rparr>" by (simp add: ns_filled_def)
  ultimately show ?case unfolding e(1) append_Cons by metis
qed

lemma ns_inverse_waits:
  assumes "\<not> n_discover_started ns" and "n_entries ns = []" and "length (n_buffer ns) = 1500"
    and "n_abort ns = Pipe_open False" and "w_udp_tx w = []" and "mem_ok w" and "ip \<noteq> 0"
    and rx: "w_udp_rx w = pre @ Udp_data ip bs # es" and pre: "list_all (passed_over (n_last_trn_id ns + 1) ip) pre"
    and l: "length bs \<le> 1500"
    and h: "\<And>r. netbios_ns_handle_query (ns\<lparr>n_last_trn_id := n_last_trn_id ns + 1, n_buffer := bs @ r\<rparr>) (length bs) True ip (Some Query_invalid) =
      Some (0, out)"
  obtains r w' where "netbios_ns_inverse w ns ip = inverse_outcome ip (int (length bs), Some ip, out,
      ns\<lparr>n_last_trn_id := n_last_trn_id ns + 1, n_buffer := bs @ r\<rparr>, w')" and "length (bs @ r) = 1500"
proof -
  let ?ns = "ns\<lparr>n_last_trn_id := n_last_trn_id ns + 1\<rparr>"
  obtain w1 where q: "netbios_ns_inverse w ns ip = Option.bind (netbios_ns_recv w1 ?ns True True ip True) (inverse_outcome ip)"
    "w_udp_rx w1 = w_udp_rx w"
    using ns_inverse_query [OF assms(1-7)] by blast
  have ok: "ns_ok ?ns" and tr: "list_all (passed_over (n_last_trn_id ?ns) ip) pre" using assms(3,4) pre by (simp_all add: ns_ok_def)
  obtain buf where b: "length buf = 1500" "netbios_ns_recv_loop (pre @ Udp_data ip bs # es) ?ns True True ip (Some Query_invalid) =
      netbios_ns_recv_loop (Udp_data ip bs # es) (?ns\<lparr>n_buffer := buf\<rparr>) True True ip (Some Query_invalid)"
    using recv_passes_over [OF assms(7) tr ok] by blast
  have "netbios_ns_recv w1 ?ns True True ip True = netbios_ns_recv (w1\<lparr>w_udp_rx := Udp_data ip bs # es\<rparr>) (?ns\<lparr>n_buffer := buf\<rparr>) True True ip True"
    using b(2) q(2) rx assms(4) by (simp add: netbios_ns_recv_def netbios_abort_ctx_is_aborted_def del: netbios_ns_recv_loop.simps)
  also have "\<dots> = Some (int (length bs), Some ip, out, ?ns\<lparr>n_buffer := bs @ drop (length bs) buf\<rparr>, w1\<lparr>w_udp_rx := es\<rparr>)"
    using recv_takes [of "?ns\<lparr>n_buffer := buf\<rparr>" "w1\<lparr>w_udp_rx := Udp_data ip bs # es\<rparr>" ip bs es ip True out True] b(1) assms(4) l h by simp
  finally show thesis using that [of "drop (length bs) buf"] q(1) b(1) l by simp
qed

lemma ns_inverse_other:
  assumes "\<not> n_discover_started ns" and "n_entries ns = []" and "length (n_buffer ns) = 1500"
    and "n_abort ns = Pipe_open False" and "w_udp_tx w = []" and "mem_ok w" and "ip \<noteq> 0"
    and rx: "w_udp_rx w = pre @ Udp_data ip bs # es" and pre: "list_all (passed_over (n_last_trn_id ns + 1) ip) pre"
    and a: "nb_answer (n_last_trn_id ns + 1) bs"
  shows "\<exists>ns' w'. netbios_ns_inverse w ns ip = Some (None, ns', w')"
proof -
  have l: "length bs \<le> 1500" using a by (simp add: nb_answer_def)
  have h: "netbios_ns_handle_query (ns\<lparr>n_last_trn_id := n_last_trn_id ns + 1, n_buffer := bs @ r\<rparr>) (length bs) True ip (Some Query_invalid) =
      Some (0, Some (Query_nb ip))" for r
    by (rule handle_nb_answer [OF a]) simp_all
  show ?thesis by (rule ns_inverse_waits [OF assms(1-9) l h]) (simp add: inverse_outcome_def)
qed

lemma set_name_answer:
  assumes a: "nbstat_answer trn bs p g" and b: "length (bs @ r) = 1500" and e: "entry_ok e"
  shows "\<exists>e'. netbios_ns_entry_set_name (bs @ r) e (Some p) g t = Some e' \<and> e_name e' = stored_name bs p \<and>
     e_address e' = e_address e \<and> entry_named e'"
proof -
  have l: "57 \<le> length bs" "length bs < 1500" "57 + 18 * unat (bs ! 56) \<le> Suc (length bs)"
    using a by (auto simp: nbstat_answer_def wp_iff)
  have f: "find_group (bs @ r) 57 (unat (bs ! 56)) = Some g" "find_server (bs @ r) 57 (unat (bs ! 56)) = Some (Some p)"
    using a by (simp_all add: nbstat_answer_def find_prefix)
  have b': "57 + 18 * unat (bs ! 56) \<le> length (bs @ r)" using l b by simp
  have p: "p + 15 \<le> length bs" "\<forall>x. g = Some x \<longrightarrow> x + 15 \<le> length bs"
    using find_server_ok [OF b'] find_group_ok [OF b'] f l(3) by auto
  then show ?thesis
    using e by (cases g) (simp_all add: netbios_ns_entry_set_name_def copy_name_prefix entry_ok_def entry_named_def NS_ENTRY_FLAG_VALID_NAME_def)
qed

lemma ns_inverse_first:
  assumes "\<not> n_discover_started ns" and "n_entries ns = []" and "length (n_buffer ns) = 1500"
    and "n_abort ns = Pipe_open False" and "w_udp_tx w = []" and "mem_ok w" and "ip \<noteq> 0"
    and rx: "w_udp_rx w = pre @ Udp_data ip bs # es" and pre: "list_all (passed_over (n_last_trn_id ns + 1) ip) pre"
    and a: "nbstat_answer (n_last_trn_id ns + 1) bs p g"
  shows "\<exists>ns' w'. netbios_ns_inverse w ns ip = Some (Some (stored_name bs p), ns', w')"
proof -
  have l: "length bs \<le> 1500" "0 < length bs" using a by (auto simp: nbstat_answer_def)
  have h: "netbios_ns_handle_query (ns\<lparr>n_last_trn_id := n_last_trn_id ns + 1, n_buffer := bs @ r\<rparr>) (length bs) True ip (Some Query_invalid) =
      Some (0, Some (Query_nbstat p g NETBIOS_FILESERVER))" for r
    by (rule handle_nbstat_answer [OF a]) simp_all
  show ?thesis
  proof (rule ns_inverse_waits [OF assms(1-9) l(1) h])
    fix r w'
    assume i: "netbios_ns_inverse w ns ip = inverse_outcome ip (int (length bs), Some ip, Some (Query_nbstat p g NETBIOS_FILESERVER),
      ns\<lparr>n_last_trn_id := n_last_trn_id ns + 1, n_buffer := bs @ r\<rparr>, w')" and b: "length (bs @ r) = 1500"
    obtain e where "netbios_ns_entry_set_name (bs @ r) (new_entry ip) (Some p) g NETBIOS_FILESERVER = Some e" "e_name e = stored_name bs p"
      using set_name_answer [OF a b new_entry_ok(1)] by blast
    then show ?thesis using l by (simp add: i inverse_outcome_def)
  qed
qed

section \<open>Discovery finds a host\<close>

text \<open>The turns of the thread in which nothing has to be withdrawn and a host answers both queries.\<close>

lemma outer_asks:
  assumes "n_abort ns = Pipe_open False" and "mem_ok w" and "w_udp_tx w = []" and "ifaddrs_ok w" and "n_entries ns = []"
  shows "\<exists>w'. discover_outer w ns = Some (Inner, [], ns\<lparr>n_last_trn_id := n_last_trn_id ns + 1\<rparr>, w')"
proof -
  obtain now w1 where t: "c_time w = (now, w1)" by fastforce
  have w1: "mem_ok w1" "ifaddrs_ok w1" "w_udp_tx w1 = []"
    using assms c_time_keeps [OF t] t by (auto simp: c_time_def split: list.splits)
  have ns: "ns\<lparr>n_entries := []\<rparr> = ns" using assms(5) by simp
  show ?thesis
    using send_name_query_sends [OF w1(1) length_broadcast_name assms(1) w1(3,2), of 0] assms(1,5)
    by (auto simp: discover_outer_def netbios_abort_ctx_is_aborted_def t ns wp_iff)
qed

lemma inner_asks_host:
  assumes "n_abort ns = Pipe_open False" and "mem_ok w" and "w_udp_tx w = []" and "length (n_buffer ns) = 1500"
    and "n_entries ns = []" and rx: "w_udp_rx w = Udp_data ip bs # es" and a: "nb_answer trn bs" and "ip \<noteq> 0"
  shows "\<exists>ns' w' now. discover_inner w ns = Some (Inner, [], ns', w') \<and> n_entries ns' = [(new_entry ip)\<lparr>e_last_time_seen := now\<rparr>] \<and>
     n_abort ns' = Pipe_open False \<and> length (n_buffer ns') = 1500"
proof -
  let ?ns = "ns\<lparr>n_buffer := bs @ drop (length bs) (n_buffer ns)\<rparr>" and ?w = "w\<lparr>w_udp_rx := es\<rparr>"
  have l: "length bs \<le> 1500" "0 < length bs" using a by (auto simp: nb_answer_def)
  have h: "netbios_ns_handle_query ?ns (length bs) False ip (Some Query_invalid) = Some (0, Some (Query_nb ip))"
    by (rule handle_nb_answer [OF a]) simp_all
  note rc = recv_takes [OF assms(4,1) rx l(1) _ h, of 0 "n_broadcast_timeout ns \<noteq> 0", simplified]
  obtain now w1 where t: "c_time ?w = (now, w1)" by fastforce
  have w1: "mem_ok w1" "w_udp_tx w1 = []"
    using assms c_time_keeps [OF t] t by (auto simp: c_time_def mem_ok_def split: list.splits)
  let ?e = "(new_entry ip)\<lparr>e_last_time_seen := now\<rparr>" and ?ns1 = "?ns\<lparr>n_entries := [(new_entry ip)\<lparr>e_last_time_seen := now\<rparr>]\<rparr>"
  have add: "netbios_ns_entry_add w1 ?ns ip = (True, ?ns\<lparr>n_entries := [new_entry ip]\<rparr>, alloc_tick w1)"
    using w1(1) assms(5) by (simp add: netbios_ns_entry_add_def c_calloc_ok)
  have "mem_ok (alloc_tick w1)" "w_udp_tx (alloc_tick w1) = []" using w1 by (simp_all add: same_io_fields [OF same_io_tick])
  then obtain w2 where snd: "netbios_ns_send_name_query (alloc_tick w1) ?ns1 ip NAME_QUERY_TYPE_NBSTAT name_query_broadcast 0 =
      Some (0, ?ns1\<lparr>n_last_trn_id := n_last_trn_id ns + 1\<rparr>, w2)"
    using send_status_query [of "alloc_tick w1" ?ns1 ip] assms(1,8) w1 by (auto simp: wp_iff)
  have "\<not> entry_named ?e" using new_entry_ok(2) by (simp add: entry_named_def)
  moreover have "netbios_ns_entry_find ?ns None ip = Some None" using assms(5) by (simp add: netbios_ns_entry_find_def)
  ultimately have "discover_inner w ns = Some (Inner, [], ?ns1\<lparr>n_last_trn_id := n_last_trn_id ns + 1\<rparr>, w2)"
    using l snd by (simp add: discover_inner_def rc t discover_nb_def add)
  then show ?thesis using assms(1,4) l by auto
qed

lemma inner_announces:
  assumes "n_abort ns = Pipe_open False" and "length (n_buffer ns) = 1500"
    and "n_entries ns = [e]" and e: "entry_ok e" "e_address e = ip" "\<not> entry_named e"
    and rx: "w_udp_rx w = Udp_data ip bs # es" and a: "nbstat_answer trn bs p g"
  shows "\<exists>ns' w' e'. discover_inner w ns = Some (Inner, [Entry_added e'], ns', w') \<and> e_address e' = ip \<and> e_name e' = stored_name bs p"
proof -
  let ?ns = "ns\<lparr>n_buffer := bs @ drop (length bs) (n_buffer ns)\<rparr>" and ?w = "w\<lparr>w_udp_rx := es\<rparr>"
  have l: "length bs \<le> 1500" "0 < length bs" using a by (auto simp: nbstat_answer_def)
  have h: "netbios_ns_handle_query ?ns (length bs) False ip (Some Query_invalid) = Some (0, Some (Query_nbstat p g NETBIOS_FILESERVER))"
    by (rule handle_nbstat_answer [OF a]) simp_all
  note rc = recv_takes [OF assms(2,1) rx l(1) _ h, of 0 "n_broadcast_timeout ns \<noteq> 0", simplified]
  obtain now w1 where t: "c_time ?w = (now, w1)" by fastforce
  let ?e = "e\<lparr>e_last_time_seen := now\<rparr>"
  have e1: "entry_ok ?e" "\<not> entry_named ?e" "e_address ?e = ip" using e by (simp_all add: entry_ok_def entry_named_def)
  obtain e' where s: "netbios_ns_entry_set_name (bs @ drop (length bs) (n_buffer ns)) ?e (Some p) g NETBIOS_FILESERVER = Some e'"
    "e_name e' = stored_name bs p" "e_address e' = e_address ?e"
    using set_name_answer [OF a _ e1(1), of "drop (length bs) (n_buffer ns)"] l assms(2) by auto
  have "netbios_ns_entry_find ?ns None ip = Some (Some 0)"
    using assms(3) e by (simp add: netbios_ns_entry_find_def entry_matches_def entry_ok_def)
  then have "discover_inner w ns = Some (Inner, [Entry_added e'], ?ns\<lparr>n_entries := [e']\<rparr>, w1)"
    using l s(1) e1(2) assms(3) by (simp add: discover_inner_def rc t discover_nbstat_def)
  then show ?thesis using s e by auto
qed

text \<open>A host that answers the broadcast and then the status query is announced, with its name.\<close>

lemma host_announced:
  assumes ns: "n_abort ns = Pipe_open False" "length (n_buffer ns) = 1500" "n_entries ns = []"
    and w0: "env w0" "mem_ok w0" "w_udp_tx w0 = []" "ifaddrs_ok w0"
    and w1: "env w1" "mem_ok w1" "w_udp_tx w1 = []" "w_udp_rx w1 = Udp_data ip bs1 # es1" "nb_answer trn1 bs1" "ip \<noteq> 0"
    and w2: "env w2" "w_udp_rx w2 = Udp_data ip bs2 # es2" "nbstat_answer trn2 bs2 p g"
  shows "\<exists>ns' e. discovery_run env (Outer, ns, []) (Inner, ns', [Entry_added e]) \<and> e_address e = ip \<and> e_name e = stored_name bs2 p"
proof -
  let ?ns = "ns\<lparr>n_last_trn_id := n_last_trn_id ns + 1\<rparr>"
  obtain w0' where a: "discover_outer w0 ns = Some (Inner, [], ?ns, w0')" using outer_asks [OF ns(1) w0(2-4) ns(3)] by blast
  obtain ns1 w1' now where b: "discover_inner w1 ?ns = Some (Inner, [], ns1, w1')"
    "n_entries ns1 = [(new_entry ip)\<lparr>e_last_time_seen := now\<rparr>]" "n_abort ns1 = Pipe_open False" "length (n_buffer ns1) = 1500"
    using inner_asks_host [of ?ns w1 ip bs1 es1 trn1] ns w1 by auto
  have e: "entry_ok ((new_entry ip)\<lparr>e_last_time_seen := now\<rparr>)" "e_address ((new_entry ip)\<lparr>e_last_time_seen := now\<rparr>) = ip"
    "\<not> entry_named ((new_entry ip)\<lparr>e_last_time_seen := now\<rparr>)"
    using new_entry_ok [of ip] by (simp_all add: entry_ok_def entry_named_def)
  obtain ns2 w2' e' where c: "discover_inner w2 ns1 = Some (Inner, [Entry_added e'], ns2, w2')" "e_address e' = ip" "e_name e' = stored_name bs2 p"
    using inner_announces [OF b(3,4,2) e w2(2,3)] by blast
  have st: "netbios_ns_discover_thread w0 (Outer, ns, []) (Inner, ?ns, [])" "netbios_ns_discover_thread w1 (Inner, ?ns, []) (Inner, ns1, [])"
    "netbios_ns_discover_thread w2 (Inner, ns1, []) (Inner, ns2, [Entry_added e'])"
    using netbios_ns_discover_thread.outer [OF a, of "[]"] netbios_ns_discover_thread.inner [OF b(1), of "[]"]
      netbios_ns_discover_thread.inner [OF c(1), of "[]"] by simp_all
  have "discovery_run env (Outer, ns, []) (Inner, ns2, [Entry_added e'])"
    by (rule discovery_run_step [where env = env, OF st(1) w0(1)], rule discovery_run_step [where env = env, OF st(2) w1(1)], rule discovery_run_step [where env = env, OF st(3) w2(1)], simp)
  then show ?thesis using c by blast
qed

text \<open>
  C27 (discovery callbacks). On a name service that was made, and asked for any names and
  addresses, in every run of the discovery thread, whatever arrives from the network, whatever
  memory, interfaces and clock do and whenever the other thread asks to stop, up to a fault if
  there is one: the cache has one entry for an address, with terminated names; a callback
  announces an address only when it is not known with a name, and withdraws only one that is;
  the entry it hands over has a name, and its names are terminated. The addresses known are at
  first those of the entries with a name at the start, and at any moment those of the
  entries with a name. So on a service without such entries at the start, announced and known
  are the same; an entry that \<open>netbios_ns_inverse\<close> stored before is withdrawn without ever
  having been announced, as \<open>known_entry_withdrawn\<close> shows.
\<close>

theorem discovery_callbacks:
  assumes "netbios_ns_new w0 = (Some ns0, w1)" and "ns_call\<^sup>*\<^sup>* ns0 ns"
    and "netbios_ns_discover_start w2 ns timeout cb = (0, ns1, w3)"
    and "discovery_run env (Outer, ns1, []) (ph, ns', log)"
  shows "distinct (map e_address (n_entries ns')) \<and> list_all entry_ok (n_entries ns') \<and>
     callbacks (named_addresses (n_entries ns)) log = Some (e_address ` {e \<in> set (n_entries ns'). entry_named e})"
proof -
  have "service_ok ns" using ns_calls_keep [OF assms(2)] ns_new_shape(2) [OF assms(1)] by simp
  then have "discovery_inv (named_addresses (n_entries ns)) ns' log"
    using discovery_inv_reachable [OF assms(4)] discovery_start_inv [OF assms(3)] by simp
  then show ?thesis by (simp add: discovery_inv_def cache_ok_def named_addresses_def)
qed

lemma ns_new_ok:
  assumes "mem_ok w"
  obtains ns w' where "netbios_ns_new w = (Some ns, w')" and "n_last_trn_id ns = fst (c_rand w)"
    and "\<not> n_discover_started ns" and "n_entries ns = []" and "length (n_buffer ns) = 1500" and "n_abort ns = Pipe_open False"
    and "mem_ok w'" and "w_udp_tx w' = w_udp_tx w" and "w_udp_rx w' = w_udp_rx w" and "w_udp_sent w' = w_udp_sent w"
    and "w_ifaddrs w' = w_ifaddrs w" and "w_conn w' = w_conn w"
proof -
  let ?w = "(alloc_tick ^^ 8) w"
  have t: "(alloc_tick ^^ 8) w = alloc_tick (alloc_tick (alloc_tick (alloc_tick (alloc_tick (alloc_tick (alloc_tick (alloc_tick w)))))))"
    by (simp add: eval_nat_numeral)
  have r: "fst (c_rand ?w) = fst (c_rand w)" "mem_ok (snd (c_rand ?w)) = mem_ok ?w"
    "w_udp_tx (snd (c_rand ?w)) = w_udp_tx w" "w_udp_rx (snd (c_rand ?w)) = w_udp_rx w"
    "w_udp_sent (snd (c_rand ?w)) = w_udp_sent w" "w_ifaddrs (snd (c_rand ?w)) = w_ifaddrs w"
    "w_conn (snd (c_rand ?w)) = w_conn w"
    by (auto simp: t c_rand_def alloc_tick_def mem_ok_def split: list.split)
  have m: "mem_ok ?w" using assms by (simp add: t mem_ok_tick)
  have "netbios_ns_new w = (Some \<lparr>n_socket = 3, n_last_trn_id = fst (c_rand ?w), n_entries = [], n_buffer = replicate 1500 0,
      n_abort = Pipe_open False, n_broadcast_timeout = 0, n_discover_started = False\<rparr>, snd (c_rand ?w))"
    using assms
    by (simp add: t netbios_ns_new_def c_calloc_ok mem_ok_alloc netbios_abort_ctx_init_def mem_ok_tick ns_open_socket_def
        RECV_BUFFER_SIZE_def case_prod_beta)
  then show thesis by (rule that) (use r m in simp_all)
qed

lemma sample_nb_answer_ok: "nb_answer 1 sample_nb_answer"
  by code_simp

lemma sample_nbstat_answer_ok:
  "nbstat_answer 1 sample_nbstat_answer 57 None" "takeWhile (\<lambda>c. c \<noteq> 0) (stored_name sample_nbstat_answer 57) = [65, 66]"
  by code_simp+


theorem discovery_callbacks_witness:
  "\<exists>ns0 w1 ns1 w3 ns' e. netbios_ns_new sample_world = (Some ns0, w1) \<and> netbios_ns_discover_start w1 ns0 4 True = (0, ns1, w3) \<and>
     discovery_run (\<lambda>_. True) (Outer, ns1, []) (Inner, ns', [Entry_added e]) \<and>
     e_address e = 0x0101a8c0 \<and> e_name e = stored_name sample_nbstat_answer 57 \<and>
     callbacks {} [Entry_added e] = Some (e_address ` {e \<in> set (n_entries ns'). entry_named e})"
proof -
  let ?w = "\<lambda>bs. sample_world\<lparr>w_udp_rx := [Udp_data 0x0101a8c0 bs]\<rparr>"
  obtain ns0 w1 where new: "netbios_ns_new sample_world = (Some ns0, w1)"
    and ns0: "\<not> n_discover_started ns0" "n_entries ns0 = []" "length (n_buffer ns0) = 1500" "n_abort ns0 = Pipe_open False" "mem_ok w1"
    using ns_new_ok [OF sample_world_mem] by metis
  let ?ns1 = "ns0\<lparr>n_broadcast_timeout := 4, n_discover_started := True\<rparr>"
  have start: "netbios_ns_discover_start w1 ns0 4 True = (0, ?ns1, alloc_tick w1)"
    using ns0 by (simp add: netbios_ns_discover_start_def)
  have "mem_ok sample_world" "w_udp_tx sample_world = []" "ifaddrs_ok sample_world"
    using sample_world_mem by (simp_all add: sample_world_def ifaddrs_ok_def addrs_ok_def)
  moreover have "mem_ok (?w bs)" "w_udp_tx (?w bs) = []" "w_udp_rx (?w bs) = Udp_data 0x0101a8c0 bs # []" for bs
    by (simp_all add: sample_world_def mem_ok_def)
  moreover have "n_abort ?ns1 = Pipe_open False" "length (n_buffer ?ns1) = 1500" "n_entries ?ns1 = []" using ns0 by simp_all
  ultimately obtain ns' e where run: "discovery_run (\<lambda>_. True) (Outer, ?ns1, []) (Inner, ns', [Entry_added e])"
    and e: "e_address e = 0x0101a8c0" "e_name e = stored_name sample_nbstat_answer 57"
    using host_announced [where env = "\<lambda>_. True", OF _ _ _ TrueI _ _ _ TrueI _ _ _ sample_nb_answer_ok _ TrueI _ sample_nbstat_answer_ok(1),
        of ?ns1 sample_world "?w sample_nb_answer" "0x0101a8c0" "[]" "?w sample_nbstat_answer" "[]"] by auto
  have "callbacks {} [Entry_added e] = Some (e_address ` {e \<in> set (n_entries ns'). entry_named e})"
    using discovery_callbacks [OF new rtranclp.rtrancl_refl start run] ns0(2) by (simp add: named_addresses_def)
  with new start run e show ?thesis by blast
qed

end
