(* ===== verification/Programs.thy ===== *)
theory Programs
  imports Ns_Lookup Session_Inv Stat
begin

text \<open>
  The programs of \<^verbatim>\<open>bin/\<close>: \<^verbatim>\<open>lookup.c\<close>, \<^verbatim>\<open>inverse.c\<close>,
  \<^verbatim>\<open>discover.c\<close> and \<^verbatim>\<open>dsm.c\<close>, on the library's model. A program
  gives its exit status and what it printed, one item for each call of the printing
  functions; a fault or a failed assertion is \<^term>\<open>None\<close>, as in the library.

  The text of an address and the reading of one follow \<^verbatim>\<open>inet_ntoa\<close> and
  \<^verbatim>\<open>inet_pton\<close>. The scanner of the options, \<^verbatim>\<open>getopt_long\<close>, is a
  parameter. Calls at the end of a program that only free what nothing reads again
  (\<^verbatim>\<open>netbios_ns_destroy\<close>, \<^verbatim>\<open>smb_stat_list_destroy\<close>) leave no trace in a result.
\<close>

section \<open>Printing\<close>

datatype stream = Stdout | Stderr

type_synonym printed = "(stream \<times> cstring) list"

fun digits :: "nat \<Rightarrow> nat list" where
  "digits n = (if n < 10 then [n] else digits (n div 10) @ [n mod 10])"

definition digit_char :: "nat \<Rightarrow> byte" where
  "digit_char d = word_of_nat (48 + d)"

definition dec_str :: "nat \<Rightarrow> cstring" where
  "dec_str n = map digit_char (digits n)"

definition dec_int :: "int \<Rightarrow> cstring" where
  "dec_int i = (if i < 0 then 45 # dec_str (nat (- i)) else dec_str (nat i))"

text \<open>The digits of \<^verbatim>\<open>%x\<close> and \<^verbatim>\<open>%X\<close>; \<open>a\<close> is the character for ten.\<close>

definition hex_digit :: "byte \<Rightarrow> nat \<Rightarrow> byte" where
  "hex_digit a d = (if d < 10 then digit_char d else a + word_of_nat (d - 10))"

fun hex_str :: "byte \<Rightarrow> nat \<Rightarrow> cstring" where
  "hex_str a n = (if n < 16 then [hex_digit a n] else hex_str a (n div 16) @ [hex_digit a (n mod 16)])"

declare digits.simps [simp del] hex_str.simps [simp del]

text \<open>The characters of a string in an array.\<close>

definition c_chars :: "byte list \<Rightarrow> cstring option" where
  "c_chars a = do { n \<leftarrow> c_strlen a; Some (take n a) }"

text \<open>An address is stored in network order: its first byte is the lowest of the word.\<close>

definition inet_ntoa :: "u32 \<Rightarrow> cstring" where
  "inet_ntoa ip = dec_str (unat ip mod 256) @ [46] @ dec_str (unat ip div 256 mod 256) @ [46] @
     dec_str (unat ip div 65536 mod 256) @ [46] @ dec_str (unat ip div 16777216)"

text \<open>
  One number of an address: digits without a leading zero, at most 255; the rest of the text
  starts at the first other character.
\<close>

definition is_digit :: "byte \<Rightarrow> bool" where
  "is_digit c \<longleftrightarrow> 48 \<le> c \<and> c \<le> 57"

definition number_of :: "cstring \<Rightarrow> nat" where
  "number_of ds = foldl (\<lambda>n c. 10 * n + (unat c - 48)) 0 ds"

definition scan_octet :: "cstring \<Rightarrow> (nat \<times> cstring) option" where
  "scan_octet s =
     (let ds = takeWhile is_digit s
      in if ds = [] \<or> (hd ds = 48 \<and> ds \<noteq> [48]) \<or> 255 < number_of ds then None
         else Some (number_of ds, dropWhile is_digit s))"

definition scan_dot :: "cstring \<Rightarrow> cstring option" where
  "scan_dot s = (case s of [] \<Rightarrow> None | c # r \<Rightarrow> if c = 46 then Some r else None)"

text \<open>The address stored; \<^term>\<open>None\<close> when the text is none and nothing is stored.\<close>

definition inet_pton :: "cstring \<Rightarrow> u32 option" where
  "inet_pton s = do {
     (a, s) \<leftarrow> scan_octet s; s \<leftarrow> scan_dot s;
     (b, s) \<leftarrow> scan_octet s; s \<leftarrow> scan_dot s;
     (c, s) \<leftarrow> scan_octet s; s \<leftarrow> scan_dot s;
     (d, s) \<leftarrow> scan_octet s;
     if s = [] then Some (word_of_nat (a + 256 * b + 65536 * c + 16777216 * d)) else None
   }"

definition newline :: cstring where "newline = [10]"

text \<open>\<^verbatim>\<open>av[0]\<close>, for printing: a null pointer is a fault.\<close>

definition arg0 :: "cstring list \<Rightarrow> cstring option" where
  "arg0 av = (case av of [] \<Rightarrow> None | a # _ \<Rightarrow> Some a)"

section \<open>\<^verbatim>\<open>lookup.c\<close> and \<^verbatim>\<open>inverse.c\<close>\<close>

definition address_line :: "cstring \<Rightarrow> u32 \<Rightarrow> cstring" where
  "address_line host ip = host @ c_str [CHR 0x27] @ c_str ''s IP address is : '' @ inet_ntoa ip @ newline"

definition lookup_main :: "world \<Rightarrow> cstring list \<Rightarrow> (int \<times> printed \<times> world) option" where
  "lookup_main w av =
     (let (ns, w) = netbios_ns_new w
      in if length av \<noteq> 2 then do {
           a \<leftarrow> arg0 av;
           Some (1, [(Stderr, a @ c_str '' usage: '' @ a @ c_str '' NBT_NAME'' @ newline),
                     (Stderr, c_str ''Print the ip for this netbios name'' @ newline)], w)
         }
         else do {
           ns \<leftarrow> ns;
           (r, addr, ns, w) \<leftarrow> netbios_ns_resolve w ns (av ! 1) Netbios_NS.NETBIOS_FILESERVER;
           if r \<noteq> 0 then Some (- 1, [], w)
           else do {
             ip \<leftarrow> addr;
             if ip = 0 then Some (42, [(Stderr, c_str ''Unable to perform name resolution for '' @ av ! 1 @ newline)], w)
             else Some (0, [(Stdout, address_line (av ! 1) ip)], w)
           }
         })"

text \<open>The value \<^verbatim>\<open>inet_pton\<close> returns is not checked: without an address, an uninitialised one is read.\<close>

definition inverse_main :: "world \<Rightarrow> cstring list \<Rightarrow> (int \<times> printed \<times> world) option" where
  "inverse_main w av =
     (let (ns, w) = netbios_ns_new w
      in if length av \<noteq> 2 then do {
           a \<leftarrow> arg0 av;
           Some (1, [(Stderr, a @ c_str '' usage: '' @ a @ c_str '' a.b.c.d'' @ newline),
                     (Stderr, c_str ''Print the netbios name for this IP address'' @ newline)], w)
         }
         else do {
           ip \<leftarrow> inet_pton (av ! 1);
           ns \<leftarrow> ns;
           (name, ns, w) \<leftarrow> netbios_ns_inverse w ns ip;
           case name of
             None \<Rightarrow> Some (42, [(Stderr, c_str ''Unable to perform inverse name resolution for '' @ av ! 1 @ newline)], w)
           | Some nm \<Rightarrow> do { nm \<leftarrow> c_chars nm; Some (0, [(Stdout, nm @ newline)], w) }
         })"

section \<open>\<^verbatim>\<open>discover.c\<close>\<close>

text \<open>The type is a signed \<^verbatim>\<open>char\<close>, printed as an unsigned number of 32 bits.\<close>

definition print_entry :: "cstring \<Rightarrow> nat \<Rightarrow> netbios_ns_entry \<Rightarrow> cstring option" where
  "print_entry what p_opaque entry = do {
     grp \<leftarrow> netbios_ns_entry_group (Some entry);
     grp \<leftarrow> c_chars grp;
     name \<leftarrow> netbios_ns_entry_name (Some entry);
     name \<leftarrow> c_chars name;
     Some (what @ c_str ''(0x'' @ hex_str 97 p_opaque @ c_str ''): Ip: '' @ inet_ntoa (netbios_ns_entry_ip (Some entry)) @
       c_str '', name: '' @ grp @ c_str ''/'' @ name @ c_str ''<'' @
       hex_str 97 (unat (scast (netbios_ns_entry_type (Some entry)) :: u32)) @ c_str ''>'' @ newline)
   }"

definition on_entry_added :: "nat \<Rightarrow> netbios_ns_entry \<Rightarrow> cstring option" where
  "on_entry_added p_opaque entry = print_entry (c_str ''added'') p_opaque entry"

definition on_entry_removed :: "nat \<Rightarrow> netbios_ns_entry \<Rightarrow> cstring option" where
  "on_entry_removed p_opaque entry = print_entry (c_str ''removed'') p_opaque entry"

definition print_event :: "ns_event \<Rightarrow> cstring option" where
  "print_event ev = (case ev of Entry_added e \<Rightarrow> on_entry_added 0x42 e | Entry_removed e \<Rightarrow> on_entry_removed 0x42 e)"

fun print_events :: "ns_event list \<Rightarrow> printed option" where
  "print_events [] = Some []"
| "print_events (ev # evs) = do { l \<leftarrow> print_event ev; ls \<leftarrow> print_events evs; Some ((Stdout, l) # ls) }"

definition discover_banner :: printed where
  "discover_banner = [(Stdout, c_str ''Discovering...'' @ newline @ c_str ''Press Enter to quit'' @ newline)]"

text \<open>
  A run of the program, whose thread meets the worlds of \<open>env\<close>: the thread runs until a key is
  pressed, at any moment; it is then asked to stop, and the program waits for it to finish. The
  callbacks print. A fault of the thread, before or after the key, is a fault of the program.
\<close>

inductive discover_main :: "(world \<Rightarrow> bool) \<Rightarrow> world \<Rightarrow> (int \<times> printed) option \<Rightarrow> bool" for env where
  no_service: "netbios_ns_new w = (None, w') \<Longrightarrow> discover_main env w None"
| no_start: "netbios_ns_new w = (Some ns, w1) \<Longrightarrow> netbios_ns_discover_start w1 ns 4 True = (r, ns', w2) \<Longrightarrow> r \<noteq> 0 \<Longrightarrow>
    discover_main env w (Some (42, discover_banner @ [(Stderr, c_str ''Error while discovering local network'' @ newline)]))"
| fault: "netbios_ns_new w = (Some ns, w1) \<Longrightarrow> netbios_ns_discover_start w1 ns 4 True = (0, ns1, w2) \<Longrightarrow>
    discovery_run env (Outer, ns1, []) (Faulted, ns2, log) \<Longrightarrow> discover_main env w None"
| stop_fault: "netbios_ns_new w = (Some ns, w1) \<Longrightarrow> netbios_ns_discover_start w1 ns 4 True = (0, ns1, w2) \<Longrightarrow>
    discovery_run env (Outer, ns1, []) (ph, ns2, log) \<Longrightarrow>
    netbios_ns_discover_stop ns2 = (r, ns3) \<Longrightarrow>
    discovery_run env (ph, ns3, log) (Faulted, ns4, log') \<Longrightarrow> discover_main env w None"
| run: "netbios_ns_new w = (Some ns, w1) \<Longrightarrow> netbios_ns_discover_start w1 ns 4 True = (0, ns1, w2) \<Longrightarrow>
    discovery_run env (Outer, ns1, []) (ph, ns2, log) \<Longrightarrow>
    netbios_ns_discover_stop ns2 = (r, ns3) \<Longrightarrow>
    discovery_run env (ph, ns3, log) (Finished, ns4, log') \<Longrightarrow>
    discover_main env w (map_option (\<lambda>ls. (0, discover_banner @ ls)) (print_events log'))"

section \<open>\<^verbatim>\<open>dsm.c\<close>\<close>

text \<open>
  The scanner of the options is given the arguments; it returns the positive values it yields
  before it ends, the index of the first argument that is no option, and the arguments in the
  order it leaves them in. The version comes from the build.
\<close>

type_synonym getopt = "cstring list \<Rightarrow> int list \<times> nat \<times> cstring list"

definition usage_str :: "cstring \<Rightarrow> cstring" where
  "usage_str pname = c_str ''usage: '' @ pname @ c_str '' [options] host login password share file'' @ newline @
     c_str ''  -h, --help         Show this help screen.'' @ newline @
     c_str ''  -v, --version      Print the version and quit.'' @ newline"

text \<open>What follows the last slash of the program's path.\<close>

definition base_name :: "cstring \<Rightarrow> cstring" where
  "base_name path = rev (takeWhile (\<lambda>c. c \<noteq> 47) (rev path))"

definition print_usage :: "cstring \<Rightarrow> int \<Rightarrow> int \<times> printed" where
  "print_usage pname err = (err, [(Stderr, usage_str pname)])"

text \<open>The status and the output with which the program ends, or the index and the arguments. Every value ends it.\<close>

definition parse_options ::
  "getopt \<Rightarrow> cstring \<Rightarrow> cstring \<Rightarrow> cstring list \<Rightarrow> int \<times> printed + nat \<times> cstring list" where
  "parse_options getopt_long version pname argv =
     (case getopt_long argv of
        ([], optind, argv) \<Rightarrow> Inr (optind, argv)
      | (c # _, _, _) \<Rightarrow>
          (if c = 104 then Inl (print_usage pname 0)
           else if c = 118 then Inl (0, [(Stderr, c_str ''v'' @ version @ newline)])
           else Inl (- 1, [(Stderr, c_str ''unknown option, '' @ [word_of_int c] @ c_str '', in getopt_long.'' @ newline)])))"

text \<open>
  The loop over the list of shares. A name is an array that the library does not terminate:
  printing one without a NUL is a fault, as is a list without a null pointer.
\<close>

fun print_shares :: "share_list \<Rightarrow> printed option" where
  "print_shares [] = None"
| "print_shares (x # xs) =
     (case x of
        None \<Rightarrow> Some []
      | Some name \<Rightarrow> do {
          name \<leftarrow> c_chars name;
          ls \<leftarrow> print_shares xs;
          Some ((Stderr, c_str ''- '' @ name @ newline) # ls)
        })"

definition found_line :: "cstring \<Rightarrow> cstring" where
  "found_line name = c_str ''Found a file '' @ name @ c_str '' '' @ newline"

text \<open>The loop over the files found: \<open>n\<close> turns are left, from index \<open>i\<close>.\<close>

primrec print_files :: "nat \<Rightarrow> nat \<Rightarrow> smb_file list \<Rightarrow> printed option" where
  "print_files 0 i files = Some []"
| "print_files (Suc n) i files =
     (let st = smb_stat_list_at files i
      in if st = [] then Some [(Stderr, c_str ''smb_stat_list_at failed'' @ newline)]
         else do {
           name \<leftarrow> smb_stat_name st;
           ls \<leftarrow> print_files n (Suc i) files;
           Some ((Stdout, found_line name) # ls)
         })"

definition list_files :: "smb_file list \<Rightarrow> printed option" where
  "list_files files =
     (let files_count = smb_stat_list_count files
      in if files_count \<le> 0 then Some [(Stderr, c_str ''Unable to list files'' @ newline)]
         else print_files files_count 0 files)"

definition NT_STATUS_OBJECT_NAME_NOT_FOUND :: u32 where
  [dsm_consts]: "NT_STATUS_OBJECT_NAME_NOT_FOUND = 0xc0000034"

definition stat_line :: "cstring \<Rightarrow> smb_file option \<Rightarrow> u32 \<Rightarrow> cstring" where
  "stat_line fname st i_status =
     (case st of
        Some f \<Rightarrow> c_str ''File '' @ c_str [CHR 0x27] @ fname @ c_str [CHR 0x27] @ c_str '' is '' @
          dec_str (unat (smb_stat_get [f] SMB_STAT_SIZE)) @ c_str '' bytes long. is_dir: '' @
          dec_str (unat (smb_stat_get [f] SMB_STAT_ISDIR)) @ newline
      | None \<Rightarrow> c_str ''smb_fstat failed: reason: 0x'' @ hex_str 65 (unat i_status) @
          (if i_status = NT_STATUS_OBJECT_NAME_NOT_FOUND then c_str '' (file not found)'' else []) @ newline)"

text \<open>The end of the program, from the search of the share's root on.\<close>

definition dsm_files :: "world \<Rightarrow> smb_session \<Rightarrow> u16 \<Rightarrow> cstring \<Rightarrow> (printed \<times> smb_session \<times> world) option" where
  "dsm_files w s test fname = do {
     let o1 = [(Stderr, c_str ''Let'' @ c_str [CHR 0x27] @ c_str ''s find files at share'' @ c_str [CHR 0x27] @ c_str ''s root :'' @ newline)];
     (files, s, w) \<leftarrow> smb_find w s test (c_str [CHR 0x5c] @ c_str ''*'');
     o2 \<leftarrow> list_files files;
     let o3 = [(Stderr, c_str ''Query file info for path: '' @ fname @ newline)];
     (st, s, w) \<leftarrow> smb_fstat w s test fname;
     let o4 = [(Stdout, stat_line fname st (smb_session_get_nt_status s))];
     Some (o1 @ o2 @ o3 @ o4, s, w)
   }"

text \<open>The shares of the host and the connection to one of them: its tree id, or nothing when the program ends.\<close>

definition dsm_shares ::
  "world \<Rightarrow> smb_session \<Rightarrow> cstring \<Rightarrow> cstring \<Rightarrow> (u16 option \<times> printed \<times> smb_session \<times> world) option" where
  "dsm_shares w s host share = do {
     (r, share_list, _, s, w) \<leftarrow> smb_share_get_list w s;
     if r \<noteq> DSM_SUCCESS then Some (None, [(Stderr, c_str ''Unable to list share for '' @ host @ newline)], s, w)
     else do {
       let o1 = [(Stderr, c_str ''Share list : '' @ newline)];
       l \<leftarrow> share_list;
       o2 \<leftarrow> print_shares l;
       _ \<leftarrow> smb_share_list_destroy share_list;
       (ret, test, s, w) \<leftarrow> smb_tree_connect w s share;
       if ret = DSM_SUCCESS then do {
         test \<leftarrow> test;
         Some (Some test, o1 @ o2 @ [(Stderr, c_str ''Connected to '' @ share @ c_str '' share'' @ newline)], s, w)
       }
       else Some (None, o1 @ o2 @
              [(Stderr, c_str ''Unable to connect to '' @ share @ c_str '' share: '' @ dec_int ret @ newline)], s, w)
     }
   }"

definition login_line :: "cstring \<Rightarrow> cstring \<Rightarrow> smb_session \<Rightarrow> cstring" where
  "login_line host login s =
     (if smb_session_is_guest s \<noteq> 0 then c_str ''Login FAILED but we were logged in as GUEST '' @ newline
      else c_str ''Successfully logged in as '' @ host @ c_str [CHR 0x5c] @ login @ newline)"

text \<open>The connection and the login: whether the program goes on, and what it printed.\<close>

definition dsm_login ::
  "'t asn1_lib \<Rightarrow> world \<Rightarrow> smb_session \<Rightarrow> cstring \<Rightarrow> u32 \<Rightarrow> cstring \<Rightarrow> cstring \<Rightarrow> (bool \<times> printed \<times> smb_session \<times> world) option" where
  "dsm_login lib w s host ip login password = do {
     (r, s, w) \<leftarrow> smb_session_connect w s host ip SMB_TRANSPORT_TCP;
     if r \<noteq> DSM_SUCCESS then Some (False, [(Stdout, c_str ''Unable to connect to '' @ host @ newline)], s, w)
     else do {
       let o1 = [(Stdout, c_str ''Successfully connected to '' @ host @ newline)];
       let (s, w) = smb_session_set_creds w s (Some host) (Some login) (Some password);
       (r, s, w) \<leftarrow> smb_session_login lib w s;
       if r = DSM_SUCCESS then Some (True, o1 @ [(Stdout, login_line host login s)], s, w)
       else Some (False, o1 @ [(Stdout, c_str ''Authentication FAILURE.'' @ newline)], s, w)
     }
   }"

text \<open>From the session on.\<close>

definition dsm_session ::
  "'t asn1_lib \<Rightarrow> world \<Rightarrow> cstring \<Rightarrow> u32 \<Rightarrow> cstring \<Rightarrow> cstring \<Rightarrow> cstring \<Rightarrow> cstring \<Rightarrow> (int \<times> printed \<times> world) option" where
  "dsm_session lib w host ip login password share fname = do {
     let (session, w) = smb_session_new w;
     s \<leftarrow> session;
     (go, o1, s, w) \<leftarrow> dsm_login lib w s host ip login password;
     if \<not> go then Some (42, o1, w)
     else do {
       (test, o2, s, w) \<leftarrow> dsm_shares w s host share;
       case test of
         None \<Rightarrow> Some (42, o1 @ o2, w)
       | Some test \<Rightarrow> do {
           (o3, s, w) \<leftarrow> dsm_files w s test fname;
           _ \<leftarrow> smb_session_destroy s;
           Some (0, o1 @ o2 @ o3, w)
         }
     }
   }"

definition dsm_main ::
  "getopt \<Rightarrow> cstring \<Rightarrow> 't asn1_lib \<Rightarrow> world \<Rightarrow> cstring list \<Rightarrow> (int \<times> printed \<times> world) option" where
  "dsm_main getopt_long version lib w av = do {
     pname \<leftarrow> map_option base_name (arg0 av);
     case parse_options getopt_long version pname av of
       Inl (status, out) \<Rightarrow> Some (status, out, w)
     | Inr (argoffset, av) \<Rightarrow>
         (case drop argoffset av of
            [host, login, password, share, fname] \<Rightarrow> do {
              let (ns, w) = netbios_ns_new w;
              ns \<leftarrow> ns;
              (r, addr, ns, w) \<leftarrow> netbios_ns_resolve w ns host Netbios_NS.NETBIOS_FILESERVER;
              if r \<noteq> 0 then
                Some (- 1, [(Stdout, c_str ''Unable to resolve '' @ host @ c_str '' as a NetBIOS name'' @ newline)], w)
              else do {
                ip \<leftarrow> addr;
                (status, out, w) \<leftarrow> dsm_session lib w host ip login password share fname;
                Some (status, (Stdout, address_line host ip) # out, w)
              }
            }
          | _ \<Rightarrow> (let (status, out) = print_usage pname (- 1) in Some (status, out, w)))
   }"

section \<open>The text of a number and of an address\<close>

lemma digits_small: "n < 10 \<Longrightarrow> digits n = [n]"
  by (subst digits.simps) simp

lemma digits_large: "\<not> n < 10 \<Longrightarrow> digits n = digits (n div 10) @ [n mod 10]"
  by (subst digits.simps) simp

lemma digits_ok: "digits n \<noteq> [] \<and> (\<forall>d \<in> set (digits n). d < 10) \<and> (hd (digits n) = 0 \<longleftrightarrow> n = 0)"
proof (induction n rule: digits.induct)
  case (1 n)
  show ?case
  proof (cases "n < 10")
    case True
    then show ?thesis by (simp add: digits_small)
  next
    case False
    then have "n div 10 \<noteq> 0" "n mod 10 < 10" "n \<noteq> 0" by simp_all
    then show ?thesis using 1 [OF False] unfolding digits_large [OF False] by fastforce
  qed
qed

lemma digits_value: "foldl (\<lambda>n d. 10 * n + d) 0 (digits n) = n"
proof (induction n rule: digits.induct)
  case (1 n)
  then show ?case by (cases "n < 10") (simp_all add: digits_small digits_large [of n] del: div_eq_0_iff)
qed

lemma digit_char_ok:
  assumes "d < 10"
  shows "unat (digit_char d) = 48 + d" "is_digit (digit_char d)"
proof -
  show u: "unat (digit_char d) = 48 + d" using assms by (simp add: digit_char_def unat_word_ariths unat_of_nat)
  show "is_digit (digit_char d)" using assms unfolding is_digit_def word_le_nat_alt u by simp
qed

lemma dec_str_ok:
  "dec_str n \<noteq> []" "list_all is_digit (dec_str n)" "number_of (dec_str n) = n" "hd (dec_str n) = 48 \<Longrightarrow> dec_str n = [48]"
proof -
  have f: "foldl (\<lambda>n c. 10 * n + (unat c - 48)) k (map digit_char ds) = foldl (\<lambda>n d. 10 * n + d) k ds"
    if "\<forall>d \<in> set ds. d < 10" for ds k
    using that by (induction ds arbitrary: k) (simp_all add: digit_char_ok)
  have d: "digits n \<noteq> []" "\<forall>d \<in> set (digits n). d < 10" "hd (digits n) = 0 \<longleftrightarrow> n = 0" using digits_ok [of n] by simp_all
  show "dec_str n \<noteq> []" using d by (simp add: dec_str_def)
  show "list_all is_digit (dec_str n)" using d digit_char_ok(2) by (auto simp: dec_str_def list_all_iff)
  show "number_of (dec_str n) = n" using f [OF d(2), of 0] digits_value by (simp add: number_of_def dec_str_def)
  assume "hd (dec_str n) = 48"
  then have "unat (digit_char (hd (digits n))) = 48" using d(1) by (simp add: dec_str_def hd_map)
  then have "hd (digits n) = 0" using digit_char_ok(1) [of "hd (digits n)"] d(1,2) by simp
  then show "dec_str n = [48]" using d(3) by (simp add: dec_str_def digits_small digit_char_def)
qed

lemma scan_octet_dec:
  assumes "n \<le> 255" and "r = [] \<or> \<not> is_digit (hd r)"
  shows "scan_octet (dec_str n @ r) = Some (n, r)"
proof -
  have "takeWhile is_digit (dec_str n @ r) = dec_str n" "dropWhile is_digit (dec_str n @ r) = r"
    using assms(2) dec_str_ok(2) [of n] by (cases r; auto simp: list_all_iff takeWhile_append2 dropWhile_append2)+
  then show ?thesis using assms(1) dec_str_ok [of n] by (auto simp: scan_octet_def Let_def)
qed

text \<open>The text of an address is read back as that address.\<close>

lemma inet_roundtrip: "inet_pton (inet_ntoa ip) = Some ip"
proof -
  let ?n = "unat ip"
  have "?n < 2 ^ 32" using unsigned_less [of ip, where 'a = nat] by simp
  then have b: "?n div 16777216 \<le> 255" by simp
  have sum: "r0 + 256 * r1 + 65536 * r2 + 16777216 * c = n" if "256 * a + r0 = n" "256 * b + r1 = a" "256 * c + r2 = b"
    for r0 r1 r2 a b c n :: nat
    using that by simp
  have "?n mod 256 + 256 * (?n div 256 mod 256) + 65536 * (?n div 65536 mod 256) + 16777216 * (?n div 16777216) = ?n"
    using sum [OF mult_div_mod_eq mult_div_mod_eq mult_div_mod_eq, of ?n] by (simp add: div_mult2_eq [symmetric])
  then have w: "(word_of_nat (?n mod 256 + 256 * (?n div 256 mod 256) + 65536 * (?n div 65536 mod 256) + 16777216 * (?n div 16777216)) :: u32) = ip"
    by simp
  have d: "\<not> is_digit 46" by (simp add: is_digit_def)
  have m: "x mod 256 \<le> 255" for x :: nat using mod_less_divisor [of 256 x] by linarith
  show ?thesis
    using w b m by (simp add: inet_ntoa_def inet_pton_def scan_octet_dec d scan_dot_def scan_octet_dec [of _ "[]", simplified])
qed

section \<open>The programs of the name service\<close>

lemma c_chars_array: "0 \<in> set a \<Longrightarrow> c_chars a = Some (takeWhile (\<lambda>c. c \<noteq> 0) a)"
proof -
  assume "0 \<in> set a"
  then have "c_strlen a = Some (length (takeWhile (\<lambda>c. c \<noteq> 0) a))" by (induction a) auto
  then show ?thesis by (simp add: c_chars_def takeWhile_eq_take [symmetric])
qed

text \<open>
  C29 (lookup). Run with one name, \<open>lookup\<close> always ends, as long as memory lasts and every
  interface that broadcasts has an address: it sends the encoded name to the broadcast address
  of every such interface, once; it prints an address only when a datagram
  came from that very address, and reports a failure otherwise. When the first datagram to
  arrive answers the query, the address of its sender is printed and the status is 0.
\<close>

theorem lookup_program:
  assumes "mem_ok w" and "w_udp_tx w = []" and "trn = fst (c_rand w) + 1" and "ifaddrs_ok w"
  shows "wp (lookup_main w [prog, name]) (\<lambda>(status, out, w').
      w_udp_sent w' = w_udp_sent w @ map (\<lambda>ip. (ip, resolve_query trn name Netbios_NS.NETBIOS_FILESERVER)) (w_broadcast w) \<and>
      (status = - 1 \<and> out = [] \<or>
       (\<exists>ip bs. Udp_data ip bs \<in> set (w_udp_rx w) \<and> 12 \<le> length bs \<and>
          (if ip = 0 then status = 42 \<and> out = [(Stderr, c_str ''Unable to perform name resolution for '' @ name @ [10])]
           else status = 0 \<and> out = [(Stdout, address_line name ip)])))) \<and>
     (\<forall>ip bs es. w_udp_rx w = Udp_data ip bs # es \<and> ip \<noteq> 0 \<and> nb_answer trn bs \<longrightarrow>
        wp (lookup_main w [prog, name]) (\<lambda>(status, out, w'). status = 0 \<and> out = [(Stdout, address_line name ip)]))"
proof -
  obtain ns w1 where n: "netbios_ns_new w = (Some ns, w1)" "n_last_trn_id ns = fst (c_rand w)"
    and ns: "\<not> n_discover_started ns" "n_entries ns = []" "length (n_buffer ns) = 1500" "n_abort ns = Pipe_open False"
      "mem_ok w1" "w_udp_tx w1 = w_udp_tx w" and w1: "w_udp_rx w1 = w_udp_rx w" "w_udp_sent w1 = w_udp_sent w" and ifs: "w_ifaddrs w1 = w_ifaddrs w"
    using ns_new_ok [OF assms(1)] by blast
  have e: "list_all (\<lambda>e. \<not> entry_named e) (n_entries ns)" and t: "w_udp_tx w1 = []" using ns assms(2) by simp_all
  have f: "ifaddrs_ok w1" "w_broadcast w1 = w_broadcast w" using broadcast_cong [OF ifs] assms(4) by simp_all
  have id: "n_last_trn_id ns + 1 = trn" using n(2) assms(3) by simp
  note ans = ns_resolve_answer [OF ns(1) e ns(3,4) t ns(5) f(1), of name Netbios_NS.NETBIOS_FILESERVER, unfolded id w1 f(2)]
  note fst = ns_resolve_first [OF ns(1) e ns(3,4) t ns(5) f(1), of _ _ _ name Netbios_NS.NETBIOS_FILESERVER, unfolded id w1 f(2)]
  have run: "lookup_main w [prog, name] = Option.bind (netbios_ns_resolve w1 ns name Netbios_NS.NETBIOS_FILESERVER) (\<lambda>(r, addr, ns, w).
      if r \<noteq> 0 then Some (- 1, [], w)
      else do { ip \<leftarrow> addr;
        if ip = 0 then Some (42, [(Stderr, c_str ''Unable to perform name resolution for '' @ name @ [10])], w)
        else Some (0, [(Stdout, address_line name ip)], w) })"
    by (simp add: lookup_main_def n(1) newline_def cong: if_cong)
  show ?thesis
    using ans fst by (auto simp: run wp_iff) blast+
qed

text \<open>Interfaces: one that is down, the loopback, one with an address of another family, and one that broadcasts.\<close>

definition sample_ifaddrs :: "ifaddrs list" where
  "sample_ifaddrs = [\<lparr>ifa_flags = 2, ifa_family = None, ifa_broadaddr = None\<rparr>,
     \<lparr>ifa_flags = 1, ifa_family = Some 2, ifa_broadaddr = None\<rparr>,
     \<lparr>ifa_flags = 3, ifa_family = Some 10, ifa_broadaddr = None\<rparr>,
     \<lparr>ifa_flags = 3, ifa_family = Some 2, ifa_broadaddr = Some 0xff\<rparr>]"

lemma sample_ifaddrs_ok: "addrs_ok sample_ifaddrs" "broadcast_addrs sample_ifaddrs = [0xff]"
  by code_simp+

theorem lookup_program_witness:
  "wp (lookup_main (sample_world\<lparr>w_ifaddrs := Some sample_ifaddrs, w_udp_rx := [Udp_data 0x0101a8c0 sample_nb_answer]\<rparr>) [[108], [65, 66]])
     (\<lambda>(status, out, w'). status = 0 \<and> out = [(Stdout, address_line [65, 66] 0x0101a8c0)] \<and> map fst (w_udp_sent w') = [0xff])"
proof -
  let ?w = "sample_world\<lparr>w_ifaddrs := Some sample_ifaddrs, w_udp_rx := [Udp_data 0x0101a8c0 sample_nb_answer]\<rparr>"
  have "mem_ok ?w" "w_udp_tx ?w = []" "1 = fst (c_rand ?w) + 1" "ifaddrs_ok ?w"
    using sample_ifaddrs_ok by (simp_all add: sample_world_def mem_ok_def c_rand_def ifaddrs_ok_def)
  note l = lookup_program [OF this, of "[108]" "[65, 66]"]
  have "w_udp_rx ?w = Udp_data 0x0101a8c0 sample_nb_answer # []" by simp
  with l sample_nb_answer_ok have "wp (lookup_main ?w [[108], [65, 66]]) (\<lambda>(status, out, w'). status = 0 \<and> out = [(Stdout, address_line [65, 66] 0x0101a8c0)])"
    by fastforce
  with conjunct1 [OF l] show ?thesis
    using sample_ifaddrs_ok by (auto simp: wp_iff sample_world_def w_broadcast_def)
qed

text \<open>
  C30 (inverse). Given the text of an address, in the form \<open>lookup\<close> prints it, \<open>inverse\<close> always
  ends, as long as memory lasts: it sends one status query, to that address; it prints a name,
  of at most 15 characters, only when a datagram came from there, and reports a failure
  otherwise. Datagrams from elsewhere, and those from there without a whole header or with
  another transaction id, are passed over. When the first other one is a status answer, the
  name of its file server is printed, without trailing blanks; when it is an answer to a name
  query, with the id of the query, the program gives up. The address 0.0.0.0 fails an
  assertion.
\<close>

theorem inverse_program:
  assumes "mem_ok w" and "w_udp_tx w = []" and "trn = fst (c_rand w) + 1"
  shows "if ip = 0 then inverse_main w [prog, inet_ntoa ip] = None
     else wp (inverse_main w [prog, inet_ntoa ip]) (\<lambda>(status, out, w').
      w_udp_sent w' = w_udp_sent w @ [(ip, status_query trn)] \<and>
      (status = 42 \<and> out = [(Stderr, c_str ''Unable to perform inverse name resolution for '' @ inet_ntoa ip @ [10])] \<or>
       status = 0 \<and> (\<exists>nm bs. out = [(Stdout, nm @ [10])] \<and> length nm \<le> 15 \<and> 0 \<notin> set nm \<and>
          Udp_data ip bs \<in> set (w_udp_rx w) \<and> 12 \<le> length bs)) \<and>
      (\<forall>pre bs es. w_udp_rx w = pre @ Udp_data ip bs # es \<and> list_all (passed_over trn ip) pre \<longrightarrow>
         (\<forall>p g. nbstat_answer trn bs p g \<longrightarrow>
            status = 0 \<and> out = [(Stdout, takeWhile (\<lambda>c. c \<noteq> 0) (stored_name bs p) @ [10])]) \<and>
         (nb_answer trn bs \<longrightarrow>
            status = 42 \<and> out = [(Stderr, c_str ''Unable to perform inverse name resolution for '' @ inet_ntoa ip @ [10])])))"
proof -
  obtain ns w1 where n: "netbios_ns_new w = (Some ns, w1)" "n_last_trn_id ns = fst (c_rand w)"
    and ns: "\<not> n_discover_started ns" "n_entries ns = []" "length (n_buffer ns) = 1500" "n_abort ns = Pipe_open False"
      "mem_ok w1" "w_udp_tx w1 = w_udp_tx w" and w1: "w_udp_rx w1 = w_udp_rx w" "w_udp_sent w1 = w_udp_sent w"
    using ns_new_ok [OF assms(1)] by blast
  have t: "w_udp_tx w1 = []" and id: "n_last_trn_id ns + 1 = trn" using ns n(2) assms(2,3) by simp_all
  have run: "inverse_main w [prog, inet_ntoa ip] = Option.bind (netbios_ns_inverse w1 ns ip) (\<lambda>(name, ns, w).
      case name of
        None \<Rightarrow> Some (42, [(Stderr, c_str ''Unable to perform inverse name resolution for '' @ inet_ntoa ip @ [10])], w)
      | Some nm \<Rightarrow> do { nm \<leftarrow> c_chars nm; Some (0, [(Stdout, nm @ [10])], w) })"
    by (simp add: inverse_main_def n(1) newline_def inet_roundtrip cong: if_cong option.case_cong)
  show ?thesis
  proof (cases "ip = 0")
    case True
    then show ?thesis using run by (simp add: netbios_ns_inverse_def)
  next
    case False
    note ans = ns_inverse_answer [OF ns(1-4) t ns(5) False, unfolded id w1]
    obtain a ns' w' where r: "netbios_ns_inverse w1 ns ip = Some (a, ns', w')"
      and sent: "w_udp_sent w' = w_udp_sent w @ [(ip, status_query trn)]"
      and a: "\<And>x. a = Some x \<Longrightarrow> length x = 16 \<and> x ! 15 = 0 \<and> (\<exists>bs. Udp_data ip bs \<in> set (w_udp_rx w) \<and> 12 \<le> length bs)"
      using ans by (auto simp: wp_iff)
    have chars: "c_chars x = Some (takeWhile (\<lambda>c. c \<noteq> 0) x)" "length (takeWhile (\<lambda>c. c \<noteq> 0) x) \<le> 15" if "a = Some x" for x
    proof -
      have x: "length x = 16" "0 \<in> set x" using a [OF that] nth_mem [of 15 x] by simp_all
      then show "c_chars x = Some (takeWhile (\<lambda>c. c \<noteq> 0) x)" by (simp add: c_chars_array)
      have "takeWhile (\<lambda>c. c \<noteq> 0) x \<noteq> x" using x(2) by (auto simp: takeWhile_eq_all_conv)
      then have "length (takeWhile (\<lambda>c. c \<noteq> 0) x) \<noteq> length x" by (metis takeWhile_eq_take take_all order_refl)
      then show "length (takeWhile (\<lambda>c. c \<noteq> 0) x) \<le> 15" using length_takeWhile_le [of "\<lambda>c. c \<noteq> 0" x] x(1) by simp
    qed
    have "0 \<notin> set (takeWhile (\<lambda>c. c \<noteq> 0) x)" for x :: "byte list" by (auto dest: set_takeWhileD)
    moreover have "a = Some (stored_name bs p)"
      if "w_udp_rx w = pre @ Udp_data ip bs # es" "list_all (passed_over trn ip) pre" "nbstat_answer trn bs p g" for pre bs es p g
      using ns_inverse_first [OF ns(1-4) t ns(5) False, unfolded id w1, OF that] r by auto
    moreover have "a = None"
      if "w_udp_rx w = pre @ Udp_data ip bs # es" "list_all (passed_over trn ip) pre" "nb_answer trn bs" for pre bs es
      using ns_inverse_other [OF ns(1-4) t ns(5) False, unfolded id w1, OF that] r by auto
    ultimately show ?thesis
      using False sent a chars by (cases a) (simp_all add: run r, blast+)
  qed
qed

theorem inverse_program_witness:
  "wp (inverse_main (sample_world\<lparr>w_udp_rx := [Udp_data 9 sample_nbstat_answer, Udp_data 0x0101a8c0 [0, 1],
       Udp_data 0x0101a8c0 sample_nbstat_answer]\<rparr>) [[105], inet_ntoa 0x0101a8c0])
     (\<lambda>(status, out, w'). status = 0 \<and> out = [(Stdout, [65, 66, 10])] \<and> w_udp_sent w' = [(0x0101a8c0, status_query 1)])"
proof -
  define pre where "pre = [Udp_data 9 sample_nbstat_answer, Udp_data 0x0101a8c0 [0, 1]]"
  define w where "w = sample_world\<lparr>w_udp_rx := pre @ Udp_data 0x0101a8c0 sample_nbstat_answer # []\<rparr>"
  have w: "mem_ok w" "w_udp_tx w = []" "1 = fst (c_rand w) + 1" "w_udp_sent w = []"
    "w_udp_rx w = pre @ Udp_data 0x0101a8c0 sample_nbstat_answer # []" "list_all (passed_over 1 0x0101a8c0) pre"
    by (simp_all add: w_def pre_def sample_world_def mem_ok_def c_rand_def passed_over_def)
  have ne: "\<not> (0x0101a8c0 :: u32) = 0" by simp
  note i = iffD1 [OF if_not_P [OF ne] inverse_program [OF w(1-3), of "0x0101a8c0" "[105]"]]
  have "wp (inverse_main w [[105], inet_ntoa 0x0101a8c0]) (\<lambda>(status, out, w'). status = 0 \<and>
     out = [(Stdout, takeWhile (\<lambda>c. c \<noteq> 0) (stored_name sample_nbstat_answer 57) @ [10])] \<and>
     w_udp_sent w' = w_udp_sent w @ [(0x0101a8c0, status_query 1)])"
    by (rule wp_mono [OF i]) (use w(5,6) sample_nbstat_answer_ok(1) in blast)
  then show ?thesis using sample_nbstat_answer_ok(2) w(4) by (simp add: w_def pre_def)
qed

text \<open>The line printed for a callback.\<close>

definition array_text :: "byte list \<Rightarrow> cstring" where
  "array_text a = takeWhile (\<lambda>c. c \<noteq> 0) a"

definition entry_line :: "cstring \<Rightarrow> netbios_ns_entry \<Rightarrow> cstring" where
  "entry_line what e = what @ c_str ''(0x42): Ip: '' @ inet_ntoa (e_address e) @ c_str '', name: '' @ array_text (e_group e) @
     c_str ''/'' @ array_text (e_name e) @ c_str ''<'' @ hex_str 97 (unat (scast (e_type e) :: u32)) @ c_str ''>'' @ [10]"

definition event_line :: "ns_event \<Rightarrow> stream \<times> cstring" where
  "event_line ev = (Stdout, case ev of Entry_added e \<Rightarrow> entry_line (c_str ''added'') e | Entry_removed e \<Rightarrow> entry_line (c_str ''removed'') e)"

lemma entry_chars:
  assumes "entry_ok e"
  shows "c_chars (e_name e) = Some (array_text (e_name e))" "c_chars (e_group e) = Some (array_text (e_group e))"
  using assms nth_mem [of 15 "e_name e"] nth_mem [of 15 "e_group e"]
  by (simp_all add: entry_ok_def array_text_def c_chars_array)

lemma print_entry_ok:
  assumes "entry_ok e"
  shows "print_entry what 0x42 e = Some (entry_line what e)"
proof -
  have "hex_str 97 0x42 = c_str ''42''" by code_simp
  then have "c_str ''(0x'' @ hex_str 97 0x42 @ c_str ''): Ip: '' = c_str ''(0x42): Ip: ''" by (simp add: c_str_def)
  then show ?thesis
    using entry_chars [OF assms]
    by (simp add: print_entry_def entry_line_def netbios_ns_entry_group_def netbios_ns_entry_name_def netbios_ns_entry_ip_def
        netbios_ns_entry_type_def newline_def append_assoc [symmetric] del: append_assoc)
qed

lemma print_events_ok: "callbacks S log = Some T \<Longrightarrow> print_events log = Some (map event_line log)"
  by (induction S log rule: callbacks.induct)
    (auto simp: print_event_def on_entry_added_def on_entry_removed_def print_entry_ok event_line_def split: if_splits)

lemma discover_nb_started: "discover_nb w ns ip now = Some (ph, evs, ns', w') \<Longrightarrow> n_discover_started ns' = n_discover_started ns"
  by (auto simp: discover_nb_def netbios_ns_entry_add_def Let_def ns_sent_def
      split: bind_splits option.splits prod.splits if_splits dest!: send_name_query_keeps)

lemma discover_nbstat_started:
  "discover_nbstat w ns ip nm grp t now = Some (ph, evs, ns', w') \<Longrightarrow> n_discover_started ns' = n_discover_started ns"
  by (auto simp: discover_nbstat_def Let_def split: bind_splits option.splits)

lemma discover_step_started:
  assumes "netbios_ns_discover_thread w (ph, ns, log) (ph', ns', log')" and inv: "discovery_inv S ns log"
  shows "n_discover_started ns' = n_discover_started ns"
  using assms(1)
proof (rule discover_stepE)
  fix ph1 evs ns1 w'
  assume c: "(ph', ns', log') = (ph1, ns1, log @ evs)" "discover_outer w ns = Some (ph1, evs, ns1, w')"
  then show ?thesis
    by (auto simp: discover_outer_def Let_def ns_sent_def split: bind_splits prod.splits if_splits dest!: send_name_query_keeps)
next
  fix ph1 evs ns2 w'
  assume c: "(ph', ns', log') = (ph1, ns2, log @ evs)" "discover_inner w ns = Some (ph1, evs, ns2, w')"
  have "ns_ok ns" using inv by (simp add: discovery_inv_def)
  then have "\<exists>r ipo out ns1 w1. netbios_ns_recv w ns (n_broadcast_timeout ns \<noteq> 0) False 0 True = Some (r, ipo, out, ns1, w1) \<and> ns_keeps ns ns1"
    by (rule netbios_ns_recv_ok) blast
  then obtain r ipo out ns1 w1 where rc: "netbios_ns_recv w ns (n_broadcast_timeout ns \<noteq> 0) False 0 True = Some (r, ipo, out, ns1, w1)"
    and k: "n_discover_started ns1 = n_discover_started ns" by (auto simp: ns_keeps_fields)
  show ?thesis
    using c k
    by (auto simp: discover_inner_def rc Let_def discover_nb_started discover_nbstat_started
        split: if_splits prod.splits option.splits netbios_ns_name_query.splits bind_splits)
qed (auto simp: netbios_ns_abort_def)

text \<open>A run of the thread on the service a program has made and started.\<close>

lemma discover_run_inv:
  assumes "netbios_ns_new w = (Some ns, w1)" and "netbios_ns_discover_start w1 ns 4 True = (0, ns1, w2)"
    and "discovery_run env (Outer, ns1, []) (ph, ns2, log)"
  shows "discovery_inv {} ns2 log \<and> n_discover_started ns2"
  using assms(3)
proof (induction rule: discovery_run_induct)
  case start
  then show ?case
    using discovery_start_inv [OF assms(2)] discover_start_shape(4) [OF assms(2)] ns_new_shape [OF assms(1)]
    by (simp add: named_addresses_def)
next
  case (step w ph ns log ph' ns' log')
  then show ?case using discover_step_started [OF step.hyps(3)] discovery_inv_step [OF step.hyps(3)] by blast
qed

text \<open>The state in which the key leaves the thread: it finishes in one step, in any world, and does not fault.\<close>

lemma stopped_run:
  assumes "discovery_inv S ns log" and "netbios_ns_discover_stop ns = (r, ns3)" and "n_discover_started ns"
  shows "discovery_inv S ns3 log" "n_abort ns3 = Pipe_open True"
  using assms
  by (auto simp: netbios_ns_discover_stop_def netbios_ns_abort_def discovery_inv_def ns_ok_def
      netbios_abort_ctx_abort_def split: if_splits netbios_abort_ctx.splits)

lemma stopped_no_fault:
  assumes "discovery_run env (ph, ns, log) (ph', ns', log')" and "n_abort ns = Pipe_open True" and "ph \<noteq> Faulted"
  shows "ph' \<noteq> Faulted"
proof -
  have "ph' \<noteq> Faulted \<and> n_abort ns' = Pipe_open True"
    using assms(1)
  proof (induction rule: discovery_run_induct)
    case (step w ph ns log ph' ns' log')
    note d = discover_aborted [of ns]
    show ?case using step.hyps(3)
      by (rule discover_stepE) (use step.IH d in \<open>auto simp: netbios_ns_abort_def netbios_abort_ctx_abort_def\<close>)
  qed (use assms in simp)
  then show ?thesis by simp
qed

text \<open>
  What makes the thread fault at its first turn: an interface that broadcasts and has no
  address, and no memory for the query.
\<close>

lemma broadcast_loop_faults: "\<not> addrs_ok as \<Longrightarrow> netbios_ns_broadcast_loop w ns q as = None"
proof (induction as arbitrary: w ns)
  case (Cons a as)
  show ?case
  proof (cases "broadcasts a \<and> ifa_family a = None")
    case False
    then have "\<not> addrs_ok as" using Cons.prems by (auto simp: addrs_ok_def)
    note ih = Cons.IH [OF this]
    then show ?thesis by (auto simp: ih split: bind_splits option.splits)
  qed (use broadcast_null_address in blast)
qed (simp add: addrs_ok_def)

lemma c_time_alloc: "c_time w = (now, w') \<Longrightarrow> alloc_ok w' n = alloc_ok w n"
  by (auto simp: c_time_def alloc_ok_def split: list.splits)

lemma no_query_memory:
  assumes "\<not> alloc_ok w 24"
  shows "make_name_query w ns query_type_nb name 0 = None"
proof -
  have "netbios_query_new w (34 + 4) True NETBIOS_OP_NAME_QUERY = Some (None, alloc_tick w)"
    using assms by (simp add: netbios_query_new_def c_calloc_def)
  then show ?thesis by (simp add: make_name_query_def netbios_query_append_def)
qed

lemma outer_faults:
  assumes "n_abort ns = Pipe_open False" and "mem_ok w \<and> \<not> ifaddrs_ok w \<or> \<not> alloc_ok w 24"
  shows "discover_outer w ns = None"
proof -
  obtain now w1 where t: "c_time w = (now, w1)" by fastforce
  obtain kept evs where x: "expire_entries now (sint (5 * n_broadcast_timeout ns)) (n_entries ns) = (kept, evs)" by fastforce
  have w1: "mem_ok w1 \<and> \<not> ifaddrs_ok w1 \<or> \<not> alloc_ok w1 24"
    using assms(2) c_time_keeps [OF t] c_time_alloc [OF t] by simp
  have "netbios_ns_send_name_query w1 (ns\<lparr>n_entries := kept\<rparr>) 0 NAME_QUERY_TYPE_NB name_query_broadcast 0 = None"
  proof (cases "alloc_ok w1 24")
    case False
    then show ?thesis by (simp add: netbios_ns_send_name_query_def no_query_memory)
  next
    case True
    then have m: "mem_ok w1" and i: "\<not> ifaddrs_ok w1" using w1 by simp_all
    obtain q w2 where q: "make_name_query w1 (ns\<lparr>n_entries := kept\<rparr>) query_type_nb name_query_broadcast 0 = Some (q, w2)" "calm w1 w2"
      using make_name_query_ok [OF m length_broadcast_name] by (auto simp: wp_iff) blast
    have "w_ifaddrs w2 = w_ifaddrs w1" using same_io_fields(15) [OF calm_fields(2) [OF q(2)]] .
    then have "netbios_ns_broadcast_packet w2 (ns\<lparr>n_entries := kept\<rparr>) q = None"
      using i by (auto simp: netbios_ns_broadcast_packet_def ifaddrs_ok_def broadcast_loop_faults)
    then show ?thesis by (simp add: netbios_ns_send_name_query_def q(1))
  qed
  then show ?thesis using assms(1) by (simp add: discover_outer_def netbios_abort_ctx_is_aborted_def t x)
qed

text \<open>
  C31 (discover). Whatever the network and the clock do, and whenever the key is pressed: the
  program ends with the banner and an error, status 42, or, with status 0, with the banner and
  one line for each callback, in the order of the callbacks, in which an address is announced
  only when it is not announced and withdrawn only when it is. It faults only when it has no
  name service, or when the thread meets a world in which memory runs out or an interface
  that broadcasts has no address; when the first turn meets such an interface, or no memory for
  its query, it can fault. A key pressed at any moment ends it: a run in which nothing more is
  printed exists from every state of the thread before a fault, and after the key there is no
  fault.
\<close>

theorem discover_program:
  "(\<forall>res. discover_main env w res \<longrightarrow>
      (case res of
         None \<Rightarrow> fst (netbios_ns_new w) = None \<or> \<not> fair_env env
       | Some (status, out) \<Rightarrow>
           status = 42 \<and> out = discover_banner @ [(Stderr, c_str ''Error while discovering local network'' @ [10])] \<or>
           status = 0 \<and> (\<exists>log. out = discover_banner @ map event_line log \<and> callbacks {} log \<noteq> None))) \<and>
   (\<forall>ns w1 ns1 w2. netbios_ns_new w = (Some ns, w1) \<and> netbios_ns_discover_start w1 ns 4 True = (0, ns1, w2) \<longrightarrow>
      (\<forall>ph ns2 log v. discovery_run env (Outer, ns1, []) (ph, ns2, log) \<and> ph \<noteq> Faulted \<and> env v \<longrightarrow>
         discover_main env w (Some (0, discover_banner @ map event_line log)) \<and>
         (\<forall>r ns3 ph' ns4 log'. netbios_ns_discover_stop ns2 = (r, ns3) \<and>
            discovery_run env (ph, ns3, log) (ph', ns4, log') \<longrightarrow> ph' \<noteq> Faulted)) \<and>
      (\<forall>v. env v \<and> n_abort ns = Pipe_open False \<and> (mem_ok v \<and> \<not> ifaddrs_ok v \<or> \<not> alloc_ok v 24) \<longrightarrow> discover_main env w None))"
proof (intro conjI allI impI)
  fix res
  assume "discover_main env w res"
  then show "case res of
         None \<Rightarrow> fst (netbios_ns_new w) = None \<or> \<not> fair_env env
       | Some (status, out) \<Rightarrow>
           status = 42 \<and> out = discover_banner @ [(Stderr, c_str ''Error while discovering local network'' @ [10])] \<or>
           status = 0 \<and> (\<exists>log. out = discover_banner @ map event_line log \<and> callbacks {} log \<noteq> None)"
  proof cases
    case (fault ns w1 ns1 w2 ns2 log)
    have "discovery_inv {} ns1 []" using discover_run_inv [OF fault(2,3) discovery_run_refl] by simp
    then show ?thesis using discovery_never_faults [OF fault(4)] fault(1) by auto
  next
    case (stop_fault ns w1 ns1 w2 ph ns2 log r ns3 ns4 log')
    note i = discover_run_inv [OF stop_fault(2-4)]
    have "ph = Faulted" using stopped_no_fault [OF stop_fault(6)] stopped_run(2) [OF _ stop_fault(5)] i by blast
    moreover have "discovery_inv {} ns1 []" using discover_run_inv [OF stop_fault(2,3) discovery_run_refl] by simp
    ultimately show ?thesis using discovery_never_faults [OF stop_fault(4)] stop_fault(1) by auto
  next
    case (run ns w1 ns1 w2 ph ns2 log r ns3 ns4 log')
    have "discovery_inv {} ns3 log" using stopped_run(1) [OF _ run(5)] discover_run_inv [OF run(2-4)] by blast
    then have "discovery_inv {} ns4 log'" using discovery_inv_reachable [OF run(6)] by simp
    then have cb: "callbacks {} log' = Some (named_addresses (n_entries ns4))" by (simp add: discovery_inv_def)
    show ?thesis using cb print_events_ok [OF cb] run(1) by auto
  qed (simp_all add: newline_def)
next
  fix ns w1 ns1 w2 ph ns2 log v
  assume a: "netbios_ns_new w = (Some ns, w1) \<and> netbios_ns_discover_start w1 ns 4 True = (0, ns1, w2)"
    and b: "discovery_run env (Outer, ns1, []) (ph, ns2, log) \<and> ph \<noteq> Faulted \<and> env v"
  then have i: "discovery_inv {} ns2 log" "n_discover_started ns2" using discover_run_inv by blast+
  obtain ns3 where stop: "netbios_ns_discover_stop ns2 = (0, ns3)" using i(2) by (simp add: netbios_ns_discover_stop_def)
  note s = stopped_run [OF i(1) stop i(2)]
  note d = discover_aborted [OF s(2)]
  have "discovery_run env (ph, ns3, log) (Finished, ns3, log)"
    using netbios_ns_discover_thread.outer [OF d(1)] netbios_ns_discover_thread.inner [OF d(2)] b
    by (cases ph) (auto intro: discovery_run_step [where env = env and w = v, OF _ _ discovery_run_refl])
  from discover_main.run [OF _ _ _ stop this, of w ns w1 ns1 w2] a b
  show "discover_main env w (Some (0, discover_banner @ map event_line log))"
    using print_events_ok i(1) by (fastforce simp: discovery_inv_def)
  show "ph' \<noteq> Faulted"
    if "netbios_ns_discover_stop ns2 = (r, ns3) \<and> discovery_run env (ph, ns3, log) (ph', ns4, log')" for r ns3 ph' ns4 log'
    using stopped_no_fault [of env ph ns3 log] stopped_run(2) [OF i(1) _ i(2)] that b by blast
next
  fix ns w1 ns1 w2 v
  assume a: "netbios_ns_new w = (Some ns, w1) \<and> netbios_ns_discover_start w1 ns 4 True = (0, ns1, w2)"
    and b: "env v \<and> n_abort ns = Pipe_open False \<and> (mem_ok v \<and> \<not> ifaddrs_ok v \<or> \<not> alloc_ok v 24)"
  then have "discover_outer v ns1 = None" using discover_start_shape(3) [of w1 ns 4 True ns1 w2] by (intro outer_faults) auto
  then have "netbios_ns_discover_thread v (Outer, ns1, []) (Faulted, ns1, [])" by (rule netbios_ns_discover_thread.outer_fault)
  then have "discovery_run env (Outer, ns1, []) (Faulted, ns1, [])"
    using b discovery_run_step [where env = env and w = v] discovery_run_refl by blast
  then show "discover_main env w None" using a discover_main.fault [of w ns w1 ns1 w2 env] by blast
qed

text \<open>A world with an interface that broadcasts and has no address.\<close>

definition null_ifaddr :: ifaddrs where
  "null_ifaddr = \<lparr>ifa_flags = 3, ifa_family = None, ifa_broadaddr = None\<rparr>"

theorem discover_program_witness:
  "discover_main (\<lambda>_. True) sample_world (Some (0, discover_banner)) \<and> discover_main (\<lambda>_. True) sample_world None \<and>
   \<not> discover_main (\<lambda>v. mem_ok v \<and> ifaddrs_ok v) sample_world None"
proof -
  obtain ns w1 where n: "netbios_ns_new sample_world = (Some ns, w1)" "\<not> n_discover_started ns" "mem_ok w1" "n_abort ns = Pipe_open False"
    using ns_new_ok [OF sample_world_mem] by metis
  then have s: "netbios_ns_discover_start w1 ns 4 True =
      (0, ns\<lparr>n_broadcast_timeout := 4, n_discover_started := True\<rparr>, alloc_tick w1)"
    by (simp add: netbios_ns_discover_start_def)
  let ?v = "sample_world\<lparr>w_ifaddrs := Some [null_ifaddr]\<rparr>"
  have v: "mem_ok ?v" "\<not> ifaddrs_ok ?v"
    by (simp_all add: sample_world_def mem_ok_def ifaddrs_ok_def addrs_ok_def null_ifaddr_def broadcasts_def IFF_BROADCAST_def IFF_UP_def)
  note p = conjunct2 [OF discover_program [of "\<lambda>_. True" sample_world], rule_format, OF conjI [OF n(1) s]]
  have "discover_main (\<lambda>_. True) sample_world (Some (0, discover_banner @ map event_line []))"
    by (rule conjunct1 [OF conjunct1 [OF p, rule_format, of Outer _ "[]"]]) (rule conjI, rule discovery_run_refl, simp)
  moreover have "discover_main (\<lambda>_. True) sample_world None"
    by (rule conjunct2 [OF p, rule_format, of ?v]) (use n v in simp)
  moreover have "\<not> discover_main (\<lambda>v. mem_ok v \<and> ifaddrs_ok v) sample_world None"
    using conjunct1 [OF discover_program [of "\<lambda>v. mem_ok v \<and> ifaddrs_ok v" sample_world], rule_format, of None] n(1)
    by (auto simp: fair_env_def)
  ultimately show ?thesis by simp
qed

section \<open>The client\<close>

lemma c_chars_eq: "c_chars a = (if 0 \<in> set a then Some (array_text a) else None)"
proof (cases "0 \<in> set a")
  case False
  then have "c_strlen a = None" by (induction a) auto
  then show ?thesis using False by (simp add: c_chars_def)
qed (simp add: c_chars_array array_text_def)

text \<open>A list of shares that ends with a null pointer, with terminated names before it, and what is printed of it.\<close>

definition listed :: "share_list \<Rightarrow> byte list list \<Rightarrow> bool" where
  "listed l names \<longleftrightarrow> (\<exists>rest. l = map Some names @ None # rest) \<and> list_all (\<lambda>nm. 0 \<in> set nm) names"

definition share_lines :: "byte list list \<Rightarrow> printed" where
  "share_lines names = map (\<lambda>nm. (Stderr, c_str ''- '' @ array_text nm @ [10])) names"

lemma listed_simps [simp]:
  "listed (None # l) names \<longleftrightarrow> names = []"
  "listed (Some nm # l) names \<longleftrightarrow> (\<exists>ns. names = nm # ns \<and> 0 \<in> set nm \<and> listed l ns)"
  "\<not> listed [] names"
  by (cases names; auto simp: listed_def)+

lemma listed_unique: "listed l names \<Longrightarrow> listed l names' \<Longrightarrow> names' = names"
proof (induction l arbitrary: names names')
  case (Cons x l)
  then show ?case by (cases x) auto
qed simp

lemma print_shares_listed: "listed l names \<Longrightarrow> print_shares l = Some (share_lines names)"
proof (induction l arbitrary: names)
  case (Cons x l)
  then show ?case by (cases x) (auto simp: share_lines_def c_chars_eq newline_def)
qed simp

lemma print_shares_unlisted: "\<forall>names. \<not> listed l names \<Longrightarrow> print_shares l = None"
proof (induction l)
  case (Cons x l)
  then show ?case by (cases x) (auto simp: c_chars_eq)
qed simp

lemma destroy_listed: "listed l names \<Longrightarrow> \<exists>freed. smb_share_list_destroy (Some l) = Some freed"
proof -
  have "listed l names \<Longrightarrow> \<exists>n. smb_share_list_count_from l = Some n"
  proof (induction l arbitrary: names)
    case (Cons x l)
    then show ?case by (cases x) auto
  qed simp
  then show "listed l names \<Longrightarrow> \<exists>freed. smb_share_list_destroy (Some l) = Some freed" by (auto simp: smb_share_list_destroy_def)
qed

text \<open>The loop by index visits every file once, in order.\<close>

definition file_lines :: "smb_file list \<Rightarrow> printed" where
  "file_lines files = (if files = [] then [(Stderr, c_str ''Unable to list files'' @ [10])]
     else map (\<lambda>f. (Stdout, found_line (the (f_name f)))) files)"

lemma print_files_ok:
  "i + n = length files \<Longrightarrow> print_files n i files = Some out \<longleftrightarrow>
     list_all (\<lambda>f. f_name f \<noteq> None) (drop i files) \<and> out = map (\<lambda>f. (Stdout, found_line (the (f_name f)))) (drop i files)"
proof (induction n arbitrary: i out)
  case (Suc n)
  then have i: "drop i files = files ! i # drop (Suc i) files" by (simp add: Cons_nth_drop_Suc)
  then have "smb_stat_list_at files i = files ! i # drop (Suc i) files" by (simp add: smb_stat_list_at_def stat_at_loop_eq)
  then show ?case using Suc.IH [of "Suc i"] Suc.prems i by (auto simp: smb_stat_name_def Let_def split: bind_splits) blast
qed auto

lemma list_files_eq:
  "list_files files = (if list_all (\<lambda>f. f_name f \<noteq> None) files then Some (file_lines files) else None)"
proof (cases "list_files files")
  case None
  then show ?thesis
    using print_files_ok [of 0 "length files" files]
    by (auto simp: list_files_def file_lines_def smb_stat_list_count_def stat_count_loop_eq Let_def split: if_splits)
next
  case (Some out)
  then show ?thesis
    using print_files_ok [of 0 "length files" files out]
    by (auto simp: list_files_def file_lines_def newline_def smb_stat_list_count_def stat_count_loop_eq Let_def split: if_splits)
qed

text \<open>
  The calls of a run, each in the world and on the session the one before left: the
  session made, connected and given the credentials; logged in; the shares listed; and the
  share connected.
\<close>

definition dsm_connected ::
  "cstring \<Rightarrow> u32 \<Rightarrow> cstring \<Rightarrow> cstring \<Rightarrow> world \<Rightarrow> smb_session \<Rightarrow> world \<Rightarrow> bool" where
  "dsm_connected host ip login password w s w' \<longleftrightarrow> (\<exists>s0 w0 s1 w1.
     smb_session_new w = (Some s0, w0) \<and>
     smb_session_connect w0 s0 host ip SMB_TRANSPORT_TCP = Some (DSM_SUCCESS, s1, w1) \<and>
     smb_session_set_creds w1 s1 (Some host) (Some login) (Some password) = (s, w'))"

definition dsm_logged ::
  "'t asn1_lib \<Rightarrow> cstring \<Rightarrow> u32 \<Rightarrow> cstring \<Rightarrow> cstring \<Rightarrow> world \<Rightarrow> smb_session \<Rightarrow> world \<Rightarrow> bool" where
  "dsm_logged lib host ip login password w s w' \<longleftrightarrow> (\<exists>s1 w1.
     dsm_connected host ip login password w s1 w1 \<and> smb_session_login lib w1 s1 = Some (DSM_SUCCESS, s, w'))"

definition dsm_listed ::
  "'t asn1_lib \<Rightarrow> cstring \<Rightarrow> u32 \<Rightarrow> cstring \<Rightarrow> cstring \<Rightarrow> world \<Rightarrow> printed \<Rightarrow> smb_session \<Rightarrow> world \<Rightarrow> bool" where
  "dsm_listed lib host ip login password w out s w' \<longleftrightarrow> (\<exists>s1 w1 l c names.
     dsm_logged lib host ip login password w s1 w1 \<and> smb_share_get_list w1 s1 = Some (DSM_SUCCESS, Some l, c, s, w') \<and>
     listed l names \<and>
     out = [(Stdout, c_str ''Successfully connected to '' @ host @ [10]), (Stdout, login_line host login s1),
       (Stderr, c_str ''Share list : '' @ [10])] @ share_lines names)"

text \<open>
  How a run ends, from the session on: with status 42 when a call fails, or with status 0 after
  the search of the share's root and the query of the file, either of which may fail, which is
  said. Nothing else is printed, on either stream.
\<close>

inductive dsm_outcome ::
  "'t asn1_lib \<Rightarrow> cstring \<Rightarrow> u32 \<Rightarrow> cstring \<Rightarrow> cstring \<Rightarrow> cstring \<Rightarrow> cstring \<Rightarrow> world \<Rightarrow> int \<Rightarrow> printed \<Rightarrow> world \<Rightarrow> bool"
  for lib host ip login password share fname w where
  refused: "smb_session_new w = (Some s0, w0) \<Longrightarrow> smb_session_connect w0 s0 host ip SMB_TRANSPORT_TCP = Some (r, s, w') \<Longrightarrow>
    r \<noteq> DSM_SUCCESS \<Longrightarrow>
    dsm_outcome lib host ip login password share fname w 42 [(Stdout, c_str ''Unable to connect to '' @ host @ [10])] w'"
| denied: "dsm_connected host ip login password w s1 w1 \<Longrightarrow> smb_session_login lib w1 s1 = Some (r, s, w') \<Longrightarrow>
    r \<noteq> DSM_SUCCESS \<Longrightarrow>
    dsm_outcome lib host ip login password share fname w 42
      [(Stdout, c_str ''Successfully connected to '' @ host @ [10]), (Stdout, c_str ''Authentication FAILURE.'' @ [10])] w'"
| no_list: "dsm_logged lib host ip login password w s1 w1 \<Longrightarrow> smb_share_get_list w1 s1 = Some (r, l, c, s, w') \<Longrightarrow>
    r \<noteq> DSM_SUCCESS \<Longrightarrow>
    dsm_outcome lib host ip login password share fname w 42
      [(Stdout, c_str ''Successfully connected to '' @ host @ [10]), (Stdout, login_line host login s1),
       (Stderr, c_str ''Unable to list share for '' @ host @ [10])] w'"
| no_share: "dsm_listed lib host ip login password w out s1 w1 \<Longrightarrow> smb_tree_connect w1 s1 share = Some (r, tid, s, w') \<Longrightarrow>
    r \<noteq> DSM_SUCCESS \<Longrightarrow>
    dsm_outcome lib host ip login password share fname w 42
      (out @ [(Stderr, c_str ''Unable to connect to '' @ share @ c_str '' share: '' @ dec_int r @ [10])]) w'"
| complete: "dsm_listed lib host ip login password w out s1 w1 \<Longrightarrow>
    smb_tree_connect w1 s1 share = Some (DSM_SUCCESS, Some tid, s2, w2) \<Longrightarrow>
    smb_find w2 s2 tid (c_str [CHR 0x5c] @ c_str ''*'') = Some (files, s3, w3) \<Longrightarrow> list_all (\<lambda>f. f_name f \<noteq> None) files \<Longrightarrow>
    smb_fstat w3 s3 tid fname = Some (st, s, w') \<Longrightarrow>
    dsm_outcome lib host ip login password share fname w 0
      (out @ [(Stderr, c_str ''Connected to '' @ share @ c_str '' share'' @ [10]),
        (Stderr, c_str ''Let'' @ c_str [CHR 0x27] @ c_str ''s find files at share'' @ c_str [CHR 0x27] @ c_str ''s root :'' @ [10])] @
       file_lines files @
       [(Stderr, c_str ''Query file info for path: '' @ fname @ [10]), (Stdout, stat_line fname st (nt_status s))]) w'"

lemma dsm_files_iff:
  "dsm_files w s test fname = Some (out, s', w') \<longleftrightarrow>
    (\<exists>files s1 w1 st. smb_find w s test (c_str [CHR 0x5c] @ c_str ''*'') = Some (files, s1, w1) \<and>
       list_all (\<lambda>f. f_name f \<noteq> None) files \<and> smb_fstat w1 s1 test fname = Some (st, s', w') \<and>
       out = [(Stderr, c_str ''Let'' @ c_str [CHR 0x27] @ c_str ''s find files at share'' @ c_str [CHR 0x27] @ c_str ''s root :'' @ [10])] @
         file_lines files @
         [(Stderr, c_str ''Query file info for path: '' @ fname @ [10]), (Stdout, stat_line fname st (nt_status s'))])"
  by (auto simp: dsm_files_def smb_session_get_nt_status_def newline_def list_files_eq split: bind_splits if_splits)

text \<open>The output of the part of the program that lists the shares and connects to one.\<close>

lemma dsm_shares_iff:
  "dsm_shares w s host share = Some (test, out, s', w') \<longleftrightarrow>
    (\<exists>r l c. smb_share_get_list w s = Some (r, l, c, s', w') \<and> r \<noteq> DSM_SUCCESS \<and> test = None \<and>
       out = [(Stderr, c_str ''Unable to list share for '' @ host @ [10])]) \<or>
    (\<exists>l c s1 w1 names r tid. smb_share_get_list w s = Some (DSM_SUCCESS, Some l, c, s1, w1) \<and> listed l names \<and>
       smb_tree_connect w1 s1 share = Some (r, tid, s', w') \<and>
       (if r = DSM_SUCCESS then tid \<noteq> None \<and> test = tid \<and>
          out = (Stderr, c_str ''Share list : '' @ [10]) # share_lines names @ [(Stderr, c_str ''Connected to '' @ share @ c_str '' share'' @ [10])]
        else test = None \<and> out = (Stderr, c_str ''Share list : '' @ [10]) # share_lines names @
          [(Stderr, c_str ''Unable to connect to '' @ share @ c_str '' share: '' @ dec_int r @ [10])]))"
proof (cases "smb_share_get_list w s")
  case (Some x)
  obtain r lo c s1 w1 where x: "smb_share_get_list w s = Some (r, lo, c, s1, w1)" using Some by (cases x) simp
  show ?thesis
  proof (cases "r = DSM_SUCCESS")
    case True
    show ?thesis
    proof (cases "\<exists>l names. lo = Some l \<and> listed l names")
      case yes: True
      then obtain l names where l: "lo = Some l" "listed l names" by blast
      have u: "listed l n \<longleftrightarrow> n = names" for n using l(2) listed_unique by blast
      obtain freed where d: "smb_share_list_destroy (Some l) = Some freed" using destroy_listed [OF l(2)] by blast
      show ?thesis
        unfolding dsm_shares_def x True l(1)
        by (cases "smb_tree_connect w1 s1 share") (auto simp: print_shares_listed [OF l(2)] u d newline_def Let_def split: bind_splits if_splits)
    next
      case False
      then have "lo = Some l \<Longrightarrow> print_shares l = None" for l using print_shares_unlisted by blast
      then show ?thesis using False unfolding dsm_shares_def x True by (cases lo) auto
    qed
  next
    case False
    then show ?thesis unfolding dsm_shares_def x by (auto simp: newline_def)
  qed
qed (simp add: dsm_shares_def)

lemma outcome_session:
  assumes "dsm_listed lib host ip login password w out s1 w1" and "smb_tree_connect w1 s1 share = Some (DSM_SUCCESS, Some tid, s2, w2)"
    and "smb_find w2 s2 tid p = Some (files, s3, w3)" and "smb_fstat w3 s3 tid fname = Some (st, s, w')" and "asn1_clean lib"
  shows "smb_session_destroy s \<noteq> None"
proof -
  obtain s0 wa s4 wb s5 wc s6 wd l c where n: "smb_session_new w = (Some s0, wa)"
    and k: "smb_session_connect wa s0 host ip SMB_TRANSPORT_TCP = Some (DSM_SUCCESS, s4, wb)"
      "smb_session_set_creds wb s4 (Some host) (Some login) (Some password) = (s5, wc)"
      "smb_session_login lib wc s5 = Some (DSM_SUCCESS, s6, wd)" "smb_share_get_list wd s6 = Some (DSM_SUCCESS, Some l, c, s1, w1)"
    using assms(1) unfolding dsm_listed_def dsm_logged_def dsm_connected_def by blast
  have "(session_call lib)\<^sup>*\<^sup>* s0 s"
    using session_call.connect [OF k(1), of lib] session_call.set_creds [OF k(2), of lib] session_call.login [OF k(3)]
      session_call.share_list [OF k(4), of lib] session_call.tree_connect [OF assms(2), of lib] session_call.find [OF assms(3), of lib]
      session_call.fstat [OF assms(4), of lib]
    by (meson rtranclp.rtrancl_into_rtrancl rtranclp.rtrancl_refl)
  then have "session_wf s" using calls_keep [OF _ assms(5)] new_session_wf [OF n] by (auto simp: session_keeps_def)
  then show ?thesis by (auto simp: session_wf_def transport_ok_def smb_session_destroy_def)
qed

lemma dsm_login_iff:
  "dsm_login lib w s host ip login password = Some (go, out, s', w') \<longleftrightarrow>
    (\<exists>r. smb_session_connect w s host ip SMB_TRANSPORT_TCP = Some (r, s', w') \<and> r \<noteq> DSM_SUCCESS \<and> \<not> go \<and>
       out = [(Stdout, c_str ''Unable to connect to '' @ host @ [10])]) \<or>
    (\<exists>s1 w1 s2 w2 r. smb_session_connect w s host ip SMB_TRANSPORT_TCP = Some (DSM_SUCCESS, s1, w1) \<and>
       smb_session_set_creds w1 s1 (Some host) (Some login) (Some password) = (s2, w2) \<and>
       smb_session_login lib w2 s2 = Some (r, s', w') \<and> go = (r = DSM_SUCCESS) \<and>
       out = [(Stdout, c_str ''Successfully connected to '' @ host @ [10]),
         (Stdout, if r = DSM_SUCCESS then login_line host login s' else c_str ''Authentication FAILURE.'' @ [10])])"
  by (auto simp: dsm_login_def newline_def Let_def split: bind_splits if_splits prod.splits)

lemma dsm_session_outcome:
  assumes "dsm_session lib w host ip login password share fname = Some (status, out, w')"
  shows "dsm_outcome lib host ip login password share fname w status out w'"
proof -
  obtain s0 w1 where new: "smb_session_new w = (Some s0, w1)"
    using assms by (auto simp: dsm_session_def split: bind_splits prod.splits)
  obtain go o1 s3 w4 where lg: "dsm_login lib w1 s0 host ip login password = Some (go, o1, s3, w4)"
    using assms new by (auto simp: dsm_session_def split: bind_splits)
  show ?thesis
  proof (cases go)
    case False
    then have st: "status = 42" "out = o1" "w' = w4" using assms new lg by (auto simp: dsm_session_def)
    consider r where "smb_session_connect w1 s0 host ip SMB_TRANSPORT_TCP = Some (r, s3, w4)" "r \<noteq> DSM_SUCCESS"
        "o1 = [(Stdout, c_str ''Unable to connect to '' @ host @ [10])]"
      | s1 w2 r where "dsm_connected host ip login password w s1 w2" "smb_session_login lib w2 s1 = Some (r, s3, w4)" "r \<noteq> DSM_SUCCESS"
        "o1 = [(Stdout, c_str ''Successfully connected to '' @ host @ [10]), (Stdout, c_str ''Authentication FAILURE.'' @ [10])]"
      using lg False new unfolding dsm_login_iff dsm_connected_def by auto
    then show ?thesis
    proof cases
      case 1
      then show ?thesis using dsm_outcome.refused [OF new] st by simp
    next
      case 2
      then show ?thesis using dsm_outcome.denied [OF 2(1,2)] st by simp
    qed
  next
    case go: True
    then have log: "dsm_logged lib host ip login password w s3 w4"
      and o1: "o1 = [(Stdout, c_str ''Successfully connected to '' @ host @ [10]), (Stdout, login_line host login s3)]"
      using lg new by (auto simp: dsm_login_iff dsm_logged_def dsm_connected_def)
    obtain test o2 s5 w6 where sh: "dsm_shares w4 s3 host share = Some (test, o2, s5, w6)"
      using assms new lg go by (auto simp: dsm_session_def split: bind_splits)
    show ?thesis
    proof (cases test)
      case None
      then have r: "status = 42 \<and> out = o1 @ o2 \<and> w' = w6" using assms new lg go sh by (auto simp: dsm_session_def)
      show ?thesis
        using sh None log o1 r dsm_outcome.no_list [OF log]
          dsm_outcome.no_share [of lib host ip login password w]
        by (auto simp: dsm_shares_iff dsm_listed_def split: if_splits) fastforce
    next
      case (Some tid)
      obtain o3 s7 w8 where f: "dsm_files w6 s5 tid fname = Some (o3, s7, w8)" and r: "status = 0" "out = o1 @ o2 @ o3" "w' = w8"
        using assms new lg go sh Some by (auto simp: dsm_session_def split: bind_splits)
      obtain l c s4 w5 names where t: "smb_share_get_list w4 s3 = Some (DSM_SUCCESS, Some l, c, s4, w5)" "listed l names"
        "smb_tree_connect w5 s4 share = Some (DSM_SUCCESS, Some tid, s5, w6)"
        "o2 = (Stderr, c_str ''Share list : '' @ [10]) # share_lines names @ [(Stderr, c_str ''Connected to '' @ share @ c_str '' share'' @ [10])]"
        using sh Some by (auto simp: dsm_shares_iff split: if_splits)
      have "dsm_listed lib host ip login password w (o1 @ (Stderr, c_str ''Share list : '' @ [10]) # share_lines names) s4 w5"
        using log t(1,2) o1 by (auto simp: dsm_listed_def)
      from dsm_outcome.complete [OF this t(3)] f r t(4) show ?thesis by (auto simp: dsm_files_iff)
    qed
  qed
qed

lemma outcome_dsm_session:
  assumes "dsm_outcome lib host ip login password share fname w status out w'" and "asn1_clean lib"
  shows "dsm_session lib w host ip login password share fname = Some (status, out, w')"
  using assms(1)
proof cases
  case (refused s0 w0 r s)
  have "dsm_login lib w0 s0 host ip login password = Some (False, out, s, w')" using refused by (auto simp: dsm_login_iff)
  then show ?thesis using refused by (simp add: dsm_session_def)
next
  case (denied s1 w1 r s)
  obtain s0 w0 where n: "smb_session_new w = (Some s0, w0)" "dsm_login lib w0 s0 host ip login password = Some (False, out, s, w')"
    using denied by (auto simp: dsm_login_iff dsm_connected_def)
  then show ?thesis using denied by (simp add: dsm_session_def)
next
  case (no_list s1 w1 r l c s)
  obtain s0 w0 where n: "smb_session_new w = (Some s0, w0)" "dsm_login lib w0 s0 host ip login password =
      Some (True, [(Stdout, c_str ''Successfully connected to '' @ host @ [10]), (Stdout, login_line host login s1)], s1, w1)"
    using no_list(3) by (auto simp: dsm_login_iff dsm_logged_def dsm_connected_def)
  have "dsm_shares w1 s1 host share = Some (None, [(Stderr, c_str ''Unable to list share for '' @ host @ [10])], s, w')"
    using no_list by (auto simp: dsm_shares_iff)
  then show ?thesis using n no_list by (simp add: dsm_session_def)
next
  case (no_share o1 s1 w1 r tid s)
  obtain s0 w0 sa wa l c names where n: "smb_session_new w = (Some s0, w0)" "dsm_login lib w0 s0 host ip login password =
      Some (True, [(Stdout, c_str ''Successfully connected to '' @ host @ [10]), (Stdout, login_line host login sa)], sa, wa)"
    "smb_share_get_list wa sa = Some (DSM_SUCCESS, Some l, c, s1, w1)" "listed l names"
    "o1 = [(Stdout, c_str ''Successfully connected to '' @ host @ [10]), (Stdout, login_line host login sa),
       (Stderr, c_str ''Share list : '' @ [10])] @ share_lines names"
    using no_share(3) by (auto simp: dsm_login_iff dsm_listed_def dsm_logged_def dsm_connected_def)
  have "dsm_shares wa sa host share = Some (None, (Stderr, c_str ''Share list : '' @ [10]) # share_lines names @
      [(Stderr, c_str ''Unable to connect to '' @ share @ c_str '' share: '' @ dec_int r @ [10])], s, w')"
    using n no_share by (auto simp: dsm_shares_iff)
  then show ?thesis using n no_share by (simp add: dsm_session_def)
next
  case (complete o1 s1 w1 tid s2 w2 files s3 w3 st s)
  obtain s0 w0 sa wa l c names where n: "smb_session_new w = (Some s0, w0)" "dsm_login lib w0 s0 host ip login password =
      Some (True, [(Stdout, c_str ''Successfully connected to '' @ host @ [10]), (Stdout, login_line host login sa)], sa, wa)"
    "smb_share_get_list wa sa = Some (DSM_SUCCESS, Some l, c, s1, w1)" "listed l names"
    "o1 = [(Stdout, c_str ''Successfully connected to '' @ host @ [10]), (Stdout, login_line host login sa),
       (Stderr, c_str ''Share list : '' @ [10])] @ share_lines names"
    using complete(3) by (auto simp: dsm_login_iff dsm_listed_def dsm_logged_def dsm_connected_def)
  have sh: "dsm_shares wa sa host share = Some (Some tid, (Stderr, c_str ''Share list : '' @ [10]) # share_lines names @
      [(Stderr, c_str ''Connected to '' @ share @ c_str '' share'' @ [10])], s2, w2)"
    using n complete(4) by (auto simp: dsm_shares_iff)
  obtain o3 where f: "dsm_files w2 s2 tid fname = Some (o3, s, w')"
    "o3 = [(Stderr, c_str ''Let'' @ c_str [CHR 0x27] @ c_str ''s find files at share'' @ c_str [CHR 0x27] @ c_str ''s root :'' @ [10])] @
         file_lines files @
         [(Stderr, c_str ''Query file info for path: '' @ fname @ [10]), (Stdout, stat_line fname st (nt_status s))]"
    using complete(5-7) by (auto simp: dsm_files_iff)
  obtain freed where "smb_session_destroy s = Some freed" using outcome_session [OF complete(3,4,5,7) assms(2)] by auto
  then show ?thesis using n sh f complete(1,2) by (simp add: dsm_session_def)
qed

definition unresolved_line :: "cstring \<Rightarrow> cstring" where
  "unresolved_line host = c_str ''Unable to resolve '' @ host @ c_str '' as a NetBIOS name'' @ [10]"

lemma dsm_main_run:
  assumes "getopt_long av = ([], i, av')" and "drop i av' = [host, login, password, share, fname]" and "av \<noteq> []"
    and "netbios_ns_new w = (Some ns, w1)"
  shows "dsm_main getopt_long version lib w av = Option.bind (netbios_ns_resolve w1 ns host Netbios_NS.NETBIOS_FILESERVER) (\<lambda>(r, addr, ns, w).
     if r \<noteq> 0 then Some (- 1, [(Stdout, unresolved_line host)], w)
     else do {
       ip \<leftarrow> addr;
       (status, out, w) \<leftarrow> dsm_session lib w host ip login password share fname;
       Some (status, (Stdout, address_line host ip) # out, w)
     })"
  using assms by (cases av) (simp_all add: dsm_main_def arg0_def parse_options_def unresolved_line_def newline_def cong: if_cong)

text \<open>
  C12 (client). Run with five arguments and no option, as long as memory lasts for the name
  lookup and every interface that broadcasts has an address, \<open>dsm\<close> makes a name service and
  looks the host up. When that fails, as it does when no datagram comes in, it says so and ends
  with status -1. Otherwise the address is that of the sender of a datagram; it is printed, and
  in the world the lookup left the run ends in exactly one of these ways, with exactly this
  output on both streams, or faults where one of the calls faults or hands out a name that is
  not terminated: the session cannot be connected, or the login fails, or the shares cannot be
  listed, or the share cannot be connected, each with status 42 and a line that says it; or,
  after all these calls succeeded, each in the world and on the session the one before left,
  with status 0, the lines of the files found in the root of the share, each once and in the
  order of the search, or one that says that there are none, and the answer to the query of the
  file, or the reason it failed.
\<close>

theorem dsm_program:
  assumes "getopt_long av = ([], i, av')" and "drop i av' = [host, login, password, share, fname]" and "av \<noteq> []"
    and "mem_ok w" and "w_udp_tx w = []" and "asn1_clean lib" and "ifaddrs_ok w"
  shows "\<exists>ns w1 r addr ns' w2. netbios_ns_new w = (Some ns, w1) \<and>
     netbios_ns_resolve w1 ns host Netbios_NS.NETBIOS_FILESERVER = Some (r, addr, ns', w2) \<and>
     (if r \<noteq> 0 then dsm_main getopt_long version lib w av = Some (- 1, [(Stdout, unresolved_line host)], w2)
      else \<exists>ip bs. addr = Some ip \<and> Udp_data ip bs \<in> set (w_udp_rx w) \<and>
        (\<forall>status out w'. dsm_main getopt_long version lib w av = Some (status, out, w') \<longleftrightarrow>
           (\<exists>lines. out = (Stdout, address_line host ip) # lines \<and>
              dsm_outcome lib host ip login password share fname w2 status lines w')))"
proof -
  obtain ns w1 where n: "netbios_ns_new w = (Some ns, w1)"
    and ns: "\<not> n_discover_started ns" "n_entries ns = []" "length (n_buffer ns) = 1500" "n_abort ns = Pipe_open False"
      "mem_ok w1" "w_udp_tx w1 = w_udp_tx w" and w1: "w_udp_rx w1 = w_udp_rx w" and ifs: "w_ifaddrs w1 = w_ifaddrs w"
    using ns_new_ok [OF assms(4)] by blast
  have e: "list_all (\<lambda>e. \<not> entry_named e) (n_entries ns)" and t: "w_udp_tx w1 = []" using ns assms(5) by simp_all
  have f: "ifaddrs_ok w1" using broadcast_cong(2) [OF ifs] assms(7) by simp
  note run = dsm_main_run [of getopt_long av, OF assms(1-3) n, of version lib]
  obtain r ipo ns' w' where res: "netbios_ns_resolve w1 ns host Netbios_NS.NETBIOS_FILESERVER = Some (r, ipo, ns', w')"
    and ok: "r = - 1 \<and> ipo = None \<or> r = 0 \<and> (\<exists>ip bs. ipo = Some ip \<and> Udp_data ip bs \<in> set (w_udp_rx w) \<and> 12 \<le> length bs)"
    using ns_resolve_answer [OF ns(1) e ns(3,4) t ns(5) f, of host Netbios_NS.NETBIOS_FILESERVER] w1 by (auto simp: wp_iff) blast
  show ?thesis
  proof (cases "r = 0")
    case True
    then obtain ip bs where ip: "ipo = Some ip" "Udp_data ip bs \<in> set (w_udp_rx w)" using ok by auto
    have iff: "dsm_session lib w' host ip login password share fname = Some (status, out, w'') \<longleftrightarrow>
        dsm_outcome lib host ip login password share fname w' status out w''" for status out w''
      by (rule iffI) (erule dsm_session_outcome, erule outcome_dsm_session [OF _ assms(6)])
    have "dsm_main getopt_long version lib w av = Some (status, out, w'') \<longleftrightarrow>
       (\<exists>lines. out = (Stdout, address_line host ip) # lines \<and> dsm_outcome lib host ip login password share fname w' status lines w'')"
      for status out w''
      by (auto simp: run res True ip(1) iff [symmetric] split: bind_splits)
    then show ?thesis using n res True ip by auto
  next
    case False
    then show ?thesis using n res by (auto simp: run)
  qed
qed

lemma connect_no_socket:
  assumes "mem_ok w" and "w_conn w = []"
  shows "\<exists>s0 w0 s w'. smb_session_new w = (Some s0, w0) \<and>
     smb_session_connect w0 s0 host ip SMB_TRANSPORT_TCP = Some (DSM_ERROR_NETWORK, s, w')"
  using assms
  by (simp add: smb_session_new_def smb_transport_new_session_def netbios_session_new_def c_calloc_def c_malloc_def mem_ok_alloc
      mem_ok_tick netbios_abort_ctx_init_def dsm_consts smb_session_connect_def session_disconnect_def new_transport_def zero_session_def
      smb_transport_tcp_def transport_connect_tcp_def netbios_session_connect_def open_socket_and_connect_def connect_error_def
      same_io_fields(8) [OF same_io_tick] del: upt_rec_numeral)

theorem dsm_program_witness:
  "(\<exists>w'. dsm_main (\<lambda>av. ([], 1, av)) [49] sample_asn1 sample_world [[100], [72], [85], [80], [83], [70]] =
      Some (- 1, [(Stdout, unresolved_line [72])], w')) \<and>
   (\<exists>w'. dsm_main (\<lambda>av. ([], 1, av)) [49] sample_asn1 (sample_world\<lparr>w_udp_rx := [Udp_data 0x0101a8c0 sample_nb_answer]\<rparr>)
      [[100], [72], [85], [80], [83], [70]] =
      Some (42, [(Stdout, address_line [72] 0x0101a8c0), (Stdout, c_str ''Unable to connect to H'' @ [10])], w'))"
proof -
  let ?av = "[[100], [72], [85], [80], [83], [70]] :: cstring list"
  let ?w = "sample_world\<lparr>w_udp_rx := [Udp_data 0x0101a8c0 sample_nb_answer]\<rparr>"
  have g: "(\<lambda>av. ([], 1, av)) ?av = ([], 1, ?av)" "drop 1 ?av = [[72], [85], [80], [83], [70]]" "?av \<noteq> []" by simp_all
  have lib: "asn1_clean sample_asn1" by (simp add: asn1_clean_def sample_asn1_def dsm_consts)
  have w: "mem_ok sample_world" "w_udp_tx sample_world = []" "ifaddrs_ok sample_world"
    "mem_ok ?w" "w_udp_tx ?w = []" "ifaddrs_ok ?w"
    by (simp_all add: sample_world_def mem_ok_def ifaddrs_ok_def addrs_ok_def)
  note silent = dsm_program [of "\<lambda>av. ([], 1, av)" ?av, OF g w(1,2) lib w(3), of "[49]"]
  note answered = dsm_program [of "\<lambda>av. ([], 1, av)" ?av, OF g w(4,5) lib w(6), of "[49]"]
  have un: "\<exists>w'. dsm_main (\<lambda>av. ([], 1, av)) [49] sample_asn1 sample_world ?av = Some (- 1, [(Stdout, unresolved_line [72])], w')"
    using silent by (auto simp: sample_world_def split: if_splits)
  obtain ns w1 where n: "netbios_ns_new ?w = (Some ns, w1)" "n_last_trn_id ns = fst (c_rand ?w)" "\<not> n_discover_started ns"
      "n_entries ns = []" "length (n_buffer ns) = 1500" "n_abort ns = Pipe_open False" "mem_ok w1" "w_udp_tx w1 = w_udp_tx ?w"
      "w_udp_rx w1 = w_udp_rx ?w" "w_ifaddrs w1 = w_ifaddrs ?w" "w_conn w1 = w_conn ?w"
    using ns_new_ok [OF w(4)] by metis
  have w1: "w_udp_tx w1 = []" "ifaddrs_ok w1" "w_udp_rx w1 = Udp_data 0x0101a8c0 sample_nb_answer # []" "w_conn w1 = []"
    "list_all (\<lambda>e. \<not> entry_named e) (n_entries ns)" "n_last_trn_id ns + 1 = 1"
    using n broadcast_cong(2) [OF n(10)] w by (simp_all add: sample_world_def c_rand_def)
  obtain ns' w2 where r: "netbios_ns_resolve w1 ns [72] Netbios_NS.NETBIOS_FILESERVER = Some (0, Some 0x0101a8c0, ns', w2)"
      "mem_ok w2" "w_conn w2 = []"
    using ns_resolve_first [OF n(3) w1(5) n(5,6) w1(1) n(7) w1(2,3), of "[72]" Netbios_NS.NETBIOS_FILESERVER] sample_nb_answer_ok w1(4,6) by auto
  obtain s0 w0 s w' where c: "smb_session_new w2 = (Some s0, w0)"
      "smb_session_connect w0 s0 [72] 0x0101a8c0 SMB_TRANSPORT_TCP = Some (DSM_ERROR_NETWORK, s, w')"
    using connect_no_socket [OF r(2,3)] by blast
  have "dsm_outcome sample_asn1 [72] 0x0101a8c0 [85] [80] [83] [70] w2 42 [(Stdout, c_str ''Unable to connect to '' @ [72] @ [10])] w'"
    by (rule dsm_outcome.refused [OF c]) (simp add: dsm_consts)
  then have "dsm_main (\<lambda>av. ([], 1, av)) [49] sample_asn1 ?w ?av = Some (42, [(Stdout, address_line [72] 0x0101a8c0),
      (Stdout, c_str ''Unable to connect to '' @ [72] @ [10])], w')"
    using answered n(1) r(1) by simp
  then show ?thesis using un by (simp add: c_str_def)
qed

text \<open>With any other number of arguments the usage is shown, and nothing else happens.\<close>

lemma dsm_usage:
  assumes "getopt_long (prog # av) = ([], i, av')" and "length av' - i \<noteq> 5"
  shows "dsm_main getopt_long version lib w (prog # av) = Some (- 1, [(Stderr, usage_str (base_name prog))], w)"
proof -
  have "length (drop i av') \<noteq> 5" using assms(2) by simp
  then show ?thesis
    using assms(1) by (auto simp: dsm_main_def arg0_def parse_options_def print_usage_def simp del: length_drop split: list.split)
qed

end
