(* ===== verification/Examples.thy ===== *)
theory Examples
  imports Programs
begin

text \<open>
  The two examples of the documentation, \<^verbatim>\<open>www/source/c/example1.c\<close> (read a file of a share) and
  \<^verbatim>\<open>www/source/c/example2.c\<close> (watch the network), as programs on the library's model.
\<close>

section \<open>Reading a file\<close>

text \<open>
  The 12 bytes read are printed as a string, whatever \<^verbatim>\<open>smb_fread\<close> returned: bytes it did not
  store are those the array happened to hold. The identifiers are tested for zero as well as
  the results.
\<close>

definition example1_print ::
  "world \<Rightarrow> smb_session \<Rightarrow> u16 \<Rightarrow> u32 \<Rightarrow> printed \<Rightarrow> (int \<times> printed \<times> world) option" where
  "example1_print w s tid fd out = do {
     let buffer = map (w_junk w) [0..<12];
     (_, buffer, s, w) \<leftarrow> smb_fread w s fd (Some buffer) 12;
     buffer \<leftarrow> buffer;
     shown \<leftarrow> c_chars buffer;
     (s, w) \<leftarrow> smb_fclose w s fd;
     (_, s, w) \<leftarrow> smb_tree_disconnect w s tid;
     _ \<leftarrow> smb_session_destroy s;
     Some (0, out @ [(Stdout, shown @ newline)], w)
   }"

definition example1_open :: "world \<Rightarrow> smb_session \<Rightarrow> printed \<Rightarrow> (int \<times> printed \<times> world) option" where
  "example1_open w s out = do {
     (result, tid, s, w) \<leftarrow> smb_tree_connect w s (c_str ''sharedfolder'');
     if result \<noteq> 0 \<or> tid = Some 0 then Some (4, out @ [(Stdout, c_str ''Unable to connect to share'' @ newline)], w)
     else do {
       tid \<leftarrow> tid;
       (result, fd, s, w) \<leftarrow> smb_fopen w s tid (c_str [CHR 0x5c] @ c_str ''helloworld.txt'') SMB_MOD_READ;
       if result \<noteq> 0 \<or> fd = Some 0 then Some (5, out @ [(Stdout, c_str ''Unable to open file'' @ newline)], w)
       else do { fd \<leftarrow> fd; example1_print w s tid fd out }
     }
   }"

definition example1_main :: "'t asn1_lib \<Rightarrow> world \<Rightarrow> (int \<times> printed \<times> world) option" where
  "example1_main lib w =
     (let (session, w) = smb_session_new w
      in case session of
           None \<Rightarrow> Some (1, [], w)
         | Some s \<Rightarrow> do {
             addr \<leftarrow> inet_pton (c_str ''127.0.0.1'');
             (r, s, w) \<leftarrow> smb_session_connect w s (c_str ''EXAMPLE-PC'') addr SMB_TRANSPORT_TCP;
             if r \<noteq> 0 then Some (2, [(Stdout, c_str ''Unable to connect to host'' @ newline)], w)
             else do {
               let (s, w) = smb_session_set_creds w s (Some (c_str ''EXAMPLE-PC'')) (Some (c_str ''EXAMPLE-USER''))
                              (Some (c_str ''EXAMPLE-PASSWORD''));
               (result, s, w) \<leftarrow> smb_session_login lib w s;
               if result \<noteq> 0 then Some (3, [(Stdout, c_str ''Auth failed'' @ newline)], w)
               else example1_open w s
                      [(Stdout, (if smb_session_is_guest s \<noteq> 0 then c_str ''Logged in as GUEST '' else c_str ''Successfully logged in'') @ newline)]
             }
           })"

text \<open>A file whose first 12 bytes have no NUL: the array is printed past its end.\<close>

lemma example1_unterminated:
  assumes "smb_fread w s fd (Some (map (w_junk w) [0..<12])) 12 = Some (n, Some shown, s', w')" and "0 \<notin> set shown"
  shows "example1_print w s tid fd out = None"
proof -
  have "c_strlen shown = None" using assms(2) by (induction shown) auto
  then show ?thesis using assms(1) by (simp add: example1_print_def c_chars_def)
qed

section \<open>Watching the network\<close>

text \<open>The test of the result is negated: \<^verbatim>\<open>netbios_ns_discover_start\<close> returns 0 on success.\<close>

inductive example2_main :: "world \<Rightarrow> (int \<times> printed) option \<Rightarrow> bool" where
  no_service: "netbios_ns_new w = (None, w') \<Longrightarrow> example2_main w None"
| started: "netbios_ns_new w = (Some ns, w1) \<Longrightarrow> netbios_ns_discover_start w1 ns 4 True = (0, ns', w2) \<Longrightarrow>
    example2_main w (Some (42, discover_banner @ [(Stderr, c_str ''Error while discovering local network'' @ newline)]))"
| not_started: "netbios_ns_new w = (Some ns, w1) \<Longrightarrow> netbios_ns_discover_start w1 ns 4 True = (r, ns', w2) \<Longrightarrow> r \<noteq> 0 \<Longrightarrow>
    netbios_ns_discover_stop ns' = (r', ns'') \<Longrightarrow> example2_main w (Some (0, discover_banner))"

text \<open>As long as memory lasts, the example ends with an error where the program \<^verbatim>\<open>discover\<close> runs.\<close>

lemma example2_reports_error:
  assumes "mem_ok w"
  shows "example2_main w res \<longleftrightarrow>
      res = Some (42, discover_banner @ [(Stderr, c_str ''Error while discovering local network'' @ newline)])"
    and "discover_main (\<lambda>_. True) w (Some (0, discover_banner))"
proof -
  obtain ns w1 where n: "netbios_ns_new w = (Some ns, w1)" "\<not> n_discover_started ns" "mem_ok w1"
    "n_entries ns = []" "n_abort ns = Pipe_open False"
    using ns_new_ok [OF assms] by metis
  let ?ns = "ns\<lparr>n_broadcast_timeout := 4, n_discover_started := True\<rparr>"
  have s: "netbios_ns_discover_start w1 ns 4 True = (0, ?ns, alloc_tick w1)"
    using n by (simp add: netbios_ns_discover_start_def)
  show "example2_main w res \<longleftrightarrow>
      res = Some (42, discover_banner @ [(Stderr, c_str ''Error while discovering local network'' @ newline)])"
    using n(1) s by (auto simp: example2_main.simps)
  let ?st = "(netbios_ns_abort ?ns)\<lparr>n_discover_started := False\<rparr>"
  have "n_abort ?st = Pipe_open True" using n by (simp add: netbios_ns_abort_def netbios_abort_ctx_abort_def)
  then have "discovery_run (\<lambda>_. True) (Outer, ?st, []) (Finished, ?st, [])"
    using netbios_ns_discover_thread.outer [OF discover_aborted(1), of ?st w "[]"] by (auto intro: discovery_run_step [where w = w])
  then show "discover_main (\<lambda>_. True) w (Some (0, discover_banner))"
    using discover_main.run [OF n(1) s discovery_run_refl, of 0 ?st "\<lambda>_. True" ?st "[]"]
    by (simp add: netbios_ns_discover_stop_def)
qed

end
