(* ===== verification/Tailq_Debug.thy ===== *)
theory Tailq_Debug
  imports Tailq
begin

text \<open>
  The tail queues of \<^verbatim>\<open>compat/queue.h\<close> with \<open>QUEUEDEBUG\<close>: the macros that change a queue check
  its links first, and spoil the links of an element they take out. \<open>QUEUEDEBUG_ABORT\<close>, which
  the header uses and does not define, is taken to end the program, as a fault does.

  On a queue no check fails, and the checked macros do what the plain ones do to the queue.
\<close>

section \<open>The checks\<close>

definition QUEUEDEBUG_TAILQ_INSERT_HEAD :: "tailq_heap \<Rightarrow> nat \<Rightarrow> unit option" where
  "QUEUEDEBUG_TAILQ_INSERT_HEAD h q = do {
     f \<leftarrow> TAILQ_FIRST h q;
     case f of None \<Rightarrow> Some () | Some x \<Rightarrow> do { p \<leftarrow> tqe_prev h x; if p \<noteq> First q then None else Some () }
   }"

definition QUEUEDEBUG_TAILQ_INSERT_TAIL :: "tailq_heap \<Rightarrow> nat \<Rightarrow> unit option" where
  "QUEUEDEBUG_TAILQ_INSERT_TAIL h q = do {
     l \<leftarrow> tqh_last h q;
     v \<leftarrow> tq_link h l;
     if v \<noteq> None then None else Some ()
   }"

definition QUEUEDEBUG_TAILQ_OP :: "tailq_heap \<Rightarrow> nat \<Rightarrow> unit option" where
  "QUEUEDEBUG_TAILQ_OP h elm = do {
     f \<leftarrow> TAILQ_NEXT h elm;
     (case f of None \<Rightarrow> Some () | Some x \<Rightarrow> do { p \<leftarrow> tqe_prev h x; if p \<noteq> Next elm then None else Some () });
     l \<leftarrow> tqe_prev h elm;
     v \<leftarrow> tq_link h l;
     if v \<noteq> Some elm then None else Some ()
   }"

definition QUEUEDEBUG_TAILQ_PREREMOVE :: "tailq_heap \<Rightarrow> nat \<Rightarrow> nat \<Rightarrow> unit option" where
  "QUEUEDEBUG_TAILQ_PREREMOVE h q elm = do {
     f \<leftarrow> TAILQ_NEXT h elm;
     if f \<noteq> None then Some ()
     else do { l \<leftarrow> tqh_last h q; if l \<noteq> Next elm then None else Some () }
   }"

text \<open>The address \<open>(void *)1L\<close> is that of no element; it is the number \<open>bad\<close>.\<close>

definition QUEUEDEBUG_TAILQ_POSTREMOVE :: "nat \<Rightarrow> tailq_heap \<Rightarrow> nat \<Rightarrow> tailq_heap option" where
  "QUEUEDEBUG_TAILQ_POSTREMOVE bad h elm = do {
     h \<leftarrow> set_link h (Next elm) (Some bad);
     set_prev h elm (Next bad)
   }"

section \<open>The macros with their checks\<close>

definition insert_head_checked :: "tailq_heap \<Rightarrow> nat \<Rightarrow> nat \<Rightarrow> tailq_heap option" where
  "insert_head_checked h q elm = do { QUEUEDEBUG_TAILQ_INSERT_HEAD h q; TAILQ_INSERT_HEAD h q elm }"

definition insert_tail_checked :: "tailq_heap \<Rightarrow> nat \<Rightarrow> nat \<Rightarrow> tailq_heap option" where
  "insert_tail_checked h q elm = do { QUEUEDEBUG_TAILQ_INSERT_TAIL h q; TAILQ_INSERT_TAIL h q elm }"

definition insert_after_checked :: "tailq_heap \<Rightarrow> nat \<Rightarrow> nat \<Rightarrow> nat \<Rightarrow> tailq_heap option" where
  "insert_after_checked h q listelm elm = do { QUEUEDEBUG_TAILQ_OP h listelm; TAILQ_INSERT_AFTER h q listelm elm }"

definition insert_before_checked :: "tailq_heap \<Rightarrow> nat \<Rightarrow> nat \<Rightarrow> tailq_heap option" where
  "insert_before_checked h listelm elm = do { QUEUEDEBUG_TAILQ_OP h listelm; TAILQ_INSERT_BEFORE h listelm elm }"

definition remove_checked :: "nat \<Rightarrow> tailq_heap \<Rightarrow> nat \<Rightarrow> nat \<Rightarrow> tailq_heap option" where
  "remove_checked bad h q elm = do {
     QUEUEDEBUG_TAILQ_PREREMOVE h q elm;
     QUEUEDEBUG_TAILQ_OP h elm;
     h \<leftarrow> TAILQ_REMOVE h q elm;
     QUEUEDEBUG_TAILQ_POSTREMOVE bad h elm
   }"

definition replace_checked :: "nat \<Rightarrow> tailq_heap \<Rightarrow> nat \<Rightarrow> nat \<Rightarrow> nat \<Rightarrow> tailq_heap option" where
  "replace_checked bad h q elm elm2 = do {
     h \<leftarrow> TAILQ_REPLACE h q elm elm2;
     QUEUEDEBUG_TAILQ_POSTREMOVE bad h elm
   }"

section \<open>No check fails on a queue\<close>

lemma checks_pass:
  assumes "is_queue h q xs"
  shows "QUEUEDEBUG_TAILQ_INSERT_HEAD h q = Some ()" "QUEUEDEBUG_TAILQ_INSERT_TAIL h q = Some ()"
  using assms by (cases xs; auto simp: is_queue_def QUEUEDEBUG_TAILQ_INSERT_HEAD_def QUEUEDEBUG_TAILQ_INSERT_TAIL_def TAILQ_FIRST_def)+

lemma op_checks_pass:
  assumes "is_queue h q (xs @ e # ys)"
  shows "QUEUEDEBUG_TAILQ_OP h e = Some ()" "QUEUEDEBUG_TAILQ_PREREMOVE h q e = Some ()"
  using assms
  by (cases ys; auto simp: is_queue_def seg_append QUEUEDEBUG_TAILQ_OP_def QUEUEDEBUG_TAILQ_PREREMOVE_def TAILQ_NEXT_def)+

lemma postremove_ok:
  assumes "is_elm h e"
  shows "wp (QUEUEDEBUG_TAILQ_POSTREMOVE bad h e) (\<lambda>h'. only {} {e} h h' \<and> TAILQ_NEXT h' e = Some (Some bad) \<and> tqe_prev h' e = Some (Next bad))"
  using assms by (auto simp: QUEUEDEBUG_TAILQ_POSTREMOVE_def is_elm_def only_def tq_defs)

section \<open>Sequences of operations\<close>

text \<open>
  What a client of the queue may rely on, whichever variant of the macros is compiled: each
  operation does to the list of the elements what it says, and no element comes or goes.
\<close>

datatype queue_op = Insert_head nat | Insert_tail nat | Insert_after nat nat | Insert_before nat nat | Remove nat | Replace nat nat

primrec op_elms :: "queue_op \<Rightarrow> nat list" where
  "op_elms (Insert_head f) = [f]"
| "op_elms (Insert_tail f) = [f]"
| "op_elms (Insert_after e f) = [f]"
| "op_elms (Insert_before e f) = [f]"
| "op_elms (Remove e) = []"
| "op_elms (Replace e f) = [f]"

text \<open>The list an operation leaves; \<^term>\<open>None\<close> when the caller may not use it there.\<close>

definition around :: "nat \<Rightarrow> nat list \<Rightarrow> (nat list \<times> nat list) option" where
  "around e xs = (if e \<in> set xs then Some (takeWhile (\<lambda>x. x \<noteq> e) xs, tl (dropWhile (\<lambda>x. x \<noteq> e) xs)) else None)"

primrec list_op :: "queue_op \<Rightarrow> nat list \<Rightarrow> nat list option" where
  "list_op (Insert_head f) xs = (if f \<in> set xs then None else Some (f # xs))"
| "list_op (Insert_tail f) xs = (if f \<in> set xs then None else Some (xs @ [f]))"
| "list_op (Insert_after e f) xs = (if f \<in> set xs then None else do { (as, bs) \<leftarrow> around e xs; Some (as @ e # f # bs) })"
| "list_op (Insert_before e f) xs = (if f \<in> set xs then None else do { (as, bs) \<leftarrow> around e xs; Some (as @ f # e # bs) })"
| "list_op (Remove e) xs = do { (as, bs) \<leftarrow> around e xs; Some (as @ bs) }"
| "list_op (Replace e f) xs = (if f \<in> set xs then None else do { (as, bs) \<leftarrow> around e xs; Some (as @ f # bs) })"

fun list_ops :: "queue_op list \<Rightarrow> nat list \<Rightarrow> nat list option" where
  "list_ops [] xs = Some xs"
| "list_ops (p # ps) xs = do { xs \<leftarrow> list_op p xs; list_ops ps xs }"

lemma around_split: "around e xs = Some (as, bs) \<Longrightarrow> xs = as @ e # bs"
  by (induction xs arbitrary: as) (auto simp: around_def split: if_splits)

definition same_elms :: "tailq_heap \<Rightarrow> tailq_heap \<Rightarrow> bool" where
  "same_elms h h' \<longleftrightarrow> is_elm h' = is_elm h"

locale queue_macros =
  fixes ins_head ins_tail :: "tailq_heap \<Rightarrow> nat \<Rightarrow> nat \<Rightarrow> tailq_heap option"
    and ins_after :: "tailq_heap \<Rightarrow> nat \<Rightarrow> nat \<Rightarrow> nat \<Rightarrow> tailq_heap option"
    and ins_before :: "tailq_heap \<Rightarrow> nat \<Rightarrow> nat \<Rightarrow> tailq_heap option"
    and rem_elm :: "tailq_heap \<Rightarrow> nat \<Rightarrow> nat \<Rightarrow> tailq_heap option"
    and repl_elm :: "tailq_heap \<Rightarrow> nat \<Rightarrow> nat \<Rightarrow> nat \<Rightarrow> tailq_heap option"
  assumes head_ok: "is_queue h q xs \<Longrightarrow> is_elm h f \<Longrightarrow> f \<notin> set xs \<Longrightarrow> wp (ins_head h q f) (\<lambda>h'. is_queue h' q (f # xs) \<and> same_elms h h')"
    and tail_ok: "is_queue h q xs \<Longrightarrow> is_elm h f \<Longrightarrow> f \<notin> set xs \<Longrightarrow> wp (ins_tail h q f) (\<lambda>h'. is_queue h' q (xs @ [f]) \<and> same_elms h h')"
    and after_ok: "is_queue h q (as @ e # bs) \<Longrightarrow> is_elm h f \<Longrightarrow> f \<notin> set (as @ e # bs) \<Longrightarrow>
      wp (ins_after h q e f) (\<lambda>h'. is_queue h' q (as @ e # f # bs) \<and> same_elms h h')"
    and before_ok: "is_queue h q (as @ e # bs) \<Longrightarrow> is_elm h f \<Longrightarrow> f \<notin> set (as @ e # bs) \<Longrightarrow>
      wp (ins_before h e f) (\<lambda>h'. is_queue h' q (as @ f # e # bs) \<and> same_elms h h')"
    and rem_ok: "is_queue h q (as @ e # bs) \<Longrightarrow> wp (rem_elm h q e) (\<lambda>h'. is_queue h' q (as @ bs) \<and> same_elms h h')"
    and repl_ok: "is_queue h q (as @ e # bs) \<Longrightarrow> is_elm h f \<Longrightarrow> f \<notin> set (as @ e # bs) \<Longrightarrow>
      wp (repl_elm h q e f) (\<lambda>h'. is_queue h' q (as @ f # bs) \<and> same_elms h h')"
begin

primrec heap_op :: "nat \<Rightarrow> queue_op \<Rightarrow> tailq_heap \<Rightarrow> tailq_heap option" where
  "heap_op q (Insert_head f) h = ins_head h q f"
| "heap_op q (Insert_tail f) h = ins_tail h q f"
| "heap_op q (Insert_after e f) h = ins_after h q e f"
| "heap_op q (Insert_before e f) h = ins_before h e f"
| "heap_op q (Remove e) h = rem_elm h q e"
| "heap_op q (Replace e f) h = repl_elm h q e f"

fun heap_ops :: "nat \<Rightarrow> queue_op list \<Rightarrow> tailq_heap \<Rightarrow> tailq_heap option" where
  "heap_ops q [] h = Some h"
| "heap_ops q (p # ps) h = do { h \<leftarrow> heap_op q p h; heap_ops q ps h }"

lemma op_refines:
  assumes "is_queue h q xs" and "list_op p xs = Some ys" and "list_all (is_elm h) (op_elms p)"
  shows "wp (heap_op q p h) (\<lambda>h'. is_queue h' q ys \<and> same_elms h h')"
  using assms
  by (cases p) (auto split: if_splits bind_splits dest!: around_split intro: head_ok tail_ok after_ok before_ok rem_ok repl_ok)

lemma ops_refine:
  "is_queue h q xs \<Longrightarrow> list_ops ps xs = Some ys \<Longrightarrow> list_all (is_elm h) (concat (map op_elms ps)) \<Longrightarrow>
     wp (heap_ops q ps h) (\<lambda>h'. is_queue h' q ys \<and> same_elms h h')"
proof (induction ps arbitrary: h xs)
  case (Cons p ps)
  obtain zs where z: "list_op p xs = Some zs" "list_ops ps zs = Some ys" using Cons.prems(2) by (auto split: bind_splits)
  have e: "list_all (is_elm h) (op_elms p)" "list_all (is_elm h) (concat (map op_elms ps))" using Cons.prems(3) by simp_all
  show ?case
    unfolding heap_ops.simps wp_bind
  proof (rule wp_mono [OF op_refines [OF Cons.prems(1) z(1) e(1)]])
    fix h1 assume h1: "is_queue h1 q zs \<and> same_elms h h1"
    then have "list_all (is_elm h1) (concat (map op_elms ps))" using e(2) by (simp add: same_elms_def list_all_iff)
    from Cons.IH [OF conjunct1 [OF h1] z(2) this]
    show "wp (heap_ops q ps h1) (\<lambda>h'. is_queue h' q ys \<and> same_elms h h')"
      by (rule wp_mono) (use h1 in \<open>simp add: same_elms_def\<close>)
  qed
qed (simp add: same_elms_def)

end

section \<open>Both variants\<close>

lemma writes_keep_elms:
  "set_link h l v = Some h' \<Longrightarrow> is_elm h' = is_elm h" "set_last h q l = Some h' \<Longrightarrow> is_elm h' = is_elm h"
  "set_prev h x l = Some h' \<Longrightarrow> is_elm h' = is_elm h"
  by (auto simp: set_link_def set_last_def set_prev_def is_elm_def fun_eq_iff split: if_splits)

lemma macros_keep_elms:
  "TAILQ_INSERT_HEAD h q e = Some h' \<Longrightarrow> same_elms h h'" "TAILQ_INSERT_TAIL h q e = Some h' \<Longrightarrow> same_elms h h'"
  "TAILQ_INSERT_AFTER h q x e = Some h' \<Longrightarrow> same_elms h h'" "TAILQ_INSERT_BEFORE h x e = Some h' \<Longrightarrow> same_elms h h'"
  "TAILQ_REMOVE h q e = Some h' \<Longrightarrow> same_elms h h'" "TAILQ_REPLACE h q x e = Some h' \<Longrightarrow> same_elms h h'"
  "QUEUEDEBUG_TAILQ_POSTREMOVE bad h e = Some h' \<Longrightarrow> same_elms h h'"
  unfolding same_elms_def TAILQ_INSERT_HEAD_def TAILQ_INSERT_TAIL_def TAILQ_INSERT_AFTER_def TAILQ_INSERT_BEFORE_def
    TAILQ_REMOVE_def TAILQ_REPLACE_def QUEUEDEBUG_TAILQ_POSTREMOVE_def
  by (auto split: bind_splits option.splits dest!: writes_keep_elms)

lemma wp_keep: "wp m (\<lambda>x. P x \<and> R x) \<Longrightarrow> (\<And>x. m = Some x \<Longrightarrow> Q x) \<Longrightarrow> wp m (\<lambda>x. P x \<and> Q x)"
  by (cases m) simp_all

interpretation plain: queue_macros TAILQ_INSERT_HEAD TAILQ_INSERT_TAIL TAILQ_INSERT_AFTER TAILQ_INSERT_BEFORE TAILQ_REMOVE TAILQ_REPLACE
  by unfold_locales
    (erule wp_keep [OF TAILQ_INSERT_HEAD_ok macros_keep_elms(1)] wp_keep [OF TAILQ_INSERT_TAIL_ok macros_keep_elms(2)]
      wp_keep [OF TAILQ_INSERT_AFTER_ok macros_keep_elms(3)] wp_keep [OF TAILQ_INSERT_BEFORE_ok macros_keep_elms(4)]
      wp_keep [OF TAILQ_REMOVE_ok macros_keep_elms(5)] wp_keep [OF TAILQ_REPLACE_ok macros_keep_elms(6)]; assumption)+

text \<open>Spoiling an element that is in no queue leaves the queues as they are.\<close>

lemma spoiled_ok:
  assumes "wp m (\<lambda>h'. is_queue h' q xs \<and> same_elms h h')" and "is_elm h e" and "e \<notin> set xs"
  shows "wp (Option.bind m (\<lambda>h'. QUEUEDEBUG_TAILQ_POSTREMOVE bad h' e)) (\<lambda>h'. is_queue h' q xs \<and> same_elms h h')"
  unfolding wp_bind
proof (rule wp_mono [OF assms(1)])
  fix h1 assume h1: "is_queue h1 q xs \<and> same_elms h h1"
  then have "is_elm h1 e" using assms(2) by (simp add: same_elms_def)
  from wp_keep [OF postremove_ok [OF this, of bad] macros_keep_elms(7)]
  show "wp (QUEUEDEBUG_TAILQ_POSTREMOVE bad h1 e) (\<lambda>h'. is_queue h' q xs \<and> same_elms h h')"
  proof (rule wp_mono)
    fix h2 assume "only {} {e} h1 h2 \<and> same_elms h1 h2"
    then show "is_queue h2 q xs \<and> same_elms h h2"
      using is_queue_only [of "{}" "{e}" h1 h2 q xs] h1 assms(3) by (simp add: same_elms_def)
  qed
qed

interpretation checked: queue_macros insert_head_checked insert_tail_checked insert_after_checked insert_before_checked
  "remove_checked bad" "replace_checked bad"
proof unfold_locales
  fix h q as e bs f
  show "wp (insert_after_checked h q e f) (\<lambda>h'. is_queue h' q (as @ e # f # bs) \<and> same_elms h h')"
    if "is_queue h q (as @ e # bs)" "is_elm h f" "f \<notin> set (as @ e # bs)"
    using plain.after_ok [OF that] op_checks_pass [OF that(1)] by (simp add: insert_after_checked_def)
  show "wp (insert_before_checked h e f) (\<lambda>h'. is_queue h' q (as @ f # e # bs) \<and> same_elms h h')"
    if "is_queue h q (as @ e # bs)" "is_elm h f" "f \<notin> set (as @ e # bs)"
    using plain.before_ok [OF that] op_checks_pass [OF that(1)] by (simp add: insert_before_checked_def)
  show "wp (remove_checked bad h q e) (\<lambda>h'. is_queue h' q (as @ bs) \<and> same_elms h h')" if "is_queue h q (as @ e # bs)"
  proof -
    have "e \<notin> set (as @ bs)" "is_elm h e" using that is_queue_elm [OF that, of e] by (auto simp: is_queue_def)
    then show ?thesis using spoiled_ok [OF plain.rem_ok [OF that]] op_checks_pass [OF that] by (simp add: remove_checked_def)
  qed
  show "wp (replace_checked bad h q e f) (\<lambda>h'. is_queue h' q (as @ f # bs) \<and> same_elms h h')"
    if "is_queue h q (as @ e # bs)" "is_elm h f" "f \<notin> set (as @ e # bs)"
  proof -
    have "e \<notin> set (as @ f # bs)" "is_elm h e" using that is_queue_elm [OF that(1), of e] by (auto simp: is_queue_def)
    then show ?thesis using spoiled_ok [OF plain.repl_ok [OF that]] by (simp add: replace_checked_def)
  qed
qed (use plain.head_ok plain.tail_ok checks_pass in \<open>simp_all add: insert_head_checked_def insert_tail_checked_def\<close>)

text \<open>
  A sequence of operations that the list of the elements allows runs through on the plain and
  on the checked macros, and leaves the queue of the same elements: no check fails.
\<close>

lemma tailq_variants_agree:
  assumes "is_queue h q xs" and "list_ops ps xs = Some ys" and "list_all (is_elm h) (concat (map op_elms ps))"
  shows "wp (plain.heap_ops q ps h) (\<lambda>h'. is_queue h' q ys)" "wp (checked.heap_ops bad q ps h) (\<lambda>h'. is_queue h' q ys)"
  using plain.ops_refine [OF assms] checked.ops_refine [OF assms, of bad] by (auto elim: wp_mono)

text \<open>Taking out an element twice is caught: its links lead nowhere.\<close>

lemma double_remove_caught:
  assumes "is_queue h q (as @ e # bs)" and "\<not> is_elm h bad" and "remove_checked bad h q e = Some h'"
  shows "remove_checked bad h' q e = None"
proof -
  obtain h1 where h1: "QUEUEDEBUG_TAILQ_POSTREMOVE bad h1 e = Some h'"
    using assms(3) by (auto simp: remove_checked_def split: bind_splits)
  then have n: "TAILQ_NEXT h' e = Some (Some bad)" "tqe_prev h' e = Some (Next bad)"
    by (auto simp: QUEUEDEBUG_TAILQ_POSTREMOVE_def tq_defs split: bind_splits if_splits)
  have "wp (remove_checked bad h q e) (\<lambda>h'. is_queue h' q (as @ bs) \<and> same_elms h h')" by (rule checked.rem_ok [OF assms(1)])
  then have "\<not> is_elm h' bad" using assms(2,3) by (simp add: same_elms_def)
  then show ?thesis
    using n by (auto simp: remove_checked_def QUEUEDEBUG_TAILQ_PREREMOVE_def QUEUEDEBUG_TAILQ_OP_def is_elm_def split: bind_splits)
qed

end
