(* ===== verification/Platform.thy ===== *)
theory Platform
  imports Programs
begin

text \<open>
  The code that replaces another on some platforms: the broadcasts of \<^verbatim>\<open>src/netbios_ns.c\<close>
  without \<^verbatim>\<open>getifaddrs\<close>, the abort contexts of \<^verbatim>\<open>src/netbios_utils.c\<close> without a pipe, the
  \<^verbatim>\<open>inet_pton\<close> of \<^verbatim>\<open>bin/inverse.c\<close> and the clock of \<^verbatim>\<open>compat/clock_gettime.c\<close>. For each,
  that it keeps the contract of what it replaces. The last section is the dump of a query in
  \<^verbatim>\<open>src/netbios_query.c\<close>.
\<close>

section \<open>Broadcasts\<close>

definition INADDR_BROADCAST :: u32 where "INADDR_BROADCAST = 0xffffffff"

text \<open>On a system without a list of the interfaces, one packet to the limited broadcast address.\<close>

definition netbios_ns_broadcast_packet_any ::
  "world \<Rightarrow> netbios_ns \<Rightarrow> netbios_query option \<Rightarrow> (netbios_ns \<times> world) option" where
  "netbios_ns_broadcast_packet_any w ns q = do { (_, ns, w) \<leftarrow> netbios_ns_send_packet w ns q INADDR_BROADCAST; Some (ns, w) }"

text \<open>
  On Windows the list comes from \<^verbatim>\<open>WSAIoctl\<close>, a parameter: given the number of entries the
  array has room for, the entries stored, or \<^term>\<open>None\<close> when it fails. A read past the array is
  a fault.
\<close>

record interface_info =
  ii_family :: int
  ii_address :: u32
  ii_netmask :: u32

definition AF_INET :: int where "AF_INET = 2"

definition subnet_broadcast :: "u32 \<Rightarrow> u32 \<Rightarrow> u32" where
  "subnet_broadcast address netmask = (address AND netmask) OR NOT netmask"

fun broadcast_loop_win ::
  "world \<Rightarrow> netbios_ns \<Rightarrow> netbios_query option \<Rightarrow> interface_info list \<Rightarrow> (netbios_ns \<times> world) option" where
  "broadcast_loop_win w ns q [] = Some (ns, w)"
| "broadcast_loop_win w ns q (i # is) =
     (if ii_family i = AF_INET then do {
        (_, ns, w) \<leftarrow> netbios_ns_send_packet w ns q (subnet_broadcast (ii_address i) (ii_netmask i));
        broadcast_loop_win w ns q is
      } else broadcast_loop_win w ns q is)"

type_synonym wsa_ioctl = "nat \<Rightarrow> interface_info list option"

definition netbios_ns_broadcast_packet_win ::
  "wsa_ioctl \<Rightarrow> world \<Rightarrow> netbios_ns \<Rightarrow> netbios_query option \<Rightarrow> (netbios_ns \<times> world) option" where
  "netbios_ns_broadcast_packet_win ioctl w ns q =
     (case ioctl 16 of
        None \<Rightarrow> Some (ns, w)
      | Some infolist \<Rightarrow> if 16 < length infolist then None else broadcast_loop_win w ns q infolist)"

text \<open>
  What the queries of the name service rely on: a broadcast is a packet to each of some
  addresses, in order, whether or not the others could be sent.
\<close>

locale broadcaster =
  fixes bcast :: "world \<Rightarrow> netbios_ns \<Rightarrow> netbios_query option \<Rightarrow> (netbios_ns \<times> world) option"
    and targets :: "world \<Rightarrow> u32 list"
    and ready :: "world \<Rightarrow> bool"
  assumes bcast_eq: "ready w \<Longrightarrow> bcast w ns q = send_all w ns q (targets w)"
begin

lemma safe:
  assumes "query_holds n s c q" and "n_abort ns \<noteq> Pipe_closed" and "ready w"
  shows "wp (bcast w ns (Some q)) (\<lambda>(ns', w'). ns_sent ns ns' \<and> mem_ok w' = mem_ok w)"
  using broadcast_safe [OF assms(1,2)] by (simp add: bcast_eq assms(3))

lemma datagrams:
  assumes "query_holds n s c q" and "n_abort ns = Pipe_open False" and "w_udp_tx w = []" and "ready w"
  shows "bcast w ns (Some q) = Some (ns,
     w\<lparr>w_udp_sent := w_udp_sent w @ map (\<lambda>ip. (ip, enc_struct netbios_query_packet s @ c)) (targets w)\<rparr>)"
  using broadcast_sends [OF assms(1-3)] by (simp add: bcast_eq assms(4))

end

definition win_targets :: "wsa_ioctl \<Rightarrow> u32 list" where
  "win_targets ioctl = (case ioctl 16 of None \<Rightarrow> []
     | Some is \<Rightarrow> map (\<lambda>i. subnet_broadcast (ii_address i) (ii_netmask i)) (filter (\<lambda>i. ii_family i = AF_INET) is))"

text \<open>The call stores no more entries than there is room for.\<close>

definition ioctl_fits :: "wsa_ioctl \<Rightarrow> bool" where
  "ioctl_fits ioctl \<longleftrightarrow> (\<forall>n is. ioctl n = Some is \<longrightarrow> length is \<le> n)"

lemma ioctl_room: "ioctl_fits ioctl \<Longrightarrow> ioctl n = Some is \<Longrightarrow> \<not> n < length is"
  by (auto simp: ioctl_fits_def not_less)

lemma broadcast_loop_win_eq:
  "broadcast_loop_win w ns q is =
     send_all w ns q (map (\<lambda>i. subnet_broadcast (ii_address i) (ii_netmask i)) (filter (\<lambda>i. ii_family i = AF_INET) is))"
  by (induction "is" arbitrary: w ns) simp_all

interpretation listed: broadcaster netbios_ns_broadcast_packet w_broadcast ifaddrs_ok
  by unfold_locales (rule broadcast_packet_eq)

interpretation limited: broadcaster netbios_ns_broadcast_packet_any "\<lambda>_. [INADDR_BROADCAST]" "\<lambda>_. True"
  by unfold_locales (simp add: netbios_ns_broadcast_packet_any_def)

interpretation windows: broadcaster "netbios_ns_broadcast_packet_win ioctl" "\<lambda>_. win_targets ioctl" "\<lambda>_. ioctl_fits ioctl"
  by unfold_locales
    (simp add: netbios_ns_broadcast_packet_win_def win_targets_def ioctl_room broadcast_loop_win_eq split: option.split)

text \<open>
  The address computed has the network part of the interface's and all ones after it: it is
  the same for every host of the network.
\<close>

lemma subnet_broadcast_bits:
  "n < 32 \<Longrightarrow> bit (subnet_broadcast a m) n = (if bit m n then bit a n else True)"
  by (simp add: subnet_broadcast_def bit_simps)

lemma subnet_broadcast_network: "a AND m = b AND m \<Longrightarrow> subnet_broadcast a m = subnet_broadcast b m"
  by (simp add: subnet_broadcast_def)

section \<open>Abort contexts\<close>

text \<open>Without a pipe the context is an atomic flag.\<close>

record atomic_abort_ctx =
  ab_aborted :: bool

definition atomic_abort_ctx_init :: "atomic_abort_ctx \<Rightarrow> int \<times> atomic_abort_ctx" where
  "atomic_abort_ctx_init ctx = (0, ctx\<lparr>ab_aborted := False\<rparr>)"

definition atomic_abort_ctx_destroy :: "atomic_abort_ctx \<Rightarrow> atomic_abort_ctx" where
  "atomic_abort_ctx_destroy ctx = ctx"

definition atomic_abort_ctx_is_aborted :: "atomic_abort_ctx \<Rightarrow> bool" where
  "atomic_abort_ctx_is_aborted ctx = ab_aborted ctx"

definition atomic_abort_ctx_abort :: "atomic_abort_ctx \<Rightarrow> atomic_abort_ctx" where
  "atomic_abort_ctx_abort ctx = ctx\<lparr>ab_aborted := True\<rparr>"

text \<open>
  The contract: a context that is live can be asked, an abort is seen from then on, however
  often it is repeated, and nothing else sets it.
\<close>

locale abort_signal =
  fixes live :: "'c \<Rightarrow> bool" and fresh :: "'c \<Rightarrow> bool" and aborted :: "'c \<Rightarrow> bool option" and raise_abort :: "'c \<Rightarrow> 'c"
  assumes fresh_live: "fresh c \<Longrightarrow> live c \<and> aborted c = Some False"
    and raise_live: "live c \<Longrightarrow> live (raise_abort c)"
    and raise_seen: "live c \<Longrightarrow> aborted (raise_abort c) = Some True"
begin

lemma live_iterate: "live c \<Longrightarrow> live ((raise_abort ^^ n) c)"
  by (induction n) (simp_all add: raise_live)

lemma sticky:
  assumes "fresh c"
  shows "aborted ((raise_abort ^^ n) c) = Some (0 < n)"
  using fresh_live [OF assms] live_iterate [of c] by (cases n) (simp_all add: raise_seen)

end

interpretation pipe: abort_signal "\<lambda>c. c \<noteq> Pipe_closed" "\<lambda>c. c = Pipe_open False" netbios_abort_ctx_is_aborted netbios_abort_ctx_abort
  by unfold_locales (auto simp: netbios_abort_ctx_is_aborted_def netbios_abort_ctx_abort_def split: netbios_abort_ctx.splits)

interpretation atomic: abort_signal "\<lambda>_. True" "\<lambda>c. \<exists>c0. atomic_abort_ctx_init c0 = (0, c)" "\<lambda>c. Some (atomic_abort_ctx_is_aborted c)"
  atomic_abort_ctx_abort
  by unfold_locales (auto simp: atomic_abort_ctx_init_def atomic_abort_ctx_is_aborted_def atomic_abort_ctx_abort_def)

text \<open>Both answer alike, after any number of aborts.\<close>

lemma abort_variants_agree:
  assumes "netbios_abort_ctx_init w = (0, p, w')" and "atomic_abort_ctx_init c0 = (0, c)"
  shows "netbios_abort_ctx_is_aborted ((netbios_abort_ctx_abort ^^ n) p) =
     Some (atomic_abort_ctx_is_aborted ((atomic_abort_ctx_abort ^^ n) c))"
proof -
  have "p = Pipe_open False" using assms(1) by (auto simp: netbios_abort_ctx_init_def split: if_splits prod.splits)
  then have "netbios_abort_ctx_is_aborted ((netbios_abort_ctx_abort ^^ n) p) = Some (0 < n)" by (rule pipe.sticky)
  moreover have "Some (atomic_abort_ctx_is_aborted ((atomic_abort_ctx_abort ^^ n) c)) = Some (0 < n)"
    using assms(2) by (intro atomic.sticky exI)
  ultimately show ?thesis by simp
qed

section \<open>The clock\<close>

record timespec =
  tv_sec :: int
  tv_nsec :: int

text \<open>The calls of the system are parameters: the service for a clock, and the time of one.\<close>

definition CLOCK_REALTIME :: int where "CLOCK_REALTIME = 0"
definition CALENDAR_CLOCK :: int where "CALENDAR_CLOCK = 1"
definition SYSTEM_CLOCK :: int where "SYSTEM_CLOCK = 0"

definition clock_gettime_mach ::
  "(int \<Rightarrow> 'clk option) \<Rightarrow> ('clk \<Rightarrow> (int \<times> int) option) \<Rightarrow> int \<Rightarrow> timespec \<Rightarrow> int \<times> timespec" where
  "clock_gettime_mach host_get_clock_service clock_get_time clk_id tp =
     (if clk_id \<noteq> CLOCK_REALTIME then (- 1, tp)
      else
        (let clk_serv_id = (if clk_id = CLOCK_REALTIME then CALENDAR_CLOCK else SYSTEM_CLOCK)
         in case host_get_clock_service clk_serv_id of
              None \<Rightarrow> (- 1, tp)
            | Some clk \<Rightarrow>
                (case clock_get_time clk of
                   None \<Rightarrow> (- 1, tp)
                 | Some (sec, nsec) \<Rightarrow> (0, tp\<lparr>tv_sec := sec, tv_nsec := nsec\<rparr>))))"

text \<open>On Windows the time is a count of 100 nanoseconds since 1601, in two halves.\<close>

definition clock_gettime_win :: "u32 \<Rightarrow> u32 \<Rightarrow> int \<Rightarrow> timespec \<Rightarrow> int \<times> timespec" where
  "clock_gettime_win dwHighDateTime dwLowDateTime clk_id spec =
     (let t = push_bit 32 (ucast dwHighDateTime) OR ucast dwLowDateTime :: u64;
          t = t - 116444736000000000
      in (0, spec\<lparr>tv_sec := sint (t div 10000000), tv_nsec := sint (ucast (t mod 10000000 * 100) :: 32 word)\<rparr>))"

text \<open>Either the call succeeds and the time is the service's, or it fails and nothing is stored.\<close>

lemma clock_gettime_mach_result:
  "clock_gettime_mach svc get clk_id tp =
     (case (if clk_id = CLOCK_REALTIME then Option.bind (svc CALENDAR_CLOCK) get else None) of
        None \<Rightarrow> (- 1, tp)
      | Some (sec, nsec) \<Rightarrow> (0, \<lparr>tv_sec = sec, tv_nsec = nsec\<rparr>))"
  by (cases tp) (auto simp: clock_gettime_mach_def Let_def split: option.split)

text \<open>The two halves as one number.\<close>

definition filetime :: "u32 \<Rightarrow> u32 \<Rightarrow> nat" where
  "filetime hi lo = unat hi * 2 ^ 32 + unat lo"

lemma halves_join: "unat (push_bit 32 (ucast hi) OR ucast lo :: u64) = filetime hi lo"
proof -
  have b: "unat hi < 2 ^ 32" "unat lo < 2 ^ 32" using unsigned_less [of hi, where 'a = nat] unsigned_less [of lo, where 'a = nat] by simp_all
  have "push_bit 32 (ucast hi) OR (ucast lo :: u64) = push_bit 32 (ucast hi) + ucast lo"
    by (rule disjunctive_add [symmetric]) (auto simp: bit_simps dest: bit_imp_le_length)
  moreover have "unat (push_bit 32 (ucast hi) + ucast lo :: u64) = filetime hi lo"
    using b by (simp add: filetime_def push_bit_eq_mult unat_word_ariths unsigned_ucast_eq take_bit_nat_eq_self)
  ultimately show ?thesis by simp
qed

lemma sint_small: "unat (w :: 'a::len word) < 2 ^ (LENGTH('a) - 1) \<Longrightarrow> sint w = int (unat w)"
proof -
  assume a: "unat w < 2 ^ (LENGTH('a) - 1)"
  then have "int (unat w) < 2 ^ (LENGTH('a) - 1)" by (metis of_nat_less_iff of_nat_numeral of_nat_power)
  moreover have "- (2 ^ (LENGTH('a) - 1)) \<le> uint w" by (rule order_trans [of _ 0]) simp_all
  ultimately show ?thesis by (simp add: sint_uint signed_take_bit_int_eq_self)
qed

text \<open>From 1970 on, the seconds and nanoseconds stored are those since then, to 100 nanoseconds.\<close>

lemma clock_gettime_win_ok:
  assumes "116444736000000000 \<le> filetime hi lo" and "clock_gettime_win hi lo clk_id spec = (r, ts)"
  shows "r = 0" "0 \<le> tv_nsec ts" "tv_nsec ts < 1000000000"
    "tv_sec ts * 1000000000 + tv_nsec ts = (int (filetime hi lo) - 116444736000000000) * 100"
proof -
  define t :: u64 where "t = (push_bit 32 (ucast hi) OR ucast lo) - 116444736000000000"
  define n where "n = filetime hi lo - 116444736000000000"
  have "unat hi < 2 ^ 32" "unat lo < 2 ^ 32" using unsigned_less [of hi, where 'a = nat] unsigned_less [of lo, where 'a = nat] by simp_all
  then have lt: "n < 2 ^ 64" by (simp add: n_def filetime_def)
  have t: "unat t = n"
    using assms(1) by (simp add: t_def n_def unat_sub word_le_nat_alt halves_join)
  have q: "unat (t div 10000000) = n div 10000000" using t by (simp add: unat_div)
  have m: "unat (t mod 10000000 * 100) = n mod 10000000 * 100"
    using t by (simp add: unat_word_ariths unat_mod)
  have u: "unat (ucast (t mod 10000000 * 100) :: 32 word) = n mod 10000000 * 100"
    using m by (simp add: unsigned_ucast_eq take_bit_nat_eq_self)
  have n1: "n mod 10000000 < 10000000" by simp
  have s: "sint (t div 10000000) = int (n div 10000000)" using sint_small [of "t div 10000000"] q lt by simp
  have ns: "sint (ucast (t mod 10000000 * 100) :: 32 word) = int (n mod 10000000 * 100)"
    using sint_small [of "ucast (t mod 10000000 * 100) :: 32 word"] u n1 by simp
  have "(r, ts) = (0, spec\<lparr>tv_sec := int (n div 10000000), tv_nsec := int (n mod 10000000 * 100)\<rparr>)"
    using assms(2) by (simp add: clock_gettime_win_def Let_def t_def [symmetric] s ns)
  then have ts: "r = 0" "tv_sec ts = int (n div 10000000)" "tv_nsec ts = int (n mod 10000000) * 100" by simp_all
  show "r = 0" "0 \<le> tv_nsec ts" "tv_nsec ts < 1000000000" using ts n1 by linarith+
  have "int n = int (n div 10000000) * 10000000 + int (n mod 10000000)"
    using arg_cong [OF div_mult_mod_eq [of n 10000000], of int] by (simp only: of_nat_add of_nat_mult of_nat_numeral)
  then show "tv_sec ts * 1000000000 + tv_nsec ts = (int (filetime hi lo) - 116444736000000000) * 100"
    using ts assms(1) by (simp add: n_def)
qed

section \<open>Reading an address on Windows\<close>

text \<open>
  \<^verbatim>\<open>sscanf\<close> with \<open>%hhu.%hhu.%hhu.%hhu\<close>: a number may follow blanks and a sign. The result is
  undefined, a fault, when a number is not one of a byte. The conversions made and the bytes
  stored; the text left, when all went well.
\<close>

definition is_blank :: "byte \<Rightarrow> bool" where
  "is_blank c \<longleftrightarrow> c = 32 \<or> 9 \<le> c \<and> c \<le> 13"

definition scan_hhu :: "cstring \<Rightarrow> (byte \<times> cstring) option option" where
  "scan_hhu s =
     (let s = dropWhile is_blank s;
          neg = (s \<noteq> [] \<and> hd s = 45);
          s = (if s \<noteq> [] \<and> (hd s = 43 \<or> hd s = 45) then tl s else s);
          ds = takeWhile is_digit s
      in if ds = [] then Some None
         else if 255 < number_of ds \<or> neg \<and> number_of ds \<noteq> 0 then None
         else Some (Some (word_of_nat (number_of ds), dropWhile is_digit s)))"

fun scan_bytes :: "nat \<Rightarrow> nat \<Rightarrow> cstring \<Rightarrow> byte list \<Rightarrow> (nat \<times> byte list) option" where
  "scan_bytes 0 i s b = Some (i, b)"
| "scan_bytes (Suc n) i s b = do {
     r \<leftarrow> scan_hhu s;
     case r of
       None \<Rightarrow> Some (i, b)
     | Some (v, s) \<Rightarrow>
         (if n = 0 then Some (Suc i, b[i := v])
          else (case scan_dot s of
                  None \<Rightarrow> Some (Suc i, b[i := v])
                | Some s \<Rightarrow> scan_bytes n (Suc i) s (b[i := v])))
   }"

text \<open>The value returned and the four bytes at \<open>dst\<close>.\<close>

definition inet_pton_win :: "int \<Rightarrow> cstring \<Rightarrow> byte list \<Rightarrow> (int \<times> byte list) option" where
  "inet_pton_win af src b =
     (if af = AF_INET then do { (n, b) \<leftarrow> scan_bytes 4 0 src b; Some (if n = 4 then 1 else 0, b) }
      else Some (- 1, b))"

lemma scan_hhu_dec:
  assumes "n \<le> 255" and "r = [] \<or> \<not> is_digit (hd r)"
  shows "scan_hhu (dec_str n @ r) = Some (Some (word_of_nat n, r))"
proof -
  have d: "is_digit (hd (dec_str n))" "dec_str n \<noteq> []" using dec_str_ok(1,2) [of n] by (auto simp: list_all_iff)
  then have h: "hd (dec_str n @ r) = hd (dec_str n)" by simp
  have b: "dropWhile is_blank (dec_str n @ r) = dec_str n @ r"
    using d by (cases "dec_str n") (auto simp: is_blank_def is_digit_def word_le_nat_alt)
  have s: "hd (dec_str n) \<noteq> 43" "hd (dec_str n) \<noteq> 45" using d(1) by (auto simp: is_digit_def)
  have "takeWhile is_digit (dec_str n @ r) = dec_str n" "dropWhile is_digit (dec_str n @ r) = r"
    using assms(2) dec_str_ok(2) [of n] by (cases r; auto simp: list_all_iff takeWhile_append2 dropWhile_append2)+
  then show ?thesis using assms(1) d dec_str_ok(3) [of n] b s h by (simp add: scan_hhu_def Let_def)
qed

lemma nth_byte: "(ucast (drop_bit k (w :: u32)) :: byte) = word_of_nat (unat w div 2 ^ k mod 256)"
proof -
  have "unat w < 2 ^ 32" using unsigned_less [of w, where 'a = nat] by simp
  then have "unat (drop_bit k w) = unat w div 2 ^ k"
    by (simp only: unsigned_drop_bit_eq) (simp add: drop_bit_eq_div take_bit_nat_eq_self)
  then show ?thesis by (simp only: word_unat_eq_iff unsigned_ucast_eq) (simp add: take_bit_eq_mod unat_of_nat)
qed

lemma le_bytes_address:
  "le_bytes 4 (ip :: u32) = [word_of_nat (unat ip mod 256), word_of_nat (unat ip div 256 mod 256),
     word_of_nat (unat ip div 65536 mod 256), word_of_nat (unat ip div 16777216 mod 256)]"
  using nth_byte [of 0 ip] by (simp add: le_bytes_numeral nth_byte)

text \<open>It reads what \<^verbatim>\<open>inet_ntoa\<close> writes, to the bytes of the address in network order, as the other does.\<close>

lemma inet_pton_win_ok:
  assumes "length b = 4"
  shows "inet_pton_win AF_INET (inet_ntoa ip) b = Some (1, le_bytes 4 ip)"
proof -
  have "unat ip < 2 ^ 32" using unsigned_less [of ip, where 'a = nat] by simp
  then have h: "unat ip div 16777216 \<le> 255" by simp
  have m: "x mod 256 \<le> 255" for x :: nat using mod_less_divisor [of 256 x] by linarith
  have d: "\<not> is_digit 46" by (simp add: is_digit_def)
  have four: "(4 :: nat) = Suc (Suc (Suc (Suc 0)))" by simp
  obtain b0 b1 b2 b3 where b: "b = [b0, b1, b2, b3]" using assms unfolding four by (auto simp: length_Suc_conv)
  have "scan_bytes (Suc (Suc (Suc (Suc 0)))) 0 (inet_ntoa ip) b = Some (4, le_bytes 4 ip)"
    using h m by (simp add: b inet_ntoa_def scan_hhu_dec scan_hhu_dec [of _ "[]", simplified] d scan_dot_def le_bytes_address)
  then show ?thesis unfolding inet_pton_win_def four [symmetric] by simp
qed

section \<open>The dump of a query\<close>

text \<open>
  The loop counts in 32 bits, against a bound of 64; it ends only if the bound is below
  \<open>2 ^ 32\<close>. A read past the packet is a fault.
\<close>

definition hex_byte :: "byte \<Rightarrow> cstring" where
  "hex_byte c = [hex_digit 65 (unat c div 16), hex_digit 65 (unat c mod 16)]"

partial_function (option) query_print_loop :: "byte list \<Rightarrow> u64 \<Rightarrow> u32 \<Rightarrow> printed \<Rightarrow> printed option" where
  "query_print_loop pkt cur i out =
     (if ucast i < 12 + cur then do {
        let out = out @ (if i mod 8 = 0 \<and> i \<noteq> 0 then [(Stdout, newline)] else []);
        let out = out @ (if i mod 8 = 0 then [(Stdout, c_str ''0x'')] else []);
        c \<leftarrow> rd8 pkt (unat i);
        query_print_loop pkt cur (i + 1) (out @ [(Stdout, hex_byte c @ c_str '' '')])
      } else Some out)"

definition rule_line :: cstring where
  "rule_line = c_str ''-------------------------'' @ newline"

definition netbios_query_print :: "netbios_query option \<Rightarrow> printed option" where
  "netbios_query_print q = do {
     q \<leftarrow> q;
     pkt \<leftarrow> q_packet q;
     let o1 = [(Stdout, c_str ''--- netbios_query dump :'' @ newline),
               (Stdout, c_str ''payload = '' @ dec_str (unat (q_payload_size q)) @ c_str '', cursor = '' @
                  dec_str (unat (q_cursor q)) @ c_str ''.'' @ newline)];
     trn_id \<leftarrow> rd_field netbios_query_packet ''trn_id'' pkt 0;
     let o2 = [(Stdout, c_str ''Transaction id = '' @ dec_str trn_id @ c_str ''.'' @ newline), (Stdout, rule_line)];
     out \<leftarrow> query_print_loop pkt (q_cursor q) 0 (o1 @ o2);
     Some (out @ [(Stdout, newline), (Stdout, rule_line)])
   }"

text \<open>What is printed for one byte of the packet.\<close>

definition dump_item :: "byte list \<Rightarrow> nat \<Rightarrow> printed" where
  "dump_item pkt i = (if i mod 8 = 0 \<and> i \<noteq> 0 then [(Stdout, newline)] else []) @
     (if i mod 8 = 0 then [(Stdout, c_str ''0x'')] else []) @ [(Stdout, hex_byte (pkt ! i) @ c_str '' '')]"

lemma unat_widen: "unat (ucast (i :: u32) :: u64) = unat i"
  using unsigned_less [of i, where 'a = nat] by (simp add: unsigned_ucast_eq take_bit_nat_eq_self)

lemma query_print_loop_ok:
  assumes "12 + unat cur \<le> length pkt" and "length pkt < 2 ^ 32"
  shows "unat i \<le> 12 + unat cur \<Longrightarrow>
    query_print_loop pkt cur i out = Some (out @ concat (map (dump_item pkt) [unat i..<12 + unat cur]))"
proof (induction "12 + unat cur - unat i" arbitrary: i out)
  case 0
  have "unat (12 + cur) = 12 + unat cur" using assms by (simp add: unat_word_ariths)
  then have "\<not> ucast i < 12 + cur" using 0 unat_widen [of i] by (simp add: word_less_nat_alt)
  then show ?case using 0 by (subst query_print_loop.simps) simp
next
  case (Suc n)
  have b: "unat (12 + cur) = 12 + unat cur" using assms by (simp add: unat_word_ariths)
  have lt: "unat i < 12 + unat cur" using Suc.hyps(2) by simp
  have i1: "unat (i + 1) = Suc (unat i)" using lt assms by (simp add: unat_word_ariths)
  have z: "i mod 8 = 0 \<longleftrightarrow> unat i mod 8 = 0" "i = 0 \<longleftrightarrow> unat i = 0" by (simp_all add: word_unat_eq_iff unat_mod)
  have "ucast i < 12 + cur" using lt b unat_widen [of i] by (simp add: word_less_nat_alt)
  moreover have "query_print_loop pkt cur (i + 1) out' = Some (out' @ concat (map (dump_item pkt) [Suc (unat i)..<12 + unat cur]))" for out'
    using Suc.hyps(1) [of "i + 1" out'] Suc.hyps(2) lt by (simp add: i1)
  moreover have "[unat i..<12 + unat cur] = unat i # [Suc (unat i)..<12 + unat cur]" using lt by (rule upt_conv_Cons)
  moreover have "rd8 pkt (unat i) = Some (pkt ! unat i)" using lt assms by (simp add: rd8_eq)
  ultimately show ?case by (subst query_print_loop.simps) (simp add: dump_item_def z Let_def)
qed

text \<open>The dump of a query under construction has every byte of it, and ends.\<close>

lemma netbios_query_print_ok:
  assumes "q_packet q = Some pkt" and "12 + unat (q_cursor q) \<le> length pkt" and "length pkt < 2 ^ 32"
  shows "\<exists>header. length header = 4 \<and> netbios_query_print (Some q) =
     Some (header @ concat (map (dump_item pkt) [0..<12 + unat (q_cursor q)]) @ [(Stdout, newline), (Stdout, rule_line)])"
proof -
  have "map_of netbios_query_packet ''trn_id'' = Some 2" "offsetof netbios_query_packet ''trn_id'' = 0"
    by (simp_all add: netbios_query_packet_def)
  then obtain v where "rd_field netbios_query_packet ''trn_id'' pkt 0 = Some v"
    using rd_field_total [of netbios_query_packet "''trn_id''" 2 0 pkt] assms(2) by auto
  then show ?thesis
    using query_print_loop_ok [OF assms(2,3), of 0] by (simp add: netbios_query_print_def assms(1) Let_def)
qed

end
