(* ===== verification/Spec2Isabelle.thy ===== *)
theory Spec2Isabelle
  imports Netbios_Query Stat File_Spec Ntlm Session_Spec Session_Inv Share_Spec Trans2_Spec Netbios_NS_Spec Ns_Cache Examples
    Tailq_Debug Platform
begin

text \<open>
  A verification development of liBDSM, a client library for SMB (CIFS, version 1) and for
  the NetBIOS name and session services.

  \<^bold>\<open>The program.\<close> An application creates a session (\<^verbatim>\<open>src/smb_session.c\<close>), connects it to a
  server, logs in, connects to shares (\<^verbatim>\<open>src/smb_share.c\<close>), and works on files and
  directories (\<^verbatim>\<open>src/smb_file.c\<close>, \<^verbatim>\<open>src/smb_dir.c\<close>, \<^verbatim>\<open>src/smb_trans2.c\<close>). Every such call
  builds a message (\<^verbatim>\<open>src/smb_message.c\<close>) from packed structures (\<^verbatim>\<open>src/smb_packets.h\<close>), hands
  it to the transport (\<^verbatim>\<open>src/smb_session_msg.c\<close>, \<^verbatim>\<open>src/smb_transport.c\<close>), which frames it for a
  NetBIOS session over TCP (\<^verbatim>\<open>src/netbios_session.c\<close>), receives a reply and interprets it. A
  login computes NTLMv2 responses (\<^verbatim>\<open>src/smb_ntlm.c\<close>, \<^verbatim>\<open>src/smb_spnego.c\<close>, \<^verbatim>\<open>src/hmac_md5.c\<close>,
  \<^verbatim>\<open>contrib/mdx\<close>, \<^verbatim>\<open>contrib/rc4\<close>). Independently of sessions, the name service
  (\<^verbatim>\<open>src/netbios_ns.c\<close>, \<^verbatim>\<open>src/netbios_query.c\<close>, \<^verbatim>\<open>src/netbios_utils.c\<close>) resolves NetBIOS names over
  UDP and can watch the network from a thread of its own. Four programs use the library:
  \<^verbatim>\<open>bin/dsm.c\<close>, a client that lists the shares of a host and the files of one of them, and
  \<^verbatim>\<open>bin/lookup.c\<close>, \<^verbatim>\<open>bin/inverse.c\<close> and \<^verbatim>\<open>bin/discover.c\<close>, front ends of the name service.

  \<^bold>\<open>How the code is modelled.\<close> A C function is a HOL function that takes the world it runs in
  and the objects it works on and returns them changed. \<^term>\<open>None\<close> is a fault: a read or write
  outside an object, a null pointer dereferenced, a failed assertion. A null pointer that the
  code may hold is an inner option. Objects of bytes are lists of bytes with their allocated
  length, and every access to them is checked (\<open>buf_read\<close>, \<open>buf_write\<close>, \<open>rd_field\<close>,
  \<open>wr_field\<close>). Integers that can wrap are words. The world (\<open>Prelude.world\<close>) holds scripts of
  what memory, sockets, clock and random generator do at each call, the character converter,
  and the logs of what was sent. The scripts are finite lists: a loop that waits for the
  network is a total function with the length of the script as its measure where each round
  uses some of it up, and a partial function, with a theorem that it returns, where the
  server alone bounds the rounds (\<open>smb_tr2_recv_loop\<close>, \<open>smb_find_loop\<close>). A script that has run
  out means that the peer is gone. \<open>wp c Q\<close> says that \<open>c\<close> returns, without a fault, with a
  result that satisfies \<open>Q\<close>.

  \<^bold>\<open>The theories.\<close>
  \<^item> \<open>Prelude\<close>: machine integers, bounded buffers, the allocator, the world, the \<open>wp\<close>
    calculus, and the interface \<open>byte_sink\<close> of things one appends bytes to.
  \<^item> \<open>Packets\<close>: the structures of \<^verbatim>\<open>smb_packets.h\<close>, \<^verbatim>\<open>netbios_defs.h\<close> and \<^verbatim>\<open>smb_ntlm.h\<close> as
    layouts; encoding a structure and reading a member are inverse.
  \<^item> \<open>Utils\<close>: \<^verbatim>\<open>smb_utils.c\<close>, \<^verbatim>\<open>smb_buffer.c\<close> and the string functions of \<^verbatim>\<open>compat\<close>.
    \<^verbatim>\<open>iconv\<close> is a parameter of the world.
  \<^item> \<open>Message\<close>: \<^verbatim>\<open>smb_message.c\<close>. The invariant \<open>msg_inv\<close>, exact growth of the payload,
    appends and inserts; the rules by which the clients reason about the requests they build.
  \<^item> \<open>Netbios_Utils\<close>, \<open>Netbios_Query\<close>: name encoding and its inverse, the abort pipe, queries.
  \<^item> \<open>Netbios_Session\<close>, \<open>Netbios_Stream\<close>: the session packet and its buffer, connection, send
    and receive; receiving refines cutting the byte stream of the peer into frames. What is sent
    (\<open>nbt_frame\<close>) is such a frame up to 65535 bytes; of a longer message the 16 bits of the
    length hold the rest modulo 65536, and \<open>Session_Msg\<close> says what a receiver makes of it.
  \<^item> \<open>Session_Types\<close>, \<open>Fd\<close>, \<open>Stat\<close>: the records of sessions, shares and files, the descriptor
    tables behind the interfaces \<open>handle_table\<close> and \<open>removable_table\<close>, and lists of files.
  \<^item> \<open>Transport\<close>, \<open>Session_Msg\<close>: the function table that joins the layers, as the interface
    \<open>smb_link\<close> with its interpretation on the NetBIOS session, and sending and receiving of
    messages; the rules for a request and its reply that all operations share.
  \<^item> \<open>File\<close> and \<open>File_Spec\<close>, \<open>Session\<close>, \<open>Spnego\<close> and \<open>Session_Spec\<close>, \<open>Share\<close> and
    \<open>Share_Spec\<close>, \<open>Trans2\<close>, \<open>Trans2_Join\<close> and \<open>Trans2_Spec\<close>: the operations of the library, and
    for each what it sends and what it makes of every kind of reply.
  \<^item> \<open>Rc4\<close>, \<open>Mdx\<close>, \<open>Ntlm\<close>: the stream cipher, MD4 and MD5 as instances of the interface
    \<open>incremental_hash\<close>, HMAC-MD5, the NTLM hashes, responses and tokens.
  \<^item> \<open>Session_Inv\<close>: the step relation of all calls an application can make, and the
    well-formedness of sessions that every call keeps.
  \<^item> \<open>Netbios_NS\<close>, \<open>Netbios_NS_Spec\<close>: the name service, resolution, and the discovery thread as
    a step relation with its invariants. A step is taken in a world, and a step that faults leads
    to a phase of its own, \<open>Faulted\<close>, from which no other is reached. A run (\<open>discovery_run\<close>)
    is made of steps in worlds that an environment admits, each step in any of them; in a
    \<open>fair_env\<close> memory lasts and every interface that broadcasts has an address.
  \<^item> \<open>Tailq\<close>, \<open>Tailq_Debug\<close>, \<open>Ns_Cache\<close>: the tail queues of \<^verbatim>\<open>compat/queue.h\<close> as linked
    structures on a heap, without and with the checks of \<open>QUEUEDEBUG\<close>, both behind the
    interface \<open>queue_macros\<close>; the interface \<open>item_queue\<close> their users rely on, and the proof that
    the entry cache of the name service, as the code links and frees it, refines the list
    \<open>Netbios_NS\<close> works on.
  \<^item> \<open>Ns_Lookup\<close>: looking up a name and an address, both with what is sent, where the result
    comes from, the datagrams that are passed over and the answers that are taken; and the
    callbacks of the discovery on a service that was used for lookups before.
  \<^item> \<open>Programs\<close>: the four programs, from their arguments to their status and what they print,
    composed of the library's operations; the text of addresses and its reading. \<open>dsm_outcome\<close>
    says how a run of the client can end and what it has then printed on both streams, each call
    in the world and on the session that the one before left; \<open>discover_main\<close> relates a start to
    its results, a fault of the thread included.
  \<^item> \<open>Platform\<close>: what replaces other code on some platforms: the broadcasts without a list of
    interfaces and on Windows, behind the interface \<open>broadcaster\<close>, abort contexts without a
    pipe, behind \<open>abort_signal\<close>, the clocks, and the reading of addresses on Windows; and the
    dump of a query.
  \<^item> \<open>Examples\<close>: the examples of the documentation under \<^verbatim>\<open>www/source/c\<close>, with what goes wrong
    in them.

  \<^bold>\<open>What the theorems show.\<close> For the layers below: no append or receive leaves its buffer,
  except where a theorem exhibits the input on which the code does; frames are delivered in
  order whatever TCP does. For the operations: the exact bytes of the request, and result,
  error code and session for every outcome of the exchange. For sessions and discovery:
  invariants over all sequences of steps. For the loops over the network: that they return.
  For the programs: what a run sends and prints and how it ends, from the network's side to the
  terminal. Some theorems state faults of the code; each names the input that leads to it.

  \<^bold>\<open>Hypotheses.\<close> \<open>peer_ok\<close> restricts a theorem to runs in which memory is available and the
  peer sends any bytes, cut in any way, or closes; \<open>session_sendable\<close> excludes the sizes at
  which the buffer of the transport is overrun; \<open>iconv_fits\<close>, \<open>name_fits\<close> and \<open>name_covers\<close>
  state what the converter is documented to do; \<open>asn1_clean\<close> what \<^verbatim>\<open>libtasn1\<close> does. The option
  scanner of \<^verbatim>\<open>dsm\<close> is a parameter; the theorem on its runs is about those without options.

  \<open>ifaddrs_ok\<close> says that every interface that broadcasts has an address, and \<open>mem_ok\<close> that
  allocations succeed.

  \<^bold>\<open>Not modelled.\<close> The macros of \<^verbatim>\<open>bdsm_debug.h\<close>, which print and give no result; the
  generated ASN.1 tables and \<^verbatim>\<open>libtasn1\<close>, a parameter of the login; constants and types of the
  headers that no code uses. Of code behind preprocessor switches the POSIX branch is
  modelled, and the others where \<open>Platform\<close>, \<open>Tailq_Debug\<close> and \<open>Mdx\<close> name them: not the calls
  of Windows for random numbers, sockets and the code page, nor the loops that wait on a
  socket when there is no pipe to wait on beside it.
\<close>

end
